(* ===== verification/Prelude.thy ===== *)
theory Prelude
  imports Main "HOL-Library.Sublist" "HOL-Library.Char_ord" "HOL-Library.List_Lexorder"
    "HOL-Library.Product_Lexorder" "HOL-Library.Code_Target_Nat"
begin

text \<open>
  Shared vocabulary of the development. A Go byte slice or string is a list of characters,
  where a character is one byte; a Go \<open>error\<close> result is a sum with the error on the left.
  The second half models the functions of the Go packages \<open>bytes\<close> and \<open>strings\<close> that the
  sources call, with the lemmas the component theories rest on.
\<close>

section \<open>Names and collections\<close>

type_synonym bytes = string

abbreviation byte_val :: "char \<Rightarrow> nat" where
  "byte_val c \<equiv> of_char c"

named_theorems bytes_simps \<open>unfolding equations of the byte and string functions\<close>
named_theorems len_simps \<open>length bounds used by termination proofs\<close>

text \<open>Results: an error or a value, threaded the way \<open>if err != nil { return err }\<close> does.\<close>

type_synonym ('e, 'a) result = "'e + 'a"

definition ok_or :: "('e, 'a) result \<Rightarrow> ('a \<Rightarrow> ('e, 'b) result) \<Rightarrow> ('e, 'b) result" where
  "ok_or r k = (case r of Inl e \<Rightarrow> Inl e | Inr a \<Rightarrow> k a)"

lemma ok_or_simps [simp]:
  "ok_or (Inl e) k = Inl e"
  "ok_or (Inr a) k = k a"
  by (simp_all add: ok_or_def)

lemma ok_or_Inr_iff: "ok_or r k = Inr b \<longleftrightarrow> (\<exists>a. r = Inr a \<and> k a = Inr b)"
  by (cases r) auto

lemma ok_or_Inl_iff: "ok_or r k = Inl e \<longleftrightarrow> r = Inl e \<or> (\<exists>a. r = Inr a \<and> k a = Inl e)"
  by (cases r) auto

text \<open>\<open>require c e k\<close> is the guard \<open>if !c { return e }\<close> followed by \<open>k\<close>.\<close>

definition require :: "bool \<Rightarrow> 'e \<Rightarrow> ('e, 'a) result \<Rightarrow> ('e, 'a) result" where
  "require c e k = (if c then k else Inl e)"

lemma require_simps [simp]:
  "require True e k = k"
  "require False e k = Inl e"
  by (simp_all add: require_def)

lemma require_Inr_iff [simp]: "require c e k = Inr a \<longleftrightarrow> c \<and> k = Inr a"
  by (simp add: require_def)

section \<open>Searching in byte strings\<close>

text \<open>\<open>bytes.Index(s, sep)\<close>: the first position where \<open>sep\<close> occurs in \<open>s\<close>.\<close>

fun index_of :: "bytes \<Rightarrow> bytes \<Rightarrow> nat option" where
  "index_of sep [] = (if sep = [] then Some 0 else None)"
| "index_of sep (c # cs) =
     (if prefix sep (c # cs) then Some 0 else map_option Suc (index_of sep cs))"

definition contains :: "bytes \<Rightarrow> bytes \<Rightarrow> bool" where
  "contains s sub \<longleftrightarrow> index_of sub s \<noteq> None"

text \<open>\<open>bytes.IndexByte\<close>.\<close>

fun index_byte :: "char \<Rightarrow> bytes \<Rightarrow> nat option" where
  "index_byte b [] = None"
| "index_byte b (c # cs) = (if c = b then Some 0 else map_option Suc (index_byte b cs))"

lemma index_of_SomeD:
  "index_of sep s = Some i \<Longrightarrow>
     prefix sep (drop i s) \<and> i + length sep \<le> length s \<and> (\<forall>j<i. \<not> prefix sep (drop j s))"
proof (induction sep s arbitrary: i rule: index_of.induct)
  case (1 sep)
  then show ?case by (auto split: if_splits)
next
  case (2 sep c cs)
  show ?case
  proof (cases "prefix sep (c # cs)")
    case True
    with 2 show ?thesis by (auto dest: prefix_length_le)
  next
    case False
    with 2 obtain k where k: "index_of sep cs = Some k" "i = Suc k" by auto
    with "2.IH" [OF False k(1)] False show ?thesis
      by (auto simp: less_Suc_eq_0_disj)
  qed
qed

lemma index_of_NoneD: "index_of sep s = None \<Longrightarrow> \<not> prefix sep (drop j s)"
proof (induction sep s arbitrary: j rule: index_of.induct)
  case (2 sep c cs)
  then show ?case by (cases j) (auto split: if_splits)
qed (auto split: if_splits)

lemma index_of_iff_first:
  "index_of sep s = Some i \<longleftrightarrow>
     i \<le> length s \<and> prefix sep (drop i s) \<and> (\<forall>j<i. \<not> prefix sep (drop j s))"
proof
  assume "i \<le> length s \<and> prefix sep (drop i s) \<and> (\<forall>j<i. \<not> prefix sep (drop j s))"
  then show "index_of sep s = Some i"
    by (metis index_of_NoneD index_of_SomeD linorder_neqE_nat not_None_eq)
qed (use index_of_SomeD in fastforce)

lemma contains_sublist: "contains s sub \<longleftrightarrow> sublist sub s"
proof
  assume "contains s sub"
  then obtain i where "index_of sub s = Some i" by (auto simp: contains_def)
  from index_of_SomeD [OF this] obtain ss where "drop i s = sub @ ss" by (auto simp: prefix_def)
  then have "s = take i s @ sub @ ss" by (metis append_take_drop_id)
  then show "sublist sub s" unfolding sublist_def by blast
next
  assume "sublist sub s"
  then obtain ps ss where s: "s = ps @ sub @ ss" by (auto simp: sublist_def)
  show "contains s sub"
  proof (rule ccontr)
    assume "\<not> contains s sub"
    then have "index_of sub s = None" by (simp add: contains_def)
    from index_of_NoneD [OF this, of "length ps"] s show False by simp
  qed
qed

lemma index_of_bound [len_simps]: "index_of sep s = Some i \<Longrightarrow> i + length sep \<le> length s"
  by (simp add: index_of_SomeD)

lemma index_byte_SomeD:
  "index_byte b s = Some i \<Longrightarrow> i < length s \<and> s ! i = b \<and> b \<notin> set (take i s)"
proof (induction b s arbitrary: i rule: index_byte.induct)
  case (2 b c cs)
  then show ?case by (fastforce split: if_splits)
qed simp

lemma index_byte_None_iff: "index_byte b s = None \<longleftrightarrow> b \<notin> set s"
  by (induction b s rule: index_byte.induct) auto

text \<open>The slice expression \<open>s[i:j]\<close>, for \<open>i \<le> j \<le> len(s)\<close>.\<close>

definition slice :: "bytes \<Rightarrow> nat \<Rightarrow> nat \<Rightarrow> bytes" where
  "slice s i j = take (j - i) (drop i s)"

section \<open>Replacing and counting\<close>

text \<open>
  \<open>bytes.ReplaceAll(s, old, new)\<close> for a non-empty \<open>old\<close>: occurrences are taken left to right
  without overlap. Every caller in the sources passes a non-empty \<open>old\<close>; an empty one, which the
  Go function would match between all runes, leaves the string unchanged here.
\<close>

function replace_all :: "bytes \<Rightarrow> bytes \<Rightarrow> bytes \<Rightarrow> bytes" where
  "replace_all old new [] = []"
| "replace_all old new (c # cs) =
     (if old \<noteq> [] \<and> prefix old (c # cs) then new @ replace_all old new (drop (length old) (c # cs))
      else c # replace_all old new cs)"
  by pat_completeness auto
termination
  by (relation "measure (\<lambda>(_, _, s). length s)") auto

text \<open>\<open>bytes.Count(s, sep)\<close> for a non-empty \<open>sep\<close>.\<close>

function count_sub :: "bytes \<Rightarrow> bytes \<Rightarrow> nat" where
  "count_sub sep [] = 0"
| "count_sub sep (c # cs) =
     (if sep \<noteq> [] \<and> prefix sep (c # cs) then Suc (count_sub sep (drop (length sep) (c # cs)))
      else count_sub sep cs)"
  by pat_completeness auto
termination
  by (relation "measure (\<lambda>(_, s). length s)") auto

lemma replace_all_no_occurrence: "\<not> sublist old s \<Longrightarrow> replace_all old new s = s"
proof (induction old new s rule: replace_all.induct)
  case (2 old new c cs)
  then have "\<not> prefix old (c # cs)" "\<not> sublist old cs"
    by (auto simp: sublist_Cons_right)
  with "2.IH"(2) show ?case by auto
qed simp

lemma count_sub_zero: "\<not> sublist sep s \<Longrightarrow> count_sub sep s = 0"
proof (induction sep s rule: count_sub.induct)
  case (2 sep c cs)
  then have "\<not> prefix sep (c # cs)" "\<not> sublist sep cs"
    by (auto simp: sublist_Cons_right)
  with "2.IH"(2) show ?case by auto
qed simp

lemma count_sub_zero_iff: "sep \<noteq> [] \<Longrightarrow> count_sub sep s = 0 \<longleftrightarrow> \<not> sublist sep s"
proof (induction sep s rule: count_sub.induct)
  case (2 sep c cs)
  then show ?case by (auto simp: sublist_Cons_right)
qed simp

section \<open>ASCII classes\<close>

definition in_range :: "char \<Rightarrow> char \<Rightarrow> char \<Rightarrow> bool" where
  "in_range lo hi c \<longleftrightarrow> byte_val lo \<le> byte_val c \<and> byte_val c \<le> byte_val hi"

definition is_ascii_digit :: "char \<Rightarrow> bool" where
  "is_ascii_digit c = in_range CHR ''0'' CHR ''9'' c"

definition is_lower :: "char \<Rightarrow> bool" where
  "is_lower c = in_range CHR ''a'' CHR ''z'' c"

definition is_upper :: "char \<Rightarrow> bool" where
  "is_upper c = in_range CHR ''A'' CHR ''Z'' c"

definition is_ascii_alnum :: "char \<Rightarrow> bool" where
  "is_ascii_alnum c \<longleftrightarrow> is_ascii_digit c \<or> is_lower c \<or> is_upper c"

definition is_json_space :: "char \<Rightarrow> bool" where
  "is_json_space c \<longleftrightarrow> c = CHR '' '' \<or> c = CHR 0x09 \<or> c = CHR 0x0D \<or> c = CHR 0x0A"

lemmas ascii_defs = in_range_def is_ascii_digit_def is_lower_def is_upper_def is_ascii_alnum_def
  is_json_space_def

section \<open>Case, trimming and splitting\<close>

definition lower_char :: "char \<Rightarrow> char" where
  "lower_char c = (if is_upper c then char_of (byte_val c + 32) else c)"

definition upper_char :: "char \<Rightarrow> char" where
  "upper_char c = (if is_lower c then char_of (byte_val c - 32) else c)"

text \<open>
  \<open>strings.ToLower\<close>, exact as far as a comparison with an ASCII string can tell: besides
  \<open>A\<close> to \<open>Z\<close> the only runes whose lower case is ASCII are U+212A (to \<open>k\<close>) and U+0130 (to \<open>i\<close>).
  Other non-ASCII runes have a non-ASCII lower case and keep their bytes here.
\<close>

fun go_lower :: "bytes \<Rightarrow> bytes" where
  "go_lower (a # b # c # cs) =
     (if a = CHR 0xE2 \<and> b = CHR 0x84 \<and> c = CHR 0xAA then CHR ''k'' # go_lower cs
      else if a = CHR 0xC4 \<and> b = CHR 0xB0 then CHR ''i'' # go_lower (c # cs)
      else lower_char a # go_lower (b # c # cs))"
| "go_lower [a, b] =
     (if a = CHR 0xC4 \<and> b = CHR 0xB0 then [CHR ''i''] else [lower_char a, lower_char b])"
| "go_lower [a] = [lower_char a]"
| "go_lower [] = []"

text \<open>
  \<open>strings.EqualFold\<close> against an ASCII string: simple folding adds U+212A (folds with \<open>k\<close>) and
  U+017F (folds with \<open>s\<close>) to the ASCII letters.
\<close>

fun equal_fold :: "bytes \<Rightarrow> bytes \<Rightarrow> bool" where
  "equal_fold [] [] = True"
| "equal_fold [] (t # ts) = False"
| "equal_fold (s # ss) [] = False"
| "equal_fold (s # ss) (t # ts) =
     (if lower_char s = lower_char t then equal_fold ss ts
      else if lower_char t = CHR ''k'' \<and> prefix [CHR 0xE2, CHR 0x84, CHR 0xAA] (s # ss)
        then equal_fold (drop 2 ss) ts
      else if lower_char t = CHR ''s'' \<and> prefix [CHR 0xC5, CHR 0xBF] (s # ss)
        then equal_fold (drop 1 ss) ts
      else False)"

text \<open>
  \<open>strings.TrimSpace\<close>: the UTF-8 encodings of the Unicode white-space runes are removed at both
  ends.
\<close>

definition space_runes :: "bytes list" where
  "space_runes =
     [[CHR 0x09], [CHR 0x0A], [CHR 0x0B], [CHR 0x0C], [CHR 0x0D], [CHR 0x20],
      [CHR 0xC2, CHR 0x85], [CHR 0xC2, CHR 0xA0], [CHR 0xE1, CHR 0x9A, CHR 0x80],
      [CHR 0xE2, CHR 0x80, CHR 0x80], [CHR 0xE2, CHR 0x80, CHR 0x81], [CHR 0xE2, CHR 0x80, CHR 0x82],
      [CHR 0xE2, CHR 0x80, CHR 0x83], [CHR 0xE2, CHR 0x80, CHR 0x84], [CHR 0xE2, CHR 0x80, CHR 0x85],
      [CHR 0xE2, CHR 0x80, CHR 0x86], [CHR 0xE2, CHR 0x80, CHR 0x87], [CHR 0xE2, CHR 0x80, CHR 0x88],
      [CHR 0xE2, CHR 0x80, CHR 0x89], [CHR 0xE2, CHR 0x80, CHR 0x8A], [CHR 0xE2, CHR 0x80, CHR 0xA8],
      [CHR 0xE2, CHR 0x80, CHR 0xA9], [CHR 0xE2, CHR 0x80, CHR 0xAF], [CHR 0xE2, CHR 0x81, CHR 0x9F],
      [CHR 0xE3, CHR 0x80, CHR 0x80]]"

fun trim_fuel :: "nat \<Rightarrow> bytes list \<Rightarrow> bytes \<Rightarrow> bytes" where
  "trim_fuel 0 rs s = s"
| "trim_fuel (Suc n) rs s =
     (case find (\<lambda>r. prefix r s) rs of
        None \<Rightarrow> s
      | Some r \<Rightarrow> trim_fuel n rs (drop (length r) s))"

definition trim_space :: "bytes \<Rightarrow> bytes" where
  "trim_space s =
     (let l = trim_fuel (length s) space_runes s
      in rev (trim_fuel (length l) (map rev space_runes) (rev l)))"

text \<open>\<open>strings.TrimRight(s, cutset)\<close> and \<open>TrimLeft\<close> for a cutset set of ASCII bytes.\<close>

definition trim_right :: "bytes \<Rightarrow> bytes \<Rightarrow> bytes" where
  "trim_right cutset s = rev (dropWhile (\<lambda>c. c \<in> set cutset) (rev s))"

definition trim_left :: "bytes \<Rightarrow> bytes \<Rightarrow> bytes" where
  "trim_left cutset s = dropWhile (\<lambda>c. c \<in> set cutset) s"

text \<open>\<open>strings.TrimPrefix\<close>.\<close>

definition trim_prefix :: "bytes \<Rightarrow> bytes \<Rightarrow> bytes" where
  "trim_prefix p s = (if prefix p s then drop (length p) s else s)"

text \<open>\<open>strings.Split(s, sep)\<close> for a one-byte separator: always at least one part.\<close>

fun split_on :: "char \<Rightarrow> bytes \<Rightarrow> bytes list" where
  "split_on d [] = [[]]"
| "split_on d (c # cs) =
     (if c = d then [] # split_on d cs
      else (case split_on d cs of [] \<Rightarrow> [[c]] | p # ps \<Rightarrow> (c # p) # ps))"

text \<open>\<open>strings.Join\<close>.\<close>

fun join_with :: "bytes \<Rightarrow> bytes list \<Rightarrow> bytes" where
  "join_with sep [] = []"
| "join_with sep [p] = p"
| "join_with sep (p # q # ps) = p @ sep @ join_with sep (q # ps)"

lemma split_on_not_Nil [simp]: "split_on d s \<noteq> []"
  by (induction d s rule: split_on.induct) (auto split: list.splits)

lemma split_on_parts: "p \<in> set (split_on d s) \<Longrightarrow> d \<notin> set p"
proof (induction s arbitrary: p)
  case (Cons c cs)
  then show ?case
    by (cases "split_on d cs") (auto split: if_splits)
qed simp

lemma join_with_Cons: "ps \<noteq> [] \<Longrightarrow> join_with sep (p # ps) = p @ sep @ join_with sep ps"
  by (cases ps) auto

lemma join_with_head: "join_with sep ((c # p) # ps) = c # join_with sep (p # ps)"
  by (cases ps) auto

lemma join_with_append: "ps \<noteq> [] \<Longrightarrow> qs \<noteq> [] \<Longrightarrow> join_with sep (ps @ qs) = join_with sep ps @ sep @ join_with sep qs"
proof (induction ps)
  case (Cons p ps)
  then show ?case by (cases "ps = []") (simp_all add: join_with_Cons)
qed simp

lemma join_split [simp]: "join_with [d] (split_on d s) = s"
proof (induction s)
  case (Cons c cs)
  then show ?case
    by (cases "split_on d cs") (auto simp: join_with_Cons join_with_head)
qed simp

lemma trim_right_append: "\<exists>t. s = trim_right cutset s @ t \<and> set t \<subseteq> set cutset"
proof -
  have "s = rev (dropWhile (\<lambda>c. c \<in> set cutset) (rev s)) @ rev (takeWhile (\<lambda>c. c \<in> set cutset) (rev s))"
    by (metis rev_append rev_rev_ident takeWhile_dropWhile_id)
  moreover have "set (rev (takeWhile (\<lambda>c. c \<in> set cutset) (rev s))) \<subseteq> set cutset"
    by (auto dest: set_takeWhileD)
  ultimately show ?thesis unfolding trim_right_def by blast
qed

lemma trim_right_last: "trim_right cutset s \<noteq> [] \<Longrightarrow> last (trim_right cutset s) \<notin> set cutset"
  unfolding trim_right_def by (metis hd_dropWhile last_rev rev_is_Nil_conv)

section \<open>Decimal and hexadecimal\<close>

text \<open>\<open>strconv.Itoa\<close> on a non-negative number.\<close>

fun itoa :: "nat \<Rightarrow> bytes" where
  "itoa n = (if n < 10 then [char_of (48 + n)] else itoa (n div 10) @ [char_of (48 + n mod 10)])"

declare itoa.simps [simp del]

lemma itoa_digits: "c \<in> set (itoa n) \<Longrightarrow> is_ascii_digit c"
proof (induction n rule: itoa.induct)
  case (1 n)
  have d: "is_ascii_digit (char_of (48 + k :: nat))" if "k < 10" for k
    using that by (simp add: ascii_defs)
  show ?case
  proof (cases "n < 10")
    case True
    with 1 d show ?thesis by (auto simp: itoa.simps [of n])
  next
    case False
    with 1 d [of "n mod 10"] show ?thesis by (auto simp: itoa.simps [of n])
  qed
qed

lemma itoa_inj: "itoa m = itoa n \<Longrightarrow> m = n"
proof (induction m arbitrary: n rule: itoa.induct)
  case (1 m)
  have last: "last (itoa k) = char_of (48 + k mod 10)" for k by (simp add: itoa.simps [of k])
  have but: "butlast (itoa k) = (if k < 10 then [] else itoa (k div 10))" for k
    by (simp add: itoa.simps [of k])
  have ne: "itoa k \<noteq> []" for k by (simp add: itoa.simps [of k])
  have ch: "byte_val (char_of (48 + k mod 10 :: nat)) = 48 + k mod 10" for k :: nat
  proof -
    have "k mod 10 < 10" by simp
    then show ?thesis by (simp del: mod_less_divisor)
  qed
  from 1(2) last have "m mod 10 = n mod 10" by (metis ch add_left_cancel)
  moreover have "m div 10 = n div 10"
    using arg_cong [OF 1(2), of butlast] 1(1) ne unfolding but by (auto split: if_splits) (metis ne)+
  ultimately show ?case by (metis div_mult_mod_eq)
qed

text \<open>The value of a digit string, and that \<open>itoa\<close> spells it.\<close>

definition digits_value :: "bytes \<Rightarrow> nat" where
  "digits_value ds = foldl (\<lambda>n c. n * 10 + (byte_val c - 48)) 0 ds"

lemma digits_value_itoa [simp]: "digits_value (itoa n) = n"
proof (induction n rule: itoa.induct)
  case (1 n)
  have "byte_val (char_of (48 + n mod 10 :: nat)) = 48 + n mod 10"
  proof -
    have "n mod 10 < 10" by simp
    then show ?thesis by (simp del: mod_less_divisor)
  qed
  with 1 show ?case by (subst itoa.simps) (auto simp: digits_value_def)
qed

lemma itoa_not_Nil [simp]: "itoa n \<noteq> []"
  by (simp add: itoa.simps [of n])

definition hex_digit :: "nat \<Rightarrow> char" where
  "hex_digit n = ''0123456789abcdef'' ! n"

text \<open>\<open>hex.EncodeToString\<close>.\<close>

definition hex_encode :: "bytes \<Rightarrow> bytes" where
  "hex_encode s = concat (map (\<lambda>c. [hex_digit (byte_val c div 16), hex_digit (byte_val c mod 16)]) s)"

lemma length_hex_encode [simp]: "length (hex_encode s) = 2 * length s"
  by (induction s) (auto simp: hex_encode_def)

end
