(* ===== verification/Sse.thy ===== *)
theory Sse
  imports Prelude
begin

text \<open>
  \<open>pkg/protocol/sse.go\<close>: the incremental decoder of Server-Sent Events. The state is the Go
  struct; \<open>feed\<close> and \<open>close_decoder\<close> are its two operations. The theorems: a stream may be cut
  into chunks anywhere, every byte fed is in some record's \<open>Raw\<close> or still buffered, and the span
  of a record's single data line is where its value lies in \<open>Raw\<close>.
\<close>

section \<open>State\<close>

record event =
  ev_event :: bytes
  ev_data :: bytes
  ev_id :: bytes
  ev_has_id :: bool
  ev_retry :: bytes
  ev_raw :: bytes
  ev_spans :: "(nat \<times> nat) list"

record sse =
  sse_buf :: bytes
  sse_scan :: nat
  sse_event :: bytes
  sse_data :: bytes
  sse_data_n :: nat
  sse_spans :: "(nat \<times> nat) list"
  sse_id :: bytes
  sse_has_id :: bool
  sse_retry :: bytes
  sse_closed :: bool

definition new_sse :: sse where
  "new_sse = \<lparr>sse_buf = [], sse_scan = 0, sse_event = [], sse_data = [], sse_data_n = 0, sse_spans = [],
     sse_id = [], sse_has_id = False, sse_retry = [], sse_closed = False\<rparr>"

section \<open>Lines\<close>

text \<open>
  \<open>nextLine\<close> on the bytes from the scan offset: the length of the line's content and the length
  of content and terminator.
\<close>

fun line_break :: "bool \<Rightarrow> bytes \<Rightarrow> (nat \<times> nat) option" where
  "line_break final [] = None"
| "line_break final (c # s) =
     (if c = CHR 0x0A then Some (0, 1)
      else if c = CHR 0x0D then
        (if s \<noteq> [] then (if hd s = CHR 0x0A then Some (0, 2) else Some (0, 1))
         else if final then Some (0, 1) else None)
      else case line_break final s of
        Some (k, n) \<Rightarrow> Some (Suc k, Suc n)
      | None \<Rightarrow> if final \<and> s = [] then Some (1, 1) else None)"

definition next_line :: "bool \<Rightarrow> sse \<Rightarrow> (nat \<times> nat \<times> nat) option" where
  "next_line final d =
     (case line_break final (drop (sse_scan d) (sse_buf d)) of
        None \<Rightarrow> None
      | Some (k, n) \<Rightarrow> Some (sse_scan d, sse_scan d + k, sse_scan d + n))"

lemma line_break_bounds: "line_break final s = Some (k, n) \<Longrightarrow> k \<le> n \<and> 0 < n \<and> n \<le> length s"
  by (induction final s arbitrary: k n rule: line_break.induct)
    (fastforce split: if_splits option.splits dest: neq_Nil_conv [THEN iffD1])+

lemma line_break_append: "line_break False s = Some (k, n) \<Longrightarrow> line_break False (s @ t) = Some (k, n)"
proof (induction s arbitrary: k n)
  case (Cons c s)
  then show ?case by (auto split: if_splits option.splits)
qed simp

section \<open>Fields\<close>

definition add_data :: "bytes \<Rightarrow> nat \<Rightarrow> bool \<Rightarrow> sse \<Rightarrow> sse" where
  "add_data v vstart canonical d =
     d\<lparr>sse_data := (if 0 < sse_data_n d then sse_data d @ [CHR 0x0A] else sse_data d) @ v,
       sse_data_n := Suc (sse_data_n d),
       sse_spans := (if Suc (sse_data_n d) = 1 \<and> canonical then [(vstart, vstart + length v)] else [])\<rparr>"

text \<open>The name, the value, where the value starts and whether the line had a colon.\<close>

definition split_field :: "bytes \<Rightarrow> nat \<Rightarrow> nat \<Rightarrow> bytes \<times> bytes \<times> nat \<times> bool" where
  "split_field line start fin =
     (case index_byte CHR '':'' line of
        None \<Rightarrow> (line, [], fin, False)
      | Some colon \<Rightarrow>
          (let v = drop (colon + 1) line; vstart = start + colon + 1
           in if v \<noteq> [] \<and> hd v = CHR '' '' then (take colon line, tl v, vstart + 1, True)
              else (take colon line, v, vstart, True)))"

definition set_field :: "bytes \<Rightarrow> bytes \<Rightarrow> nat \<Rightarrow> bool \<Rightarrow> sse \<Rightarrow> sse" where
  "set_field name v vstart canonical d =
     (if name = ''data'' then add_data v vstart canonical d
      else if name = ''event'' then d\<lparr>sse_event := v\<rparr>
      else if name = ''id'' then d\<lparr>sse_id := v, sse_has_id := True\<rparr>
      else if name = ''retry'' then d\<lparr>sse_retry := v\<rparr>
      else d)"

definition field :: "nat \<Rightarrow> nat \<Rightarrow> sse \<Rightarrow> sse" where
  "field start fin d =
     (let line = slice (sse_buf d) start fin
      in if hd line = CHR '':'' then d
         else let (name, v, vstart, canonical) = split_field line start fin
              in set_field name v vstart canonical d)"

section \<open>Records\<close>

definition dispatch :: "sse \<Rightarrow> event \<times> sse" where
  "dispatch d =
     (\<lparr>ev_event = (if sse_event d \<noteq> [] then sse_event d else ''message''), ev_data = sse_data d,
       ev_id = sse_id d, ev_has_id = sse_has_id d, ev_retry = sse_retry d,
       ev_raw = take (sse_scan d) (sse_buf d),
       ev_spans = (if sse_data_n d = 1 then sse_spans d else [])\<rparr>,
      d\<lparr>sse_buf := drop (sse_scan d) (sse_buf d), sse_scan := 0, sse_event := [], sse_data := [],
        sse_data_n := 0, sse_spans := [], sse_has_id := False, sse_retry := []\<rparr>)"

text \<open>What one line does, once the scan offset has moved past it.\<close>

definition line_step :: "nat \<Rightarrow> nat \<Rightarrow> sse \<Rightarrow> event list \<times> sse" where
  "line_step start fin d =
     (if start = fin then
        (if 0 < sse_data_n d then (let (e, d') = dispatch d in ([e], d'))
         else ([], d\<lparr>sse_event := [], sse_retry := []\<rparr>))
      else ([], field start fin d))"

definition unscanned :: "sse \<Rightarrow> nat" where
  "unscanned d = length (sse_buf d) - sse_scan d"

lemma set_field_frame [simp]:
  "sse_buf (set_field name v vs c d) = sse_buf d" "sse_scan (set_field name v vs c d) = sse_scan d"
  "sse_closed (set_field name v vs c d) = sse_closed d"
  by (simp_all add: set_field_def add_data_def)

lemma field_frame [simp]:
  "sse_buf (field start fin d) = sse_buf d" "sse_scan (field start fin d) = sse_scan d"
  "sse_closed (field start fin d) = sse_closed d"
  by (auto simp: field_def Let_def split: prod.splits)

lemma line_step_unscanned: "line_step s e d = (es, d') \<Longrightarrow> unscanned d' = unscanned d"
  by (auto simp: line_step_def dispatch_def unscanned_def Let_def split: if_splits)

function scan_lines :: "bool \<Rightarrow> sse \<Rightarrow> event list \<times> sse" where
  "scan_lines final d =
     (case next_line final d of
        None \<Rightarrow> ([], d)
      | Some (start, fin, nxt) \<Rightarrow>
          (let (es, d') = line_step start fin (d\<lparr>sse_scan := nxt\<rparr>);
               (es', d'') = scan_lines final d'
           in (es @ es', d'')))"
  by pat_completeness auto
termination
proof (relation "measure (\<lambda>(_, d). unscanned d)", goal_cases)
  case (2 final d p start q fin nxt r es d')
  then have "unscanned d' = unscanned (d\<lparr>sse_scan := nxt\<rparr>)" using line_step_unscanned by metis
  moreover obtain k n where "line_break final (drop (sse_scan d) (sse_buf d)) = Some (k, n)"
      "nxt = sse_scan d + n"
    using 2 by (auto simp: next_line_def split: option.splits)
  ultimately show ?case
    using line_break_bounds by (fastforce simp: unscanned_def)
qed auto

declare scan_lines.simps [simp del]

datatype sse_error = ErrClosed

definition feed :: "bytes \<Rightarrow> sse \<Rightarrow> (sse_error, event list) result \<times> sse" where
  "feed chunk d =
     (if sse_closed d then (Inl ErrClosed, d)
      else let (es, d') = scan_lines False (d\<lparr>sse_buf := sse_buf d @ chunk\<rparr>) in (Inr es, d'))"

definition close_decoder :: "sse \<Rightarrow> event list \<times> sse" where
  "close_decoder d =
     (if sse_closed d then ([], d)
      else
        let (es, d') = scan_lines True (d\<lparr>sse_closed := True\<rparr>)
        in if 0 < sse_data_n d' then (let (e, d'') = dispatch d' in (es @ [e], d'')) else (es, d'))"

text \<open>A stream fed in chunks.\<close>

fun feed_all :: "bytes list \<Rightarrow> sse \<Rightarrow> event list \<times> sse" where
  "feed_all [] d = ([], d)"
| "feed_all (c # cs) d =
     (case feed c d of
        (Inl _, d') \<Rightarrow> feed_all cs d'
      | (Inr es, d') \<Rightarrow> (let (es', d'') = feed_all cs d' in (es @ es', d'')))"

section \<open>The buffer\<close>

definition sse_ok :: "sse \<Rightarrow> bool" where
  "sse_ok d \<longleftrightarrow> sse_scan d \<le> length (sse_buf d) \<and> (sse_data_n d = 0 \<longrightarrow> sse_data d = []) \<and>
     (\<forall>(s, t) \<in> set (sse_spans d). sse_data_n d = 1 \<longrightarrow>
        slice (sse_buf d) s t = sse_data d \<and> s \<le> t \<and> t \<le> sse_scan d)"

abbreviation more :: "bytes \<Rightarrow> sse \<Rightarrow> sse" where
  "more b d \<equiv> d\<lparr>sse_buf := sse_buf d @ b\<rparr>"

lemma next_line_bounds:
  "next_line final d = Some (s, e, n) \<Longrightarrow> sse_scan d \<le> length (sse_buf d) \<Longrightarrow>
     s = sse_scan d \<and> s \<le> e \<and> e \<le> n \<and> s < n \<and> n \<le> length (sse_buf d)"
  by (auto simp: next_line_def split: option.splits dest!: line_break_bounds)

lemma next_line_more:
  "next_line False d = Some p \<Longrightarrow> sse_scan d \<le> length (sse_buf d) \<Longrightarrow> next_line False (more b d) = Some p"
  by (auto simp: next_line_def line_break_append split: option.splits)

lemma slice_append: "j \<le> length s \<Longrightarrow> slice (s @ b) i j = slice s i j"
  by (cases "i \<le> j") (simp_all add: slice_def)

lemma slice_drop: "slice (drop k s) i j = slice s (k + i) (k + j)"
  by (simp add: slice_def add.commute)

lemma slice_take: "j \<le> k \<Longrightarrow> slice (take k s) i j = slice s i j"
  by (cases "i \<le> j") (simp_all add: slice_def drop_take min_def)

lemma slice_all: "slice s 0 (length s) = s"
  by (simp add: slice_def)

lemma set_field_more: "set_field name v vs c (more b d) = more b (set_field name v vs c d)"
  by (simp add: set_field_def add_data_def)

lemma field_more: "e \<le> length (sse_buf d) \<Longrightarrow> field s e (more b d) = more b (field s e d)"
  by (simp add: field_def slice_append set_field_more Let_def split: prod.split)

lemma line_step_more:
  assumes "line_step s e d = (es, d')" "e \<le> length (sse_buf d)" "sse_scan d \<le> length (sse_buf d)"
  shows "line_step s e (more b d) = (es, more b d')"
  using assms by (auto simp: line_step_def dispatch_def field_more Let_def split: if_splits)

lemma split_field_value:
  assumes "split_field (slice buf s e) s e = (name, v, vs, canonical)" "s \<le> e" "e \<le> length buf"
  shows "vs + length v \<le> e \<and> (canonical \<longrightarrow> slice buf vs (vs + length v) = v)"
proof (cases "index_byte CHR '':'' (slice buf s e)")
  case None
  with assms show ?thesis by (simp add: split_field_def)
next
  case (Some colon)
  have len: "length (slice buf s e) = e - s" using assms(3) by (simp add: slice_def)
  from index_byte_SomeD [OF Some] len have c: "colon < e - s" by simp
  have tail: "slice buf (s + k) (s + k + length w) = w" if "w = drop k (slice buf s e)" "k \<le> e - s" for k w
    using that assms(3) by (simp add: slice_def drop_take ac_simps)
  define w where "w = drop (colon + 1) (slice buf s e)"
  have w: "length w = e - s - (colon + 1)" by (simp add: w_def len)
  show ?thesis
  proof (cases "w \<noteq> [] \<and> hd w = CHR '' ''")
    case True
    with assms(1) Some have v: "v = tl w" "vs = s + (colon + 2)" by (auto simp: split_field_def w_def Let_def)
    have "v = drop (colon + 2) (slice buf s e)" by (simp add: v w_def tl_drop drop_Suc)
    with tail [OF this] v True w c show ?thesis by (auto simp: neq_Nil_conv)
  next
    case False
    with assms(1) Some have v: "v = w" "vs = s + (colon + 1)" by (auto simp: split_field_def w_def Let_def)
    with tail [of w "colon + 1"] w c show ?thesis by (auto simp: w_def)
  qed
qed

lemma set_field_ok:
  assumes "sse_ok d" "vs + length v \<le> sse_scan d" "canonical \<longrightarrow> slice (sse_buf d) vs (vs + length v) = v"
  shows "sse_ok (set_field name v vs canonical d)"
proof (cases "name = ''data''")
  case True
  with assms show ?thesis by (auto simp: set_field_def add_data_def sse_ok_def)
next
  case False
  then have "sse_spans (set_field name v vs canonical d) = sse_spans d"
    "sse_data_n (set_field name v vs canonical d) = sse_data_n d"
    "sse_data (set_field name v vs canonical d) = sse_data d" by (simp_all add: set_field_def)
  with assms(1) show ?thesis by (simp add: sse_ok_def)
qed

lemma field_ok:
  assumes "sse_ok d" "s \<le> e" "e \<le> sse_scan d"
  shows "sse_ok (field s e d)"
proof -
  obtain name v vs canonical where f: "split_field (slice (sse_buf d) s e) s e = (name, v, vs, canonical)"
    by (metis prod.exhaust)
  have "e \<le> length (sse_buf d)" using assms by (simp add: sse_ok_def)
  with split_field_value [OF f assms(2)] assms(1,3) f set_field_ok [of d vs v canonical name] show ?thesis
    by (simp add: field_def Let_def)
qed

definition spans_true :: "event \<Rightarrow> bool" where
  "spans_true ev \<longleftrightarrow> (\<forall>(i, j) \<in> set (ev_spans ev).
     slice (ev_raw ev) i j = ev_data ev \<and> i \<le> j \<and> j \<le> length (ev_raw ev))"

lemma dispatch_ok:
  assumes "sse_ok d" "dispatch d = (e, d')"
  shows "sse_ok d' \<and> ev_raw e @ sse_buf d' = sse_buf d \<and> spans_true e"
proof -
  have "slice (take (sse_scan d) (sse_buf d)) i j = sse_data d \<and> i \<le> j \<and> j \<le> sse_scan d"
    if "(i, j) \<in> set (sse_spans d)" "sse_data_n d = 1" for i j
  proof -
    have "slice (sse_buf d) i j = sse_data d \<and> i \<le> j \<and> j \<le> sse_scan d"
      using assms(1) that by (auto simp: sse_ok_def)
    then show ?thesis by (simp add: slice_take)
  qed
  with assms show ?thesis
    by (auto simp: dispatch_def sse_ok_def spans_true_def)
qed

lemma line_step_ok:
  assumes "sse_ok d" "s \<le> e" "e \<le> sse_scan d" "line_step s e d = (es, d')"
  shows "sse_ok d' \<and> concat (map ev_raw es) @ sse_buf d' = sse_buf d \<and> (\<forall>ev \<in> set es. spans_true ev)"
proof (cases "s = e")
  case False
  with assms field_ok [OF assms(1-3)] show ?thesis by (auto simp: line_step_def)
next
  case True
  show ?thesis
  proof (cases "0 < sse_data_n d")
    case False
    with True assms show ?thesis by (auto simp: line_step_def sse_ok_def)
  next
    case pos: True
    obtain ev d1 where e: "dispatch d = (ev, d1)" by fastforce
    with True assms pos dispatch_ok [OF assms(1) e] show ?thesis
      by (auto simp: line_step_def)
  qed
qed

lemma sse_ok_advance: "sse_ok d \<Longrightarrow> sse_scan d \<le> n \<Longrightarrow> n \<le> length (sse_buf d) \<Longrightarrow> sse_ok (d\<lparr>sse_scan := n\<rparr>)"
  by (fastforce simp: sse_ok_def)

lemma scan_lines_None: "next_line final d = None \<Longrightarrow> scan_lines final d = ([], d)"
  by (simp add: scan_lines.simps [of final d])

lemma scan_lines_Some:
  "next_line final d = Some (s, e, n) \<Longrightarrow> line_step s e (d\<lparr>sse_scan := n\<rparr>) = (es1, d1) \<Longrightarrow>
     scan_lines final d1 = (es2, d2) \<Longrightarrow> scan_lines final d = (es1 @ es2, d2)"
  by (simp add: scan_lines.simps [of final d])

text \<open>Induction over the lines of a decoder in a good state.\<close>

lemma scan_induct [consumes 2, case_names finished line]:
  assumes run: "scan_lines final d = (es, d')" and ok: "sse_ok d"
    and none: "\<And>d. sse_ok d \<Longrightarrow> next_line final d = None \<Longrightarrow> P d [] d"
    and line: "\<And>d s e n es1 d1 es2 d2. sse_ok d \<Longrightarrow> next_line final d = Some (s, e, n) \<Longrightarrow>
      s = sse_scan d \<Longrightarrow> s \<le> e \<Longrightarrow> e \<le> n \<Longrightarrow> n \<le> length (sse_buf d) \<Longrightarrow> sse_ok (d\<lparr>sse_scan := n\<rparr>) \<Longrightarrow>
      line_step s e (d\<lparr>sse_scan := n\<rparr>) = (es1, d1) \<Longrightarrow> sse_ok d1 \<Longrightarrow>
      scan_lines final d1 = (es2, d2) \<Longrightarrow> P d1 es2 d2 \<Longrightarrow> P d (es1 @ es2) d2"
  shows "P d es d'"
  using run ok
proof (induction "unscanned d" arbitrary: d es d' rule: less_induct)
  case less
  show ?case
  proof (cases "next_line final d")
    case None
    with less.prems none show ?thesis by (simp add: scan_lines_None)
  next
    case (Some p)
    obtain s e n where p: "next_line final d = Some (s, e, n)" using Some by (cases p) auto
    obtain es1 d1 where l: "line_step s e (d\<lparr>sse_scan := n\<rparr>) = (es1, d1)" by fastforce
    obtain es2 d2 where r: "scan_lines final d1 = (es2, d2)" by fastforce
    have b: "s = sse_scan d" "s \<le> e" "e \<le> n" "s < n" "n \<le> length (sse_buf d)"
      using next_line_bounds [OF p] less.prems(2) by (auto simp: sse_ok_def)
    have ok: "sse_ok (d\<lparr>sse_scan := n\<rparr>)" using less.prems(2) b by (intro sse_ok_advance) auto
    with line_step_ok [OF ok b(2) _ l] b have ok1: "sse_ok d1" by auto
    have "unscanned d1 < unscanned d"
      using line_step_unscanned [OF l] b by (simp add: unscanned_def)
    from less.hyps [OF this r ok1] line [OF less.prems(2) p b(1-3,5) ok l ok1 r]
    show ?thesis using scan_lines_Some [OF p l r] less.prems(1) by simp
  qed
qed

lemma line_step_closed: "line_step s e d = (es, d') \<Longrightarrow> sse_closed d' = sse_closed d"
  by (auto simp: line_step_def dispatch_def Let_def split: if_splits)

lemma scan_lines_ok:
  assumes "scan_lines final d = (es, d')" "sse_ok d"
  shows "sse_ok d' \<and> concat (map ev_raw es) @ sse_buf d' = sse_buf d \<and> (\<forall>ev \<in> set es. spans_true ev) \<and>
     next_line final d' = None \<and> sse_closed d' = sse_closed d"
  using assms
proof (induction rule: scan_induct)
  case (line d s e n es1 d1 es2 d2)
  with line_step_ok [OF line(7,4) _ line(8)] line_step_closed [OF line(8)] show ?case by auto
qed simp

lemma scan_lines_more:
  assumes "scan_lines False d = (es, d')" "sse_ok d" "scan_lines False (more b d') = (es', d'')"
  shows "scan_lines False (more b d) = (es @ es', d'')"
  using assms
proof (induction rule: scan_induct)
  case (line d s e n es1 d1 es2 d2)
  have "next_line False (more b d) = Some (s, e, n)"
    using line(1,2) by (intro next_line_more) (auto simp: sse_ok_def)
  moreover have "line_step s e (more b (d\<lparr>sse_scan := n\<rparr>)) = (es1, more b d1)"
    using line(5,6) by (intro line_step_more [OF line(8)]) auto
  then have "line_step s e ((more b d)\<lparr>sse_scan := n\<rparr>) = (es1, more b d1)"
    by (cases d) simp
  moreover have "scan_lines False (more b d1) = (es2 @ es', d'')" by (rule line(11) [OF line(12)])
  ultimately have "scan_lines False (more b d) = (es1 @ (es2 @ es'), d'')" by (rule scan_lines_Some)
  then show ?case by simp
qed simp

section \<open>Streams\<close>

lemma new_sse_ok [simp]: "sse_ok new_sse"
  by (simp add: sse_ok_def new_sse_def)

lemma sse_ok_more: "sse_ok d \<Longrightarrow> sse_ok (more b d)"
  by (fastforce simp: sse_ok_def slice_append)

lemma feed_open:
  assumes "\<not> sse_closed d" "scan_lines False (more c d) = (es, d')"
  shows "feed c d = (Inr es, d')"
  using assms by (simp add: feed_def)

lemma feed_all_open:
  assumes "sse_ok d" "\<not> sse_closed d" "next_line False d = None"
  shows "feed_all cs d = scan_lines False (more (concat cs) d)"
  using assms
proof (induction cs arbitrary: d)
  case Nil
  then show ?case by (simp add: scan_lines_None)
next
  case (Cons c cs)
  obtain es d1 where r: "scan_lines False (more c d) = (es, d1)" by fastforce
  from scan_lines_ok [OF r sse_ok_more [OF Cons.prems(1)]] Cons.prems(2) have
    d1: "sse_ok d1" "next_line False d1 = None" "\<not> sse_closed d1" by auto
  obtain es' d2 where r': "scan_lines False (more (concat cs) d1) = (es', d2)" by fastforce
  from scan_lines_more [OF r sse_ok_more [OF Cons.prems(1)] r']
  have "scan_lines False (more (concat (c # cs)) d) = (es @ es', d2)" by simp
  with feed_open [OF Cons.prems(2) r] Cons.IH [OF d1(1,3,2)] r' show ?case by simp
qed

lemma new_sse_scanned: "next_line False new_sse = None" "\<not> sse_closed new_sse"
  by (simp_all add: next_line_def new_sse_def)

text \<open>
  C15: The decoder does not depend on how the stream is cut: feeding the chunks one by one gives
  the same events and the same final state (so also the same result of \<open>Close\<close>) as feeding
  their concatenation at once, also when a cut falls inside a line or between a CR and its LF.
\<close>

theorem sse_chunk_independent: "feed_all cs new_sse = feed_all [concat cs] new_sse"
  by (simp add: feed_all_open [OF new_sse_ok new_sse_scanned(2,1)] del: feed_all.simps)

lemma close_ok:
  assumes "sse_ok d" "\<not> sse_closed d" "close_decoder d = (es, d')"
  shows "concat (map ev_raw es) @ sse_buf d' = sse_buf d \<and> (\<forall>ev \<in> set es. spans_true ev) \<and>
    sse_data_n d' = 0 \<and> sse_closed d'"
proof -
  obtain es1 d1 where r: "scan_lines True (d\<lparr>sse_closed := True\<rparr>) = (es1, d1)" by fastforce
  have "sse_ok (d\<lparr>sse_closed := True\<rparr>)" using assms(1) by (simp add: sse_ok_def)
  note s = scan_lines_ok [OF r this]
  obtain e d2 where e: "dispatch d1 = (e, d2)" by fastforce
  with s dispatch_ok [OF _ e] assms(2,3) r show ?thesis
    by (auto simp: close_decoder_def dispatch_def split: if_splits)
qed

text \<open>
  Every byte fed is kept: the \<open>Raw\<close> fields of all records, the ones \<open>Close\<close> flushes
  included, concatenate to the input up to a last part left in the buffer; that part belongs to
  no record with data, because none is pending after \<open>Close\<close>. And whenever a record has a data
  span, the span is inside its \<open>Raw\<close> and reads exactly its \<open>Data\<close>.
\<close>

theorem sse_bytes_kept:
  assumes "feed_all cs new_sse = (es, d)" "close_decoder d = (es', d')"
  shows "concat (map ev_raw (es @ es')) @ sse_buf d' = concat cs \<and> sse_data_n d' = 0 \<and>
    (\<forall>ev \<in> set (es @ es'). \<forall>(i, j) \<in> set (ev_spans ev).
       slice (ev_raw ev) i j = ev_data ev \<and> i \<le> j \<and> j \<le> length (ev_raw ev))"
proof -
  from assms(1) have r: "scan_lines False (more (concat cs) new_sse) = (es, d)"
    by (simp add: feed_all_open [OF new_sse_ok new_sse_scanned(2,1)] del: feed_all.simps)
  from scan_lines_ok [OF r sse_ok_more [OF new_sse_ok]] have
    s: "sse_ok d" "concat (map ev_raw es) @ sse_buf d = concat cs" "\<forall>ev \<in> set es. spans_true ev" "\<not> sse_closed d"
    by (auto simp: new_sse_def)
  from close_ok [OF s(1,4) assms(2)] s show ?thesis
    by (auto simp: spans_true_def)
qed

definition sample_stream :: "bytes list" where
  "sample_stream = [''data: a'', [CHR 0x0D], [CHR 0x0A, CHR 0x0D, CHR 0x0A] @ '': tail'']"

lemma sse_bytes_kept_witness:
  "\<exists>es d es' d'. feed_all sample_stream new_sse = (es, d) \<and> close_decoder d = (es', d') \<and>
    map ev_data es = [''a''] \<and> map ev_spans es = [[(6, 7)]] \<and> sse_buf d' = '': tail'' \<and>
    concat (map ev_raw (es @ es')) @ sse_buf d' = concat sample_stream"
proof -
  obtain es d where f: "feed_all sample_stream new_sse = (es, d)" by fastforce
  obtain es' d' where c: "close_decoder d = (es', d')" by fastforce
  have "map (\<lambda>e. (ev_data e, ev_spans e)) (fst (feed_all sample_stream new_sse)) = [(''a'', [(6, 7)])]"
    by code_simp
  then have e: "map ev_data es = [''a'']" "map ev_spans es = [[(6, 7)]]" using f by auto
  have "sse_buf (snd (close_decoder (snd (feed_all sample_stream new_sse)))) = '': tail''" by code_simp
  then have b: "sse_buf d' = '': tail''" using f c by simp
  from sse_bytes_kept [OF f c] have k: "concat (map ev_raw (es @ es')) @ sse_buf d' = concat sample_stream"
    by blast
  show ?thesis by (intro exI conjI) (rule f c e b k)+
qed

end
