(* ===== verification/Hold.thy ===== *)
theory Hold
  imports Prelude
begin

text \<open>
  \<open>pkg/protocol/backfill.go\<close>: the writer that restores tokens split across stream deltas. The
  \<open>TokenMatcher\<close> interface is a record of functions; what the writer relies on is the locale
  \<open>token_matcher\<close>, whose lemmas hold for every matcher that keeps the contract. The placeholder
  grammar of \<open>pkg/redact\<close> interprets it.
\<close>

section \<open>The writer\<close>

record matcher =
  prefix_len :: "bytes \<Rightarrow> nat"
  token_len :: "bytes \<Rightarrow> nat"
  max_token_len :: nat

definition sse_backfill_holdback_bytes :: nat where
  "sse_backfill_holdback_bytes = 256 * 1024"

text \<open>A nil \<open>ReplaceFunc\<close> is \<open>None\<close>; a replacement that is nil is \<open>None\<close> as well.\<close>

type_synonym replace_func = "(bytes \<Rightarrow> bytes option) option"

definition replacement :: "replace_func \<Rightarrow> bytes \<Rightarrow> bytes" where
  "replacement rep token =
     (case rep of
        None \<Rightarrow> token
      | Some f \<Rightarrow> (case f token of Some r \<Rightarrow> r | None \<Rightarrow> token))"

definition holdback_limit :: "matcher \<Rightarrow> nat" where
  "holdback_limit m =
     (if 0 < max_token_len m \<and> max_token_len m < sse_backfill_holdback_bytes
      then max_token_len m else sse_backfill_holdback_bytes)"

text \<open>The loop of \<open>release\<close>: what it emits and the tail it stops at.\<close>

function release_loop :: "matcher \<Rightarrow> replace_func \<Rightarrow> bytes \<Rightarrow> bytes \<times> bytes" where
  "release_loop m rep s =
     (if s = [] then ([], [])
      else if 0 < token_len m s \<and> token_len m s \<le> length s then
        (let (out, rest) = release_loop m rep (drop (token_len m s) s)
         in (replacement rep (take (token_len m s) s) @ out, rest))
      else if length s \<le> prefix_len m s then ([], s)
      else (let (out, rest) = release_loop m rep (drop 1 s) in (hd s # out, rest)))"
  by pat_completeness auto
termination
  by (relation "measure (\<lambda>(_, _, s). length s)") auto

declare release_loop.simps [simp del]

definition release :: "matcher \<Rightarrow> replace_func \<Rightarrow> bytes \<Rightarrow> bytes \<times> bytes" where
  "release m rep held =
     (let (out, tail) = release_loop m rep held; limit = holdback_limit m
      in if limit < length tail
         then (out @ take (length tail - limit) tail, drop (length tail - limit) tail)
         else (out, tail))"

text \<open>\<open>Feed\<close> and \<open>Flush\<close>: the emitted bytes and the new held bytes.\<close>

definition feed_hold :: "matcher \<Rightarrow> replace_func \<Rightarrow> bytes \<Rightarrow> bytes \<Rightarrow> bytes \<times> bytes" where
  "feed_hold m rep p held = release m rep (held @ p)"

definition flush_hold :: "bytes \<Rightarrow> bytes \<times> bytes" where
  "flush_hold held = (held, [])"

fun feed_chunks :: "matcher \<Rightarrow> replace_func \<Rightarrow> bytes list \<Rightarrow> bytes \<Rightarrow> bytes \<times> bytes" where
  "feed_chunks m rep [] held = ([], held)"
| "feed_chunks m rep (p # ps) held =
     (let (out, held') = feed_hold m rep p held; (out', held'') = feed_chunks m rep ps held'
      in (out @ out', held''))"

section \<open>Bounds and order, for any matcher\<close>

lemma release_loop_Nil [simp]: "release_loop m rep [] = ([], [])"
  by (simp add: release_loop.simps)

lemma release_loop_token:
  "0 < token_len m s \<Longrightarrow> token_len m s \<le> length s \<Longrightarrow>
     release_loop m rep (drop (token_len m s) s) = (out, rest) \<Longrightarrow>
     release_loop m rep s = (replacement rep (take (token_len m s) s) @ out, rest)"
  by (subst release_loop.simps) auto

lemma release_loop_stop:
  "\<not> (0 < token_len m s \<and> token_len m s \<le> length s) \<Longrightarrow> length s \<le> prefix_len m s \<Longrightarrow>
     release_loop m rep s = ([], s)"
  by (subst release_loop.simps) auto

lemma release_loop_byte:
  "s \<noteq> [] \<Longrightarrow> \<not> (0 < token_len m s \<and> token_len m s \<le> length s) \<Longrightarrow> prefix_len m s < length s \<Longrightarrow>
     release_loop m rep (drop 1 s) = (out, rest) \<Longrightarrow> release_loop m rep s = (hd s # out, rest)"
  by (subst release_loop.simps) auto

lemma release_loop_induct [case_names Nil token stop byte]:
  assumes "P []"
    and "\<And>s. s \<noteq> [] \<Longrightarrow> 0 < token_len m s \<Longrightarrow> token_len m s \<le> length s \<Longrightarrow> P (drop (token_len m s) s) \<Longrightarrow> P s"
    and "\<And>s. s \<noteq> [] \<Longrightarrow> \<not> (0 < token_len m s \<and> token_len m s \<le> length s) \<Longrightarrow> length s \<le> prefix_len m s \<Longrightarrow> P s"
    and "\<And>s. s \<noteq> [] \<Longrightarrow> \<not> (0 < token_len m s \<and> token_len m s \<le> length s) \<Longrightarrow> prefix_len m s < length s \<Longrightarrow>
      P (drop 1 s) \<Longrightarrow> P s"
  shows "P s"
proof (induction s rule: length_induct)
  case IH: (1 s)
  let ?tok = "0 < token_len m s \<and> token_len m s \<le> length s"
  show ?case
  proof (cases "s = []")
    case True
    with assms(1) show ?thesis by simp
  next
    case ne: False
    consider "?tok" | "\<not> ?tok" "length s \<le> prefix_len m s" | "\<not> ?tok" "prefix_len m s < length s"
      by linarith
    then show ?thesis
    proof cases
      case 1
      with ne have "length (drop (token_len m s) s) < length s" by simp
      with IH have "P (drop (token_len m s) s)" by blast
      with ne 1 show ?thesis using assms(2) by blast
    next
      case 2
      with ne show ?thesis using assms(3) by blast
    next
      case 3
      from ne have "length (drop 1 s) < length s" by simp
      with IH have "P (drop 1 s)" by blast
      with ne 3 show ?thesis using assms(4) by blast
    qed
  qed
qed

lemma release_held_bound: "release m rep held = (out, held') \<Longrightarrow> length held' \<le> holdback_limit m"
  by (auto simp: release_def Let_def split: prod.splits if_splits)

lemma holdback_limit_bound: "holdback_limit m \<le> sse_backfill_holdback_bytes"
  by (simp add: holdback_limit_def)

definition keeps_tokens :: "replace_func \<Rightarrow> bool" where
  "keeps_tokens rep \<longleftrightarrow> (\<forall>t. replacement rep t = t)"

lemma keeps_tokens_nil [simp]: "keeps_tokens None"
  by (simp add: keeps_tokens_def replacement_def)

lemma release_loop_identity: "keeps_tokens rep \<Longrightarrow> release_loop m rep s = (out, rest) \<Longrightarrow> out @ rest = s"
proof (induction s arbitrary: out rest rule: release_loop_induct [of _ m])
  case (token s)
  obtain o1 t1 where r: "release_loop m rep (drop (token_len m s) s) = (o1, t1)" by fastforce
  have "o1 @ t1 = drop (token_len m s) s" by (rule token.IH [OF token.prems(1) r])
  with release_loop_token [OF token.hyps(2,3) r] token.prems show ?case
    by (auto simp: keeps_tokens_def)
next
  case (stop s)
  then show ?case by (simp add: release_loop_stop)
next
  case (byte s)
  obtain o1 t1 where r: "release_loop m rep (drop 1 s) = (o1, t1)" by fastforce
  have "o1 @ t1 = drop 1 s" by (rule byte.IH [OF byte.prems(1) r])
  with release_loop_byte [OF byte.hyps r] byte.prems byte.hyps(1) show ?case
    by (cases s) auto
qed simp

lemma release_identity: "keeps_tokens rep \<Longrightarrow> release m rep s = (out, held') \<Longrightarrow> out @ held' = s"
  using release_loop_identity [of rep m s]
  by (auto simp: release_def Let_def split: prod.splits if_splits)

lemma feed_chunks_identity:
  "keeps_tokens rep \<Longrightarrow> feed_chunks m rep ps held = (out, held') \<Longrightarrow> out @ held' = held @ concat ps"
proof (induction ps arbitrary: held out held')
  case (Cons p ps)
  obtain o1 h1 where f: "feed_hold m rep p held = (o1, h1)" by fastforce
  obtain o2 h2 where r: "feed_chunks m rep ps h1 = (o2, h2)" by fastforce
  from f have "o1 @ h1 = held @ p" using release_identity [OF Cons.prems(1)] by (simp add: feed_hold_def)
  moreover from Cons.IH [OF Cons.prems(1) r] have "o2 @ h2 = h1 @ concat ps" .
  moreover have "out = o1 @ o2" "held' = h2" using Cons.prems(2) f r by auto
  ultimately show ?case by (metis append.assoc concat.simps(2))
qed simp

lemma feed_chunks_bound:
  "ps \<noteq> [] \<Longrightarrow> feed_chunks m rep ps held = (out, held') \<Longrightarrow> length held' \<le> holdback_limit m"
proof (induction ps arbitrary: held out held')
  case (Cons p ps)
  obtain o1 h1 where f: "feed_hold m rep p held = (o1, h1)" by fastforce
  obtain o2 h2 where r: "feed_chunks m rep ps h1 = (o2, h2)" by fastforce
  show ?case
  proof (cases "ps = []")
    case True
    with f Cons.prems(2) show ?thesis by (auto simp: feed_hold_def dest: release_held_bound)
  next
    case False
    with Cons.IH [OF False r] Cons.prems(2) f r show ?thesis by auto
  qed
qed simp

section \<open>The contract of a matcher\<close>

text \<open>
  A token that is recognised stays recognised however the stream goes on and depends on its own
  bytes only; a prefix that left the grammar never comes back; and no tail that could still be a
  token is longer than \<open>MaxTokenLen\<close>.
\<close>

locale token_matcher =
  fixes m :: matcher
  assumes token_le: "token_len m s \<le> length s"
    and token_stable: "0 < token_len m s \<Longrightarrow> token_len m (s @ t) = token_len m s"
    and token_local: "0 < token_len m (s @ t) \<Longrightarrow> token_len m (s @ t) \<le> length s \<Longrightarrow>
      token_len m s = token_len m (s @ t)"
    and prefix_closed: "prefix_len m s < length s \<Longrightarrow> prefix_len m (s @ t) < length (s @ t)"
    and prefix_max: "prefix_len m s \<le> max_token_len m"
    and max_bounds: "0 < max_token_len m" "max_token_len m < sse_backfill_holdback_bytes"
begin

lemma limit_eq: "holdback_limit m = max_token_len m"
  using max_bounds by (simp add: holdback_limit_def)

lemma loop_tail_prefix: "release_loop m rep s = (out, rest) \<Longrightarrow> length rest \<le> prefix_len m rest"
proof (induction s arbitrary: out rest rule: release_loop_induct [of _ m])
  case (token s)
  obtain o1 t1 where r: "release_loop m rep (drop (token_len m s) s) = (o1, t1)" by fastforce
  with token.IH [OF r] release_loop_token [OF token.hyps(2,3) r] token.prems show ?case by simp
next
  case (stop s)
  then show ?case by (simp add: release_loop_stop)
next
  case (byte s)
  obtain o1 t1 where r: "release_loop m rep (drop 1 s) = (o1, t1)" by fastforce
  with byte.IH [OF r] release_loop_byte [OF byte.hyps r] byte.prems show ?case by simp
qed simp

text \<open>The trim to the hold-back limit never fires for such a matcher.\<close>

lemma release_is_loop: "release m rep s = release_loop m rep s"
proof -
  obtain out rest where r: "release_loop m rep s = (out, rest)" by fastforce
  have "length rest \<le> holdback_limit m"
    using loop_tail_prefix [OF r] prefix_max [of rest] limit_eq by simp
  with r show ?thesis by (simp add: release_def Let_def)
qed

text \<open>
  A stream is foreseen when every token in it could be seen coming: each shorter prefix of the
  token is still a possible token for the matcher.
\<close>

definition foreseen :: "bytes \<Rightarrow> bool" where
  "foreseen s \<longleftrightarrow> (\<forall>i. 0 < token_len m (drop i s) \<longrightarrow>
     (\<forall>k < token_len m (drop i s). k \<le> prefix_len m (take k (drop i s))))"

lemma foreseen_drop: "foreseen s \<Longrightarrow> foreseen (drop k s)"
  unfolding foreseen_def drop_drop by blast

lemma loop_append:
  assumes "foreseen (s @ t)" "release_loop m rep s = (out, rest)" "release_loop m rep (rest @ t) = (out', rest')"
  shows "release_loop m rep (s @ t) = (out @ out', rest')"
  using assms
proof (induction s arbitrary: out rule: release_loop_induct [of _ m])
  case (token s)
  obtain o1 t1 where r: "release_loop m rep (drop (token_len m s) s) = (o1, t1)" by fastforce
  from release_loop_token [OF token.hyps(2,3) r] token.prems(2) have
    o: "out = replacement rep (take (token_len m s) s) @ o1" "t1 = rest" by auto
  have dr: "drop (token_len m s) (s @ t) = drop (token_len m s) s @ t" using token.hyps(3) by simp
  have "release_loop m rep (drop (token_len m s) s @ t) = (o1 @ out', rest')"
    using token.IH [of o1] foreseen_drop [OF token.prems(1), of "token_len m s"] dr r o token.prems(3) by simp
  with release_loop_token [of m "s @ t" rep "o1 @ out'" rest'] token.hyps o(1) dr token_stable [OF token.hyps(2), of t]
  show ?case by simp
next
  case (stop s)
  then show ?case by (simp add: release_loop_stop)
next
  case (byte s)
  obtain o1 t1 where r: "release_loop m rep (drop 1 s) = (o1, t1)" by fastforce
  from release_loop_byte [OF byte.hyps(1-3) r] byte.prems(2) have o: "out = hd s # o1" "t1 = rest" by auto
  have dr: "drop 1 (s @ t) = drop 1 s @ t" using byte.hyps(1) by (cases s) auto
  have rec: "release_loop m rep (drop 1 (s @ t)) = (o1 @ out', rest')"
    using byte.IH [of o1] foreseen_drop [OF byte.prems(1), of 1] dr r o byte.prems(3) by simp
  have none: "token_len m s = 0" using byte.hyps(2) token_le [of s] by simp
  have "token_len m (s @ t) = 0"
  proof (rule ccontr)
    assume "token_len m (s @ t) \<noteq> 0"
    then have pos: "0 < token_len m (s @ t)" by simp
    with none token_local [OF pos] have "length s < token_len m (s @ t)" by (cases "token_len m (s @ t) \<le> length s") auto
    then have "length s \<le> prefix_len m (take (length s) (s @ t))"
      using byte.prems(1) pos unfolding foreseen_def by (metis drop0)
    with byte.hyps(3) show False by simp
  qed
  moreover have "prefix_len m (s @ t) < length (s @ t)" by (rule prefix_closed [OF byte.hyps(3)])
  ultimately show ?case
    using release_loop_byte [OF _ _ _ rec] byte.hyps(1) o(1) by (cases s) auto
qed simp

theorem chunks_are_one_feed:
  assumes "foreseen (held @ concat ps)" "length held \<le> prefix_len m held" "token_len m held = 0"
  shows "feed_chunks m rep ps held = release_loop m rep (held @ concat ps)"
  using assms
proof (induction ps arbitrary: held)
  case Nil
  then show ?case by (simp add: release_loop_stop)
next
  case (Cons p ps)
  obtain o1 h1 where r: "release_loop m rep (held @ p) = (o1, h1)" by fastforce
  then have f: "feed_hold m rep p held = (o1, h1)" by (simp add: feed_hold_def release_is_loop)
  obtain o2 h2 where r2: "release_loop m rep (h1 @ concat ps) = (o2, h2)" by fastforce
  have fs: "foreseen ((held @ p) @ concat ps)" using Cons.prems(1) by simp
  from loop_append [OF fs r r2] have whole: "release_loop m rep (held @ concat (p # ps)) = (o1 @ o2, h2)"
    by simp
  have tail: "token_len m rest = 0 \<and> (\<exists>k. rest = drop k s)" if "release_loop m rep s = (out, rest)" for s out rest
    using that
  proof (induction s arbitrary: out rest rule: release_loop_induct [of _ m])
    case Nil
    then show ?case using token_le [of "[]"] by auto
  next
    case (token s)
    obtain o3 t3 where r3: "release_loop m rep (drop (token_len m s) s) = (o3, t3)" by fastforce
    with release_loop_token [OF token.hyps(2,3) r3] token.prems token.IH [OF r3] show ?case
      by (auto simp: drop_drop)
  next
    case (stop s)
    then have "rest = drop 0 s" "token_len m s = 0" using token_le [of s] by (auto simp: release_loop_stop)
    then show ?case using stop.prems by (intro conjI exI [of _ 0]) (simp_all add: release_loop_stop [OF stop.hyps(2,3)])
  next
    case (byte s)
    obtain o3 t3 where r3: "release_loop m rep (drop 1 s) = (o3, t3)" by fastforce
    with release_loop_byte [OF byte.hyps(1-3) r3] byte.prems byte.IH [OF r3] show ?case
      by (auto simp: drop_drop)
  qed
  from tail [OF r] obtain k where k: "h1 = drop k (held @ p)" "token_len m h1 = 0" by blast
  obtain j where j: "h1 @ concat ps = drop j ((held @ p) @ concat ps)"
  proof (cases "k \<le> length (held @ p)")
    case True
    with that [of k] k(1) show ?thesis by simp
  next
    case False
    with that [of "length (held @ p)"] k(1) show ?thesis by simp
  qed
  have "foreseen (h1 @ concat ps)" unfolding j using fs by (rule foreseen_drop)
  from Cons.IH [OF this loop_tail_prefix [OF r] k(2)] f r2 whole show ?case by simp
qed

end

end
