(* ===== verification/Grammar.thy ===== *)
theory Grammar
  imports Hold
begin

text \<open>
  The frozen placeholder grammar \<open>__PII_<type>_<digest>__\<close>: the geometry constants of
  \<open>pkg/redact/placeholder.go\<close> and the \<open>placeholderMatcher\<close> of \<open>pkg/redact/sse_backfill.go\<close>, which
  interprets the contract \<open>token_matcher\<close> of the hold-back writer.
\<close>

section \<open>Geometry\<close>

definition placeholder_prefix :: bytes where "placeholder_prefix = ''__PII_''"
definition placeholder_suffix :: bytes where "placeholder_suffix = ''__''"
definition placeholder_sep :: bytes where "placeholder_sep = ''_''"
definition max_type_len :: nat where "max_type_len = 16"
definition max_digest_len :: nat where "max_digest_len = 64"
definition min_digest_len :: nat where "min_digest_len = 12"

definition max_placeholder_len :: nat where
  "max_placeholder_len = length placeholder_prefix + max_type_len + length placeholder_sep + max_digest_len
     + length placeholder_suffix"

lemmas geometry = placeholder_prefix_def placeholder_suffix_def placeholder_sep_def max_type_len_def
  max_digest_len_def min_digest_len_def max_placeholder_len_def

lemma geometry_nums:
  "length placeholder_prefix = 6" "length placeholder_suffix = 2" "hd placeholder_sep = CHR ''_''"
  "max_type_len = 16" "max_digest_len = 64" "min_digest_len = 12" "max_placeholder_len = 89"
  by (simp_all add: geometry)

definition is_hex_digit :: "char \<Rightarrow> bool" where
  "is_hex_digit c \<longleftrightarrow> is_ascii_digit c \<or> in_range CHR ''a'' CHR ''f'' c"

definition is_type_char :: "char \<Rightarrow> bool" where
  "is_type_char c \<longleftrightarrow> is_lower c \<or> is_ascii_digit c \<or> c = CHR ''_''"

definition hex_run :: "bytes \<Rightarrow> nat" where
  "hex_run b = length (takeWhile is_hex_digit b)"

definition all_type_chars :: "bytes \<Rightarrow> bool" where
  "all_type_chars s = list_all is_type_char s"

section \<open>Complete tokens\<close>

text \<open>
  The inner loop of \<open>TokenLen\<close>: \<open>l\<close> counts up from \<open>minDigestLen\<close> while \<open>l \<le> d\<close> and
  \<open>l \<le> maxDigestLen\<close>; running past the end of \<open>p\<close> stops it.
\<close>

fun digest_end :: "bytes \<Rightarrow> nat \<Rightarrow> nat list \<Rightarrow> nat option" where
  "digest_end p sep [] = None"
| "digest_end p sep (l # ls) =
     (let fin = sep + 1 + l + length placeholder_suffix
      in if length p < fin then None
         else if slice p (sep + 1 + l) fin \<noteq> placeholder_suffix then digest_end p sep ls
         else Some fin)"

definition type_end :: "bytes \<Rightarrow> nat \<Rightarrow> nat option" where
  "type_end p t =
     (let sep = length placeholder_prefix + t
      in if length p \<le> sep \<or> p ! sep \<noteq> hd placeholder_sep then None
         else digest_end p sep [min_digest_len..<Suc (min (hex_run (drop (sep + 1) p)) max_digest_len)])"

text \<open>The outer loop keeps the smallest end found; 0 stands for none, as in the source.\<close>

definition better :: "nat \<Rightarrow> nat option \<Rightarrow> nat" where
  "better best e = (case e of None \<Rightarrow> best | Some fin \<Rightarrow> if best = 0 \<or> fin < best then fin else best)"

definition placeholder_token_len :: "bytes \<Rightarrow> nat" where
  "placeholder_token_len p =
     (if \<not> prefix placeholder_prefix p then 0
      else foldl (\<lambda>best t. better best (type_end p t)) 0 [1..<Suc max_type_len])"

section \<open>Placeholder prefixes\<close>

text \<open>One round of the loop of \<open>isPlaceholderPrefix\<close>: \<open>Some b\<close> when it returns \<open>b\<close>.\<close>

definition prefix_round :: "bytes \<Rightarrow> nat \<Rightarrow> bool option" where
  "prefix_round rest t =
     (if length rest \<le> t then Some (all_type_chars rest)
      else if rest ! t \<noteq> hd placeholder_sep then None
      else
        let d = hex_run (drop (t + 1) rest); rem = drop (t + 1 + d) rest
        in if d = length rest - t - 1 then Some (d \<le> max_digest_len)
           else if hd rem \<noteq> hd placeholder_sep \<or> d < min_digest_len \<or> max_digest_len < d then None
           else if length rem = 1 \<or> (length rem = 2 \<and> rem ! 1 = hd placeholder_sep) then Some True
           else None)"

fun prefix_rounds :: "bytes \<Rightarrow> nat list \<Rightarrow> bool" where
  "prefix_rounds rest [] = False"
| "prefix_rounds rest (t # ts) = (case prefix_round rest t of Some b \<Rightarrow> b | None \<Rightarrow> prefix_rounds rest ts)"

definition is_placeholder_prefix :: "bytes \<Rightarrow> bool" where
  "is_placeholder_prefix s =
     (if length s \<le> length placeholder_prefix then prefix s placeholder_prefix
      else if take (length placeholder_prefix) s \<noteq> placeholder_prefix then False
      else prefix_rounds (drop (length placeholder_prefix) s) [1..<Suc max_type_len])"

text \<open>\<open>PrefixLen\<close>: \<open>k\<close> grows while the first \<open>k + 1\<close> bytes are a placeholder prefix.\<close>

function prefix_len_from :: "bytes \<Rightarrow> nat \<Rightarrow> nat" where
  "prefix_len_from p k =
     (if k < length p \<and> is_placeholder_prefix (take (Suc k) p) then prefix_len_from p (Suc k) else k)"
  by pat_completeness auto
termination
  by (relation "measure (\<lambda>(p, k). length p - k)") auto

declare prefix_len_from.simps [simp del]

definition placeholder_prefix_len :: "bytes \<Rightarrow> nat" where
  "placeholder_prefix_len p = prefix_len_from p 0"

definition placeholder_matcher :: matcher where
  "placeholder_matcher = \<lparr>prefix_len = placeholder_prefix_len, token_len = placeholder_token_len,
     max_token_len = max_placeholder_len\<rparr>"

section \<open>What TokenLen recognises\<close>

lemma hex_run_le: "hex_run b \<le> length b"
  by (simp add: hex_run_def length_takeWhile_le)

lemma hex_run_nth: "i < hex_run b \<Longrightarrow> is_hex_digit (b ! i)"
  unfolding hex_run_def by (metis nth_mem set_takeWhileD takeWhile_nth)

lemma underscore_not_hex: "\<not> is_hex_digit CHR ''_''"
  by (simp add: is_hex_digit_def ascii_defs)

text \<open>The digest always extends over the whole hex run, since the suffix starts with \<open>_\<close>.\<close>

definition token_shape :: "bytes \<Rightarrow> nat \<Rightarrow> nat option" where
  "token_shape p t =
     (let sep = 6 + t; d = hex_run (drop (sep + 1) p)
      in if sep < length p \<and> p ! sep = CHR ''_'' \<and> 12 \<le> d \<and> d \<le> 64 \<and>
            sep + d + 3 \<le> length p \<and> p ! (sep + 1 + d) = CHR ''_'' \<and> p ! (sep + 2 + d) = CHR ''_''
         then Some (sep + d + 3) else None)"

lemma slice_two: "i + 2 \<le> length p \<Longrightarrow> slice p i (i + 2) = [p ! i, p ! Suc i]"
  by (simp add: slice_def numeral_2_eq_2 take_Suc_conv_app_nth nth_drop)

lemma digest_end_eq:
  assumes "\<And>i. i < d \<Longrightarrow> p ! (sep + 1 + i) \<noteq> CHR ''_''" "sep + 1 + d \<le> length p" "l \<le> d"
  shows "digest_end p sep [l..<Suc (min d 64)] =
    (if d \<le> 64 \<and> sep + d + 3 \<le> length p \<and> p ! (sep + 1 + d) = CHR ''_'' \<and> p ! (sep + 2 + d) = CHR ''_''
     then Some (sep + d + 3) else None)"
  using assms(3)
proof (induction "d - l" arbitrary: l)
  case 0
  then have "l = d" by simp
  show ?case
  proof (cases "d \<le> 64")
    case True
    then have "[l..<Suc (min d 64)] = [d]" using \<open>l = d\<close> by simp
    then show ?thesis using True slice_two [of "sep + 1 + d" p]
      by (auto simp: Let_def geometry add_ac)
  next
    case False
    then have "[l..<Suc (min d 64)] = []" using \<open>l = d\<close> by simp
    then show ?thesis using False by simp
  qed
next
  case (Suc n)
  then have l: "l < d" by simp
  show ?case
  proof (cases "l \<le> 64")
    case False
    then have "[l..<Suc (min d 64)] = []" using l by simp
    then show ?thesis using False l by simp
  next
    case True
    then have up: "[l..<Suc (min d 64)] = l # [Suc l..<Suc (min d 64)]" using l by (simp add: upt_conv_Cons)
    have ih: "digest_end p sep [Suc l..<Suc (min d 64)] =
      (if d \<le> 64 \<and> sep + d + 3 \<le> length p \<and> p ! (sep + 1 + d) = CHR ''_'' \<and> p ! (sep + 2 + d) = CHR ''_''
       then Some (sep + d + 3) else None)"
      using Suc.hyps(1) [of "Suc l"] Suc.hyps(2) l by (simp del: upt_Suc)
    show ?thesis
    proof (cases "length p < sep + 1 + l + 2")
      case True
      with l show ?thesis unfolding up by (simp add: Let_def geometry)
    next
      case False
      then have "slice p (sep + 1 + l) (sep + 1 + l + 2) \<noteq> ''__''"
        using slice_two [of "sep + 1 + l" p] assms(1) [OF l] by simp
      with False ih show ?thesis unfolding up by (simp add: Let_def geometry add_ac)
    qed
  qed
qed

lemma type_end_shape: "type_end p t = token_shape p t"
proof (cases "6 + t < length p \<and> p ! (6 + t) = CHR ''_''")
  case True
  define d where "d = hex_run (drop (6 + t + 1) p)"
  have "d \<le> length p - (6 + t + 1)" using hex_run_le [of "drop (6 + t + 1) p"] by (simp add: d_def)
  with True have d: "6 + t + 1 + d \<le> length p" by linarith
  have nth: "p ! (6 + t + 1 + i) \<noteq> CHR ''_''" if "i < d" for i
  proof -
    have "is_hex_digit (drop (6 + t + 1) p ! i)" using that by (auto simp: d_def intro: hex_run_nth)
    then have "is_hex_digit (p ! (6 + t + 1 + i))" using d that by (simp add: nth_drop)
    with underscore_not_hex show ?thesis by auto
  qed
  have e: "type_end p t = digest_end p (6 + t) [12..<Suc (min d 64)]"
    using True by (simp add: type_end_def Let_def geometry_nums d_def del: upt_Suc)
  have s: "token_shape p t = (if 12 \<le> d \<and> d \<le> 64 \<and> 6 + t + d + 3 \<le> length p \<and>
      p ! (6 + t + 1 + d) = CHR ''_'' \<and> p ! (6 + t + 2 + d) = CHR ''_'' then Some (6 + t + d + 3) else None)"
    using True unfolding token_shape_def Let_def d_def [symmetric] by auto
  show ?thesis
  proof (cases "12 \<le> d")
    case twelve: True
    show ?thesis unfolding e s using twelve digest_end_eq [of d p "6 + t", OF nth d twelve] by simp
  next
    case False
    then have "[12..<Suc (min d 64)] = []" by simp
    with False show ?thesis unfolding e s by simp
  qed
qed (auto simp: type_end_def token_shape_def Let_def geometry_nums)

text \<open>The fold computes the least end, or 0 when there is none.\<close>

definition least_end :: "(nat \<Rightarrow> nat option) \<Rightarrow> nat list \<Rightarrow> nat" where
  "least_end f ts = foldl (\<lambda>best t. better best (f t)) 0 ts"

lemma foldl_better:
  fixes f :: "nat \<Rightarrow> nat option"
  assumes "\<And>t e. f t = Some e \<Longrightarrow> 0 < e"
  shows "let r = foldl (\<lambda>best t. better best (f t)) b ts in
    (r = b \<or> (\<exists>t \<in> set ts. f t = Some r)) \<and> (0 < b \<longrightarrow> 0 < r \<and> r \<le> b) \<and>
    (\<forall>t \<in> set ts. \<forall>e. f t = Some e \<longrightarrow> 0 < r \<and> r \<le> e)"
  unfolding Let_def
proof (induction ts arbitrary: b)
  case (Cons t ts)
  let ?b = "better b (f t)"
  have b: "(?b = b \<or> f t = Some ?b) \<and> (0 < b \<longrightarrow> 0 < ?b \<and> ?b \<le> b) \<and> (\<forall>e. f t = Some e \<longrightarrow> 0 < ?b \<and> ?b \<le> e)"
    using assms(1) [of t] by (auto simp: better_def split: option.splits)
  let ?r = "foldl (\<lambda>best t. better best (f t)) ?b ts"
  from Cons [of ?b] have r: "?r = ?b \<or> (\<exists>t \<in> set ts. f t = Some ?r)" "0 < ?b \<longrightarrow> 0 < ?r \<and> ?r \<le> ?b"
    "\<forall>t \<in> set ts. \<forall>e. f t = Some e \<longrightarrow> 0 < ?r \<and> ?r \<le> e" by blast+
  have "?r = b \<or> (\<exists>u \<in> set (t # ts). f u = Some ?r)" using b r(1) by (metis list.set_intros)
  moreover have "0 < b \<longrightarrow> 0 < ?r \<and> ?r \<le> b" using b r(2) by (meson order_trans)
  moreover have "\<forall>u \<in> set (t # ts). \<forall>e. f u = Some e \<longrightarrow> 0 < ?r \<and> ?r \<le> e"
    using b r(2,3) by (auto intro: order_trans)
  ultimately show ?case by simp
qed simp

lemma token_shape_pos: "token_shape p t = Some e \<Longrightarrow> 0 < e"
  by (auto simp: token_shape_def Let_def split: if_splits)

lemma least_end_spec:
  "let r = least_end (token_shape p) ts in
    (r = 0 \<or> (\<exists>t \<in> set ts. token_shape p t = Some r)) \<and>
    (\<forall>t \<in> set ts. \<forall>e. token_shape p t = Some e \<longrightarrow> 0 < r \<and> r \<le> e)"
  using foldl_better [of "token_shape p" 0 ts] token_shape_pos [of p]
  by (simp add: least_end_def Let_def)

lemma token_len_fold:
  "placeholder_token_len p =
     (if prefix placeholder_prefix p then least_end (token_shape p) [1..<Suc max_type_len] else 0)"
  by (simp add: placeholder_token_len_def least_end_def type_end_shape [abs_def])

text \<open>\<open>TokenLen\<close> is the least end of a token shape, over the type lengths 1 to 16.\<close>

lemma token_len_least:
  "0 < placeholder_token_len p \<Longrightarrow> prefix placeholder_prefix p \<and>
     (\<exists>t. 1 \<le> t \<and> t \<le> 16 \<and> token_shape p t = Some (placeholder_token_len p))"
  using least_end_spec [of p "[1..<Suc max_type_len]"]
  by (auto simp: token_len_fold Let_def max_type_len_def less_Suc_eq_le split: if_splits simp del: upt_Suc)

lemma token_len_min:
  "prefix placeholder_prefix p \<Longrightarrow> 1 \<le> t \<Longrightarrow> t \<le> 16 \<Longrightarrow> token_shape p t = Some e \<Longrightarrow>
     0 < placeholder_token_len p \<and> placeholder_token_len p \<le> e"
  using least_end_spec [of p "[1..<Suc max_type_len]"]
  by (auto simp: token_len_fold Let_def max_type_len_def simp del: upt_Suc)

lemma token_shape_bounds:
  "token_shape p t = Some e \<Longrightarrow> e \<le> length p \<and> t + 21 \<le> e \<and> e \<le> t + 73"
  by (auto simp: token_shape_def Let_def split: if_splits)

text \<open>A shape only depends on the bytes up to its end.\<close>

lemma hex_run_append:
  "hex_run b < length b \<Longrightarrow> hex_run (b @ c) = hex_run b"
proof -
  assume "hex_run b < length b"
  then have "takeWhile is_hex_digit b \<noteq> b" unfolding hex_run_def by (metis nat_less_le)
  then have "\<exists>x \<in> set b. \<not> is_hex_digit x" by (metis takeWhile_eq_all_conv)
  then show ?thesis by (auto simp: hex_run_def takeWhile_append1)
qed

lemma token_shape_append:
  assumes "token_shape p t = Some e"
  shows "token_shape (p @ q) t = Some e"
proof -
  let ?b = "drop (7 + t) p"
  have s: "e \<le> length p" "6 + t < length p" "p ! (6 + t) = CHR ''_''" "e = 6 + t + hex_run ?b + 3"
    "12 \<le> hex_run ?b" "hex_run ?b \<le> 64" "p ! (7 + t + hex_run ?b) = CHR ''_''" "p ! (8 + t + hex_run ?b) = CHR ''_''"
    using assms by (auto simp: token_shape_def Let_def add_ac split: if_splits)
  then have "hex_run ?b < length ?b" by simp
  then have "hex_run (drop (7 + t) (p @ q)) = hex_run ?b" using hex_run_append s(2) by simp
  with s show ?thesis by (simp add: token_shape_def Let_def nth_append add_ac)
qed

lemma token_shape_local:
  assumes "token_shape (p @ q) t = Some e" "e \<le> length p"
  shows "token_shape p t = Some e"
proof -
  let ?b = "drop (7 + t) (p @ q)"
  have s: "6 + t < length (p @ q)" "(p @ q) ! (6 + t) = CHR ''_''" "e = 6 + t + hex_run ?b + 3"
    "12 \<le> hex_run ?b" "hex_run ?b \<le> 64" "(p @ q) ! (7 + t + hex_run ?b) = CHR ''_''"
    "(p @ q) ! (8 + t + hex_run ?b) = CHR ''_''"
    using assms(1) by (auto simp: token_shape_def Let_def add_ac split: if_splits)
  have b: "?b = drop (7 + t) p @ q" using assms(2) s(3) by simp
  have "hex_run (drop (7 + t) p) = hex_run ?b"
  proof (rule ccontr)
    assume neq: "hex_run (drop (7 + t) p) \<noteq> hex_run ?b"
    then have "hex_run (drop (7 + t) p) = length (drop (7 + t) p)"
      using hex_run_append [of "drop (7 + t) p" q] hex_run_le [of "drop (7 + t) p"] b by fastforce
    then have "takeWhile is_hex_digit (drop (7 + t) p) = drop (7 + t) p"
      unfolding hex_run_def by (metis takeWhile_eq_take take_all order_refl)
    then have "length (drop (7 + t) p) \<le> hex_run ?b"
      unfolding b hex_run_def by (metis takeWhile_append2 takeWhile_eq_all_conv length_append le_add1)
    then have "length p - (7 + t) \<le> hex_run ?b" by simp
    with assms(2) s(3) show False by linarith
  qed
  then have hr: "hex_run (drop (6 + t + 1) p) = hex_run ?b" by (simp add: add_ac)
  define h where "h = hex_run ?b"
  note s = s [folded h_def] and hr = hr [folded h_def]
  have len: "6 + t < length p" "7 + t + h < length p" "8 + t + h < length p" "6 + t + h + 3 \<le> length p"
    using s(3) assms(2) by linarith+
  then have "p ! (6 + t) = CHR ''_''" "p ! (6 + t + 1 + h) = CHR ''_''" "p ! (6 + t + 2 + h) = CHR ''_''"
    using s(2,6,7) by (simp_all add: nth_append)
  then show ?thesis
    unfolding token_shape_def Let_def hr using len(1,4) s(3-5) by simp
qed

lemma placeholder_token_le: "placeholder_token_len p \<le> length p"
  using token_len_least [of p] token_shape_bounds by (cases "placeholder_token_len p") auto

lemma placeholder_token_max: "placeholder_token_len p \<le> 89"
  using token_len_least [of p] token_shape_bounds by (cases "placeholder_token_len p") fastforce+

lemma placeholder_token_local:
  assumes "0 < placeholder_token_len (p @ q)" "placeholder_token_len (p @ q) \<le> length p"
  shows "placeholder_token_len p = placeholder_token_len (p @ q)"
proof -
  from token_len_least [OF assms(1)] obtain t where
    t: "prefix placeholder_prefix (p @ q)" "1 \<le> t" "t \<le> 16" "token_shape (p @ q) t = Some (placeholder_token_len (p @ q))"
    by blast
  from token_shape_local [OF t(4) assms(2)] have s: "token_shape p t = Some (placeholder_token_len (p @ q))" .
  then have "6 \<le> length p" using token_shape_bounds by fastforce
  then have pre: "prefix placeholder_prefix p"
    using t(1) geometry_nums(1) by (metis prefix_length_prefix prefixI)
  from token_len_min [OF pre t(2,3) s] have
    le: "0 < placeholder_token_len p" "placeholder_token_len p \<le> placeholder_token_len (p @ q)" by auto
  from token_len_least [OF le(1)] obtain u where
    u: "1 \<le> u" "u \<le> 16" "token_shape p u = Some (placeholder_token_len p)" by blast
  from token_len_min [OF t(1) u(1,2) token_shape_append [OF u(3)]] le show ?thesis by simp
qed

lemma placeholder_token_stable:
  assumes "0 < placeholder_token_len p"
  shows "placeholder_token_len (p @ q) = placeholder_token_len p"
proof -
  from token_len_least [OF assms] obtain t where
    t: "prefix placeholder_prefix p" "1 \<le> t" "t \<le> 16" "token_shape p t = Some (placeholder_token_len p)" by blast
  have "prefix placeholder_prefix (p @ q)" using t(1) by (rule prefix_prefix)
  from token_len_min [OF this t(2,3) token_shape_append [OF t(4)]] have
    "0 < placeholder_token_len (p @ q)" "placeholder_token_len (p @ q) \<le> length p"
    using placeholder_token_le [of p] by auto
  from placeholder_token_local [OF this] show ?thesis by simp
qed

lemma prefix_len_from_spec:
  "k \<le> length p \<Longrightarrow>
     k \<le> prefix_len_from p k \<and> prefix_len_from p k \<le> length p \<and>
     (prefix_len_from p k < length p \<longrightarrow> \<not> is_placeholder_prefix (take (Suc (prefix_len_from p k)) p)) \<and>
     (\<forall>j. k \<le> j \<and> j < prefix_len_from p k \<longrightarrow> is_placeholder_prefix (take (Suc j) p))"
proof (induction p k rule: prefix_len_from.induct)
  case (1 p k)
  show ?case
  proof (cases "k < length p \<and> is_placeholder_prefix (take (Suc k) p)")
    case False
    with "1.prems" show ?thesis by (auto simp: prefix_len_from.simps [of p k])
  next
    case True
    then have e: "prefix_len_from p k = prefix_len_from p (Suc k)" by (simp add: prefix_len_from.simps [of p k])
    from "1.IH" [OF True] True show ?thesis
      unfolding e by (metis Suc_leI Suc_le_eq le_eq_less_or_eq le_trans lessI)
  qed
qed

lemma placeholder_prefix_len_spec:
  "placeholder_prefix_len p \<le> length p"
  "placeholder_prefix_len p < length p \<Longrightarrow> \<not> is_placeholder_prefix (take (Suc (placeholder_prefix_len p)) p)"
  "j < placeholder_prefix_len p \<Longrightarrow> is_placeholder_prefix (take (Suc j) p)"
  using prefix_len_from_spec [of 0 p] by (auto simp: placeholder_prefix_len_def)

lemma prefix_len_bound:
  assumes "k < length p" "\<not> is_placeholder_prefix (take (Suc k) p)"
  shows "placeholder_prefix_len p \<le> k"
  using assms placeholder_prefix_len_spec(3) [of k p] by force

lemma placeholder_prefix_closed:
  "placeholder_prefix_len p < length p \<Longrightarrow> placeholder_prefix_len (p @ q) < length (p @ q)"
  using prefix_len_bound [of "placeholder_prefix_len p" "p @ q"] placeholder_prefix_len_spec(2) [of p] by simp

lemma prefix_round_length:
  "prefix_round rest t = Some True \<Longrightarrow> t \<le> 16 \<Longrightarrow> length rest \<le> 83"
proof (cases "length rest \<le> t \<or> rest ! t \<noteq> CHR ''_''")
  case True
  assume "prefix_round rest t = Some True" "t \<le> 16"
  with True show ?thesis by (auto simp: prefix_round_def geometry_nums split: if_splits)
next
  case False
  define d where "d = hex_run (drop (t + 1) rest)"
  assume r: "prefix_round rest t = Some True" "t \<le> 16"
  with False have "(d = length rest - t - 1 \<and> d \<le> 64) \<or> (d \<le> 64 \<and> length (drop (t + 1 + d) rest) \<le> 2)"
    unfolding prefix_round_def Let_def d_def [symmetric] geometry_nums by (auto split: if_splits)
  with r(2) show ?thesis by auto
qed

lemma prefix_rounds_length:
  "prefix_rounds rest ts \<Longrightarrow> \<forall>t \<in> set ts. t \<le> 16 \<Longrightarrow> length rest \<le> 83"
  by (induction rest ts rule: prefix_rounds.induct)
    (auto split: option.splits dest: prefix_round_length)

lemma is_placeholder_prefix_length: "is_placeholder_prefix s \<Longrightarrow> length s \<le> 89"
  using prefix_rounds_length [of "drop 6 s" "[1..<Suc max_type_len]"]
  by (auto simp: is_placeholder_prefix_def geometry_nums split: if_splits simp del: upt_Suc)

lemma placeholder_prefix_max: "placeholder_prefix_len p \<le> 89"
proof (cases "placeholder_prefix_len p")
  case (Suc k)
  then have "is_placeholder_prefix (take (Suc k) p)" using placeholder_prefix_len_spec(3) by simp
  from is_placeholder_prefix_length [OF this] Suc placeholder_prefix_len_spec(1) [of p] show ?thesis by simp
qed simp

lemma matcher_sel:
  "prefix_len placeholder_matcher = placeholder_prefix_len"
  "token_len placeholder_matcher = placeholder_token_len"
  "max_token_len placeholder_matcher = max_placeholder_len"
  by (simp_all add: placeholder_matcher_def)

interpretation grammar: token_matcher placeholder_matcher
proof (unfold_locales, unfold matcher_sel, goal_cases)
  case (1 s)
  show ?case by (rule placeholder_token_le)
next
  case (2 s t)
  then show ?case by (rule placeholder_token_stable)
next
  case (3 s t)
  then show ?case by (rule placeholder_token_local)
next
  case (4 s t)
  then show ?case by (rule placeholder_prefix_closed)
next
  case (5 s)
  show ?case unfolding geometry_nums by (rule placeholder_prefix_max)
qed (simp_all add: geometry_nums sse_backfill_holdback_bytes_def)

section \<open>Well-typed placeholders\<close>

text \<open>The documented grammar: what the engine mints.\<close>

definition make_placeholder :: "bytes \<Rightarrow> bytes \<Rightarrow> bytes" where
  "make_placeholder ty digest = placeholder_prefix @ ty @ placeholder_sep @ digest @ placeholder_suffix"

definition well_typed :: "bytes \<Rightarrow> bytes \<Rightarrow> bool" where
  "well_typed ty digest \<longleftrightarrow>
     1 \<le> length ty \<and> length ty \<le> 16 \<and> list_all is_type_char ty \<and>
     12 \<le> length digest \<and> length digest \<le> 64 \<and> list_all is_hex_digit digest"

definition placeholder_token :: "bytes \<Rightarrow> bool" where
  "placeholder_token s \<longleftrightarrow> (\<exists>ty digest. well_typed ty digest \<and> s = make_placeholder ty digest)"

lemma hex_is_type_char: "is_hex_digit c \<Longrightarrow> is_type_char c"
  by (auto simp: is_hex_digit_def is_type_char_def ascii_defs)

lemma underscore_type_char: "is_type_char CHR ''_''"
  by (simp add: is_type_char_def)

lemma length_make_placeholder: "length (make_placeholder ty digest) = length ty + length digest + 9"
  by (simp add: make_placeholder_def geometry)

lemma make_placeholder_rest: "make_placeholder ty digest = placeholder_prefix @ (ty @ ''_'' @ digest @ ''__'')"
  by (simp add: make_placeholder_def geometry)

lemma body_type_chars:
  "well_typed ty digest \<Longrightarrow> all_type_chars (take k (ty @ ''_'' @ digest @ ''__''))"
proof -
  assume "well_typed ty digest"
  then have "list_all is_type_char (ty @ ''_'' @ digest @ ''__'')"
    by (auto simp: well_typed_def underscore_type_char list_all_iff hex_is_type_char)
  then show ?thesis unfolding all_type_chars_def list_all_iff by (meson in_set_takeD)
qed

text \<open>Every hex run inside a well-typed body is at most as long as a digest.\<close>

lemma hex_run_take_le: "hex_run (take k b) \<le> hex_run b"
proof -
  have "takeWhile is_hex_digit (take k b) = take k (takeWhile is_hex_digit b)"
    by (induction b arbitrary: k) (auto simp: take_Cons' split: nat.splits)
  then show ?thesis by (simp add: hex_run_def)
qed

lemma hex_run_stop: "\<not> is_hex_digit c \<Longrightarrow> hex_run (a @ c # b) \<le> length a"
  by (induction a) (auto simp: hex_run_def)

lemma hex_run_exact: "list_all is_hex_digit a \<Longrightarrow> hex_run (a @ CHR ''_'' # b) = length a"
  by (induction a) (auto simp: hex_run_def underscore_not_hex)

lemma body_hex_run:
  assumes "well_typed ty digest"
  shows "hex_run (drop j (ty @ ''_'' @ digest @ ''__'')) \<le> 64"
proof -
  consider "j \<le> length ty" | i where "j = length ty + 1 + i" by (metis le_less_linear less_imp_Suc_add add_Suc_right Suc_eq_plus1 add.commute add.left_commute)
  then show ?thesis
  proof cases
    case 1
    then have "hex_run (drop j ty @ CHR ''_'' # digest @ ''__'') \<le> length (drop j ty)"
      by (intro hex_run_stop underscore_not_hex)
    moreover have "length ty \<le> 16" using assms by (simp add: well_typed_def)
    then have "length (drop j ty) \<le> 64" by simp
    ultimately have "hex_run (drop j ty @ CHR ''_'' # digest @ ''__'') \<le> 64" by (rule order_trans)
    with 1 show ?thesis by simp
  next
    case 2
    then have d: "drop j (ty @ ''_'' @ digest @ ''__'') = drop i (digest @ ''__'')" by simp
    show ?thesis
    proof (cases "i \<le> length digest")
      case True
      have "hex_run (drop i digest @ CHR ''_'' # ''_'') \<le> length (drop i digest)"
        by (intro hex_run_stop underscore_not_hex)
      moreover have "length digest \<le> 64" using assms by (simp add: well_typed_def)
      then have "length (drop i digest) \<le> 64" by simp
      ultimately have "hex_run (drop i digest @ CHR ''_'' # ''_'') \<le> 64" by (rule order_trans)
      with d True show ?thesis by simp
    next
      case False
      then have "length (drop i (digest @ ''__'')) \<le> 64" by simp
      with d hex_run_le [of "drop i (digest @ ''__'')"] show ?thesis by simp
    qed
  qed
qed

lemma body_round:
  assumes "well_typed ty digest" "rest = take k (ty @ ''_'' @ digest @ ''__'')"
  shows "prefix_round rest t \<noteq> Some False"
proof -
  have "hex_run (drop (t + 1) rest) \<le> 64"
  proof -
    have "drop (t + 1) rest = take (k - (t + 1)) (drop (t + 1) (ty @ ''_'' @ digest @ ''__''))"
      by (simp only: assms(2) drop_take)
    then show ?thesis by (simp only: order_trans [OF hex_run_take_le body_hex_run [OF assms(1)]])
  qed
  moreover have "all_type_chars rest" using body_type_chars [OF assms(1)] assms(2) by simp
  moreover define d where "d = hex_run (drop (t + 1) rest)"
  ultimately have "all_type_chars rest" "d \<le> 64" by simp_all
  then show ?thesis
    unfolding prefix_round_def Let_def geometry_nums d_def [symmetric] by simp
qed

lemma body_decides:
  assumes "well_typed ty digest" "rest = take k (ty @ ''_'' @ digest @ ''__'')" "0 < k"
  shows "\<exists>t. 1 \<le> t \<and> t \<le> 16 \<and> prefix_round rest t = Some True"
proof (cases "length rest \<le> length ty")
  case True
  have "prefix_round rest (length ty) = Some (all_type_chars rest)" using True by (simp add: prefix_round_def)
  with body_type_chars [OF assms(1)] assms show ?thesis
    by (intro exI [of _ "length ty"]) (simp add: well_typed_def)
next
  case False
  let ?n = "length ty"
  define tail where "tail = take (k - (?n + 1)) (digest @ ''__'')"
  have k: "?n < k" using False assms(2) by simp
  then obtain j where j: "k = Suc (?n + j)" using less_imp_Suc_add by blast
  have r: "rest = ty @ CHR ''_'' # tail"
    using assms(2) by (simp add: tail_def j)
  have dig: "list_all is_hex_digit digest" "12 \<le> length digest" "length digest \<le> 64"
    using assms(1) by (auto simp: well_typed_def)
  have "prefix_round rest ?n = Some True"
  proof (cases "k - (?n + 1) \<le> length digest")
    case True
    then have tk: "tail = take (k - (?n + 1)) digest" by (simp add: tail_def)
    then have "list_all is_hex_digit tail" using dig(1) by (auto simp: list_all_iff dest: in_set_takeD)
    then have h: "hex_run tail = length tail" unfolding hex_run_def by (metis list_all_iff takeWhile_eq_all_conv)
    have "length tail \<le> 64" using dig(3) by (simp add: tk)
    with h show ?thesis unfolding r prefix_round_def geometry_nums by (simp add: Let_def)
  next
    case False
    then have "tail = digest @ take (k - (?n + 1) - length digest) ''__''" by (simp add: tail_def)
    moreover have "take m ''__'' = ''_'' \<or> take m ''__'' = ''__''" if "0 < m" for m
      using that by (cases m; cases "m - 1") auto
    ultimately have "tail = digest @ ''_'' \<or> tail = digest @ ''__''" using False by auto
    then show ?thesis
    proof
      assume tl: "tail = digest @ ''_''"
      then have "hex_run tail = length digest" using hex_run_exact [OF dig(1), of "[]"] by simp
      with tl dig show ?thesis unfolding r prefix_round_def geometry_nums by (simp add: Let_def)
    next
      assume tl: "tail = digest @ ''__''"
      then have "hex_run tail = length digest" using hex_run_exact [OF dig(1), of "''_''"] by simp
      with tl dig show ?thesis unfolding r prefix_round_def geometry_nums by (simp add: Let_def nth_append)
    qed
  qed
  with assms(1) show ?thesis by (intro exI [of _ ?n]) (simp add: well_typed_def)
qed

lemma prefix_rounds_true:
  "\<forall>t \<in> set ts. prefix_round rest t \<noteq> Some False \<Longrightarrow> \<exists>t \<in> set ts. prefix_round rest t = Some True \<Longrightarrow>
     prefix_rounds rest ts"
  by (induction rest ts rule: prefix_rounds.induct) (auto split: option.splits)

lemma is_prefix_split:
  "prefix_rounds rest [1..<Suc max_type_len] \<Longrightarrow> rest \<noteq> [] \<Longrightarrow> is_placeholder_prefix (placeholder_prefix @ rest)"
  by (simp add: is_placeholder_prefix_def del: upt_Suc)

lemma token_prefixes:
  assumes "placeholder_token s"
  shows "is_placeholder_prefix (take k s)"
proof -
  from assms obtain ty digest where w: "well_typed ty digest" and
    s: "s = placeholder_prefix @ (ty @ ''_'' @ digest @ ''__'')"
    by (auto simp: placeholder_token_def make_placeholder_rest)
  show ?thesis
  proof (cases "k \<le> 6")
    case True
    then have "take k s = take k placeholder_prefix" by (simp add: s geometry_nums)
    then show ?thesis by (simp add: is_placeholder_prefix_def take_is_prefix)
  next
    case False
    let ?rest = "take (k - 6) (ty @ ''_'' @ digest @ ''__'')"
    have t: "take k s = placeholder_prefix @ ?rest" using False by (simp add: s geometry_nums)
    have "\<exists>t \<in> set [1..<Suc max_type_len]. prefix_round ?rest t = Some True"
      using body_decides [OF w refl, of "k - 6"] False by (force simp: max_type_len_def simp del: upt_Suc)
    then have "prefix_rounds ?rest [1..<Suc max_type_len]"
      using body_round [OF w refl, of "k - 6"] by (intro prefix_rounds_true) blast+
    moreover have "?rest \<noteq> []" using False by simp
    ultimately show ?thesis unfolding t by (intro is_prefix_split)
  qed
qed

lemma token_prefix_len: "placeholder_token s \<Longrightarrow> k \<le> length s \<Longrightarrow> k \<le> placeholder_prefix_len (take k s)"
proof (rule ccontr)
  assume a: "placeholder_token s" "k \<le> length s" "\<not> k \<le> placeholder_prefix_len (take k s)"
  then have "placeholder_prefix_len (take k s) < length (take k s)" by simp
  from placeholder_prefix_len_spec(2) [OF this] token_prefixes [OF a(1)] show False
    by (simp add: take_take)
qed

definition tokens_well_typed :: "bytes \<Rightarrow> bool" where
  "tokens_well_typed s \<longleftrightarrow>
     (\<forall>i. 0 < placeholder_token_len (drop i s) \<longrightarrow>
        placeholder_token (take (placeholder_token_len (drop i s)) (drop i s)))"

lemma tokens_foreseen: "tokens_well_typed s \<Longrightarrow> grammar.foreseen s"
  unfolding grammar.foreseen_def tokens_well_typed_def matcher_sel
proof (intro allI impI)
  fix i k
  assume w: "\<forall>i. 0 < placeholder_token_len (drop i s) \<longrightarrow>
      placeholder_token (take (placeholder_token_len (drop i s)) (drop i s))"
    and "0 < placeholder_token_len (drop i s)" and k: "k < placeholder_token_len (drop i s)"
  then have p: "placeholder_token (take (placeholder_token_len (drop i s)) (drop i s))" by blast
  have "k \<le> length (take (placeholder_token_len (drop i s)) (drop i s))"
    using k placeholder_token_le [of "drop i s"] by simp
  from token_prefix_len [OF p this] k show "k \<le> placeholder_prefix_len (take k (drop i s))"
    by (simp add: take_take min_def)
qed

text \<open>
  C16: The hold-back writer over the placeholder grammar does not depend on how the stream is cut
  into deltas: for a stream whose recognised tokens are all well-typed, feeding the deltas one by
  one emits and holds exactly what feeding the whole stream at once emits and holds, for every
  replacement function. A token split across deltas is thus replaced exactly once.
\<close>

theorem placeholder_stream_chunks:
  assumes "tokens_well_typed (concat cs)"
  shows "feed_chunks placeholder_matcher rep cs [] = feed_chunks placeholder_matcher rep [concat cs] []"
proof -
  have nil: "placeholder_token_len [] = 0" using placeholder_token_le [of "[]"] by simp
  have "grammar.foreseen ([] @ concat cs)" "grammar.foreseen ([] @ concat [concat cs])"
    using tokens_foreseen [OF assms] by simp_all
  from grammar.chunks_are_one_feed [OF this(1)] grammar.chunks_are_one_feed [OF this(2)]
  show ?thesis by (simp add: matcher_sel nil del: feed_chunks.simps)
qed

definition upper_secret :: "bytes \<Rightarrow> bytes option" where
  "upper_secret t = Some ''SECRET''"

lemma placeholder_stream_chunks_witness:
  "feed_chunks placeholder_matcher (Some upper_secret) [''x__PI'', ''I_k_0123456789a'', ''b__y''] [] =
   feed_chunks placeholder_matcher (Some upper_secret) [''x__PII_k_0123456789ab__y''] []
   \<and> feed_chunks placeholder_matcher (Some upper_secret) [''x__PII_k_0123456789ab__y''] [] = (''xSECRETy'', [])"
proof -
  let ?s = "''x__PII_k_0123456789ab__y''"
  have "list_all (\<lambda>i. placeholder_token_len (drop i ?s) = (if i = 1 then 22 else 0)) [0..<Suc (length ?s)]"
    by code_simp
  then have len: "placeholder_token_len (drop i ?s) = (if i = 1 then 22 else 0)" if "i \<le> length ?s" for i
    using that by (simp add: list_all_iff del: upt_Suc)
  have tok: "take 22 (drop 1 ?s) = make_placeholder ''k'' ''0123456789ab''" "well_typed ''k'' ''0123456789ab''"
    by code_simp+
  have "tokens_well_typed ?s"
    unfolding tokens_well_typed_def
  proof (intro allI impI)
    fix i assume p: "0 < placeholder_token_len (drop i ?s)"
    have "i \<le> length ?s"
    proof (rule ccontr)
      assume "\<not> i \<le> length ?s"
      then have "drop i ?s = []" by simp
      with p placeholder_token_le [of "[]"] show False by simp
    qed
    with p len have "i = 1" by (metis less_irrefl)
    with len [of 1] have "take (placeholder_token_len (drop i ?s)) (drop i ?s) = take 22 (drop 1 ?s)" by simp
    with tok show "placeholder_token (take (placeholder_token_len (drop i ?s)) (drop i ?s))"
      unfolding placeholder_token_def by metis
  qed
  then have "tokens_well_typed (concat [''x__PI'', ''I_k_0123456789a'', ''b__y''])" by simp
  from placeholder_stream_chunks [OF this, of "Some upper_secret"] have
    "feed_chunks placeholder_matcher (Some upper_secret) [''x__PI'', ''I_k_0123456789a'', ''b__y''] [] =
     feed_chunks placeholder_matcher (Some upper_secret) [?s] []" by simp
  moreover have "feed_chunks placeholder_matcher (Some upper_secret) [?s] [] = (''xSECRETy'', [])"
    by code_simp
  ultimately show ?thesis by simp
qed

text \<open>
  \<open>TokenLen\<close> does not check the alphabet of the type segment, \<open>isPlaceholderPrefix\<close> does: a
  token-shaped text with another byte there is one token when it arrives whole and plain bytes
  when it arrives split.
\<close>

lemma untyped_token_depends_on_chunks:
  "placeholder_token_len ''__PII_A_0123456789ab__'' = 22 \<and>
   \<not> is_placeholder_prefix ''__PII_A'' \<and>
   feed_chunks placeholder_matcher (Some upper_secret) [''__PII_A_0123456789ab__''] [] = (''SECRET'', []) \<and>
   feed_chunks placeholder_matcher (Some upper_secret) [''__PII_A'', ''_0123456789ab__''] [] =
     (''__PII_A_0123456789ab'', ''__'')"
  by code_simp

text \<open>
  The hold-back is bounded and loses nothing: after any deltas the writer holds at most one
  longest placeholder (89 bytes), far below the 256 KiB cap, and with a replacement that leaves
  tokens alone the emitted bytes followed by the held ones are exactly the stream.
\<close>

theorem placeholder_stream_bounded:
  assumes "feed_chunks placeholder_matcher rep cs [] = (out, held)"
  shows "length held \<le> max_placeholder_len \<and> length held \<le> sse_backfill_holdback_bytes \<and>
    (keeps_tokens rep \<longrightarrow> out @ held = concat cs)"
proof -
  have "length held \<le> max_placeholder_len"
  proof (cases "cs = []")
    case True
    with assms show ?thesis by simp
  next
    case False
    from feed_chunks_bound [OF this assms] show ?thesis unfolding grammar.limit_eq matcher_sel .
  qed
  moreover have "max_placeholder_len \<le> sse_backfill_holdback_bytes"
    by (simp add: geometry_nums sse_backfill_holdback_bytes_def)
  ultimately show ?thesis
    using feed_chunks_identity [OF _ assms] by auto
qed

lemma placeholder_stream_bounded_witness:
  "\<exists>out held. feed_chunks placeholder_matcher None [''a__PII_k'', ''ey_01''] [] = (out, held) \<and>
    held = ''__PII_key_01'' \<and> length held \<le> max_placeholder_len \<and> out @ held = ''a__PII_key_01''"
proof -
  have f: "feed_chunks placeholder_matcher None [''a__PII_k'', ''ey_01''] [] = (''a'', ''__PII_key_01'')"
    by code_simp
  from placeholder_stream_bounded [OF f] f show ?thesis
    by (intro exI [of _ "''a''"] exI [of _ "''__PII_key_01''"]) simp
qed

end
