(* ===== verification/Placeholder.thy ===== *)
theory Placeholder
  imports Grammar
begin

text \<open>
  \<open>pkg/redact/placeholder.go\<close> and \<open>forward_writer.go\<close>: the engine that mints session-scoped
  placeholders. Its forward map is an association list with distinct keys. The digest function is
  a field of the engine in the source (HMAC-SHA256 by default), so it is a field here and nothing
  is assumed of it: uniqueness comes from the ladder and the check against all earlier values.
\<close>

section \<open>The engine\<close>

record engine =
  eng_digest :: "bytes \<Rightarrow> bytes \<Rightarrow> bytes \<Rightarrow> bytes"
  eng_salt :: bytes
  eng_forward :: "(bytes \<times> bytes) list"

datatype redact_error = DigestExhausted

definition new_engine :: "(bytes \<Rightarrow> bytes \<Rightarrow> bytes \<Rightarrow> bytes) \<Rightarrow> bytes \<Rightarrow> engine" where
  "new_engine digest salt = \<lparr>eng_digest = digest, eng_salt = salt, eng_forward = []\<rparr>"

definition digest_ladder :: "nat list" where
  "digest_ladder = [min_digest_len, 16, 24, 32, 48, max_digest_len]"

definition sanitize_kind :: "bytes \<Rightarrow> bytes" where
  "sanitize_kind kind =
     (let b = map (\<lambda>c. if is_lower c \<or> is_ascii_digit c then c else CHR ''_'') (take max_type_len kind)
      in if b = [] then ''unknown'' else b)"

definition taken :: "engine \<Rightarrow> bytes \<Rightarrow> bool" where
  "taken e candidate \<longleftrightarrow> (\<exists>(k, existing) \<in> set (eng_forward e). existing = candidate)"

definition forward_key :: "bytes \<Rightarrow> bytes \<Rightarrow> bytes" where
  "forward_key clean secret = clean @ [CHR 0x00] @ secret"

text \<open>The ladder loop: the first candidate of an available length that is not taken.\<close>

fun climb :: "engine \<Rightarrow> bytes \<Rightarrow> bytes \<Rightarrow> nat list \<Rightarrow> bytes option" where
  "climb e clean hex [] = None"
| "climb e clean hex (n # ns) =
     (if length hex < n then climb e clean hex ns
      else
        let candidate = make_placeholder clean (take n hex)
        in if \<not> taken e candidate then Some candidate else climb e clean hex ns)"

definition placeholder :: "engine \<Rightarrow> bytes \<Rightarrow> bytes \<Rightarrow> (redact_error, bytes) result \<times> engine" where
  "placeholder e secret kind =
     (let clean = sanitize_kind kind; key = forward_key clean secret
      in case map_of (eng_forward e) key of
           Some p \<Rightarrow> (Inr p, e)
         | None \<Rightarrow>
             (case climb e clean (hex_encode (eng_digest e (eng_salt e) clean secret)) digest_ladder of
                Some p \<Rightarrow> (Inr p, e\<lparr>eng_forward := (key, p) # eng_forward e\<rparr>)
              | None \<Rightarrow> (Inl DigestExhausted, e)))"

text \<open>\<open>redactBody\<close>: every occurrence of each non-empty secret is replaced, in order.\<close>

fun redact_body :: "engine \<Rightarrow> bytes \<Rightarrow> bytes list \<Rightarrow> bytes \<Rightarrow> (redact_error, bytes) result \<times> engine" where
  "redact_body e body [] kind = (Inr body, e)"
| "redact_body e body (s # ss) kind =
     (if s = [] then redact_body e body ss kind
      else case placeholder e s kind of
        (Inl err, e') \<Rightarrow> (Inl err, e')
      | (Inr p, e') \<Rightarrow> redact_body e' (replace_all s p body) ss kind)"

section \<open>What a minted placeholder looks like\<close>

lemma sanitize_kind_wf:
  "1 \<le> length (sanitize_kind kind) \<and> length (sanitize_kind kind) \<le> 16 \<and> list_all is_type_char (sanitize_kind kind)"
proof (cases "take max_type_len kind = []")
  case True
  then have "sanitize_kind kind = ''unknown''" by (simp add: sanitize_kind_def)
  moreover have "list_all is_type_char ''unknown''" by code_simp
  ultimately show ?thesis by simp
next
  case False
  then have "sanitize_kind kind =
      map (\<lambda>c. if is_lower c \<or> is_ascii_digit c then c else CHR ''_'') (take max_type_len kind)"
    by (simp add: sanitize_kind_def Let_def)
  with False show ?thesis
    by (auto simp: list_all_iff is_type_char_def max_type_len_def Suc_le_eq)
qed

lemma sanitize_kind_no_nul: "CHR 0x00 \<notin> set (sanitize_kind kind)"
  using sanitize_kind_wf [of kind] by (auto simp: list_all_iff is_type_char_def ascii_defs)

lemma hex_encode_digits: "list_all is_hex_digit (hex_encode s)"
proof -
  have "is_hex_digit (hex_digit n)" if "n < 16" for n
  proof -
    have "\<forall>n \<in> set [0..<16]. is_hex_digit (hex_digit n)" by code_simp
    with that show ?thesis by simp
  qed
  then show ?thesis
    by (auto simp: hex_encode_def list_all_iff less_mult_imp_div_less)
qed

lemma climb_SomeD:
  "climb e clean hex ns = Some p \<Longrightarrow>
     \<exists>n \<in> set ns. n \<le> length hex \<and> p = make_placeholder clean (take n hex) \<and> \<not> taken e p"
  by (induction ns) (auto simp: Let_def split: if_splits)

lemma climb_NoneD:
  "climb e clean hex ns = None \<Longrightarrow> n \<in> set ns \<Longrightarrow> n \<le> length hex \<Longrightarrow>
     taken e (make_placeholder clean (take n hex))"
  by (induction ns) (auto simp: Let_def split: if_splits)

lemma ladder_bounds: "n \<in> set digest_ladder \<Longrightarrow> 12 \<le> n \<and> n \<le> 64"
  by (auto simp: digest_ladder_def geometry)

lemma climb_well_typed:
  assumes "climb e (sanitize_kind kind) (hex_encode d) digest_ladder = Some p"
  shows "\<exists>digest. well_typed (sanitize_kind kind) digest \<and> p = make_placeholder (sanitize_kind kind) digest"
proof -
  from climb_SomeD [OF assms] obtain n where
    n: "n \<in> set digest_ladder" "n \<le> length (hex_encode d)"
    "p = make_placeholder (sanitize_kind kind) (take n (hex_encode d))" by blast
  have "list_all is_hex_digit (take n (hex_encode d))"
    using hex_encode_digits [of d] by (auto simp: list_all_iff dest: in_set_takeD)
  moreover have "length (take n (hex_encode d)) = n" using n(2) by simp
  ultimately show ?thesis
    using n(3) ladder_bounds [OF n(1)] sanitize_kind_wf [of kind]
    by (intro exI [of _ "take n (hex_encode d)"]) (simp add: well_typed_def)
qed

section \<open>The forward map\<close>

text \<open>The invariant: keys and values are each pairwise distinct and every value is a placeholder.\<close>

definition engine_ok :: "engine \<Rightarrow> bool" where
  "engine_ok e \<longleftrightarrow>
     distinct (map fst (eng_forward e)) \<and> distinct (map snd (eng_forward e)) \<and>
     list_all placeholder_token (map snd (eng_forward e))"

lemma new_engine_ok: "engine_ok (new_engine digest salt)"
  by (simp add: engine_ok_def new_engine_def)

lemma placeholder_cases:
  assumes "placeholder e secret kind = (r, e')"
  obtains (known) p where "map_of (eng_forward e) (forward_key (sanitize_kind kind) secret) = Some p" "r = Inr p" "e' = e"
  | (fresh) p where "map_of (eng_forward e) (forward_key (sanitize_kind kind) secret) = None" "r = Inr p"
      "e' = e\<lparr>eng_forward := (forward_key (sanitize_kind kind) secret, p) # eng_forward e\<rparr>"
      "\<not> taken e p" "placeholder_token p"
  | (exhausted) "map_of (eng_forward e) (forward_key (sanitize_kind kind) secret) = None"
      "r = Inl DigestExhausted" "e' = e"
      "climb e (sanitize_kind kind) (hex_encode (eng_digest e (eng_salt e) (sanitize_kind kind) secret)) digest_ladder = None"
proof (cases "map_of (eng_forward e) (forward_key (sanitize_kind kind) secret)")
  case (Some p)
  with assms have "r = Inr p" "e' = e" by (simp_all add: placeholder_def Let_def)
  then show ?thesis by (rule known [OF Some])
next
  case None
  let ?c = "climb e (sanitize_kind kind) (hex_encode (eng_digest e (eng_salt e) (sanitize_kind kind) secret)) digest_ladder"
  show ?thesis
  proof (cases ?c)
    case c: None
    with assms None have "r = Inl DigestExhausted" "e' = e" by (simp_all add: placeholder_def Let_def)
    then show ?thesis using c by (rule exhausted [OF None])
  next
    case (Some p)
    have tok: "placeholder_token p" using climb_well_typed [OF Some] unfolding placeholder_token_def by blast
    have tk: "\<not> taken e p" using climb_SomeD [OF Some] by blast
    from assms None Some have "r = Inr p"
      "e' = e\<lparr>eng_forward := (forward_key (sanitize_kind kind) secret, p) # eng_forward e\<rparr>"
      by (simp_all add: placeholder_def Let_def)
    then show ?thesis using tk tok by (rule fresh [OF None])
  qed
qed

lemma placeholder_ok: "engine_ok e \<Longrightarrow> placeholder e secret kind = (r, e') \<Longrightarrow> engine_ok e'"
  by (erule placeholder_cases)
    (auto simp: engine_ok_def taken_def map_of_eq_None_iff rev_image_eqI)

lemma placeholder_recorded:
  "placeholder e secret kind = (Inr p, e') \<Longrightarrow>
     map_of (eng_forward e') (forward_key (sanitize_kind kind) secret) = Some p"
  by (erule placeholder_cases) auto

lemma placeholder_extends:
  "placeholder e secret kind = (r, e') \<Longrightarrow> map_of (eng_forward e) k = Some q \<Longrightarrow> map_of (eng_forward e') k = Some q"
  by (erule placeholder_cases) auto

lemma engine_value_inj:
  "engine_ok e \<Longrightarrow> map_of (eng_forward e) k = Some p \<Longrightarrow> map_of (eng_forward e) k' = Some p \<Longrightarrow> k = k'"
  unfolding engine_ok_def
  by (metis map_of_SomeD distinct_map inj_onD snd_conv prod.inject)

lemma forward_key_inj:
  "CHR 0x00 \<notin> set a \<Longrightarrow> CHR 0x00 \<notin> set b \<Longrightarrow> forward_key a s = forward_key b t \<longleftrightarrow> a = b \<and> s = t"
proof (induction a arbitrary: b)
  case Nil
  then show ?case by (cases b) (auto simp: forward_key_def)
next
  case (Cons x a)
  show ?case
  proof (cases b)
    case Nil
    with Cons.prems show ?thesis by (auto simp: forward_key_def)
  next
    case (Cons y b')
    with Cons.IH [of b'] Cons.prems show ?thesis by (auto simp: forward_key_def)
  qed
qed

section \<open>A session\<close>

text \<open>A run of mint requests against one engine; failed ones leave the engine as it was.\<close>

fun mint_all :: "engine \<Rightarrow> (bytes \<times> bytes) list \<Rightarrow> (redact_error, bytes) result list \<times> engine" where
  "mint_all e [] = ([], e)"
| "mint_all e ((secret, kind) # rs) =
     (let (r, e') = placeholder e secret kind; (out, e'') = mint_all e' rs in (r # out, e''))"

lemma mint_all_extends:
  "mint_all e rs = (out, e') \<Longrightarrow> map_of (eng_forward e) k = Some q \<Longrightarrow> map_of (eng_forward e') k = Some q"
proof (induction rs arbitrary: e out)
  case (Cons x rs)
  obtain secret kind where x: "x = (secret, kind)" by (cases x)
  obtain r e1 where p: "placeholder e secret kind = (r, e1)" by fastforce
  obtain out1 e2 where m: "mint_all e1 rs = (out1, e2)" by fastforce
  with Cons.prems(1) p x have "e' = e2" by simp
  with Cons.IH [of e1 out1] m placeholder_extends [OF p Cons.prems(2)] show ?case by simp
qed simp

lemma mint_all_recorded:
  "mint_all e rs = (out, e') \<Longrightarrow> engine_ok e \<Longrightarrow> engine_ok e' \<and> length out = length rs \<and>
     (\<forall>i p. i < length rs \<longrightarrow> out ! i = Inr p \<longrightarrow>
        map_of (eng_forward e') (forward_key (sanitize_kind (snd (rs ! i))) (fst (rs ! i))) = Some p)"
proof (induction rs arbitrary: e out)
  case (Cons x rs)
  obtain secret kind where x: "x = (secret, kind)" by (cases x)
  obtain r e1 where p: "placeholder e secret kind = (r, e1)" by fastforce
  obtain out1 e2 where m: "mint_all e1 rs = (out1, e2)" by fastforce
  from Cons.prems(1) p m x have o: "out = r # out1" "e' = e2" by auto
  from Cons.IH [of e1 out1] m placeholder_ok [OF Cons.prems(2) p] o(2) have
    ih: "engine_ok e'" "length out1 = length rs"
    "\<forall>i q. i < length rs \<longrightarrow> out1 ! i = Inr q \<longrightarrow>
       map_of (eng_forward e') (forward_key (sanitize_kind (snd (rs ! i))) (fst (rs ! i))) = Some q"
    by auto
  have "map_of (eng_forward e') (forward_key (sanitize_kind kind) secret) = Some q" if "r = Inr q" for q
    using mint_all_extends [OF m placeholder_recorded] p that o(2) by simp
  with ih o x show ?case by (auto simp: nth_Cons split: nat.splits)
qed simp

text \<open>
  C7: In one session, however many placeholders are minted and whatever the digest function
  returns, every placeholder minted is a token of the documented grammar, and two requests get
  the same placeholder exactly when they are for the same secret under the same sanitized kind.
  So distinct secrets never share a placeholder, also when their digests collide.
\<close>

theorem session_placeholders_unique:
  assumes "mint_all (new_engine digest salt) rs = (out, e)" "i < length rs" "j < length rs"
    and "out ! i = Inr p" "out ! j = Inr q"
  shows "placeholder_token p \<and>
    (p = q \<longleftrightarrow> sanitize_kind (snd (rs ! i)) = sanitize_kind (snd (rs ! j)) \<and> fst (rs ! i) = fst (rs ! j))"
proof -
  let ?k = "\<lambda>i. forward_key (sanitize_kind (snd (rs ! i))) (fst (rs ! i))"
  from mint_all_recorded [OF assms(1) new_engine_ok] assms(2-5) have
    e: "engine_ok e" "map_of (eng_forward e) (?k i) = Some p" "map_of (eng_forward e) (?k j) = Some q" by auto
  have "snd (?k i, p) \<in> set (map snd (eng_forward e))"
    unfolding set_map using map_of_SomeD [OF e(2)] by (rule imageI)
  then have "placeholder_token p" using e(1) unfolding engine_ok_def list_all_iff snd_conv by blast
  moreover have "p = q \<longleftrightarrow> ?k i = ?k j"
  proof
    assume "p = q"
    with e(3) have "map_of (eng_forward e) (?k j) = Some p" by (simp only:)
    with e(1,2) show "?k i = ?k j" by (rule engine_value_inj)
  next
    assume "?k i = ?k j"
    with e(2,3) show "p = q" by (simp only: option.inject)
  qed
  ultimately show ?thesis
    by (simp add: forward_key_inj sanitize_kind_no_nul)
qed

text \<open>A constant digest function: every two secrets collide and the ladder separates them.\<close>

definition colliding_digest :: "bytes \<Rightarrow> bytes \<Rightarrow> bytes \<Rightarrow> bytes" where
  "colliding_digest salt kind secret = replicate 32 CHR 0xAB"

definition sample_requests :: "(bytes \<times> bytes) list" where
  "sample_requests = [(''alice'', ''e-mail''), (''bob'', ''e-mail''), (''alice'', ''e.mail'')]"

lemma session_placeholders_unique_witness:
  "\<exists>p q r e. mint_all (new_engine colliding_digest []) sample_requests = ([Inr p, Inr q, Inr r], e) \<and>
    placeholder_token p \<and> p \<noteq> q \<and> p = r"
proof -
  let ?p = "''__PII_e_mail_abababababab__''" and ?q = "''__PII_e_mail_abababababababab__''"
  obtain e where m: "mint_all (new_engine colliding_digest []) sample_requests = ([Inr ?p, Inr ?q, Inr ?p], e)"
  proof -
    have "fst (mint_all (new_engine colliding_digest []) sample_requests) = [Inr ?p, Inr ?q, Inr ?p]"
      by code_simp
    then show ?thesis using that by (metis prod.collapse)
  qed
  have len: "0 < length sample_requests" "1 < length sample_requests" by (simp_all add: sample_requests_def)
  have nth: "[Inr ?p, Inr ?q, Inr ?p] ! 0 = (Inr ?p :: (redact_error, bytes) result)"
    "[Inr ?p, Inr ?q, Inr ?p] ! 1 = (Inr ?q :: (redact_error, bytes) result)" by (simp_all only: nth_Cons_0 nth_Cons_Suc One_nat_def)
  from session_placeholders_unique [OF m len nth] have tok: "placeholder_token ?p" by blast
  have pq: "?p \<noteq> ?q" by code_simp
  show ?thesis by (intro exI conjI) (rule m, rule tok, rule pq, rule refl)
qed

text \<open>
  Minting fails only when it must: the error is returned exactly for a new secret whose every
  ladder candidate that the digest is long enough for is already taken by another secret, and then
  the engine is unchanged.
\<close>

theorem mint_fails_iff_exhausted:
  "fst (placeholder e secret kind) = Inl DigestExhausted \<longleftrightarrow>
     map_of (eng_forward e) (forward_key (sanitize_kind kind) secret) = None \<and>
     (\<forall>n. n \<in> set digest_ladder \<and>
        n \<le> 2 * length (eng_digest e (eng_salt e) (sanitize_kind kind) secret) \<longrightarrow>
        taken e (make_placeholder (sanitize_kind kind)
          (take n (hex_encode (eng_digest e (eng_salt e) (sanitize_kind kind) secret)))))"
proof -
  let ?d = "eng_digest e (eng_salt e) (sanitize_kind kind) secret"
  have c: "climb e (sanitize_kind kind) (hex_encode ?d) digest_ladder = None \<longleftrightarrow>
    (\<forall>n. n \<in> set digest_ladder \<and> n \<le> 2 * length ?d \<longrightarrow>
      taken e (make_placeholder (sanitize_kind kind) (take n (hex_encode ?d))))"
  proof
    assume "climb e (sanitize_kind kind) (hex_encode ?d) digest_ladder = None"
    from climb_NoneD [OF this] show "\<forall>n. n \<in> set digest_ladder \<and> n \<le> 2 * length ?d \<longrightarrow>
      taken e (make_placeholder (sanitize_kind kind) (take n (hex_encode ?d)))" by simp
  next
    assume all: "\<forall>n. n \<in> set digest_ladder \<and> n \<le> 2 * length ?d \<longrightarrow>
      taken e (make_placeholder (sanitize_kind kind) (take n (hex_encode ?d)))"
    show "climb e (sanitize_kind kind) (hex_encode ?d) digest_ladder = None"
    proof (rule ccontr)
      assume "climb e (sanitize_kind kind) (hex_encode ?d) digest_ladder \<noteq> None"
      then obtain p where "climb e (sanitize_kind kind) (hex_encode ?d) digest_ladder = Some p" by auto
      from climb_SomeD [OF this] all show False by auto
    qed
  qed
  show ?thesis
    using c by (auto simp: placeholder_def Let_def split: option.splits)
qed

lemma mint_fails_iff_exhausted_witness:
  "fst (placeholder (snd (mint_all (new_engine (\<lambda>_ _ _. replicate 6 CHR 0xAB) []) [(''a'', ''k'')])) ''b'' ''k'')
     = Inl DigestExhausted"
proof -
  let ?e = "snd (mint_all (new_engine (\<lambda>_ _ _. replicate 6 CHR 0xAB) []) [(''a'', ''k'')])"
  have h: "map_of (eng_forward ?e) (forward_key (sanitize_kind ''k'') ''b'') = None"
    "list_all (\<lambda>n. n \<le> 12 \<longrightarrow> taken ?e (make_placeholder (sanitize_kind ''k'')
      (take n (hex_encode (eng_digest ?e (eng_salt ?e) (sanitize_kind ''k'') ''b''))))) digest_ladder"
    "length (eng_digest ?e (eng_salt ?e) (sanitize_kind ''k'') ''b'') = 6"
    by code_simp+
  then show ?thesis unfolding mint_fails_iff_exhausted list_all_iff by simp
qed

end
