(* ===== verification/Utf8.thy ===== *)
theory Utf8
  imports Prelude
begin

text \<open>
  The part of Go's \<open>unicode/utf8\<close> package the protocol layer calls: \<open>DecodeRune\<close>, \<open>EncodeRune\<close>,
  \<open>RuneLen\<close> and \<open>Valid\<close>. A rune is a code point as a number. \<open>DecodeRune\<close> answers the
  replacement rune with width 1 on malformed input and with width 0 on empty input.
\<close>

section \<open>Decoding one rune\<close>

type_synonym rune = nat

definition rune_error :: rune where
  "rune_error = 0xFFFD"

definition is_cont :: "char \<Rightarrow> bool" where
  "is_cont c \<longleftrightarrow> 0x80 \<le> byte_val c \<and> byte_val c \<le> 0xBF"

definition cont_bits :: "char \<Rightarrow> nat" where
  "cont_bits c = byte_val c mod 64"

text \<open>The accepted range of the second byte of a three- or four-byte sequence.\<close>

definition second_ok :: "nat \<Rightarrow> char \<Rightarrow> bool" where
  "second_ok b0 c \<longleftrightarrow> is_cont c \<and>
     (b0 = 0xE0 \<longrightarrow> 0xA0 \<le> byte_val c) \<and> (b0 = 0xED \<longrightarrow> byte_val c \<le> 0x9F) \<and>
     (b0 = 0xF0 \<longrightarrow> 0x90 \<le> byte_val c) \<and> (b0 = 0xF4 \<longrightarrow> byte_val c \<le> 0x8F)"

fun decode_rune :: "bytes \<Rightarrow> rune \<times> nat" where
  "decode_rune [] = (rune_error, 0)"
| "decode_rune (a # s) =
     (let b0 = byte_val a in
      if b0 < 0x80 then (b0, 1)
      else if 0xC2 \<le> b0 \<and> b0 \<le> 0xDF then
        (case s of
           b # _ \<Rightarrow> if is_cont b then ((b0 mod 32) * 64 + cont_bits b, 2) else (rune_error, 1)
         | [] \<Rightarrow> (rune_error, 1))
      else if 0xE0 \<le> b0 \<and> b0 \<le> 0xEF then
        (case s of
           b # c # _ \<Rightarrow> if second_ok b0 b \<and> is_cont c
             then ((b0 mod 16) * 4096 + cont_bits b * 64 + cont_bits c, 3) else (rune_error, 1)
         | _ \<Rightarrow> (rune_error, 1))
      else if 0xF0 \<le> b0 \<and> b0 \<le> 0xF4 then
        (case s of
           b # c # d # _ \<Rightarrow> if second_ok b0 b \<and> is_cont c \<and> is_cont d
             then ((b0 mod 8) * 262144 + cont_bits b * 4096 + cont_bits c * 64 + cont_bits d, 4)
             else (rune_error, 1)
         | _ \<Rightarrow> (rune_error, 1))
      else (rune_error, 1))"

definition rune_width :: "bytes \<Rightarrow> nat" where
  "rune_width s = snd (decode_rune s)"

lemma rune_width_pos [simp]: "s \<noteq> [] \<Longrightarrow> 0 < rune_width s"
  by (cases s) (auto simp: rune_width_def Let_def split: list.splits)

lemma rune_width_le [len_simps]: "rune_width s \<le> length s"
  by (cases s) (auto simp: rune_width_def Let_def split: list.splits)

lemma rune_width_Nil [simp]: "rune_width [] = 0"
  by (simp add: rune_width_def)

lemma decode_rune_ascii: "byte_val a < 0x80 \<Longrightarrow> decode_rune (a # s) = (byte_val a, 1)"
  by simp

lemma rune_width_ascii [simp]: "byte_val a < 0x80 \<Longrightarrow> rune_width (a # s) = 1"
  by (simp add: rune_width_def)

text \<open>Every byte of a multi-byte sequence is at least 0x80, so ASCII bytes are rune boundaries.\<close>

lemma decode_rune_high:
  assumes "\<not> byte_val a < 0x80"
  shows "\<forall>c \<in> set (take (rune_width (a # s)) (a # s)). 0x80 \<le> byte_val c"
  using assms
  by (auto simp: rune_width_def Let_def second_ok_def is_cont_def split: list.splits if_splits)

lemma decode_rune_append:
  assumes "rune_width s = length s" and "decode_rune s = (r, n)" and "s \<noteq> []"
    and "n = 1 \<longrightarrow> byte_val (hd s) < 0x80"
  shows "decode_rune (s @ t) = (r, n)"
proof -
  obtain a s' where s: "s = a # s'" using assms(3) by (cases s) auto
  show ?thesis
    using assms unfolding s
    by (auto simp: rune_width_def Let_def split: list.splits if_splits)
qed

section \<open>Validity\<close>

function valid_utf8 :: "bytes \<Rightarrow> bool" where
  "valid_utf8 [] = True"
| "valid_utf8 (a # s) =
     (if byte_val a < 0x80 then valid_utf8 s
      else rune_width (a # s) \<noteq> 1 \<and> valid_utf8 (drop (rune_width (a # s)) (a # s)))"
  by pat_completeness auto
termination
  by (relation "measure length") (auto simp: rune_width_pos)

lemma valid_utf8_ascii: "\<forall>c \<in> set s. byte_val c < 0x80 \<Longrightarrow> valid_utf8 s"
  by (induction s) auto

section \<open>Encoding\<close>

definition rune_len :: "rune \<Rightarrow> nat" where
  "rune_len r =
     (if r < 0x80 then 1 else if r < 0x800 then 2
      else if 0xD800 \<le> r \<and> r \<le> 0xDFFF then 3
      else if r < 0x10000 then 3 else if r \<le> 0x10FFFF then 4 else 3)"

text \<open>\<open>EncodeRune\<close>: a surrogate or an out-of-range value is encoded as the replacement rune.\<close>

definition encode_rune :: "rune \<Rightarrow> bytes" where
  "encode_rune r0 =
     (let r = (if (0xD800 \<le> r0 \<and> r0 \<le> 0xDFFF) \<or> 0x10FFFF < r0 then rune_error else r0) in
      if r < 0x80 then [char_of r]
      else if r < 0x800 then [char_of (0xC0 + r div 64), char_of (0x80 + r mod 64)]
      else if r < 0x10000 then
        [char_of (0xE0 + r div 4096), char_of (0x80 + r div 64 mod 64), char_of (0x80 + r mod 64)]
      else [char_of (0xF0 + r div 262144), char_of (0x80 + r div 4096 mod 64),
            char_of (0x80 + r div 64 mod 64), char_of (0x80 + r mod 64)])"

lemma length_encode_rune: "length (encode_rune r) = rune_len r"
  by (auto simp: encode_rune_def rune_len_def rune_error_def Let_def)

lemma encode_rune_not_Nil [simp]: "encode_rune r \<noteq> []"
  by (auto simp: encode_rune_def Let_def)

section \<open>Encoding inverts decoding\<close>

lemma decode_rune_take:
  assumes "decode_rune s = (r, n)" "2 \<le> n"
  shows "decode_rune (take n s @ t) = (r, n)"
proof -
  obtain a s' where s: "s = a # s'" using assms by (cases s) auto
  show ?thesis
    using assms unfolding s
    by (auto simp: Let_def split: list.splits if_splits)
qed

text \<open>A well-formed multi-byte sequence is determined by its code point.\<close>

definition high_sequence :: "bytes \<Rightarrow> bool" where
  "high_sequence s \<longleftrightarrow> 2 \<le> rune_width s \<and> length s = rune_width s"

lemma mod_offset: "m dvd b \<Longrightarrow> k < m \<Longrightarrow> (b + k) mod m = (k :: nat)"
  by (elim dvdE) simp

lemma cont_bits_byte: "is_cont c \<Longrightarrow> char_of (0x80 + cont_bits c) = c"
proof -
  assume "is_cont c"
  then obtain k where "byte_val c = 0x80 + k" "k < 64"
    unfolding is_cont_def using le_Suc_ex [of "0x80" "byte_val c"] by auto
  then have "byte_val c = 0x80 + cont_bits c" by (simp add: cont_bits_def mod_offset)
  then show ?thesis by (metis char_of_char)
qed

lemma lead_byte: "byte_val a = b + k \<Longrightarrow> char_of (b + k) = (a :: char)"
  by (metis char_of_char)

lemma cont_bits_less [simp]: "cont_bits c < 64"
  by (simp add: cont_bits_def)

lemma encode_two:
  assumes "0xC2 \<le> byte_val a" "byte_val a \<le> 0xDF" "is_cont b"
  shows "encode_rune ((byte_val a mod 32) * 64 + cont_bits b) = [a, b]"
proof -
  obtain k where k: "byte_val a = 0xC0 + k" "2 \<le> k" "k < 32"
    using assms le_Suc_ex [of "0xC2" "byte_val a"] by (auto simp: algebra_simps)
  have r: "(byte_val a mod 32) * 64 + cont_bits b = k * 64 + cont_bits b"
    using k by (simp add: mod_offset)
  have m: "(k * 64 + cont_bits b) mod 64 = cont_bits b" "(k * 64 + cont_bits b) div 64 = k"
    by simp_all
  have "\<not> k * 64 + cont_bits b < 0x80" "k * 64 + cont_bits b < 0x800"
    using k cont_bits_less [of b] by linarith+
  then show ?thesis
    unfolding r encode_rune_def Let_def
    using m lead_byte [OF k(1)] cont_bits_byte [OF assms(3)] by simp
qed

lemma div_mod_64:
  fixes x y z :: nat
  assumes "y < 64" "z < 64"
  shows "(x * 4096 + y * 64 + z) div 4096 = x" "(x * 4096 + y * 64 + z) div 64 mod 64 = y"
    "(x * 4096 + y * 64 + z) mod 64 = z" "(x * 4096 + y * 64 + z) div 64 = x * 64 + y"
proof -
  have "x * 4096 + y * 64 + z = (x * 64 + y) * 64 + z" by simp
  then show d: "(x * 4096 + y * 64 + z) div 64 = x * 64 + y"
    and "(x * 4096 + y * 64 + z) mod 64 = z"
    using assms by (simp_all only: div_mult_self3 mod_mult_self3) auto
  from d show "(x * 4096 + y * 64 + z) div 64 mod 64 = y" using assms by simp
  have "(x * 4096 + y * 64 + z) div 4096 = (x * 4096 + y * 64 + z) div 64 div 64"
    by (simp flip: div_mult2_eq)
  with d assms show "(x * 4096 + y * 64 + z) div 4096 = x" by simp
qed

lemma encode_three:
  assumes "0xE0 \<le> byte_val a" "byte_val a \<le> 0xEF" "second_ok (byte_val a) b" "is_cont c"
  shows "encode_rune ((byte_val a mod 16) * 4096 + cont_bits b * 64 + cont_bits c) = [a, b, c]"
proof -
  obtain k where k: "byte_val a = 0xE0 + k" "k < 16"
    using assms le_Suc_ex [of "0xE0" "byte_val a"] by (auto simp: algebra_simps)
  let ?r = "k * 4096 + cont_bits b * 64 + cont_bits c"
  have r: "(byte_val a mod 16) * 4096 + cont_bits b * 64 + cont_bits c = ?r"
    using k by (simp add: mod_offset)
  obtain j where j: "byte_val b = 0x80 + j" "j < 64" "cont_bits b = j"
    using assms(3) le_Suc_ex [of "0x80" "byte_val b"]
    by (auto simp: second_ok_def is_cont_def cont_bits_def mod_offset)
  have lo: "\<not> ?r < 0x800"
    using k j assms(3) by (cases "k = 0") (auto simp: second_ok_def)
  have hi: "?r < 0x10000" using k cont_bits_less [of b] cont_bits_less [of c] by linarith
  have sur: "\<not> (0xD800 \<le> ?r \<and> ?r \<le> 0xDFFF)"
  proof
    assume "0xD800 \<le> ?r \<and> ?r \<le> 0xDFFF"
    then have k13: "k = 13" using j cont_bits_less [of c] by linarith
    with \<open>0xD800 \<le> ?r \<and> ?r \<le> 0xDFFF\<close> j cont_bits_less [of c] have "32 \<le> j" by linarith
    with k13 assms(3) k j show False by (simp add: second_ok_def)
  qed
  have "is_cont b" using assms(3) by (simp add: second_ok_def)
  have "\<not> ((0xD800 \<le> ?r \<and> ?r \<le> 0xDFFF) \<or> 0x10FFFF < ?r)" using sur hi by linarith
  note keep = if_not_P [OF this]
  from lo hi \<open>is_cont b\<close> show ?thesis
    unfolding r encode_rune_def Let_def keep
    using lead_byte [OF k(1)] cont_bits_byte [of b] cont_bits_byte [OF assms(4)]
      div_mod_64 [of "cont_bits b" "cont_bits c" k] by simp
qed

lemma encode_four:
  assumes "0xF0 \<le> byte_val a" "byte_val a \<le> 0xF4" "second_ok (byte_val a) b" "is_cont c" "is_cont d"
  shows "encode_rune ((byte_val a mod 8) * 262144 + cont_bits b * 4096 + cont_bits c * 64 + cont_bits d)
    = [a, b, c, d]"
proof -
  obtain k where k: "byte_val a = 0xF0 + k" "k < 5"
    using assms le_Suc_ex [of "0xF0" "byte_val a"] by (auto simp: algebra_simps)
  let ?r = "(k * 64 + cont_bits b) * 4096 + cont_bits c * 64 + cont_bits d"
  have r: "(byte_val a mod 8) * 262144 + cont_bits b * 4096 + cont_bits c * 64 + cont_bits d = ?r"
    using k by (simp add: mod_offset)
  obtain j where j: "byte_val b = 0x80 + j" "j < 64" "cont_bits b = j"
    using assms(3) le_Suc_ex [of "0x80" "byte_val b"]
    by (auto simp: second_ok_def is_cont_def cont_bits_def mod_offset)
  have lo: "\<not> ?r < 0x10000"
    using k j assms(3) by (cases "k = 0") (auto simp: second_ok_def)
  have "k = 4 \<longrightarrow> j < 16" using k j assms(3) by (auto simp: second_ok_def)
  then have hi': "k * 262144 + j * 4096 + cont_bits c * 64 + cont_bits d \<le> 0x10FFFF"
  proof (cases "k = 4")
    case False
    then have "k \<le> 3" using k by simp
    then show ?thesis using j cont_bits_less [of c] cont_bits_less [of d] by linarith
  next
    case True
    then show ?thesis
      using \<open>k = 4 \<longrightarrow> j < 16\<close> j cont_bits_less [of c] cont_bits_less [of d] by linarith
  qed
  have hi: "?r \<le> 0x10FFFF" using hi' j(3) by (simp add: algebra_simps)
  have "?r div 262144 = ?r div 4096 div 64" by (simp flip: div_mult2_eq)
  also have "\<dots> = k" using div_mod_64(1) [of "cont_bits c" "cont_bits d" "k * 64 + cont_bits b"] by simp
  finally have q: "?r div 262144 = k" .
  have "is_cont b" using assms(3) by (simp add: second_ok_def)
  have "\<not> ((0xD800 \<le> ?r \<and> ?r \<le> 0xDFFF) \<or> 0x10FFFF < ?r)" using lo hi by linarith
  note keep = if_not_P [OF this]
  from lo q \<open>is_cont b\<close> show ?thesis
    unfolding r encode_rune_def Let_def keep
    using lead_byte [OF k(1)] cont_bits_byte [of b] cont_bits_byte [OF assms(4)]
      cont_bits_byte [OF assms(5)]
      div_mod_64 [of "cont_bits c" "cont_bits d" "k * 64 + cont_bits b"] by simp
qed

lemma encode_decode:
  assumes "decode_rune s = (r, n)" "2 \<le> n"
  shows "encode_rune r = take n s"
proof -
  obtain a s' where s: "s = a # s'" using assms by (cases s) auto
  show ?thesis
    using assms unfolding s
    by (auto simp: Let_def encode_two encode_three encode_four split: list.splits if_splits)
qed

section \<open>Validity of encodings and of parts\<close>

lemma mod64_le: "(m :: nat) mod 64 \<le> 63"
  using mod_less_divisor [of 64 m] by linarith

lemma cont_byte: "is_cont (char_of (0x80 + m mod 64 :: nat))"
  using mod64_le [of m] by (simp add: is_cont_def)

lemma of_char_lead: "b < 256 \<Longrightarrow> byte_val (char_of b) = (b :: nat)"
  by simp

lemma encode_rune_width:
  "2 \<le> length (encode_rune r) \<Longrightarrow> rune_width (encode_rune r @ t) = length (encode_rune r)"
proof -
  define q where "q = (if (0xD800 \<le> r \<and> r \<le> 0xDFFF) \<or> 0x10FFFF < r then rune_error else r)"
  have q: "q \<le> 0x10FFFF" "\<not> (0xD800 \<le> q \<and> q \<le> 0xDFFF)" by (auto simp: q_def rune_error_def)
  have so: "byte_val (char_of (0x80 + m mod 64 :: nat)) = 0x80 + m mod 64" for m :: nat
    using mod64_le [of m] by simp
  consider "q < 0x80" | "\<not> q < 0x80" "q < 0x800" | "\<not> q < 0x800" "q < 0x10000" | "\<not> q < 0x10000"
    by linarith
  then show "2 \<le> length (encode_rune r) \<Longrightarrow> rune_width (encode_rune r @ t) = length (encode_rune r)"
  proof cases
    case 2
    then have d: "2 \<le> q div 64" "q div 64 < 32" by (auto simp: less_mult_imp_div_less less_eq_div_iff_mult_less_eq)
    have "encode_rune r = [char_of (0xC0 + q div 64), char_of (0x80 + q mod 64)]"
      using 2 by (simp add: encode_rune_def flip: q_def)
    with d show ?thesis by (simp add: rune_width_def cont_byte)
  next
    case 3
    then have d: "q div 4096 < 16" by (simp add: less_mult_imp_div_less)
    have e: "encode_rune r = [char_of (0xE0 + q div 4096), char_of (0x80 + q div 64 mod 64), char_of (0x80 + q mod 64)]"
      using 3 by (simp add: encode_rune_def flip: q_def)
    have dm: "q div 64 = q div 4096 * 64 + q div 64 mod 64"
    proof -
      have "q div 4096 = q div 64 div 64" by (simp flip: div_mult2_eq)
      then show ?thesis by simp
    qed
    have lo: "q div 4096 = 0 \<longrightarrow> 32 \<le> q div 64 mod 64"
      using dm 3(1) by (auto simp: less_eq_div_iff_mult_less_eq)
    have "q div 4096 = 13 \<longrightarrow> q div 64 mod 64 < 32"
    proof
      assume h: "q div 4096 = 13"
      have "q = q div 4096 * 4096 + q mod 4096" by simp
      with h mod_less_divisor [of 4096 q] have "q < 57344" "53248 \<le> q" by linarith+
      then have "q < 0xD800" using q(2) by simp
      then have "q div 64 < 864" by (simp add: less_mult_imp_div_less)
      with dm h show "q div 64 mod 64 < 32" by linarith
    qed
    with lo d have "second_ok (0xE0 + q div 4096) (char_of (0x80 + q div 64 mod 64))"
      using mod64_le [of "q div 64"] by (auto simp: second_ok_def cont_byte so)
    with d show ?thesis unfolding e by (simp add: rune_width_def cont_byte)
  next
    case 4
    have d: "q div 262144 < 5" using q(1) by (intro less_mult_imp_div_less) simp
    have e: "encode_rune r = [char_of (0xF0 + q div 262144), char_of (0x80 + q div 4096 mod 64),
        char_of (0x80 + q div 64 mod 64), char_of (0x80 + q mod 64)]"
      using 4 by (simp add: encode_rune_def flip: q_def)
    have dm: "q div 4096 = q div 262144 * 64 + q div 4096 mod 64"
    proof -
      have "q div 262144 = q div 4096 div 64" by (simp flip: div_mult2_eq)
      then show ?thesis by simp
    qed
    have "16 \<le> q div 4096" "q div 4096 < 272"
      using 4 q(1) by (auto simp: less_eq_div_iff_mult_less_eq intro: less_mult_imp_div_less)
    with dm have "q div 262144 = 0 \<longrightarrow> 16 \<le> q div 4096 mod 64"
      "q div 262144 = 4 \<longrightarrow> q div 4096 mod 64 < 16" by linarith+
    with d have "second_ok (0xF0 + q div 262144) (char_of (0x80 + q div 4096 mod 64))"
      using mod64_le [of "q div 4096"] by (auto simp: second_ok_def cont_byte so)
    with d show ?thesis unfolding e by (simp add: rune_width_def cont_byte)
  qed (simp add: encode_rune_def flip: q_def)
qed

lemma valid_utf8_encode: "valid_utf8 (encode_rune r @ t) = valid_utf8 t"
proof (cases "2 \<le> length (encode_rune r)")
  case True
  have w: "rune_width (encode_rune r @ t) = length (encode_rune r)"
    by (rule encode_rune_width [OF True])
  obtain a u where a: "encode_rune r = a # u" by (cases "encode_rune r") auto
  have "\<not> byte_val a < 0x80"
  proof
    assume "byte_val a < 0x80"
    then have "rune_width (encode_rune r @ t) = 1" unfolding a by simp
    with w True show False by simp
  qed
  moreover have "u \<noteq> []" using True a by auto
  ultimately show ?thesis using w unfolding a by simp
next
  case False
  then obtain a where a: "encode_rune r = [a]"
    by (cases "encode_rune r" rule: remdups_adj.cases) auto
  then have "rune_len r = 1" by (metis One_nat_def length_Cons length_encode_rune list.size(3))
  then have "r < 0x80" by (auto simp: rune_len_def split: if_splits)
  then have "encode_rune r = [char_of r]" by (simp add: encode_rune_def)
  with \<open>r < 0x80\<close> show ?thesis by simp
qed

lemma valid_utf8_split:
  assumes "byte_val c < 0x80" "valid_utf8 (p @ c # q)"
  shows "valid_utf8 p \<and> valid_utf8 q"
  using assms(2)
proof (induction p rule: valid_utf8.induct)
  case 1
  with assms(1) show ?case by simp
next
  case (2 a p)
  show ?case
  proof (cases "byte_val a < 0x80")
    case True
    with 2 show ?thesis by simp
  next
    case False
    let ?s = "a # p @ c # q"
    obtain r n where d: "decode_rune ?s = (r, n)" by (cases "decode_rune ?s")
    then have w: "rune_width ?s = n" by (simp add: rune_width_def del: decode_rune.simps)
    with False 2(3) have n1: "n \<noteq> 1" by auto
    then have n: "2 \<le> n" using w rune_width_pos [of ?s] by auto
    have "n \<le> length (a # p)"
    proof (rule ccontr)
      assume "\<not> n \<le> length (a # p)"
      then have "c \<in> set (take n ?s)" by (cases n) (auto simp: take_Cons')
      with decode_rune_high [OF False, of "p @ c # q"] assms(1) w show False by auto
    qed
    then have tk: "take n ?s = take n (a # p)" "drop n ?s = drop n (a # p) @ c # q"
      by (metis append_Cons take_append diff_is_0_eq take0 append_Nil2,
          metis append_Cons drop_append diff_is_0_eq drop0)
    have "decode_rune (a # p) = (r, n)"
      using decode_rune_take [OF d n, of "drop n (a # p)"] unfolding tk(1) append_take_drop_id .
    then have w': "rune_width (a # p) = n" by (simp add: rune_width_def del: decode_rune.simps)
    have "valid_utf8 (drop n (a # p) @ c # q)"
      using 2(3) False w tk(2) by simp
    with "2.IH"(2) [OF False] w' n1 False show ?thesis by simp
  qed
qed

end
