(* ===== verification/Spans.thy ===== *)
theory Spans
  imports Utf8
begin

text \<open>
  \<open>pkg/protocol/span.go\<close>: the map from decoded string offsets back to the raw, escaped bytes that
  spell them, and the splicing of edits into a body. The leaf record of \<open>walk.go\<close> is declared
  here because the span functions are its methods. The pointer chain from a raw token to its
  wrapper tokens is the list of those tokens, innermost first; a nil token is the empty list.
\<close>

section \<open>Tokens and leaves\<close>

record raw_token =
  tok_raw :: bytes
  tok_start :: nat

record leaf =
  leaf_path :: bytes
  leaf_value :: bytes
  leaf_length :: nat
  leaf_encoded :: bool
  leaf_member :: bool
  leaf_key :: bytes
  leaf_identity :: bytes
  leaf_identifiable :: bool
  leaf_tok :: "raw_token list"

section \<open>One unit of a JSON string interior\<close>

definition hex_val :: "char \<Rightarrow> nat option" where
  "hex_val c =
     (if is_ascii_digit c then Some (byte_val c - 48)
      else if in_range CHR ''a'' CHR ''f'' c then Some (byte_val c - 87)
      else if in_range CHR ''A'' CHR ''F'' c then Some (byte_val c - 55)
      else None)"

text \<open>\<open>strconv.ParseUint(s, 16, 32)\<close> on the four bytes the callers pass.\<close>

definition parse_hex4 :: "bytes \<Rightarrow> nat option" where
  "parse_hex4 s =
     (case map hex_val s of
        [Some a, Some b, Some c, Some d] \<Rightarrow> Some (((a * 16 + b) * 16 + c) * 16 + d)
      | _ \<Rightarrow> None)"

text \<open>
  \<open>nextUnit\<close> on the rest of the interior: the number of raw bytes read, the number of decoded
  bytes and the decoded rune. In the source the first component is the absolute fin index.
\<close>

definition literal_unit :: "bytes \<Rightarrow> nat \<times> nat \<times> rune" where
  "literal_unit s = (let (r, size) = decode_rune s in (size, size, r))"

definition unicode_unit :: "bytes \<Rightarrow> nat \<times> nat \<times> rune" where
  "unicode_unit s =
     (if length s < 6 then (length s, 3, rune_error)
      else case parse_hex4 (take 4 (drop 2 s)) of
        None \<Rightarrow> (6, 3, rune_error)
      | Some r \<Rightarrow>
          if 0xDC00 \<le> r \<and> r \<le> 0xDFFF then (6, 3, rune_error)
          else if 0xD800 \<le> r \<and> r \<le> 0xDBFF then
            (if 12 \<le> length s \<and> s ! 6 = CHR 0x5C \<and> s ! 7 = CHR ''u'' then
               (case parse_hex4 (take 4 (drop 8 s)) of
                  None \<Rightarrow> (6, 3, rune_error)
                | Some lo \<Rightarrow>
                    if 0xDC00 \<le> lo \<and> lo \<le> 0xDFFF
                    then (12, 4, 0x10000 + (r - 0xD800) * 1024 + (lo - 0xDC00))
                    else (6, 3, rune_error))
             else (6, 3, rune_error))
          else (6, rune_len r, r))"

definition next_unit :: "bytes \<Rightarrow> nat \<times> nat \<times> rune" where
  "next_unit s =
     (if length s < 2 \<or> s ! 0 \<noteq> CHR 0x5C then literal_unit s
      else
        let e = s ! 1 in
        if e = CHR 0x22 \<or> e = CHR 0x5C \<or> e = CHR ''/'' then (2, 1, byte_val e)
        else if e = CHR ''b'' then (2, 1, 8)
        else if e = CHR ''f'' then (2, 1, 12)
        else if e = CHR ''n'' then (2, 1, 10)
        else if e = CHR ''r'' then (2, 1, 13)
        else if e = CHR ''t'' then (2, 1, 9)
        else if e = CHR ''u'' then unicode_unit s
        else literal_unit s)"

abbreviation raw_len :: "bytes \<Rightarrow> nat" where
  "raw_len s \<equiv> fst (next_unit s)"

lemma literal_unit_bounds: "fst (literal_unit s) \<le> length s \<and> (s \<noteq> [] \<longrightarrow> 0 < fst (literal_unit s))"
  using rune_width_le [of s] rune_width_pos [of s]
  by (auto simp: literal_unit_def rune_width_def split: prod.splits)

lemma rune_len_pos [simp]: "0 < rune_len r"
  by (simp add: rune_len_def)

lemma unicode_unit_bounds:
  "s \<noteq> [] \<Longrightarrow> fst (unicode_unit s) \<le> length s \<and> 0 < fst (unicode_unit s) \<and> 0 < fst (snd (unicode_unit s))"
  by (auto simp: unicode_unit_def split: option.splits)

lemma raw_len_le [len_simps]: "raw_len s \<le> length s"
  using literal_unit_bounds [of s] unicode_unit_bounds [of s]
  by (cases "s = []") (auto simp: next_unit_def Let_def)

lemma raw_len_pos [simp]: "s \<noteq> [] \<Longrightarrow> 0 < raw_len s"
  using literal_unit_bounds [of s] unicode_unit_bounds [of s]
  by (auto simp: next_unit_def Let_def)

lemma decoded_len_pos [simp]: "s \<noteq> [] \<Longrightarrow> 0 < fst (snd (next_unit s))"
  using rune_width_pos [of s] unicode_unit_bounds [of s]
  by (auto simp: next_unit_def Let_def literal_unit_def rune_width_def split: prod.splits)

text \<open>
  The loop \<open>for i := 0; i < len(raw); \<dots>\<close> of \<open>mapSpan\<close> visits the units of the interior: each
  unit is the pair of its raw and its decoded width.
\<close>

function raw_units :: "bytes \<Rightarrow> (nat \<times> nat) list" where
  "raw_units s =
     (if s = [] then []
      else case next_unit s of (n, k, _) \<Rightarrow> (n, k) # raw_units (drop n s))"
  by pat_completeness auto
termination
proof (relation "measure length")
  fix s n y k r
  assume "s \<noteq> []" "(n, y) = next_unit s"
  then have "0 < n" using raw_len_pos [of s] by (metis fst_conv)
  with \<open>s \<noteq> []\<close> have "0 < n" "s \<noteq> []" by auto
  then show "(drop n s, s) \<in> measure length" by simp
qed simp

declare raw_units.simps [simp del]

definition raw_width :: "(nat \<times> nat) list \<Rightarrow> nat" where
  "raw_width us = sum_list (map fst us)"

definition decoded_width :: "(nat \<times> nat) list \<Rightarrow> nat" where
  "decoded_width us = sum_list (map snd us)"

lemma width_simps [simp]:
  "raw_width [] = 0" "raw_width (u # us) = fst u + raw_width us"
  "raw_width (us @ vs) = raw_width us + raw_width vs"
  "decoded_width [] = 0" "decoded_width (u # us) = snd u + decoded_width us"
  "decoded_width (us @ vs) = decoded_width us + decoded_width vs"
  by (simp_all add: raw_width_def decoded_width_def)

lemma raw_units_Nil [simp]: "raw_units [] = []"
  by (simp add: raw_units.simps)

lemma raw_units_Cons:
  "s \<noteq> [] \<Longrightarrow> raw_units s = (raw_len s, fst (snd (next_unit s))) # raw_units (drop (raw_len s) s)"
  by (subst raw_units.simps) (auto split: prod.splits)

lemma units_induct [case_names Nil unit]:
  assumes "P []" and "\<And>s. s \<noteq> [] \<Longrightarrow> P (drop (raw_len s) s) \<Longrightarrow> P s"
  shows "P s"
proof (induction s rule: length_induct)
  case (1 s)
  show ?case
  proof (cases "s = []")
    case False
    with 1 have "P (drop (raw_len s) s)" by simp
    with False show ?thesis by (rule assms(2))
  qed (use assms(1) in simp)
qed

lemma raw_units_positive: "(n, k) \<in> set (raw_units s) \<Longrightarrow> 0 < n \<and> 0 < k"
  by (induction s rule: units_induct) (auto simp: raw_units_Cons)

lemma raw_width_raw_units [simp]: "raw_width (raw_units s) = length s"
proof (induction s rule: units_induct)
  case (unit s)
  with raw_len_le [of s] show ?case by (simp add: raw_units_Cons)
qed simp

section \<open>Mapping a decoded span to its raw bytes\<close>

text \<open>
  The second loop of \<open>mapSpan\<close>: \<open>i\<close> and \<open>d\<close> are the raw and decoded offsets of the next unit,
  \<open>rs\<close> and \<open>re\<close> the named results, which keep their last assigned value.
\<close>

fun locate :: "(nat \<times> nat) list \<Rightarrow> nat \<Rightarrow> nat \<Rightarrow> nat \<Rightarrow> nat \<Rightarrow> nat \<Rightarrow> nat \<Rightarrow> nat \<times> nat" where
  "locate [] i d start fin rs re = (rs, re)"
| "locate ((n, k) # us) i d start fin rs re =
     (let j = i + n;
          rs' = (if d \<le> start \<and> start < d + k then i else rs);
          re' = (if d < fin \<and> fin \<le> d + k then j else re)
      in locate us j (d + k) start fin rs' re')"

definition map_span :: "bytes \<Rightarrow> int \<Rightarrow> int \<Rightarrow> (nat \<times> nat) option" where
  "map_span raw start fin =
     (let us = raw_units raw; dl = decoded_width us in
      if start < 0 \<or> fin < start \<or> int dl < fin then None
      else if start = 0 \<and> fin = 0 then Some (0, 0)
      else let (rs, re) = locate us 0 0 (nat start) (nat fin) 0 0
           in Some (if start = int dl then length raw else rs, re))"

fun map_outward :: "raw_token list \<Rightarrow> nat \<Rightarrow> nat \<Rightarrow> (nat \<times> nat) option" where
  "map_outward [] rs re = Some (rs, re)"
| "map_outward (t # ts) rs re =
     (case map_span (tok_raw t) (int rs) (int re) of
        None \<Rightarrow> None
      | Some (rs', re') \<Rightarrow> map_outward ts (rs' + tok_start t + 1) (re' + tok_start t + 1))"

definition raw_span :: "leaf \<Rightarrow> int \<Rightarrow> int \<Rightarrow> (nat \<times> nat) option" where
  "raw_span l start fin =
     (case leaf_tok l of
        [] \<Rightarrow> None
      | t # ts \<Rightarrow>
          if start < 0 \<or> fin < start \<or> int (length (leaf_value l)) < fin then None
          else case map_span (tok_raw t) start fin of
            None \<Rightarrow> None
          | Some (rs, re) \<Rightarrow> map_outward ts (rs + tok_start t + 1) (re + tok_start t + 1))"

text \<open>
  A span whose ends are unit boundaries is mapped to exactly the raw bytes of those units.
\<close>

lemma locate_skip_right:
  assumes "\<forall>u \<in> set us. 0 < snd u" "start < d" "fin \<le> d"
  shows "locate us i d start fin rs re = (rs, re)"
  using assms by (induction us i d start fin rs re rule: locate.induct) (auto simp: Let_def)

lemma locate_boundaries:
  assumes "\<forall>u \<in> set (us @ vs @ ws). 0 < snd u" and "vs \<noteq> []"
    and "start = d + decoded_width us" "fin = d + decoded_width (us @ vs)"
  shows "locate (us @ vs @ ws) i d start fin rs re =
           (i + raw_width us, i + raw_width (us @ vs))"
  using assms
proof (induction us arbitrary: i d rs re)
  case (Cons u us)
  obtain n k where u: "u = (n, k)" by (cases u)
  have dv: "0 < decoded_width vs"
    using Cons.prems(1,2) by (cases vs) auto
  from Cons.prems dv Cons.IH [of "d + k" "i + n"] u show ?case
    by (simp add: Let_def add.assoc)
next
  case Nil
  have tail: "locate (vs @ ws) i d' d (d' + decoded_width vs) rs re
      = ((if d' = d then i else rs), i + raw_width vs)"
    if "d \<le> d'" "vs \<noteq> []" "\<forall>u \<in> set (vs @ ws). 0 < snd u" for vs i d' rs re
    using that
  proof (induction vs arbitrary: i d' rs re)
    case (Cons v vs)
    obtain n k where v: "v = (n, k)" by (cases v)
    show ?case
    proof (cases "vs = []")
      case True
      with Cons.prems v show ?thesis
        by (auto simp: Let_def locate_skip_right)
    next
      case False
      then have dv: "0 < decoded_width vs" using Cons.prems(3) by (cases vs) auto
      with Cons.prems v False Cons.IH [of "d' + k" "i + n" "if d' = d then i else rs" re] show ?thesis
        by (auto simp: Let_def add.assoc)
    qed
  qed simp
  show ?case using tail [of d vs i rs re] Nil by simp
qed

lemma map_span_boundaries:
  assumes units: "raw_units raw = us @ vs @ ws" and "vs \<noteq> []"
  shows "map_span raw (int (decoded_width us)) (int (decoded_width (us @ vs))) =
           Some (raw_width us, raw_width (us @ vs))"
proof -
  have pos: "\<forall>u \<in> set (us @ vs @ ws). 0 < snd u"
    using raw_units_positive [of _ _ raw] units by (metis prod.collapse)
  then have "0 < decoded_width vs" using assms(2) by (cases vs) auto
  with units locate_boundaries [OF pos assms(2), of "decoded_width us" 0 "decoded_width (us @ vs)" 0 0 0]
  show ?thesis by (simp add: map_span_def Let_def flip: of_nat_add)
qed

lemma locate_bounds:
  assumes "locate us i d start fin rs0 re0 = (rs, re)" and "rs0 \<le> m" "re0 \<le> m" "i + raw_width us \<le> m"
  shows "rs \<le> m \<and> re \<le> m"
  using assms
proof (induction us i d start fin rs0 re0 rule: locate.induct)
  case (2 n k us i d start fin rs0 re0)
  show ?case
    by (rule "2.IH" [OF refl refl refl]) (use 2(2-) in \<open>auto simp: Let_def\<close>)
qed simp

lemma map_span_bounds:
  assumes "map_span raw start fin = Some (rs, re)"
  shows "rs \<le> length raw \<and> re \<le> length raw \<and> 0 \<le> start \<and> start \<le> fin
    \<and> fin \<le> int (decoded_width (raw_units raw))"
proof -
  obtain rs' re' where loc: "locate (raw_units raw) 0 0 (nat start) (nat fin) 0 0 = (rs', re')"
    by (cases "locate (raw_units raw) 0 0 (nat start) (nat fin) 0 0")
  have "rs' \<le> length raw \<and> re' \<le> length raw"
    by (rule locate_bounds [OF loc]) auto
  with assms loc show ?thesis
    by (auto simp: map_span_def Let_def split: if_splits)
qed

lemma map_span_None_iff:
  "map_span raw start fin = None \<longleftrightarrow>
     start < 0 \<or> fin < start \<or> int (decoded_width (raw_units raw)) < fin"
  by (auto simp: map_span_def Let_def split: prod.splits)

section \<open>Applying edits\<close>

record edit =
  edit_leaf :: leaf
  edit_start :: int
  edit_end :: int
  edit_repl :: bytes

record cand =
  cand_idx :: nat
  cand_rs :: nat
  cand_re :: nat
  cand_repl :: bytes

text \<open>The first loop of \<open>Apply\<close>: an edit is a candidate when it is locatable and changes bytes.\<close>

definition candidate :: "bytes \<Rightarrow> nat \<Rightarrow> edit \<Rightarrow> cand option" where
  "candidate body i e =
     (case raw_span (edit_leaf e) (edit_start e) (edit_end e) of
        None \<Rightarrow> None
      | Some (rs, re) \<Rightarrow>
          if re \<le> rs \<or> length body < re then None
          else if slice body rs re = edit_repl e then None
          else Some \<lparr>cand_idx = i, cand_rs = rs, cand_re = re, cand_repl = edit_repl e\<rparr>)"

definition candidates :: "bytes \<Rightarrow> edit list \<Rightarrow> cand list" where
  "candidates body es = List.map_filter (\<lambda>(i, e). candidate body i e) (enumerate 0 es)"

text \<open>The overlap rule: in ascending raw order, a candidate before \<open>lastEnd\<close> is dropped.\<close>

fun keep_disjoint :: "nat \<Rightarrow> cand list \<Rightarrow> cand list" where
  "keep_disjoint lastEnd [] = []"
| "keep_disjoint lastEnd (c # cs) =
     (if cand_rs c < lastEnd then keep_disjoint lastEnd cs
      else c # keep_disjoint (cand_re c) cs)"

definition splice :: "bytes \<Rightarrow> cand \<Rightarrow> bytes" where
  "splice out c = take (cand_rs c) out @ cand_repl c @ drop (cand_re c) out"

definition kept_edits :: "bytes \<Rightarrow> edit list \<Rightarrow> cand list" where
  "kept_edits body es = keep_disjoint 0 (sort_key cand_rs (candidates body es))"

text \<open>The splices run from the last kept candidate to the first.\<close>

definition apply_edits :: "bytes \<Rightarrow> edit list \<Rightarrow> bytes \<times> nat list" where
  "apply_edits body es =
     (let kept = kept_edits body es
      in (foldl splice body (rev kept), map cand_idx kept))"

text \<open>
  The specification: reading the body left to right, the bytes between kept candidates are
  copied and each kept range is replaced.
\<close>

fun rebuild :: "bytes \<Rightarrow> nat \<Rightarrow> cand list \<Rightarrow> bytes" where
  "rebuild body pos [] = drop pos body"
| "rebuild body pos (c # cs) =
     slice body pos (cand_rs c) @ cand_repl c @ rebuild body (cand_re c) cs"

fun disjoint_from :: "nat \<Rightarrow> bytes \<Rightarrow> cand list \<Rightarrow> bool" where
  "disjoint_from pos body [] = True"
| "disjoint_from pos body (c # cs) \<longleftrightarrow>
     pos \<le> cand_rs c \<and> cand_rs c < cand_re c \<and> cand_re c \<le> length body \<and>
     disjoint_from (cand_re c) body cs"

lemma candidates_in_body:
  "c \<in> set (candidates body es) \<Longrightarrow> cand_rs c < cand_re c \<and> cand_re c \<le> length body"
  by (auto simp: candidates_def map_filter_def candidate_def split: option.splits if_splits)

lemma keep_disjoint_subset: "set (keep_disjoint p cs) \<subseteq> set cs"
  by (induction p cs rule: keep_disjoint.induct) auto

lemma keep_disjoint_disjoint:
  "\<forall>c \<in> set cs. cand_rs c < cand_re c \<and> cand_re c \<le> length body \<Longrightarrow>
     disjoint_from p body (keep_disjoint p cs)"
  by (induction p cs rule: keep_disjoint.induct) auto

lemma kept_edits_disjoint: "disjoint_from 0 body (kept_edits body es)"
  unfolding kept_edits_def
  by (rule keep_disjoint_disjoint) (auto dest: candidates_in_body)

lemma foldl_splice_prefix:
  assumes "disjoint_from pos body cs" "pos \<le> length body"
  shows "foldl splice body (rev cs) = take pos body @ rebuild body pos cs"
  using assms
proof (induction pos body cs rule: disjoint_from.induct)
  case (2 pos body c cs)
  then have "take (cand_rs c) body = take pos body @ slice body pos (cand_rs c)"
    unfolding slice_def by (metis disjoint_from.simps(2) le_add_diff_inverse take_add)
  with 2 show ?case by (simp add: splice_def)
qed simp

lemma apply_edits_rebuild: "fst (apply_edits body es) = rebuild body 0 (kept_edits body es)"
  using foldl_splice_prefix [OF kept_edits_disjoint [of body es]]
  by (simp add: apply_edits_def Let_def)

lemma apply_no_edits [simp]: "apply_edits body [] = (body, [])"
  by (simp add: apply_edits_def kept_edits_def candidates_def map_filter_def)

section \<open>The loops of the span map end\<close>

text \<open>
  The two loops as they are written, over the raw offset \<open>i\<close>, with a bound on the number of rounds:
  \<open>None\<close> is a loop that has not ended within it.
\<close>

fun units_loop :: "nat \<Rightarrow> bytes \<Rightarrow> nat \<Rightarrow> nat \<Rightarrow> nat option" where
  "units_loop 0 raw i d = None"
| "units_loop (Suc f) raw i d =
     (if i < length raw then (case next_unit (drop i raw) of (n, k, _) \<Rightarrow> units_loop f raw (i + n) (d + k)) else Some d)"

fun span_loop :: "nat \<Rightarrow> bytes \<Rightarrow> nat \<Rightarrow> nat \<Rightarrow> nat \<Rightarrow> nat \<Rightarrow> nat \<Rightarrow> nat \<Rightarrow> (nat \<times> nat) option" where
  "span_loop 0 raw i d start fin rs re = None"
| "span_loop (Suc f) raw i d start fin rs re =
     (if i < length raw then
        (case next_unit (drop i raw) of (n, k, _) \<Rightarrow>
           span_loop f raw (i + n) (d + k) start fin
             (if d \<le> start \<and> start < d + k then i else rs) (if d < fin \<and> fin \<le> d + k then i + n else re))
      else Some (rs, re))"

definition map_span_loop :: "nat \<Rightarrow> bytes \<Rightarrow> int \<Rightarrow> int \<Rightarrow> (nat \<times> nat) option option" where
  "map_span_loop fuel raw start fin =
     (case units_loop fuel raw 0 0 of
        None \<Rightarrow> None
      | Some dl \<Rightarrow>
          if start < 0 \<or> fin < start \<or> int dl < fin then Some None
          else if start = 0 \<and> fin = 0 then Some (Some (0, 0))
          else map_option (\<lambda>(rs, re). Some (if start = int dl then length raw else rs, re))
                 (span_loop fuel raw 0 0 (nat start) (nat fin) 0 0))"

lemma next_unit_step:
  assumes "i < length raw"
  obtains n k w where "next_unit (drop i raw) = (n, k, w)" "0 < n" "i + n \<le> length raw"
    "raw_units (drop i raw) = (n, k) # raw_units (drop (i + n) raw)"
proof -
  obtain n k w where nk: "next_unit (drop i raw) = (n, k, w)" by (metis prod.exhaust)
  have ne: "drop i raw \<noteq> []" using assms by simp
  have "raw_len (drop i raw) = n" using nk by simp
  with ne raw_len_pos [of "drop i raw"] raw_len_le [of "drop i raw"] raw_units_Cons [OF ne] nk assms show ?thesis
    by (intro that [of n k w]) (auto simp: add.commute)
qed

lemma units_loop_ends:
  "i \<le> length raw \<Longrightarrow> length raw - i < f \<Longrightarrow> units_loop f raw i d = Some (d + decoded_width (raw_units (drop i raw)))"
proof (induction f arbitrary: i d)
  case (Suc f)
  show ?case
  proof (cases "i < length raw")
    case True
    with Suc show ?thesis by (elim next_unit_step) simp
  qed (use Suc.prems in simp)
qed simp

lemma span_loop_ends:
  "i \<le> length raw \<Longrightarrow> length raw - i < f \<Longrightarrow>
   span_loop f raw i d start fin rs re = Some (locate (raw_units (drop i raw)) i d start fin rs re)"
proof (induction f arbitrary: i d rs re)
  case (Suc f)
  show ?case
  proof (cases "i < length raw")
    case True
    with Suc show ?thesis by (elim next_unit_step) (simp add: Let_def)
  qed (use Suc.prems in simp)
qed simp

text \<open>
  C39: \<open>mapSpan\<close> returns on every byte sequence, well-formed JSON or not: each of its loops ends within one
  round per raw byte, because \<open>nextUnit\<close> always steps over at least one, and the loops compute exactly the
  span map of the model.
\<close>

theorem map_span_terminates:
  assumes "length raw < fuel"
  shows "map_span_loop fuel raw start fin = Some (map_span raw start fin)"
  using units_loop_ends [of 0 raw fuel 0] span_loop_ends [of 0 raw fuel 0 "nat start" "nat fin" 0 0] assms
  by (auto simp: map_span_loop_def map_span_def Let_def split: prod.split)

lemma map_span_terminates_witness:
  "map_span_loop 10 [CHR ''a'', CHR 0x5C, CHR ''u'', CHR ''0'', CHR ''0'', CHR ''e'', CHR ''9'', CHR 0xFF] 1 3 = Some (Some (1, 7))"
proof -
  let ?raw = "[CHR ''a'', CHR 0x5C, CHR ''u'', CHR ''0'', CHR ''0'', CHR ''e'', CHR ''9'', CHR 0xFF]"
  have "map_span ?raw 1 3 = Some (1, 7)" by code_simp
  with map_span_terminates [of ?raw 10 1 3] show ?thesis by simp
qed

end
