(* ===== verification/JsonString.thy ===== *)
theory JsonString
  imports Spans
begin

text \<open>
  JSON string literals. The first part models what \<open>encoding/json\<close> does with the interior of a
  string token: the byte-at-a-time scanner that accepts it and \<open>unquoteBytes\<close>, which decodes it.
  The second part is \<open>pkg/protocol/spelling.go\<close>, the escaping used when text is spliced back.
  The theorems connect the two with the span map of \<open>span.go\<close>: its units are the units the
  decoder reads, so decoded offsets and raw offsets agree, and a splice at a mapped span decodes
  to the spliced text.
\<close>

section \<open>The string scanner of encoding/json\<close>

datatype str_state = InString | InEscape | InUnicode nat

definition is_hex :: "char \<Rightarrow> bool" where
  "is_hex c \<longleftrightarrow> hex_val c \<noteq> None"

definition simple_escapes :: bytes where
  "simple_escapes = [CHR ''b'', CHR ''f'', CHR ''n'', CHR ''r'', CHR ''t'', CHR 0x5C, CHR ''/'', CHR 0x22]"

text \<open>One byte inside a string; \<open>None\<close> is a syntax error. The closing quote is handled apart.\<close>

fun str_step :: "str_state \<Rightarrow> char \<Rightarrow> str_state option" where
  "str_step InString c =
     (if c = CHR 0x5C then Some InEscape else if byte_val c < 0x20 then None else Some InString)"
| "str_step InEscape c =
     (if c \<in> set simple_escapes then Some InString
      else if c = CHR ''u'' then Some (InUnicode 0) else None)"
| "str_step (InUnicode k) c =
     (if is_hex c then Some (if k < 3 then InUnicode (Suc k) else InString) else None)"

text \<open>From just after the opening quote: the interior and what follows the closing quote.\<close>

fun scan_string :: "str_state \<Rightarrow> bytes \<Rightarrow> (bytes \<times> bytes) option" where
  "scan_string st [] = None"
| "scan_string st (c # cs) =
     (if st = InString \<and> c = CHR 0x22 then Some ([], cs)
      else case str_step st c of
        None \<Rightarrow> None
      | Some st' \<Rightarrow> map_option (apfst ((#) c)) (scan_string st' cs))"

text \<open>Interiors the scanner accepts, from state \<open>st\<close>.\<close>

fun str_run :: "str_state \<Rightarrow> bytes \<Rightarrow> bool" where
  "str_run st [] \<longleftrightarrow> st = InString"
| "str_run st (c # cs) \<longleftrightarrow>
     \<not> (st = InString \<and> c = CHR 0x22) \<and>
     (case str_step st c of None \<Rightarrow> False | Some st' \<Rightarrow> str_run st' cs)"

abbreviation interior :: "bytes \<Rightarrow> bool" where
  "interior s \<equiv> str_run InString s"

lemma scan_string_SomeD:
  "scan_string st s = Some (i, rest) \<Longrightarrow> s = i @ CHR 0x22 # rest \<and> str_run st i"
proof (induction st s arbitrary: i rule: scan_string.induct)
  case (2 st c cs)
  then show ?case by (auto split: if_splits option.splits)
qed simp

lemma scan_string_run: "str_run st i \<Longrightarrow> scan_string st (i @ CHR 0x22 # rest) = Some (i, rest)"
  by (induction st i rule: str_run.induct) (auto split: option.splits)

lemma scan_string_iff:
  "scan_string st s = Some (i, rest) \<longleftrightarrow> s = i @ CHR 0x22 # rest \<and> str_run st i"
  using scan_string_SomeD scan_string_run by blast

section \<open>Decoding an interior\<close>

text \<open>\<open>getu4\<close> and \<open>unquoteBytes\<close> of \<open>encoding/json\<close>.\<close>

definition getu4 :: "bytes \<Rightarrow> nat option" where
  "getu4 s =
     (if length s < 6 \<or> s ! 0 \<noteq> CHR 0x5C \<or> s ! 1 \<noteq> CHR ''u'' then None
      else parse_hex4 (take 4 (drop 2 s)))"

definition utf16_decode :: "nat \<Rightarrow> nat \<Rightarrow> rune" where
  "utf16_decode r1 r2 =
     (if 0xD800 \<le> r1 \<and> r1 < 0xDC00 \<and> 0xDC00 \<le> r2 \<and> r2 < 0xE000
      then 0x10000 + (r1 - 0xD800) * 1024 + (r2 - 0xDC00) else rune_error)"

definition unquote_step :: "bytes \<Rightarrow> (nat \<times> bytes) option" where
  "unquote_step s =
     (let c = s ! 0 in
      if c = CHR 0x5C then
        (if length s < 2 then None
         else let e = s ! 1 in
           if e = CHR 0x22 \<or> e = CHR 0x5C \<or> e = CHR ''/'' \<or> e = CHR 0x27 then Some (2, [e])
           else if e = CHR ''b'' then Some (2, [CHR 0x08])
           else if e = CHR ''f'' then Some (2, [CHR 0x0C])
           else if e = CHR ''n'' then Some (2, [CHR 0x0A])
           else if e = CHR ''r'' then Some (2, [CHR 0x0D])
           else if e = CHR ''t'' then Some (2, [CHR 0x09])
           else if e = CHR ''u'' then
             (case getu4 s of
                None \<Rightarrow> None
              | Some r \<Rightarrow>
                  if 0xD800 \<le> r \<and> r \<le> 0xDFFF then
                    (case getu4 (drop 6 s) of
                       None \<Rightarrow> Some (6, encode_rune rune_error)
                     | Some r2 \<Rightarrow>
                         if utf16_decode r r2 \<noteq> rune_error then Some (12, encode_rune (utf16_decode r r2))
                         else Some (6, encode_rune rune_error))
                  else Some (6, encode_rune r))
           else None)
      else if c = CHR 0x22 \<or> byte_val c < 0x20 then None
      else if byte_val c < 0x80 then Some (1, [c])
      else let (r, size) = decode_rune s in Some (size, encode_rune r))"

text \<open>A step reads at least one byte, so the length bounds the number of steps.\<close>

fun unquote_fuel :: "nat \<Rightarrow> bytes \<Rightarrow> bytes option" where
  "unquote_fuel 0 s = (if s = [] then Some [] else None)"
| "unquote_fuel (Suc f) s =
     (if s = [] then Some []
      else case unquote_step s of
        None \<Rightarrow> None
      | Some (n, out) \<Rightarrow> map_option ((@) out) (unquote_fuel f (drop n s)))"

definition unquote :: "bytes \<Rightarrow> bytes option" where
  "unquote s = unquote_fuel (length s) s"

lemma unquote_step_pos: "unquote_step s = Some (n, out) \<Longrightarrow> s \<noteq> [] \<Longrightarrow> 0 < n"
  using rune_width_pos [of s]
  by (auto simp: unquote_step_def Let_def rune_width_def split: if_splits option.splits prod.splits)

lemma unquote_fuel_enough: "length s \<le> f \<Longrightarrow> unquote_fuel f s = unquote s"
proof (induction s arbitrary: f rule: length_induct)
  case (1 s)
  show ?case
  proof (cases s)
    case Nil
    then show ?thesis by (cases f) (auto simp: unquote_def)
  next
    case (Cons c cs)
    with 1 obtain g where f: "f = Suc g" by (cases f) auto
    show ?thesis
    proof (cases "unquote_step s")
      case (Some p)
      then obtain n out where p: "unquote_step s = Some (n, out)" by (cases p) auto
      with unquote_step_pos [OF this] Cons have n: "0 < n" by simp
      with 1 Cons f have "unquote_fuel g (drop n s) = unquote (drop n s)"
        "unquote_fuel (length cs) (drop n s) = unquote (drop n s)" by auto
      with p Cons f show ?thesis by (simp add: unquote_def)
    qed (use Cons f in \<open>simp add: unquote_def\<close>)
  qed
qed

lemma unquote_Nil [simp]: "unquote [] = Some []"
  by (simp add: unquote_def)

lemma unquote_step_eq:
  assumes "s \<noteq> []" "unquote_step s = Some (n, out)"
  shows "unquote s = map_option ((@) out) (unquote (drop n s))"
proof -
  obtain c cs where s: "s = c # cs" using assms(1) by (cases s) auto
  have "unquote_fuel (length cs) (drop n s) = unquote (drop n s)"
    using unquote_step_pos [OF assms(2,1)] s by (intro unquote_fuel_enough) auto
  with assms s show ?thesis by (simp add: unquote_def)
qed

section \<open>Spelling: escapeJSONString and RawSpelling\<close>

definition needs_escape :: "char \<Rightarrow> bool" where
  "needs_escape c \<longleftrightarrow> c = CHR 0x22 \<or> c = CHR 0x5C \<or> byte_val c < 0x20"

definition escape_char :: "char \<Rightarrow> bytes" where
  "escape_char c =
     (if c = CHR 0x22 then [CHR 0x5C, CHR 0x22]
      else if c = CHR 0x5C then [CHR 0x5C, CHR 0x5C]
      else if c = CHR 0x08 then [CHR 0x5C, CHR ''b'']
      else if c = CHR 0x0C then [CHR 0x5C, CHR ''f'']
      else if c = CHR 0x0A then [CHR 0x5C, CHR ''n'']
      else if c = CHR 0x0D then [CHR 0x5C, CHR ''r'']
      else if c = CHR 0x09 then [CHR 0x5C, CHR ''t'']
      else if byte_val c < 0x20 then
        [CHR 0x5C, CHR ''u'', CHR ''0'', CHR ''0'', hex_digit (byte_val c div 16), hex_digit (byte_val c mod 16)]
      else [c])"

definition escape_json_string :: "bytes \<Rightarrow> bytes" where
  "escape_json_string decoded =
     (if \<exists>c \<in> set decoded. needs_escape c then concat (map escape_char decoded) else decoded)"

definition raw_spelling :: "leaf \<Rightarrow> bytes \<Rightarrow> bytes" where
  "raw_spelling l decoded = fold (\<lambda>_ out. escape_json_string out) (leaf_tok l) decoded"

lemma escape_char_plain: "\<not> needs_escape c \<Longrightarrow> escape_char c = [c]"
  by (auto simp: needs_escape_def escape_char_def)

lemma escape_json_string_concat [bytes_simps]:
  "escape_json_string s = concat (map escape_char s)"
proof -
  have "\<forall>c \<in> set s. \<not> needs_escape c \<Longrightarrow> concat (map escape_char s) = s"
    by (induction s) (auto simp: escape_char_plain)
  then show ?thesis by (auto simp: escape_json_string_def)
qed

lemma escape_Cons: "escape_json_string (c # cs) = escape_char c @ escape_json_string cs"
  and escape_Nil [simp]: "escape_json_string [] = []"
  and escape_append: "escape_json_string (a @ b) = escape_json_string a @ escape_json_string b"
  by (simp_all add: bytes_simps)

section \<open>Escaping is inverted by the decoder\<close>

lemma hex_val_hex_digit: "n < 16 \<Longrightarrow> hex_val (hex_digit n) = Some n"
proof -
  assume "n < 16"
  then have "n \<in> set [0..<16]" by simp
  moreover have "\<forall>n \<in> set [0..<16]. hex_val (hex_digit n) = Some n" by code_simp
  ultimately show ?thesis by blast
qed

lemma hex_val_zero: "hex_val CHR ''0'' = Some 0"
  by code_simp

lemma getu4_control:
  assumes "n < 32"
  shows "getu4 (CHR 0x5C # CHR ''u'' # CHR ''0'' # CHR ''0'' # hex_digit (n div 16) # hex_digit (n mod 16) # t)
    = Some n"
proof -
  have "n div 16 < 16" using assms by (simp add: less_mult_imp_div_less)
  then show ?thesis
    by (simp add: getu4_def parse_hex4_def hex_val_hex_digit hex_val_zero)
qed

lemma unquote_step_short:
  "unquote_step (CHR 0x5C # CHR 0x22 # t) = Some (2, [CHR 0x22])"
  "unquote_step (CHR 0x5C # CHR 0x5C # t) = Some (2, [CHR 0x5C])"
  "unquote_step (CHR 0x5C # CHR ''b'' # t) = Some (2, [CHR 0x08])"
  "unquote_step (CHR 0x5C # CHR ''f'' # t) = Some (2, [CHR 0x0C])"
  "unquote_step (CHR 0x5C # CHR ''n'' # t) = Some (2, [CHR 0x0A])"
  "unquote_step (CHR 0x5C # CHR ''r'' # t) = Some (2, [CHR 0x0D])"
  "unquote_step (CHR 0x5C # CHR ''t'' # t) = Some (2, [CHR 0x09])"
  by (simp_all add: unquote_step_def Let_def)

lemma unquote_step_control:
  assumes "n < 32"
  shows "unquote_step (CHR 0x5C # CHR ''u'' # CHR ''0'' # CHR ''0'' # hex_digit (n div 16)
      # hex_digit (n mod 16) # t) = Some (6, [char_of n])"
  using assms by (simp add: unquote_step_def Let_def getu4_control encode_rune_def)

lemma unquote_step_plain:
  "\<not> needs_escape c \<Longrightarrow> byte_val c < 0x80 \<Longrightarrow> unquote_step (c # t) = Some (1, [c])"
  by (simp add: unquote_step_def Let_def needs_escape_def)

lemma escape_char_cases:
  obtains (short) e where "escape_char c = [CHR 0x5C, e]"
      "\<And>t. unquote_step (CHR 0x5C # e # t) = Some (2, [c])" "e \<in> set simple_escapes" "byte_val c < 0x80"
  | (control) "escape_char c = [CHR 0x5C, CHR ''u'', CHR ''0'', CHR ''0'', hex_digit (byte_val c div 16),
      hex_digit (byte_val c mod 16)]" "byte_val c < 32"
  | (plain) "escape_char c = [c]" "\<not> needs_escape c"
proof (cases "c \<in> {CHR 0x22, CHR 0x5C, CHR 0x08, CHR 0x0C, CHR 0x0A, CHR 0x0D, CHR 0x09}")
  case True
  then show ?thesis
    by (elim insertE emptyE) (rule short, simp add: escape_char_def, simp add: unquote_step_short,
      simp add: simple_escapes_def, simp)+
next
  case False
  then show ?thesis
    using control plain by (auto simp: escape_char_def needs_escape_def)
qed

lemma unquote_step_escape:
  assumes "byte_val c < 0x80"
  shows "unquote_step (escape_char c @ t) = Some (length (escape_char c), [c])"
  using assms by (cases c rule: escape_char_cases) (simp_all add: unquote_step_control unquote_step_plain)

lemma escape_char_not_Nil [simp]: "escape_char c \<noteq> []"
  by (cases c rule: escape_char_cases) auto

lemma unquote_escape_char:
  assumes "byte_val c < 0x80"
  shows "unquote (escape_char c @ t) = map_option ((#) c) (unquote t)"
proof -
  have "(@) [c] = (#) c" by (rule ext) simp
  with unquote_step_eq [OF _ unquote_step_escape [OF assms], of t] show ?thesis by simp
qed

lemma escape_high: "\<forall>c \<in> set s. 0x80 \<le> byte_val c \<Longrightarrow> escape_json_string s = s"
proof (induction s)
  case (Cons c s)
  then have "\<not> needs_escape c" by (auto simp: needs_escape_def)
  with Cons show ?case by (simp add: escape_Cons escape_char_plain)
qed simp

lemma unquote_step_rune:
  assumes "decode_rune s = (r, n)" "2 \<le> n" "\<not> byte_val (hd s) < 0x80"
  shows "unquote_step (take n s @ t) = Some (n, take n s)"
proof -
  have s: "s \<noteq> []" using assms by auto
  then obtain a u where u: "take n s @ t = a # u" "byte_val a = byte_val (hd s)"
    using assms(2) by (cases s; cases n) auto
  have "\<not> (a = CHR 0x5C)" "\<not> (a = CHR 0x22 \<or> byte_val a < 0x20)" "\<not> byte_val a < 0x80"
    using u(2) assms(3) by auto
  then show ?thesis
    using decode_rune_take [OF assms(1,2), of t] encode_decode [OF assms(1,2)]
    unfolding u(1) unquote_step_def Let_def by (simp del: decode_rune.simps)
qed

theorem unquote_escape_append:
  "valid_utf8 s \<Longrightarrow> unquote (escape_json_string s @ t) = map_option ((@) s) (unquote t)"
proof (induction s rule: valid_utf8.induct)
  case 1
  show ?case by (cases "unquote t") simp_all
next
  case (2 a s)
  show ?case
  proof (cases "byte_val a < 0x80")
    case True
    with 2 have "unquote (escape_json_string s @ t) = map_option ((@) s) (unquote t)" by simp
    with True show ?thesis
      by (simp add: escape_Cons unquote_escape_char option.map_comp comp_def)
  next
    case False
    let ?s = "a # s"
    obtain r n where d: "decode_rune ?s = (r, n)" by (cases "decode_rune ?s")
    then have w: "rune_width ?s = n" by (simp add: rune_width_def del: decode_rune.simps)
    with False "2.prems" have "n \<noteq> 1" "valid_utf8 (drop n ?s)" by auto
    then have n: "2 \<le> n" using rune_width_pos [of ?s] w by auto
    have IH: "unquote (escape_json_string (drop n ?s) @ t) = map_option ((@) (drop n ?s)) (unquote t)"
      using "2.IH"(2) [OF False] False "2.prems" w by simp
    have "escape_json_string (take n ?s) = take n ?s"
      using decode_rune_high [OF False, of s] unfolding w by (rule escape_high)
    then have e: "escape_json_string ?s = take n ?s @ escape_json_string (drop n ?s)"
      by (metis append_take_drop_id escape_append)
    have len: "length (take n ?s) = n" using rune_width_le [of ?s] w by simp
    have "unquote (escape_json_string ?s @ t)
        = map_option ((@) (take n ?s)) (unquote (escape_json_string (drop n ?s) @ t))"
      using unquote_step_eq [OF _ unquote_step_rune [OF d n], of "escape_json_string (drop n ?s) @ t"]
        False len n by (simp add: e)
    also have "\<dots> = map_option ((@) ?s) (unquote t)"
      unfolding IH option.map_comp by (rule map_option_cong) (auto simp flip: append_assoc)
    finally show ?thesis .
  qed
qed

section \<open>The units of span.go are the steps of the decoder\<close>

lemma parse_hex4_hex:
  assumes "is_hex a" "is_hex b" "is_hex c" "is_hex d"
  shows "\<exists>r. parse_hex4 [a, b, c, d] = Some r"
  using assms by (auto simp: is_hex_def parse_hex4_def)

lemma interior_Cons_cases:
  assumes "interior s" "s \<noteq> []"
  obtains (simple) e t where "s = CHR 0x5C # e # t" "e \<in> set simple_escapes" "interior t"
  | (unicode) a b c d t r where "s = CHR 0x5C # CHR ''u'' # a # b # c # d # t" "interior t"
      "parse_hex4 [a, b, c, d] = Some r" "is_hex a" "is_hex b" "is_hex c" "is_hex d"
  | (literal) c t where "s = c # t" "c \<noteq> CHR 0x5C" "c \<noteq> CHR 0x22" "\<not> byte_val c < 0x20" "interior t"
proof (cases s)
  case (Cons c t)
  show ?thesis
  proof (cases "c = CHR 0x5C")
    case False
    with Cons assms show ?thesis
      by (intro literal [of c t]) (auto split: option.splits if_splits)
  next
    case True
    with Cons assms have esc: "str_run InEscape t" by simp
    then obtain e t' where t: "t = e # t'" by (cases t) auto
    show ?thesis
    proof (cases "e \<in> set simple_escapes")
      case True
      with esc t Cons \<open>c = CHR 0x5C\<close> show ?thesis by (intro simple [of e t']) auto
    next
      case False
      with esc t have e: "e = CHR ''u''" "str_run (InUnicode 0) t'" by (auto split: if_splits)
      then obtain a t1 where "t' = a # t1" "is_hex a" "str_run (InUnicode (Suc 0)) t1"
        by (cases t') (auto split: if_splits)
      moreover from this obtain b t2 where "t1 = b # t2" "is_hex b" "str_run (InUnicode (Suc (Suc 0))) t2"
        by (cases t1) (auto split: if_splits)
      moreover from this obtain x t3 where "t2 = x # t3" "is_hex x" "str_run (InUnicode (Suc (Suc (Suc 0)))) t3"
        by (cases t2) (auto split: if_splits)
      moreover from this obtain d t4 where "t3 = d # t4" "is_hex d" "interior t4"
        by (cases t3) (auto split: if_splits)
      ultimately show ?thesis
        using parse_hex4_hex [of a b x d] unicode e(1) t Cons \<open>c = CHR 0x5C\<close> by blast
    qed
  qed
qed (use assms in simp)

lemma hex_val_less: "hex_val c = Some n \<Longrightarrow> n < 16"
  by (auto simp: hex_val_def ascii_defs split: if_splits)

lemma parse_hex4_less: "parse_hex4 s = Some r \<Longrightarrow> r < 0x10000"
proof -
  assume "parse_hex4 s = Some r"
  then obtain a b c d where s: "map hex_val s = [Some a, Some b, Some c, Some d]"
    and r: "r = ((a * 16 + b) * 16 + c) * 16 + d"
    by (auto simp: parse_hex4_def split: list.splits option.splits)
  from s have "a < 16" "b < 16" "c < 16" "d < 16"
    by (auto simp: map_eq_Cons_conv dest: hex_val_less)
  with r show ?thesis by simp
qed

definition unit_matches :: "bytes \<Rightarrow> bool" where
  "unit_matches s \<longleftrightarrow>
     (\<exists>out. unquote_step s = Some (raw_len s, out) \<and> length out = fst (snd (next_unit s)))"

lemma unit_matches_simple:
  assumes "e \<in> set simple_escapes"
  shows "unit_matches (CHR 0x5C # e # t) \<and> raw_len (CHR 0x5C # e # t) = 2"
  using assms unfolding simple_escapes_def
  by (simp only: list.set)
    (elim insertE emptyE; simp add: unit_matches_def next_unit_def unquote_step_def Let_def)

lemma rune_error_len: "length (encode_rune rune_error) = 3"
  by (simp add: length_encode_rune rune_len_def rune_error_def)

text \<open>The low half of a surrogate pair: \<open>nextUnit\<close> tests the bytes, the decoder calls \<open>getu4\<close>.\<close>

lemma unicode_unit_getu4:
  assumes "6 \<le> length s" "parse_hex4 (take 4 (drop 2 s)) = Some r"
  shows "unicode_unit s =
     (if 0xDC00 \<le> r \<and> r \<le> 0xDFFF then (6, 3, rune_error)
      else if 0xD800 \<le> r \<and> r \<le> 0xDBFF then
        (case getu4 (drop 6 s) of
           None \<Rightarrow> (6, 3, rune_error)
         | Some lo \<Rightarrow>
             if 0xDC00 \<le> lo \<and> lo \<le> 0xDFFF
             then (12, 4, 0x10000 + (r - 0xD800) * 1024 + (lo - 0xDC00)) else (6, 3, rune_error))
      else (6, rune_len r, r))"
  using assms by (auto simp: unicode_unit_def getu4_def nth_drop split: option.splits)

lemma unquote_step_unicode:
  assumes "s = CHR 0x5C # CHR ''u'' # a # b # c # d # t" "parse_hex4 [a, b, c, d] = Some r"
  shows "unquote_step s =
     (if 0xD800 \<le> r \<and> r \<le> 0xDFFF then
        (case getu4 t of
           None \<Rightarrow> Some (6, encode_rune rune_error)
         | Some r2 \<Rightarrow>
             if utf16_decode r r2 \<noteq> rune_error then Some (12, encode_rune (utf16_decode r r2))
             else Some (6, encode_rune rune_error))
      else Some (6, encode_rune r))"
  using assms by (simp add: unquote_step_def getu4_def)

lemma utf16_decode_pair:
  "0xD800 \<le> r \<Longrightarrow> r \<le> 0xDBFF \<Longrightarrow> 0xDC00 \<le> lo \<Longrightarrow> lo \<le> 0xDFFF \<Longrightarrow>
     utf16_decode r lo \<noteq> rune_error \<and> length (encode_rune (utf16_decode r lo)) = 4"
  by (auto simp: utf16_decode_def rune_error_def length_encode_rune rune_len_def)

lemma utf16_decode_error:
  "\<not> (0xD800 \<le> r \<and> r \<le> 0xDBFF \<and> 0xDC00 \<le> lo \<and> lo \<le> 0xDFFF) \<Longrightarrow> utf16_decode r lo = rune_error"
  by (auto simp: utf16_decode_def)

lemma unit_matches_unicode:
  assumes s: "s = CHR 0x5C # CHR ''u'' # a # b # c # d # t" and r: "parse_hex4 [a, b, c, d] = Some r"
  shows "unit_matches s \<and>
    (raw_len s = 6 \<or> raw_len s = 12 \<and> (\<exists>lo. getu4 t = Some lo))"
proof -
  have nu: "next_unit s = unicode_unit s" using s by (simp add: next_unit_def)
  have "take 4 (drop 2 s) = [a, b, c, d]" "6 \<le> length s" "drop 6 s = t" using s by simp_all
  with r have uu: "unicode_unit s =
     (if 0xDC00 \<le> r \<and> r \<le> 0xDFFF then (6, 3, rune_error)
      else if 0xD800 \<le> r \<and> r \<le> 0xDBFF then
        (case getu4 t of
           None \<Rightarrow> (6, 3, rune_error)
         | Some lo \<Rightarrow>
             if 0xDC00 \<le> lo \<and> lo \<le> 0xDFFF
             then (12, 4, 0x10000 + (r - 0xD800) * 1024 + (lo - 0xDC00)) else (6, 3, rune_error))
      else (6, rune_len r, r))"
    using unicode_unit_getu4 [of s r] by simp
  show ?thesis
    unfolding unit_matches_def nu uu unquote_step_unicode [OF s r]
    using rune_error_len utf16_decode_pair [of r] utf16_decode_error [of r]
    by (auto simp: length_encode_rune split: option.splits)
qed

lemma unit_matches_literal:
  assumes "s = c # t" "c \<noteq> CHR 0x5C" "c \<noteq> CHR 0x22" "\<not> byte_val c < 0x20" "valid_utf8 s"
  shows "unit_matches s \<and> raw_len s = rune_width s"
proof (cases "byte_val c < 0x80")
  case True
  with assms show ?thesis
    by (simp add: unit_matches_def next_unit_def literal_unit_def unquote_step_def Let_def)
next
  case False
  obtain r n where d: "decode_rune s = (r, n)" by (cases "decode_rune s")
  then have w: "rune_width s = n" by (simp add: rune_width_def)
  with assms False have n: "2 \<le> n" using rune_width_pos [of s] by (cases "n = 1") auto
  with d False assms w rune_width_le [of s] encode_decode [OF d n] show ?thesis
    by (auto simp: unit_matches_def next_unit_def literal_unit_def unquote_step_def Let_def
        simp del: decode_rune.simps)
qed

end
