(* ===== verification/Splice.thy ===== *)
theory Splice
  imports JsonString
begin

text \<open>
  What \<open>RawSpan\<close>, \<open>RawSpelling\<close> and \<open>Apply\<close> achieve together. A leaf's tokens form a chain: the
  interior of each token decodes to the document that holds the next inner token, and the
  innermost one decodes to the leaf's value. Splicing the spelled text at the mapped span of the
  outermost document changes the decoded value by exactly that edit, at any nesting of
  JSON-encoded strings.
\<close>

section \<open>Prefixes that end between units\<close>

definition low_start :: "bytes \<Rightarrow> bool" where
  "low_start t \<longleftrightarrow> (\<exists>lo. getu4 t = Some lo \<and> 0xDC00 \<le> lo \<and> lo \<le> 0xDFFF)"

lemma str_run_append: "str_run st p \<Longrightarrow> str_run st (p @ q) \<longleftrightarrow> interior q"
  by (induction st p rule: str_run.induct) (auto split: option.splits)

lemma valid_utf8_rune:
  assumes "valid_utf8 s" "s \<noteq> []"
  shows "valid_utf8 (drop (rune_width s) s)"
    and "valid_utf8 (take (rune_width s) s @ t) = valid_utf8 t"
proof -
  obtain a u where s: "s = a # u" using assms(2) by (cases s) auto
  have "valid_utf8 (drop (rune_width s) s) \<and> (valid_utf8 (take (rune_width s) s @ t) = valid_utf8 t)"
  proof (cases "byte_val a < 0x80")
    case True
    with assms s show ?thesis by simp
  next
    case False
    obtain r n where d: "decode_rune s = (r, n)" by (cases "decode_rune s")
    then have w: "rune_width s = n" by (simp add: rune_width_def)
    with assms s False have n: "2 \<le> n" using rune_width_pos [of s] by (cases "n = 1") auto
    with w rune_width_le [of s] s obtain u' where u': "take n s = a # u'" "length u' = n - 1"
      by (cases n) auto
    have "decode_rune (a # u' @ t) = (r, n)" using decode_rune_take [OF d n, of t] u' by simp
    then have "rune_width (a # u' @ t) = n" by (simp add: rune_width_def del: decode_rune.simps)
    with False n have "valid_utf8 (a # u' @ t) = valid_utf8 (drop n (a # u' @ t))" by simp
    moreover have "drop n (a # u' @ t) = t" using n u'(2) by (cases n) auto
    ultimately show ?thesis
      using False assms(1) s w n u' by auto
  qed
  then show "valid_utf8 (drop (rune_width s) s)"
    and "valid_utf8 (take (rune_width s) s @ t) = valid_utf8 t" by auto
qed

lemma valid_utf8_ascii_append:
  "\<forall>c \<in> set p. byte_val c < 0x80 \<Longrightarrow> valid_utf8 (p @ t) = valid_utf8 t"
  by (induction p) auto

lemma hex_ascii: "is_hex c \<Longrightarrow> byte_val c < 0x80"
  by (auto simp: is_hex_def hex_val_def ascii_defs split: if_splits)

lemma simple_escape_ascii: "e \<in> set simple_escapes \<Longrightarrow> byte_val e < 0x80"
  unfolding simple_escapes_def by (simp only: list.set) (elim insertE emptyE; simp)

text \<open>One step of the decoder on an accepted interior, in all the respects the proofs use.\<close>

definition good :: "bytes \<Rightarrow> bool" where
  "good s \<longleftrightarrow> interior s \<and> valid_utf8 s"

lemma good_Nil [simp]: "good []"
  by (simp add: good_def)

lemma good_literal_step:
  assumes "good s" "s = c # t" "c \<noteq> CHR 0x5C" "c \<noteq> CHR 0x22" "\<not> byte_val c < 0x20" "interior t"
  shows "good (drop (rune_width s) s)" "good (take (rune_width s) s @ q) = good q"
proof -
  have high: "\<forall>x \<in> set (take (rune_width s) s). x \<noteq> CHR 0x5C \<and> x \<noteq> CHR 0x22 \<and> \<not> byte_val x < 0x20"
  proof (cases "byte_val c < 0x80")
    case True
    with assms show ?thesis by simp
  next
    case False
    show ?thesis using decode_rune_high [OF False, of t] unfolding assms(2) by force
  qed
  have run: "interior (p @ q) = interior q"
    if "\<forall>x \<in> set p. x \<noteq> CHR 0x5C \<and> x \<noteq> CHR 0x22 \<and> \<not> byte_val x < 0x20" for p q
    using that by (induction p) auto
  have "interior (drop (rune_width s) s)"
    using run [OF high, of "drop (rune_width s) s"] assms(1) by (simp add: good_def)
  with valid_utf8_rune(1) [of s] assms show "good (drop (rune_width s) s)" by (simp add: good_def)
  show "good (take (rune_width s) s @ q) = good q"
    using run [OF high, of q] valid_utf8_rune(2) [of s q] assms by (simp add: good_def)
qed

lemma lead_not_cont: "0xC0 \<le> b \<Longrightarrow> b < 256 \<Longrightarrow> \<not> is_cont (char_of (b :: nat))"
  by (simp add: is_cont_def)

definition rune_bytes :: "bytes \<Rightarrow> bool" where
  "rune_bytes s \<longleftrightarrow> s \<noteq> [] \<and> \<not> is_cont (hd s) \<and> (\<forall>x \<in> set (tl s). is_cont x)"

lemma rune_bytes_encode: "rune_bytes (encode_rune r)"
proof -
  define q where "q = (if (0xD800 \<le> r \<and> r \<le> 0xDFFF) \<or> 0x10FFFF < r then rune_error else r)"
  have q: "q \<le> 0x10FFFF" by (simp add: q_def rune_error_def)
  consider "q < 0x80" | "\<not> q < 0x80" "q < 0x800" | "\<not> q < 0x800" "q < 0x10000" | "\<not> q < 0x10000"
    by linarith
  then show ?thesis
  proof cases
    case 1
    then show ?thesis
      by (simp add: encode_rune_def rune_bytes_def is_cont_def flip: q_def)
  next
    case 2
    then have "q div 64 < 32" by (simp add: less_mult_imp_div_less)
    with 2 show ?thesis
      by (simp add: encode_rune_def rune_bytes_def cont_byte lead_not_cont flip: q_def)
  next
    case 3
    then have "q div 4096 < 16" by (simp add: less_mult_imp_div_less)
    with 3 show ?thesis
      by (simp add: encode_rune_def rune_bytes_def cont_byte lead_not_cont flip: q_def)
  next
    case 4
    have "q div 262144 < 5" using q by (intro less_mult_imp_div_less) simp
    with 4 show ?thesis
      by (simp add: encode_rune_def rune_bytes_def cont_byte lead_not_cont flip: q_def)
  qed
qed

lemma rune_bytes_nth: "rune_bytes s \<Longrightarrow> i < length s \<Longrightarrow> is_cont (s ! i) \<longleftrightarrow> 0 < i"
  by (cases s; cases i) (auto simp: rune_bytes_def)

lemma rune_bytes_ascii: "byte_val c < 0x80 \<Longrightarrow> rune_bytes [c]"
  by (simp add: rune_bytes_def is_cont_def)

definition step_ok :: "bytes \<Rightarrow> nat \<Rightarrow> bytes \<Rightarrow> bool" where
  "step_ok s n out \<longleftrightarrow>
     n = raw_len s \<and> length out = fst (snd (next_unit s)) \<and> unquote_step s = Some (n, out) \<and>
     good (drop n s) \<and> (\<forall>q. good (take n s @ q) = good q) \<and>
     (\<forall>t. (low_start t \<longrightarrow> take 6 t = take 6 (drop n s)) \<longrightarrow>
        unquote_step (take n s @ t) = Some (n, out)) \<and>
     (take 2 s \<noteq> [CHR 0x5C, CHR ''u''] \<or> 6 \<le> n) \<and> (s ! 0 = CHR 0x5C \<longrightarrow> 2 \<le> n) \<and>
     \<not> is_cont (s ! 0) \<and> rune_bytes out"

lemma unquote_step_simple:
  assumes "e \<in> set simple_escapes"
  shows "\<exists>x. (\<forall>q. unquote_step (CHR 0x5C # e # q) = Some (2, [x])) \<and> byte_val x < 0x80"
  using assms unfolding simple_escapes_def
  by (simp only: list.set) (elim insertE emptyE; simp add: unquote_step_def Let_def)

lemma step_ok_simple:
  assumes "s = CHR 0x5C # e # t" "e \<in> set simple_escapes" "good s"
  shows "\<exists>out. step_ok s 2 out"
proof -
  have e: "e \<noteq> CHR ''u''" "byte_val e < 0x80"
    using assms(2) simple_escape_ascii by (auto simp: simple_escapes_def)
  obtain x where out: "\<And>q. unquote_step (CHR 0x5C # e # q) = Some (2, [x])" "byte_val x < 0x80"
    using unquote_step_simple [OF assms(2)] by blast
  from unit_matches_simple [OF assms(2), of t] assms(1) out
  have n: "raw_len s = 2" "fst (snd (next_unit s)) = 1"
    by (auto simp: unit_matches_def)
  have g: "good (CHR 0x5C # e # q) = good q" for q
    using assms(2) e by (simp add: good_def)
  with assms(1,3) have "good t" by simp
  with n out g e assms(1) show ?thesis
    by (intro exI [of _ "[x]"]) (auto simp: step_ok_def rune_bytes_ascii is_cont_def)
qed

lemma step_ok_literal:
  assumes "good s" "s = c # t" "c \<noteq> CHR 0x5C" "c \<noteq> CHR 0x22" "\<not> byte_val c < 0x20" "interior t"
  shows "\<exists>out. step_ok s (rune_width s) out"
proof -
  obtain out where m: "unquote_step s = Some (rune_width s, out)" "length out = fst (snd (next_unit s))"
      "raw_len s = rune_width s"
    using unit_matches_literal [OF assms(2-5)] assms(1) by (auto simp: unit_matches_def good_def)
  have fixed: "unquote_step (take (rune_width s) s @ q) = Some (rune_width s, out) \<and> rune_bytes out
      \<and> \<not> is_cont c" for q
  proof (cases "byte_val c < 0x80")
    case True
    with m assms show ?thesis
      by (auto simp: unquote_step_def Let_def rune_bytes_ascii is_cont_def)
  next
    case False
    obtain r n where d: "decode_rune s = (r, n)" by (cases "decode_rune s")
    then have w: "rune_width s = n" by (simp add: rune_width_def)
    with assms False have n: "2 \<le> n"
      using rune_width_pos [of s] by (cases "n = 1") (auto simp: good_def)
    have out: "out = take n s" "rune_bytes (take n s)"
      using unquote_step_rune [OF d n, of "drop n s"] False assms(2) m(1) w
        encode_decode [OF d n] rune_bytes_encode [of r] by auto
    moreover have "hd (take n s) = c" using n assms(2) by (cases n) auto
    ultimately show ?thesis
      using unquote_step_rune [OF d n] False assms(2) w by (auto simp: rune_bytes_def)
  qed
  from m fixed assms good_literal_step [OF assms] show ?thesis
    by (intro exI [of _ out]) (auto simp: step_ok_def)
qed

lemma getu4_low_split:
  assumes "getu4 t = Some lo" "good t"
  shows "\<exists>a b c d u. t = [CHR 0x5C, CHR ''u'', a, b, c, d] @ u \<and> is_hex a \<and> is_hex b \<and> is_hex c \<and> is_hex d \<and>
    parse_hex4 [a, b, c, d] = Some lo \<and> good u"
proof -
  have i: "interior t" "t \<noteq> []" using assms by (auto simp: getu4_def good_def)
  show ?thesis
  proof (cases rule: interior_Cons_cases [OF i])
    case (1 e u)
    with assms(1) show ?thesis by (auto simp: getu4_def simple_escapes_def split: if_splits)
  next
    case (2 a b c d u r)
    with assms have "parse_hex4 [a, b, c, d] = Some lo" by (simp add: getu4_def)
    moreover have "good u"
      using assms(2) valid_utf8_ascii_append [of "[CHR 0x5C, CHR ''u'', a, b, c, d]" u] 2 hex_ascii
      by (auto simp: good_def)
    ultimately show ?thesis using 2 by auto
  next
    case (3 c u)
    with assms(1) show ?thesis by (auto simp: getu4_def split: if_splits)
  qed
qed

lemma getu4_take:
  assumes "take 6 p = take 6 q"
  shows "getu4 p = getu4 q"
proof -
  have "min (length p) 6 = min (length q) 6" using assms by (metis length_take)
  then have len: "length p < 6 \<longleftrightarrow> length q < 6" by linarith
  have "p ! i = q ! i" if "i < 6" for i using assms that by (metis nth_take)
  moreover have "take 4 (drop 2 p) = take 4 (drop 2 q)"
  proof -
    have "take 4 (drop 2 p) = drop 2 (take 6 p)" "take 4 (drop 2 q) = drop 2 (take 6 q)"
      by (simp_all add: drop_take)
    with assms show ?thesis by simp
  qed
  ultimately show ?thesis using len by (simp add: getu4_def)
qed

lemma good_unicode:
  assumes "is_hex a" "is_hex b" "is_hex c" "is_hex d"
  shows "good (CHR 0x5C # CHR ''u'' # a # b # c # d # q) = good q"
  using assms valid_utf8_ascii_append [of "[CHR 0x5C, CHR ''u'', a, b, c, d]" q] hex_ascii
  by (auto simp: good_def simple_escapes_def)

lemma step_ok_unicode:
  assumes s: "s = CHR 0x5C # CHR ''u'' # a # b # c # d # t" and "good s"
    and r: "parse_hex4 [a, b, c, d] = Some r" and h: "is_hex a" "is_hex b" "is_hex c" "is_hex d"
  shows "\<exists>n out. step_ok s n out"
proof -
  note step = unquote_step_unicode [OF refl r]
  obtain n out where no: "unquote_step s = Some (n, out)" "n = raw_len s" "length out = fst (snd (next_unit s))"
    using unit_matches_unicode [OF s r] by (auto simp: unit_matches_def)
  have rb: "rune_bytes out"
    using no(1) unfolding s step by (auto simp: rune_bytes_encode split: if_splits option.splits)
  have gt: "good t" using assms(2) good_unicode [OF h] s by simp
  have n_cases: "n = 6 \<or> n = 12" using no(1) unfolding s step by (auto split: if_splits option.splits)
  have fixed: "good (drop n s) \<and> good (take n s @ q) = good q \<and>
    ((low_start q \<longrightarrow> take 6 q = take 6 (drop n s)) \<longrightarrow> unquote_step (take n s @ q) = Some (n, out))" for q
  proof (cases "n = 6")
    case True
    have "unquote_step (take 6 s @ q) = Some (6, out)" if *: "low_start q \<longrightarrow> take 6 q = take 6 t"
    proof (cases "low_start q")
      case True
      with * have "getu4 q = getu4 t" by (intro getu4_take) simp
      with no(1) \<open>n = 6\<close> show ?thesis unfolding s step by (auto simp: step split: if_splits)
    next
      case False
      have "\<And>lo. getu4 q = Some lo \<Longrightarrow> utf16_decode r lo = rune_error"
        using False by (intro utf16_decode_error) (auto simp: low_start_def)
      with no(1) \<open>n = 6\<close> show ?thesis
        unfolding s step using s step by (auto split: if_splits option.splits)
    qed
    with True s gt good_unicode [OF h] show ?thesis by simp
  next
    case False
    then have n: "n = 12" using n_cases by simp
    from no(1) n obtain lo where lo: "getu4 t = Some lo" "utf16_decode r lo \<noteq> rune_error"
        "0xD800 \<le> r" "r \<le> 0xDFFF" "out = encode_rune (utf16_decode r lo)"
      unfolding s step by (auto split: if_splits option.splits)
    from getu4_low_split [OF lo(1) gt] obtain a' b' c' d' u where
      t: "t = [CHR 0x5C, CHR ''u'', a', b', c', d'] @ u" "is_hex a'" "is_hex b'" "is_hex c'" "is_hex d'"
      "parse_hex4 [a', b', c', d'] = Some lo" "good u" by blast
    have g: "getu4 ([CHR 0x5C, CHR ''u'', a', b', c', d'] @ q) = Some lo"
      using t by (simp add: getu4_def)
    have tk: "take 12 s = CHR 0x5C # CHR ''u'' # a # b # c # d # [CHR 0x5C, CHR ''u'', a', b', c', d']"
      "drop 12 s = u" using s t(1) by simp_all
    have "unquote_step (take 12 s @ q) = Some (12, out)"
      unfolding tk append_Cons using lo g by (simp add: step)
    moreover have "good (take 12 s @ q) = good q"
      unfolding tk append_Cons using good_unicode [OF h] good_unicode [OF t(2-5)] by simp
    ultimately show ?thesis using n tk t(7) by simp
  qed
  then have "step_ok s n out"
    using no rb n_cases s by (auto simp: step_ok_def is_cont_def)
  then show ?thesis by blast
qed

lemma good_step: "good s \<Longrightarrow> s \<noteq> [] \<Longrightarrow> \<exists>n out. step_ok s n out"
proof -
  assume g: "good s" and "s \<noteq> []"
  then have i: "interior s" "s \<noteq> []" by (auto simp: good_def)
  show ?thesis
  proof (cases rule: interior_Cons_cases [OF i])
    case (1 e t)
    then show ?thesis using step_ok_simple g by blast
  next
    case (2 a b c d t r)
    show ?thesis by (rule step_ok_unicode [OF 2(1) g 2(3-7)])
  next
    case (3 c t)
    then show ?thesis using step_ok_literal g by blast
  qed
qed

lemma low_start_head: "low_start t \<Longrightarrow> take 2 t = [CHR 0x5C, CHR ''u'']"
  by (cases t rule: remdups_adj.cases) (auto simp: low_start_def getu4_def split: if_splits)

lemma low_start_take:
  assumes "step_ok s n out" "n \<le> w" "low_start (take w s @ q)" "n \<le> length s" "s \<noteq> []"
  shows "take 6 (take w s @ q) = take 6 s"
proof -
  from assms(3) have st: "take 2 (take w s @ q) = [CHR 0x5C, CHR ''u'']"
    by (rule low_start_head)
  have "0 < n"
    using assms(1,5) by (simp add: step_ok_def)
  then have "s \<noteq> []" "s ! 0 = CHR 0x5C"
    using st assms(2,4) by (cases s; cases w; force)+
  then have "2 \<le> n" using assms(1) by (simp add: step_ok_def)
  with st assms(2,4) have "take 2 s = [CHR 0x5C, CHR ''u'']" by simp
  with assms(1) have "6 \<le> n" by (auto simp: step_ok_def)
  with assms(2,4) show ?thesis by simp
qed

definition units_prefix_ok :: "bytes \<Rightarrow> nat \<Rightarrow> bytes \<Rightarrow> bool" where
  "units_prefix_ok s w x \<longleftrightarrow>
     w \<le> length s \<and> good (drop w s) \<and> (\<forall>q. good (take w s @ q) = good q) \<and>
     unquote s = map_option ((@) x) (unquote (drop w s)) \<and>
     (\<forall>q. \<not> low_start q \<longrightarrow> unquote (take w s @ q) = map_option ((@) x) (unquote q))"

lemma map_option_append: "map_option ((@) x) (map_option ((@) y) m) = map_option ((@) (x @ y)) m"
  by (cases m) auto

lemma map_option_append_Nil [simp]: "map_option ((@) []) m = m"
  by (cases m) auto

lemma units_prefix:
  assumes "good s" "raw_units s = us @ vs"
  shows "raw_units (drop (raw_width us) s) = vs \<and>
    (\<exists>x. length x = decoded_width us \<and> units_prefix_ok s (raw_width us) x)"
  using assms
proof (induction us arbitrary: s)
  case Nil
  then show ?case by (auto simp: units_prefix_ok_def)
next
  case (Cons u us)
  then have ne: "s \<noteq> []" by auto
  from good_step [OF Cons.prems(1) this] obtain n out where ok: "step_ok s n out" by blast
  define w s' where "w = raw_width us" and "s' = drop n s"
  have n: "n = raw_len s" "n \<le> length s" "0 < n" "u = (n, length out)"
    using ok Cons.prems(2) raw_len_le [of s] raw_len_pos [OF ne] raw_units_Cons [OF ne]
    by (auto simp: step_ok_def)
  have units: "raw_units s' = us @ vs" "good s'"
    using Cons.prems(2) raw_units_Cons [OF ne] n(1) ok by (auto simp: s'_def step_ok_def)
  from Cons.IH [OF units(2,1)] obtain x where
    x: "length x = decoded_width us" "units_prefix_ok s' w x" "raw_units (drop w s') = vs"
    by (auto simp: w_def)
  have tk: "take (n + w) s = take n s @ take w s'" "drop (n + w) s = drop w s'"
    by (simp_all add: s'_def take_add add.commute)
  have step: "unquote (take n s @ t) = map_option ((@) out) (unquote t)"
    if "low_start t \<longrightarrow> take 6 t = take 6 s'" for t
  proof -
    have "unquote_step (take n s @ t) = Some (n, out)" "take n s @ t \<noteq> []" "length (take n s) = n"
      using ok that n ne by (auto simp: step_ok_def s'_def)
    from unquote_step_eq [OF this(2,1)] this(3) show ?thesis by simp
  qed
  have low: "low_start (take w s' @ q) \<longrightarrow> take 6 (take w s' @ q) = take 6 s'" if "\<not> low_start q" for q
  proof (cases us)
    case Nil
    with that show ?thesis by (simp add: w_def)
  next
    case (Cons u' us')
    with units have ne': "s' \<noteq> []" by auto
    from good_step [OF units(2) this] obtain n' out' where ok': "step_ok s' n' out'" by blast
    have "n' \<le> w" using ok' units(1) Cons raw_units_Cons [OF ne'] by (auto simp: step_ok_def w_def)
    moreover have "n' \<le> length s'" using ok' raw_len_le [of s'] by (simp add: step_ok_def)
    ultimately show ?thesis using low_start_take [OF ok'] ne' by blast
  qed
  have "units_prefix_ok s (n + w) (out @ x)"
    unfolding units_prefix_ok_def tk
  proof (intro conjI allI impI)
    have "w \<le> length s'" using x(2) by (simp add: units_prefix_ok_def)
    then show "n + w \<le> length s" using n(2) by (simp add: s'_def)
    show "good (drop w s')" using x(2) by (simp add: units_prefix_ok_def)
    show "good ((take n s @ take w s') @ q) = good q" for q
    proof -
      have "good (take n s @ r) = good r" for r using ok unfolding step_ok_def by blast
      moreover have "good (take w s' @ q) = good q" using x(2) unfolding units_prefix_ok_def by blast
      ultimately show ?thesis by simp
    qed
    show "unquote s = map_option ((@) (out @ x)) (unquote (drop w s'))"
      using step [of s'] x(2) n(2) by (simp add: units_prefix_ok_def s'_def map_option_append)
    show "unquote ((take n s @ take w s') @ q) = map_option ((@) (out @ x)) (unquote q)"
      if "\<not> low_start q" for q
      using step [OF low [OF that]] x(2) that by (simp add: units_prefix_ok_def map_option_append)
  qed
  with x n(4) tk(2) show ?case
    by (auto simp: w_def intro!: exI [of _ "out @ x"])
qed

section \<open>Rune boundaries\<close>

definition boundary :: "bytes \<Rightarrow> nat \<Rightarrow> bool" where
  "boundary v k \<longleftrightarrow> k \<le> length v \<and> (k < length v \<longrightarrow> \<not> is_cont (v ! k))"

lemma boundary_units:
  assumes "good s" "unquote s = Some v" "boundary v k"
  shows "\<exists>us vs. raw_units s = us @ vs \<and> k = decoded_width us"
  using assms
proof (induction s arbitrary: v k rule: units_induct)
  case Nil
  then show ?case by (auto simp: boundary_def)
next
  case (unit s)
  from good_step [OF unit.prems(1) unit.hyps(1)] obtain n out where ok: "step_ok s n out" by blast
  then have ru: "raw_units s = (n, length out) # raw_units (drop n s)"
    using raw_units_Cons [OF unit.hyps(1)] by (simp add: step_ok_def)
  from ok have "unquote_step s = Some (n, out)" "n = raw_len s" "good (drop n s)" "rune_bytes out"
    unfolding step_ok_def by blast+
  note facts = this
  with unquote_step_eq [OF unit.hyps(1) facts(1)] unit.prems(2)
  obtain v' where v': "unquote (drop n s) = Some v'" "v = out @ v'"
    by (cases "unquote (drop n s)") auto
  consider "k = 0" | "0 < k" "k < length out" | "length out \<le> k" by linarith
  then show ?case
  proof cases
    case 1
    then have "raw_units s = [] @ raw_units s \<and> k = decoded_width []" by simp
    then show ?thesis by blast
  next
    case 2
    with v' unit.prems(3) rune_bytes_nth [OF facts(4), of k] show ?thesis
      by (auto simp: boundary_def nth_append)
  next
    case 3
    with v' unit.prems(3) have "boundary v' (k - length out)"
      by (auto simp: boundary_def nth_append)
    with unit.IH facts v' obtain us vs where
      "raw_units (drop n s) = us @ vs" "k - length out = decoded_width us" by blast
    with ru 3 have "raw_units s = ((n, length out) # us) @ vs \<and>
        k = decoded_width ((n, length out) # us)" by simp
    then show ?thesis by blast
  qed
qed

lemma unit_offset_boundary:
  assumes "good s" "raw_units s = us @ vs"
  shows "boundary s (raw_width us)"
proof -
  from units_prefix [OF assms] have w: "raw_width us \<le> length s" "good (drop (raw_width us) s)"
    by (auto simp: units_prefix_ok_def)
  have "\<not> is_cont (s ! raw_width us)" if "raw_width us < length s"
  proof -
    have "drop (raw_width us) s \<noteq> []" using that by simp
    from good_step [OF w(2) this] show ?thesis using that w(1) by (auto simp: step_ok_def)
  qed
  with w show ?thesis by (simp add: boundary_def)
qed

section \<open>Spelled text is accepted and decodes to itself\<close>

lemma escape_not_low: "r \<noteq> [] \<Longrightarrow> \<not> low_start (escape_json_string r @ q)"
proof (cases r)
  case (Cons c cs)
  show ?thesis
  proof (cases c rule: escape_char_cases)
    case (short e)
    then have "e \<noteq> CHR ''u''" by (auto simp: simple_escapes_def)
    with short Cons show ?thesis by (simp add: escape_Cons low_start_def getu4_def)
  next
    case control
    with Cons show ?thesis by (simp add: escape_Cons low_start_def getu4_control)
  next
    case plain
    then have "c \<noteq> CHR 0x5C" by (auto simp: needs_escape_def)
    with plain Cons show ?thesis by (simp add: escape_Cons low_start_def getu4_def)
  qed
qed simp

lemma is_hex_hex_digit: "n < 16 \<Longrightarrow> is_hex (hex_digit n)"
  by (simp add: is_hex_def hex_val_hex_digit)

lemma interior_escape_char: "interior (escape_char c @ q) = interior q"
proof (cases c rule: escape_char_cases)
  case control
  then have "byte_val c div 16 < 16" by (simp add: less_mult_imp_div_less)
  moreover have "is_hex CHR ''0''" by code_simp
  ultimately show ?thesis using control by (simp add: is_hex_hex_digit simple_escapes_def)
qed (auto simp: needs_escape_def)

lemma interior_escape: "interior (escape_json_string r @ q) = interior q"
  by (induction r) (simp_all add: escape_Cons interior_escape_char)

lemma escape_char_ascii: "byte_val c < 0x80 \<Longrightarrow> \<forall>x \<in> set (escape_char c). byte_val x < 0x80"
proof (cases c rule: escape_char_cases)
  case (short e)
  then show ?thesis by (simp add: simple_escape_ascii)
next
  case control
  then have "byte_val c div 16 < 16" by (simp add: less_mult_imp_div_less)
  with control show ?thesis
    using hex_ascii [OF is_hex_hex_digit] by auto
qed auto

lemma valid_utf8_escape:
  "valid_utf8 r \<Longrightarrow> valid_utf8 (escape_json_string r @ q) = valid_utf8 q"
proof (induction r rule: valid_utf8.induct)
  case (2 a s)
  show ?case
  proof (cases "byte_val a < 0x80")
    case True
    with 2 valid_utf8_ascii_append [OF escape_char_ascii [OF True]] show ?thesis
      by (simp add: escape_Cons)
  next
    case False
    let ?s = "a # s" and ?n = "rune_width (a # s)"
    have "escape_json_string (take ?n ?s) = take ?n ?s"
      by (rule escape_high [OF decode_rune_high [OF False]])
    then have e: "escape_json_string ?s = take ?n ?s @ escape_json_string (drop ?n ?s)"
      by (metis append_take_drop_id escape_append)
    have "valid_utf8 (escape_json_string (drop ?n ?s) @ q) = valid_utf8 q"
      using "2.IH"(2) [OF False] "2.prems" False by simp
    with valid_utf8_rune(2) [OF "2.prems"] show ?thesis by (simp add: e)
  qed
qed simp

lemma good_escape: "valid_utf8 r \<Longrightarrow> good (escape_json_string r @ q) = good q"
  by (simp add: good_def interior_escape valid_utf8_escape)

lemma escape_valid: "valid_utf8 r \<Longrightarrow> valid_utf8 (escape_json_string r)"
  using valid_utf8_escape [of r "[]"] by simp

lemma escape_not_Nil: "r \<noteq> [] \<Longrightarrow> escape_json_string r \<noteq> []"
  by (cases r) (auto simp: escape_Cons)

section \<open>One level\<close>

lemma decoded_width_pos: "us \<noteq> [] \<Longrightarrow> set us \<subseteq> set (raw_units s) \<Longrightarrow> 0 < decoded_width us"
  using raw_units_positive by (cases us) force+

lemma splice_one:
  assumes "good raw" "unquote raw = Some v" "boundary v a" "boundary v b" "a < b"
    and "map_span raw (int a) (int b) = Some (rs, re)"
  shows "rs < re" "re \<le> length raw" "boundary raw rs" "boundary raw re"
    and "repl \<noteq> [] \<Longrightarrow> valid_utf8 repl \<Longrightarrow> good (take rs raw @ escape_json_string repl @ drop re raw) \<and>
      unquote (take rs raw @ escape_json_string repl @ drop re raw) = Some (take a v @ repl @ drop b v)"
proof -
  from boundary_units [OF assms(1,2,3)] obtain us vs where
    a: "raw_units raw = us @ vs" "a = decoded_width us" by blast
  from boundary_units [OF assms(1,2,4)] obtain us' ws where
    b: "raw_units raw = us' @ ws" "b = decoded_width us'" by blast
  from a b consider ms where "us' = us @ ms" | ms where "us = us' @ ms"
    by (metis append_eq_append_conv2)
  then obtain ms where ms: "us' = us @ ms" using a b assms(5) by cases auto
  with a b assms(5) have "ms \<noteq> []" by auto
  from a b ms have vs: "raw_units raw = us @ ms @ ws" by simp
  have span: "rs = raw_width us" "re = raw_width (us @ ms)"
    using map_span_boundaries [OF vs \<open>ms \<noteq> []\<close>] assms(6) a(2) b(2) ms by auto
  have "0 < raw_width ms"
    using \<open>ms \<noteq> []\<close> vs raw_units_positive [of _ _ raw] by (cases ms) force+
  with span show "rs < re" by simp
  have b': "raw_units raw = (us @ ms) @ ws" using vs by simp
  from units_prefix [OF assms(1) b'] obtain x where
    x: "length x = b" "units_prefix_ok raw re x" using span b(2) ms by auto
  from units_prefix [OF assms(1) a(1)] obtain y where
    y: "length y = a" "units_prefix_ok raw rs y" using span a(2) by auto
  show "re \<le> length raw" using x(2) by (simp add: units_prefix_ok_def)
  show "boundary raw rs" "boundary raw re"
    using unit_offset_boundary [OF assms(1) a(1)] unit_offset_boundary [OF assms(1) b'] span by auto
  assume r: "repl \<noteq> []" "valid_utf8 repl"
  from x assms(2) obtain z where z: "unquote (drop re raw) = Some z" "v = x @ z"
    by (cases "unquote (drop re raw)") (auto simp: units_prefix_ok_def)
  from y assms(2) have "take a v = y"
    by (cases "unquote (drop rs raw)") (auto simp: units_prefix_ok_def)
  moreover have "drop b v = z" using z x(1) by simp
  moreover have "unquote (take rs raw @ escape_json_string repl @ drop re raw)
      = map_option ((@) y) (map_option ((@) repl) (Some z))"
    using y(2) escape_not_low [OF r(1)] unquote_escape_append [OF r(2)] z(1)
    by (simp add: units_prefix_ok_def)
  moreover have "good (take rs raw @ escape_json_string repl @ drop re raw)"
    using x(2) y(2) good_escape [OF r(2)] by (simp add: units_prefix_ok_def)
  ultimately show "good (take rs raw @ escape_json_string repl @ drop re raw) \<and>
      unquote (take rs raw @ escape_json_string repl @ drop re raw) = Some (take a v @ repl @ drop b v)"
    by simp
qed

section \<open>The chain of enclosing tokens\<close>

definition token_at :: "bytes \<Rightarrow> raw_token \<Rightarrow> bool" where
  "token_at d t \<longleftrightarrow>
     (\<exists>post. drop (tok_start t) d = CHR 0x22 # tok_raw t @ CHR 0x22 # post) \<and> tok_start t < length d"

text \<open>
  \<open>chain ts v body\<close>: the innermost token decodes to \<open>v\<close>, each token lies in the document its
  parent decodes to, and the outermost one lies in \<open>body\<close>.
\<close>

fun chain :: "raw_token list \<Rightarrow> bytes \<Rightarrow> bytes \<Rightarrow> bool" where
  "chain [] v body \<longleftrightarrow> v = body"
| "chain (t # ts) v body \<longleftrightarrow>
     good (tok_raw t) \<and> unquote (tok_raw t) = Some v \<and>
     (\<exists>d. token_at d t \<and> chain ts d body)"

lemma token_at_splice:
  assumes "token_at d t" "rs \<le> re" "re \<le> length (tok_raw t)"
  defines "p \<equiv> rs + tok_start t + 1" and "q \<equiv> re + tok_start t + 1"
  shows "token_at (take p d @ m @ drop q d)
      (t\<lparr>tok_raw := take rs (tok_raw t) @ m @ drop re (tok_raw t)\<rparr>)"
    and "boundary (tok_raw t) rs \<Longrightarrow> boundary d p" and "boundary (tok_raw t) re \<Longrightarrow> boundary d q"
proof -
  from assms(1) obtain post where
    post: "drop (tok_start t) d = CHR 0x22 # tok_raw t @ CHR 0x22 # post" "tok_start t < length d"
    by (auto simp: token_at_def)
  define pre where "pre = take (tok_start t) d"
  have d: "d = pre @ CHR 0x22 # tok_raw t @ CHR 0x22 # post"
    using post(1) unfolding pre_def by (metis append_take_drop_id)
  have pre: "length pre = tok_start t" using post(2) by (simp add: pre_def)
  have tk: "take p d = pre @ CHR 0x22 # take rs (tok_raw t)"
    "drop q d = drop re (tok_raw t) @ CHR 0x22 # post"
    using assms(2,3) by (simp_all add: d pre p_def q_def)
  show "token_at (take p d @ m @ drop q d)
      (t\<lparr>tok_raw := take rs (tok_raw t) @ m @ drop re (tok_raw t)\<rparr>)"
    unfolding tk by (simp add: token_at_def pre)
  have b: "boundary d (i + tok_start t + 1)" if "boundary (tok_raw t) i" for i
  proof -
    have "i \<le> length (tok_raw t)" using that by (simp add: boundary_def)
    moreover have "d ! (i + tok_start t + 1) = (tok_raw t @ CHR 0x22 # post) ! i"
      by (simp add: d pre nth_append)
    moreover have "\<not> is_cont CHR 0x22" by (simp add: is_cont_def)
    ultimately show ?thesis
      using that by (auto simp: boundary_def d pre nth_append)
  qed
  show "boundary (tok_raw t) rs \<Longrightarrow> boundary d p" and "boundary (tok_raw t) re \<Longrightarrow> boundary d q"
    using b by (auto simp: p_def q_def)
qed

abbreviation spelled :: "raw_token list \<Rightarrow> bytes \<Rightarrow> bytes" where
  "spelled ts r \<equiv> fold (\<lambda>_ out. escape_json_string out) ts r"

lemma chain_splice:
  assumes "chain ts v body" "boundary v a" "boundary v b" "a < b"
    and "map_outward ts a b = Some (rs, re)" and "repl \<noteq> []" "valid_utf8 repl"
  shows "rs < re \<and> (\<exists>ts'. map tok_start ts' = map tok_start ts \<and>
    chain ts' (take a v @ repl @ drop b v) (take rs body @ spelled ts repl @ drop re body))"
  using assms
proof (induction ts arbitrary: v a b repl)
  case Nil
  then show ?case by simp
next
  case (Cons t ts)
  from Cons.prems(1) obtain d where
    t: "good (tok_raw t)" "unquote (tok_raw t) = Some v" "token_at d t" "chain ts d body" by auto
  from Cons.prems(5) obtain rs1 re1 where
    m: "map_span (tok_raw t) (int a) (int b) = Some (rs1, re1)"
    and out: "map_outward ts (rs1 + tok_start t + 1) (re1 + tok_start t + 1) = Some (rs, re)"
    by (auto split: option.splits)
  note one = splice_one [OF t(1,2) Cons.prems(2-4) m]
  let ?p = "rs1 + tok_start t + 1" and ?q = "re1 + tok_start t + 1"
  let ?e = "escape_json_string repl"
  let ?t = "t\<lparr>tok_raw := take rs1 (tok_raw t) @ ?e @ drop re1 (tok_raw t)\<rparr>"
  have "rs1 \<le> re1" using one(1) by simp
  note loc = token_at_splice [OF t(3) this one(2)]
  have "rs < re \<and> (\<exists>ts'. map tok_start ts' = map tok_start ts \<and>
    chain ts' (take ?p d @ ?e @ drop ?q d) (take rs body @ spelled ts ?e @ drop re body))"
    using Cons.IH [OF t(4) loc(2,3) _ out] one Cons.prems(6,7) escape_not_Nil escape_valid by simp
  then obtain ts' where rs: "rs < re" and ts': "map tok_start ts' = map tok_start ts"
      "chain ts' (take ?p d @ ?e @ drop ?q d) (take rs body @ spelled ts ?e @ drop re body)" by blast
  have "chain (?t # ts') (take a v @ repl @ drop b v) (take rs body @ spelled (t # ts) repl @ drop re body)"
    using one(5) [OF Cons.prems(6,7)] loc(1) [of ?e] ts'(2) by auto
  with rs ts'(1) show ?case by (intro conjI exI [of _ "?t # ts'"]) auto
qed

lemma unquote_width: "good s \<Longrightarrow> unquote s = Some v \<Longrightarrow> decoded_width (raw_units s) = length v"
  using units_prefix [of s "raw_units s" "[]"] by (auto simp: units_prefix_ok_def)

lemma token_at_length: "token_at d t \<Longrightarrow> tok_start t + length (tok_raw t) + 2 \<le> length d"
proof -
  assume "token_at d t"
  then obtain post where "drop (tok_start t) d = CHR 0x22 # tok_raw t @ CHR 0x22 # post"
    by (auto simp: token_at_def)
  then have "length (drop (tok_start t) d) = Suc (Suc (length (tok_raw t) + length post))" by simp
  then show ?thesis by simp
qed

lemma chain_located:
  assumes "chain ts v body" "boundary v a" "boundary v b" "a < b"
  shows "\<exists>rs re. map_outward ts a b = Some (rs, re) \<and> re \<le> length body"
  using assms
proof (induction ts arbitrary: v a b)
  case Nil
  then show ?case by (simp add: boundary_def)
next
  case (Cons t ts)
  from Cons.prems(1) obtain d where
    t: "good (tok_raw t)" "unquote (tok_raw t) = Some v" "token_at d t" "chain ts d body" by auto
  have "map_span (tok_raw t) (int a) (int b) \<noteq> None"
    using Cons.prems(3,4) unquote_width [OF t(1,2)] by (simp add: map_span_None_iff boundary_def)
  then obtain rs1 re1 where m: "map_span (tok_raw t) (int a) (int b) = Some (rs1, re1)" by auto
  note one = splice_one [OF t(1,2) Cons.prems(2-4) m]
  have "rs1 \<le> re1" using one(1) by simp
  note loc = token_at_splice [OF t(3) this one(2)]
  from Cons.IH [OF t(4) loc(2,3)] one m show ?case by simp
qed

lemma raw_span_chain:
  assumes "chain (leaf_tok l) (leaf_value l) body" "leaf_tok l \<noteq> []" "b \<le> length (leaf_value l)" "a \<le> b"
  shows "raw_span l (int a) (int b) = map_outward (leaf_tok l) a b"
  using assms by (cases "leaf_tok l") (auto simp: raw_span_def)

lemma apply_single:
  assumes "raw_span l (int a) (int b) = Some (rs, re)" "rs < re" "re \<le> length body"
  shows "fst (apply_edits body [\<lparr>edit_leaf = l, edit_start = int a, edit_end = int b, edit_repl = r\<rparr>])
    = take rs body @ r @ drop re body"
proof -
  have "take rs body @ slice body rs re @ drop re body = body"
    using assms(2,3) unfolding slice_def
    by (metis append_assoc append_take_drop_id le_add_diff_inverse less_imp_le take_add)
  with assms show ?thesis
    by (auto simp: apply_edits_def kept_edits_def candidates_def candidate_def map_filter_def splice_def)
qed

text \<open>
  C6: Replacing the decoded span \<open>[a, b)\<close> of a leaf by \<open>repl\<close>, spelled with \<open>RawSpelling\<close> and
  spliced with \<open>Apply\<close>, yields a body in which the same chain of string tokens decodes to the
  leaf's value with exactly that span replaced. This holds for every rune-aligned span and at any
  depth of JSON-encoded strings, so a substitution never corrupts the surrounding JSON.
\<close>

theorem spliced_leaf_decodes:
  assumes "chain (leaf_tok l) (leaf_value l) body" "leaf_tok l \<noteq> []"
    and "boundary (leaf_value l) a" "boundary (leaf_value l) b" "a < b"
    and "repl \<noteq> []" "valid_utf8 repl"
  shows "\<exists>ts. map tok_start ts = map tok_start (leaf_tok l) \<and>
    chain ts (take a (leaf_value l) @ repl @ drop b (leaf_value l))
      (fst (apply_edits body [\<lparr>edit_leaf = l, edit_start = int a, edit_end = int b,
         edit_repl = raw_spelling l repl\<rparr>]))"
proof -
  obtain rs re where m: "map_outward (leaf_tok l) a b = Some (rs, re)" "re \<le> length body"
    using chain_located [OF assms(1,3-5)] by blast
  have "b \<le> length (leaf_value l)" using assms(4) by (simp add: boundary_def)
  with m assms have "raw_span l (int a) (int b) = Some (rs, re)" by (simp add: raw_span_chain)
  with chain_splice [OF assms(1,3-5) m(1) assms(6,7)] m(2) show ?thesis
    by (simp add: apply_single raw_spelling_def)
qed

text \<open>The hypotheses hold for the leaf \<open>a"b\<close> of a string inside a JSON-encoded string.\<close>

definition sample_inner :: raw_token where
  "sample_inner = \<lparr>tok_raw = [CHR ''a'', CHR 0x5C, CHR 0x22, CHR ''b''], tok_start = 0\<rparr>"

definition sample_outer :: raw_token where
  "sample_outer = \<lparr>tok_raw = [CHR 0x5C, CHR 0x22, CHR ''a'', CHR 0x5C, CHR 0x5C, CHR 0x5C, CHR 0x22, CHR ''b'',
     CHR 0x5C, CHR 0x22], tok_start = 0\<rparr>"

definition sample_body :: bytes where
  "sample_body = CHR 0x22 # tok_raw sample_outer @ [CHR 0x22]"

definition sample_leaf :: leaf where
  "sample_leaf = \<lparr>leaf_path = [], leaf_value = [CHR ''a'', CHR 0x22, CHR ''b''], leaf_length = 3,
     leaf_encoded = True, leaf_member = False, leaf_key = [], leaf_identity = [], leaf_identifiable = True,
     leaf_tok = [sample_inner, sample_outer]\<rparr>"

lemma sample_chain: "chain (leaf_tok sample_leaf) (leaf_value sample_leaf) sample_body"
proof -
  have g: "good (tok_raw sample_inner)" "good (tok_raw sample_outer)"
    unfolding good_def by code_simp+
  have u: "unquote (tok_raw sample_inner) = Some [CHR ''a'', CHR 0x22, CHR ''b'']"
    "unquote (tok_raw sample_outer) = Some (CHR 0x22 # tok_raw sample_inner @ [CHR 0x22])"
    by code_simp+
  have t: "token_at (CHR 0x22 # tok_raw sample_inner @ [CHR 0x22]) sample_inner"
    "token_at sample_body sample_outer"
    by (simp_all add: token_at_def sample_inner_def sample_outer_def sample_body_def)
  have tv: "leaf_tok sample_leaf = [sample_inner, sample_outer]"
    "leaf_value sample_leaf = [CHR ''a'', CHR 0x22, CHR ''b'']"
    by (simp_all add: sample_leaf_def)
  show ?thesis unfolding tv chain.simps using g u t by blast
qed

lemma spliced_leaf_decodes_witness:
  "\<exists>ts. map tok_start ts = map tok_start (leaf_tok sample_leaf) \<and>
    chain ts (take 1 (leaf_value sample_leaf) @ ''x'' @ drop 2 (leaf_value sample_leaf))
      (fst (apply_edits sample_body [\<lparr>edit_leaf = sample_leaf, edit_start = int 1, edit_end = int 2,
         edit_repl = raw_spelling sample_leaf ''x''\<rparr>]))"
  by (rule spliced_leaf_decodes [OF sample_chain])
    (simp_all add: sample_leaf_def boundary_def is_cont_def)

end
