(* ===== verification/JsonTok.thy ===== *)
theory JsonTok
  imports Splice
begin

text \<open>
  The token stream of \<open>encoding/json\<close>'s \<open>Decoder\<close>, which \<open>walk.go\<close> drives: a nine-state
  machine over separators and delimiters, with every string, number and literal read by the
  byte scanner. The decoder's position is the suffix still to be read; the offset the walker asks
  for (\<open>InputOffset\<close>) is the length already consumed.
\<close>

section \<open>Numbers and literals\<close>

definition digits :: "bytes \<Rightarrow> bytes" where
  "digits s = takeWhile is_ascii_digit s"

text \<open>The longest number at the head of \<open>s\<close> as integer part, fraction and exponent, with its length.\<close>

definition scan_fraction :: "bytes \<Rightarrow> (bytes \<times> bytes) option" where
  "scan_fraction s =
     (case s of
        c # t \<Rightarrow> if c = CHR ''.'' then (if digits t = [] then None else Some (digits t, drop (length (digits t)) t))
                else Some ([], s)
      | [] \<Rightarrow> Some ([], s))"

definition scan_exponent :: "bytes \<Rightarrow> (bool \<times> bytes \<times> bytes) option" where
  "scan_exponent s =
     (case s of
        c # t \<Rightarrow>
          if c = CHR ''e'' \<or> c = CHR ''E'' then
            (let neg = prefix ''-'' t; u = (if prefix ''-'' t \<or> prefix ''+'' t then tl t else t)
             in if digits u = [] then None else Some (neg, digits u, drop (length (digits u)) u))
          else Some (False, [], s)
      | [] \<Rightarrow> Some (False, [], s))"

definition scan_integer :: "bytes \<Rightarrow> (bytes \<times> bytes) option" where
  "scan_integer s =
     (if digits s = [] then None
      else if hd s = CHR ''0'' then Some (''0'', tl s)
      else Some (digits s, drop (length (digits s)) s))"

definition number_value :: "bytes \<Rightarrow> nat" where
  "number_value ds = foldl (\<lambda>n c. n * 10 + (byte_val c - 48)) 0 ds"

text \<open>\<open>strconv.ParseFloat\<close> stops accumulating the exponent at 10000.\<close>

definition exponent_value :: "bytes \<Rightarrow> nat" where
  "exponent_value ds = foldl (\<lambda>n c. if n < 10000 then n * 10 + (byte_val c - 48) else n) 0 ds"

text \<open>A decimal rounds past the largest \<open>float64\<close> from \<open>2 ^ 1024 - 2 ^ 970\<close> on.\<close>

definition float_limit :: nat where
  "float_limit = 2 ^ 1024 - 2 ^ 970"

definition float_overflows :: "bytes \<Rightarrow> bytes \<Rightarrow> bool \<Rightarrow> bytes \<Rightarrow> bool" where
  "float_overflows ip fp neg ep =
     (let m = number_value (ip @ fp);
          e = (if neg then - int (exponent_value ep) else int (exponent_value ep)) - int (length fp);
          d = int (length (itoa m)) + e
      in if m = 0 \<or> d < 300 then False
         else if 310 < d then True
         else if 0 \<le> e then float_limit \<le> m * 10 ^ nat e
         else float_limit * 10 ^ nat (- e) \<le> m)"

text \<open>A number token: the rest after it; \<open>None\<close> when malformed or out of range for \<open>float64\<close>.\<close>

definition scan_number :: "bytes \<Rightarrow> bytes option" where
  "scan_number s =
     (case scan_integer (if prefix ''-'' s then tl s else s) of
        None \<Rightarrow> None
      | Some (ip, s1) \<Rightarrow>
          (case scan_fraction s1 of
             None \<Rightarrow> None
           | Some (fp, s2) \<Rightarrow>
               (case scan_exponent s2 of
                  None \<Rightarrow> None
                | Some (neg, ep, s3) \<Rightarrow> if float_overflows ip fp neg ep then None else Some s3)))"

datatype token = Delim char | StrTok bytes | NumTok | BoolTok bool | NullTok

text \<open>
  One string, number or literal at the head of \<open>s\<close>, decoded. A number or literal ends at the
  first byte that cannot continue it; what follows is the next token's concern.
\<close>

definition scan_value :: "bytes \<Rightarrow> (token \<times> bytes) option" where
  "scan_value s =
     (case s of
        [] \<Rightarrow> None
      | c # t \<Rightarrow>
          if c = CHR 0x22 then
            (case scan_string InString t of
               None \<Rightarrow> None
             | Some (raw, rest) \<Rightarrow> map_option (\<lambda>v. (StrTok v, rest)) (unquote raw))
          else if prefix ''true'' s then Some (BoolTok True, drop 4 s)
          else if prefix ''false'' s then Some (BoolTok False, drop 5 s)
          else if prefix ''null'' s then Some (NullTok, drop 4 s)
          else map_option (Pair NumTok) (scan_number s))"

section \<open>The token machine\<close>

datatype tok_state = TopValue | ArrayStart | ArrayValue | ArrayComma
  | ObjectStart | ObjectKey | ObjectColon | ObjectValue | ObjectComma

record decoder =
  dec_state :: tok_state
  dec_stack :: "tok_state list"
  dec_rest :: bytes

datatype tok_error = TokEOF | TokErr

definition value_allowed :: "tok_state \<Rightarrow> bool" where
  "value_allowed st \<longleftrightarrow> st \<in> {TopValue, ArrayStart, ArrayValue, ObjectValue}"

definition value_end :: "tok_state \<Rightarrow> tok_state" where
  "value_end st =
     (if st = ArrayStart \<or> st = ArrayValue then ArrayComma
      else if st = ObjectValue then ObjectComma else st)"

definition skip_space :: "bytes \<Rightarrow> bytes" where
  "skip_space s = dropWhile is_json_space s"

definition new_decoder :: "bytes \<Rightarrow> decoder" where
  "new_decoder data = \<lparr>dec_state = TopValue, dec_stack = [], dec_rest = data\<rparr>"

definition open_delim :: "decoder \<Rightarrow> char \<Rightarrow> tok_state \<Rightarrow> bytes \<Rightarrow> (tok_error, token \<times> decoder) result" where
  "open_delim d c st t =
     require (value_allowed (dec_state d)) TokErr
       (Inr (Delim c, \<lparr>dec_state = st, dec_stack = dec_state d # dec_stack d, dec_rest = t\<rparr>))"

definition close_delim :: "decoder \<Rightarrow> char \<Rightarrow> tok_state set \<Rightarrow> bytes \<Rightarrow> (tok_error, token \<times> decoder) result" where
  "close_delim d c sts t =
     require (dec_state d \<in> sts) TokErr
       (case dec_stack d of
          [] \<Rightarrow> Inl TokErr
        | st # sts' \<Rightarrow> Inr (Delim c, \<lparr>dec_state = value_end st, dec_stack = sts', dec_rest = t\<rparr>))"

definition value_token :: "decoder \<Rightarrow> bytes \<Rightarrow> (tok_error, token \<times> decoder) result" where
  "value_token d s =
     (case scan_value s of
        None \<Rightarrow> Inl TokErr
      | Some (v, rest) \<Rightarrow>
          if hd s = CHR 0x22 \<and> dec_state d \<in> {ObjectStart, ObjectKey}
          then Inr (v, d\<lparr>dec_state := ObjectColon, dec_rest := rest\<rparr>)
          else require (value_allowed (dec_state d)) TokErr
            (Inr (v, d\<lparr>dec_state := value_end (dec_state d), dec_rest := rest\<rparr>)))"

lemma skip_space_length: "skip_space s = c # t \<Longrightarrow> length t < length s"
  using length_dropWhile_le [of is_json_space s] by (simp add: skip_space_def)

text \<open>\<open>Decoder.Token\<close>: separators are consumed in a loop until a token or an error is found.\<close>

function next_token :: "decoder \<Rightarrow> (tok_error, token \<times> decoder) result" where
  "next_token d =
     (case skip_space (dec_rest d) of
        [] \<Rightarrow> Inl TokEOF
      | c # t \<Rightarrow>
          if c = CHR ''['' then open_delim d c ArrayStart t
          else if c = CHR '']'' then close_delim d c {ArrayStart, ArrayComma} t
          else if c = CHR ''{'' then open_delim d c ObjectStart t
          else if c = CHR ''}'' then close_delim d c {ObjectStart, ObjectComma} t
          else if c = CHR '':'' then
            (if dec_state d = ObjectColon then next_token (d\<lparr>dec_state := ObjectValue, dec_rest := t\<rparr>) else Inl TokErr)
          else if c = CHR '','' then
            (if dec_state d = ArrayComma then next_token (d\<lparr>dec_state := ArrayValue, dec_rest := t\<rparr>)
             else if dec_state d = ObjectComma then next_token (d\<lparr>dec_state := ObjectKey, dec_rest := t\<rparr>)
             else Inl TokErr)
          else value_token d (c # t))"
  by pat_completeness auto
termination
  by (relation "measure (\<lambda>d. length (dec_rest d))") (auto dest: skip_space_length)

declare next_token.simps [simp del]

section \<open>What a token consumes\<close>

lemma scan_number_length: "scan_number s = Some r \<Longrightarrow> length r < length s"
proof -
  have int: "length s1 < length u" if "scan_integer u = Some (ip, s1)" for u ip s1
    using that by (cases u) (auto simp: scan_integer_def digits_def split: if_splits)
  have frac: "length s2 \<le> length s1" if "scan_fraction s1 = Some (fp, s2)" for s1 fp s2
    using that by (cases s1) (auto simp: scan_fraction_def split: if_splits)
  have ex: "length s3 \<le> length s2" if "scan_exponent s2 = Some (neg, ep, s3)" for s2 neg ep s3
    using that by (cases s2) (auto simp: scan_exponent_def Let_def split: if_splits)
  assume "scan_number s = Some r"
  then obtain ip s1 fp s2 neg ep where
    "scan_integer (if prefix ''-'' s then tl s else s) = Some (ip, s1)"
    "scan_fraction s1 = Some (fp, s2)" "scan_exponent s2 = Some (neg, ep, r)"
    by (auto simp: scan_number_def split: option.splits if_splits)
  from int [OF this(1)] frac [OF this(2)] ex [OF this(3)] show ?thesis
    by (auto split: if_splits)
qed

lemma scan_value_length: "scan_value s = Some (v, r) \<Longrightarrow> length r < length s"
  using scan_number_length [of s r]
  by (cases s) (auto simp: scan_value_def dest!: scan_string_SomeD split: if_splits option.splits)

lemma next_token_length: "next_token d = Inr (v, d') \<Longrightarrow> length (dec_rest d') < length (dec_rest d)"
proof (induction d rule: next_token.induct)
  case (1 d)
  show ?case
  proof (cases "skip_space (dec_rest d)")
    case (Cons c t)
    with 1 skip_space_length [OF Cons] show ?thesis
      by (auto simp: next_token.simps [of d] open_delim_def close_delim_def value_token_def
          split: if_splits option.splits list.splits dest!: scan_value_length)
  qed (use 1 in \<open>auto simp: next_token.simps [of d]\<close>)
qed

text \<open>Where a string token lies: only separators and white space precede its opening quote.\<close>

definition skippable :: "bytes \<Rightarrow> bool" where
  "skippable s \<longleftrightarrow> (\<forall>c \<in> set s. is_json_space c \<or> c = CHR '':'' \<or> c = CHR '','')"

lemma skip_space_split: "\<exists>sp. s = sp @ skip_space s \<and> skippable sp"
  unfolding skip_space_def skippable_def
  by (intro exI [of _ "takeWhile is_json_space s"]) (auto dest: set_takeWhileD)

lemmas suffix_steps = suffix_Cons suffix_drop suffix_tl

lemma suffix_string: "suffix r (p @ CHR 0x22 # r)"
  by (simp add: suffix_def)

lemma scan_number_suffix: "scan_number s = Some r \<Longrightarrow> suffix r s"
proof -
  have int: "suffix s1 u" if "scan_integer u = Some (ip, s1)" for u ip s1
    using that by (auto simp: scan_integer_def suffix_steps split: if_splits)
  have frac: "suffix s2 s1" if "scan_fraction s1 = Some (fp, s2)" for s1 fp s2
    using that by (cases s1) (auto simp: scan_fraction_def suffix_steps split: if_splits)
  have ex: "suffix s3 s2" if "scan_exponent s2 = Some (neg, ep, s3)" for s2 neg ep s3
  proof (cases s2)
    case (Cons c t)
    have "suffix (drop k (tl t)) t" for k
      using suffix_drop [of k "tl t"] suffix_tl [of t] by (rule suffix_order.trans)
    with that Cons show ?thesis
      by (auto simp: scan_exponent_def Let_def suffix_steps split: if_splits)
  qed (use that in \<open>auto simp: scan_exponent_def\<close>)
  assume "scan_number s = Some r"
  then obtain ip s1 fp s2 neg ep where
    s: "scan_integer (if prefix ''-'' s then tl s else s) = Some (ip, s1)"
    "scan_fraction s1 = Some (fp, s2)" "scan_exponent s2 = Some (neg, ep, r)"
    by (auto simp: scan_number_def split: option.splits if_splits)
  have "suffix (if prefix ''-'' s then tl s else s) s" by (simp add: suffix_tl)
  with int [OF s(1)] frac [OF s(2)] ex [OF s(3)] show ?thesis
    by (meson suffix_order.trans)
qed

lemma scan_value_suffix: "scan_value s = Some (v, r) \<Longrightarrow> suffix r s"
proof (cases s)
  case (Cons c t)
  assume v: "scan_value s = Some (v, r)"
  show ?thesis
  proof (cases "c = CHR 0x22")
    case True
    with v Cons show ?thesis
      by (auto simp: scan_value_def suffix_Cons suffix_string dest!: scan_string_SomeD split: option.splits)
  next
    case False
    with v Cons have "r = drop 4 s \<or> r = drop 5 s \<or> scan_number s = Some r"
      unfolding scan_value_def by (auto split: if_splits)
    then show ?thesis using scan_number_suffix suffix_drop by auto
  qed
qed (simp add: scan_value_def)

lemma scan_value_string:
  assumes "scan_value (c # t) = Some (StrTok v, r)"
  shows "c = CHR 0x22 \<and> (\<exists>raw. t = raw @ CHR 0x22 # r \<and> interior raw \<and> unquote raw = Some v)"
  using assms by (auto simp: scan_value_def dest: scan_string_SomeD split: if_splits option.splits)

lemma value_token_rest: "value_token d s = Inr (v, d') \<Longrightarrow> scan_value s = Some (v, dec_rest d')"
  by (auto simp: value_token_def split: option.splits if_splits)

text \<open>Case analysis of one call: a separator and another call, a delimiter, or a value.\<close>

lemma next_token_cases:
  assumes "next_token d = Inr (v, d')"
  obtains (separator) st c t where "skip_space (dec_rest d) = c # t" "c = CHR '':'' \<or> c = CHR '',''"
      "next_token (d\<lparr>dec_state := st, dec_rest := t\<rparr>) = Inr (v, d')"
  | (delim) c t where "skip_space (dec_rest d) = c # t" "v = Delim c" "dec_rest d' = t"
  | (scanned) c t where "skip_space (dec_rest d) = c # t" "scan_value (c # t) = Some (v, dec_rest d')"
proof (cases "skip_space (dec_rest d)")
  case Nil
  with assms show ?thesis by (simp add: next_token.simps [of d])
next
  case (Cons c t)
  note step = assms [unfolded next_token.simps [of d] Cons list.case]
  show ?thesis
  proof (cases "c = CHR '':'' \<or> c = CHR '',''")
    case True
    with step separator [OF Cons] show ?thesis by (auto split: if_splits)
  next
    case False
    show ?thesis
    proof (cases "c \<in> {CHR ''['', CHR '']'', CHR ''{'', CHR ''}''}")
      case True
      with step have "v = Delim c \<and> dec_rest d' = t"
        by (auto simp: open_delim_def close_delim_def split: list.splits)
      then show ?thesis using delim [OF Cons] by blast
    next
      case False
      with \<open>\<not> (c = CHR '':'' \<or> c = CHR '','')\<close> step have "value_token d (c # t) = Inr (v, d')" by simp
      then show ?thesis by (intro scanned [OF Cons] value_token_rest)
    qed
  qed
qed

lemma next_token_suffix: "next_token d = Inr (v, d') \<Longrightarrow> suffix (dec_rest d') (dec_rest d)"
proof (induction "length (dec_rest d)" arbitrary: d rule: less_induct)
  case less
  have sp: "suffix (skip_space (dec_rest d)) (dec_rest d)"
    by (simp add: skip_space_def suffix_dropWhile)
  from less.prems have "suffix (dec_rest d') (skip_space (dec_rest d))"
  proof (cases rule: next_token_cases)
    case (separator st c t)
    with less.hyps [OF _ separator(3)] skip_space_length [OF separator(1)] show ?thesis
      by (simp add: suffix_Cons)
  next
    case (delim c t)
    then show ?thesis by (simp add: suffix_Cons)
  next
    case (scanned c t)
    then show ?thesis using scan_value_suffix by metis
  qed
  with sp show ?case by (rule suffix_order.trans [rotated])
qed

lemma next_token_string:
  "next_token d = Inr (StrTok v, d') \<Longrightarrow>
     \<exists>sp raw. dec_rest d = sp @ CHR 0x22 # raw @ CHR 0x22 # dec_rest d' \<and> skippable sp \<and>
       interior raw \<and> unquote raw = Some v"
proof (induction "length (dec_rest d)" arbitrary: d rule: less_induct)
  case less
  obtain sp where sp: "dec_rest d = sp @ skip_space (dec_rest d)" "skippable sp"
    using skip_space_split by blast
  from less.prems show ?case
  proof (cases rule: next_token_cases)
    case (separator st c t)
    with less.hyps [OF _ separator(3)] skip_space_length [OF separator(1)] obtain sp' raw where
      t: "t = sp' @ CHR 0x22 # raw @ CHR 0x22 # dec_rest d'" "skippable sp'" "interior raw" "unquote raw = Some v"
      by auto
    have "skippable (sp @ c # sp')" using sp(2) t(2) separator(2) by (auto simp: skippable_def)
    moreover have "dec_rest d = (sp @ c # sp') @ CHR 0x22 # raw @ CHR 0x22 # dec_rest d'"
      using sp(1) separator(1) t(1) by simp
    ultimately show ?thesis using t(3,4) by blast
  next
    case (scanned c t)
    from scan_value_string [OF scanned(2)] sp scanned(1) show ?thesis by auto
  qed simp
qed

lemma skippable_no_quote: "skippable sp \<Longrightarrow> CHR 0x22 \<notin> set sp"
proof
  assume "skippable sp" "CHR 0x22 \<in> set sp"
  then have "is_json_space CHR 0x22 \<or> CHR 0x22 = CHR '':'' \<or> CHR 0x22 = CHR '',''"
    unfolding skippable_def by blast
  then show False by (simp add: is_json_space_def)
qed

end
