(* ===== verification/Walk.thy ===== *)
theory Walk
  imports JsonTok
begin

text \<open>
  \<open>pkg/protocol/walk.go\<close> and \<open>identity.go\<close>: the walk that lists every JSON string value of a
  document as a leaf, descending into strings that are themselves JSON documents, and the
  identity it gives each leaf. The frame stack has the innermost frame at its head (the source
  appends at the end). The occurrence counter is one shared map in the source, so it is threaded
  through every call here, also through inner documents that fail and are discarded.
\<close>

section \<open>State\<close>

datatype walk_error = MalformedJSON | TrailingData | NonUTF8 | MaxDepth

definition max_nesting_depth :: nat where
  "max_nesting_depth = 10000"

definition max_encoded_depth :: nat where
  "max_encoded_depth = 32"

definition max_identity_bytes :: nat where
  "max_identity_bytes = 1024"

definition identity_sep :: bytes where
  "identity_sep = [CHR 0x1F]"

record frame_scalar =
  fs_name :: bytes
  fs_raw :: bytes

record frame =
  fr_object :: bool
  fr_key :: bytes
  fr_has_key :: bool
  fr_index :: nat
  fr_seg :: bytes
  fr_scalars :: "frame_scalar list"

type_synonym occurrences = "bytes \<Rightarrow> nat"

text \<open>The fields of \<open>walkContext\<close> other than the shared counter.\<close>

record walk_context =
  wc_inherited :: "frame_scalar list"
  wc_member :: bool
  wc_key :: bytes

section \<open>Pointers and identities\<close>

definition escape_pointer :: "bytes \<Rightarrow> bytes" where
  "escape_pointer t =
     (if CHR ''~'' \<notin> set t \<and> CHR ''/'' \<notin> set t then t
      else replace_all ''/'' ''~1'' (replace_all ''~'' ''~0'' t))"

definition member_name :: "frame list \<Rightarrow> bytes" where
  "member_name stack =
     (case stack of [] \<Rightarrow> [] | f # _ \<Rightarrow> if fr_object f then fr_key f else itoa (fr_index f))"

definition child_segment :: "frame list \<Rightarrow> bytes" where
  "child_segment stack =
     (case stack of
        [] \<Rightarrow> []
      | f # _ \<Rightarrow> CHR ''/'' # (if fr_object f then escape_pointer (fr_key f) else itoa (fr_index f)))"

definition advance :: "frame list \<Rightarrow> frame list" where
  "advance stack =
     (case stack of
        [] \<Rightarrow> []
      | f # fs \<Rightarrow> (if fr_object f then f\<lparr>fr_has_key := False\<rparr> else f\<lparr>fr_index := Suc (fr_index f)\<rparr>) # fs)"

definition join_segs :: "frame list \<Rightarrow> bytes" where
  "join_segs stack = concat (map fr_seg (rev stack))"

definition capture_scalar :: "frame list \<Rightarrow> bytes \<Rightarrow> bytes \<Rightarrow> frame list" where
  "capture_scalar stack name raw =
     (case stack of
        [] \<Rightarrow> []
      | f # fs \<Rightarrow> f\<lparr>fr_scalars := fr_scalars f @ [\<lparr>fs_name = name, fs_raw = raw\<rparr>]\<rparr> # fs)"

definition flatten_scalars :: "frame list \<Rightarrow> frame_scalar list" where
  "flatten_scalars stack = concat (map fr_scalars (rev stack))"

definition member_key :: "frame list \<Rightarrow> bool \<times> bytes" where
  "member_key stack =
     (case stack of [] \<Rightarrow> (False, []) | f # _ \<Rightarrow> if fr_object f then (True, fr_key f) else (False, []))"

definition child_context :: "walk_context \<Rightarrow> frame list \<Rightarrow> walk_context" where
  "child_context wc stack =
     \<lparr>wc_inherited = wc_inherited wc @ flatten_scalars stack,
      wc_member = fst (member_key stack), wc_key = snd (member_key stack)\<rparr>"

definition scalar_raw :: "bytes \<Rightarrow> bytes" where
  "scalar_raw raw = dropWhile (\<lambda>c. is_json_space c \<or> c = CHR '','' \<or> c = CHR '':'') raw"

definition render_scalar :: "frame_scalar \<Rightarrow> bytes" where
  "render_scalar s = identity_sep @ fs_name s @ ''='' @ fs_raw s"

definition join_identity :: "bytes \<Rightarrow> frame_scalar list \<Rightarrow> nat \<Rightarrow> bytes" where
  "join_identity path scalars occ =
     path @ concat (map render_scalar scalars) @ identity_sep @ itoa occ"

section \<open>Leaves\<close>

definition token_node :: "bytes \<Rightarrow> nat \<Rightarrow> nat \<Rightarrow> raw_token" where
  "token_node data start fin =
     (let opening = start + the (index_byte CHR 0x22 (slice data start fin))
      in \<lparr>tok_raw = slice data (opening + 1) (fin - 1), tok_start = opening\<rparr>)"

definition literal_leaf ::
  "bytes \<Rightarrow> bytes \<Rightarrow> bool \<Rightarrow> raw_token list \<Rightarrow> walk_context \<Rightarrow> occurrences \<Rightarrow> leaf \<times> occurrences" where
  "literal_leaf raw path encoded toks wc occ =
     (let identity = join_identity path (wc_inherited wc) (occ path)
      in (\<lparr>leaf_path = path, leaf_value = raw, leaf_length = length raw, leaf_encoded = encoded,
           leaf_member = wc_member wc, leaf_key = wc_key wc, leaf_identity = identity,
           leaf_identifiable = (length identity \<le> max_identity_bytes), leaf_tok = toks\<rparr>,
          occ(path := Suc (occ path))))"

text \<open>
  What emits a string value: its bytes, path, encoded flag, tokens and context, against the
  counter; the leaves it contributes.
\<close>

type_synonym emitter =
  "bytes \<Rightarrow> bytes \<Rightarrow> bool \<Rightarrow> raw_token list \<Rightarrow> walk_context \<Rightarrow> occurrences \<Rightarrow> leaf list \<times> occurrences"

section \<open>The walk of one document\<close>

text \<open>The document-wide arguments of \<open>walkValue\<close>.\<close>

record doc_env =
  de_data :: bytes
  de_base :: bytes
  de_encoded :: bool
  de_enclosing :: "raw_token list"
  de_context :: walk_context

definition input_offset :: "doc_env \<Rightarrow> decoder \<Rightarrow> nat" where
  "input_offset env d = length (de_data env) - length (dec_rest d)"

text \<open>\<open>walkValue\<close>: one token per iteration. The result keeps the counter also on errors.\<close>

function walk_value :: "emitter \<Rightarrow> doc_env \<Rightarrow> decoder \<Rightarrow> frame list \<Rightarrow> leaf list \<Rightarrow> occurrences \<Rightarrow>
    (walk_error, leaf list \<times> decoder) result \<times> occurrences" where
  "walk_value emit env d stack out occ =
     (case next_token d of
        Inl e \<Rightarrow> (Inl MalformedJSON, occ)
      | Inr (tok, d') \<Rightarrow>
          (case tok of
             Delim c \<Rightarrow>
               if c = CHR ''{'' \<or> c = CHR ''['' then
                 (if max_nesting_depth \<le> length stack then (Inl MaxDepth, occ)
                  else walk_value emit env d'
                    (\<lparr>fr_object = (c = CHR ''{''), fr_key = [], fr_has_key = False, fr_index = 0,
                      fr_seg = child_segment stack, fr_scalars = []\<rparr> # advance stack) out occ)
               else
                 (case stack of
                    [] \<Rightarrow> (Inl MalformedJSON, occ)
                  | _ # stack' \<Rightarrow>
                      if stack' = [] then (Inr (out, d'), occ) else walk_value emit env d' stack' out occ)
           | StrTok raw \<Rightarrow>
               (let toks = token_node (de_data env) (input_offset env d) (input_offset env d') # de_enclosing env
                in case stack of
                     [] \<Rightarrow>
                       (let (ls, occ') = emit raw (de_base env) (de_encoded env) toks
                              (child_context (de_context env) []) occ
                        in (Inr (out @ ls, d'), occ'))
                   | f # fs \<Rightarrow>
                       if fr_object f \<and> \<not> fr_has_key f then
                         walk_value emit env d' (f\<lparr>fr_key := raw, fr_has_key := True\<rparr> # fs) out occ
                       else
                         (let stack' = advance stack;
                              (ls, occ') = emit raw (de_base env @ join_segs stack' @ child_segment stack)
                                (de_encoded env) toks (child_context (de_context env) stack') occ
                          in walk_value emit env d' stack' (out @ ls) occ'))
           | _ \<Rightarrow>
               (case stack of
                  [] \<Rightarrow> (Inr (out, d'), occ)
                | f # fs \<Rightarrow>
                    if fr_object f \<and> \<not> fr_has_key f then (Inl MalformedJSON, occ)
                    else walk_value emit env d'
                      (capture_scalar (advance stack) (member_name stack)
                        (scalar_raw (slice (de_data env) (input_offset env d) (input_offset env d')))) out occ)))"
  by pat_completeness auto
termination
  by (relation "measure (\<lambda>(_, _, d, _). length (dec_rest d))") (auto dest: next_token_length)

declare walk_value.simps [simp del]

text \<open>\<open>walkDocument\<close>: one value, then only white space up to the fin.\<close>

definition walk_document :: "emitter \<Rightarrow> doc_env \<Rightarrow> occurrences \<Rightarrow>
    (walk_error, leaf list) result \<times> occurrences" where
  "walk_document emit env occ =
     (case walk_value emit env (new_decoder (de_data env)) [] [] occ of
        (Inl e, occ') \<Rightarrow> (Inl e, occ')
      | (Inr (leaves, d), occ') \<Rightarrow>
          (if next_token d = Inl TokEOF then Inr leaves else Inl TrailingData, occ'))"

text \<open>
  \<open>appendLeaf\<close>, with the encoded-string depth still available as its first argument
  (\<open>MaxEncodedDepth - depth\<close>).
\<close>

fun append_leaf :: "nat \<Rightarrow> emitter" where
  "append_leaf 0 raw path encoded toks wc occ =
     (let (l, occ') = literal_leaf raw path False toks wc occ in ([l], occ'))"
| "append_leaf (Suc budget) raw path encoded toks wc occ =
     (let env = \<lparr>de_data = raw, de_base = path, de_encoded = True, de_enclosing = toks, de_context = wc\<rparr>;
          (r, occ') = walk_document (append_leaf budget) env occ
      in case r of
           Inr inner \<Rightarrow>
             if inner \<noteq> [] then (inner, occ')
             else (let (l, occ'') = literal_leaf raw path encoded toks wc occ' in ([l], occ''))
         | Inl e \<Rightarrow> (let (l, occ'') = literal_leaf raw path encoded toks wc occ' in ([l], occ'')))"

definition root_env :: "bytes \<Rightarrow> doc_env" where
  "root_env data =
     \<lparr>de_data = data, de_base = [], de_encoded = False, de_enclosing = [],
      de_context = \<lparr>wc_inherited = [], wc_member = False, wc_key = []\<rparr>\<rparr>"

definition walk :: "bytes \<Rightarrow> (walk_error, leaf list) result" where
  "walk data =
     (if \<not> valid_utf8 data then Inl NonUTF8
      else fst (walk_document (append_leaf max_encoded_depth) (root_env data) (\<lambda>_. 0)))"

section \<open>Every leaf is located by its tokens\<close>

lemma index_byte_append: "b \<notin> set p \<Longrightarrow> index_byte b (p @ b # q) = Some (length p)"
  by (induction p) auto

text \<open>The token between two decoder positions lies in the document where the walk says.\<close>

lemma token_node_located:
  assumes "next_token d = Inr (StrTok v, d')" "suffix (dec_rest d) data" "valid_utf8 data"
  defines "t \<equiv> token_node data (length data - length (dec_rest d)) (length data - length (dec_rest d'))"
  shows "good (tok_raw t) \<and> unquote (tok_raw t) = Some v \<and> token_at data t"
proof -
  from assms(2) obtain pre where pre: "data = pre @ dec_rest d" by (auto simp: suffix_def)
  from next_token_string [OF assms(1)] obtain sp raw where
    r: "dec_rest d = sp @ CHR 0x22 # raw @ CHR 0x22 # dec_rest d'" "skippable sp" "interior raw"
    "unquote raw = Some v" by blast
  have data: "data = pre @ sp @ CHR 0x22 # raw @ CHR 0x22 # dec_rest d'" using pre r(1) by simp
  have t: "t = \<lparr>tok_raw = raw, tok_start = length pre + length sp\<rparr>"
    unfolding t_def data r(1) token_node_def slice_def
    using index_byte_append [OF skippable_no_quote [OF r(2)]] by simp
  have "valid_utf8 (raw @ CHR 0x22 # dec_rest d')"
    using valid_utf8_split [of "CHR 0x22" "pre @ sp" "raw @ CHR 0x22 # dec_rest d'"] assms(3) data by simp
  then have "valid_utf8 raw" using valid_utf8_split [of "CHR 0x22" raw "dec_rest d'"] by simp
  with r(3,4) t show ?thesis by (auto simp: good_def token_at_def data)
qed

lemma unquote_step_valid:
  assumes "good s" "s \<noteq> []" "unquote_step s = Some (n, out)"
  shows "valid_utf8 (out @ t) = valid_utf8 t"
proof -
  have ascii: "valid_utf8 ([c] @ t) = valid_utf8 t" if "byte_val c < 0x80" for c using that by simp
  have i: "interior s" "s \<noteq> []" using assms by (auto simp: good_def)
  have "(\<exists>r. out = encode_rune r) \<or> (\<exists>c. out = [c] \<and> byte_val c < 0x80)"
  proof (cases rule: interior_Cons_cases [OF i])
    case (1 e u)
    from unquote_step_simple [OF 1(2)] obtain x where
      "\<forall>q. unquote_step (CHR 0x5C # e # q) = Some (2, [x])" "byte_val x < 0x80" by blast
    with assms(3) 1(1) show ?thesis by auto
  next
    case (2 a b c d u r)
    show ?thesis using assms(3) unfolding unquote_step_unicode [OF 2(1,3)]
      by (auto split: if_splits option.splits)
  next
    case (3 c u)
    then have "unquote_step s =
        (if byte_val c < 0x80 then Some (1, [c]) else let (r, size) = decode_rune s in Some (size, encode_rune r))"
      by (simp add: unquote_step_def)
    with assms(3) show ?thesis by (auto simp: Let_def split: if_splits prod.splits)
  qed
  then show ?thesis using valid_utf8_encode ascii by blast
qed

lemma unquote_valid: "good s \<Longrightarrow> unquote s = Some v \<Longrightarrow> valid_utf8 v"
proof (induction s arbitrary: v rule: units_induct)
  case (unit s)
  from good_step [OF unit.prems(1) unit.hyps] obtain n out where ok: "step_ok s n out" by blast
  then have st: "unquote_step s = Some (n, out)" "n = raw_len s" "good (drop n s)"
    unfolding step_ok_def by blast+
  from unquote_step_eq [OF unit.hyps st(1)] unit.prems(2) obtain v' where
    v': "unquote (drop n s) = Some v'" "v = out @ v'" by (cases "unquote (drop n s)") auto
  have "valid_utf8 v'" using unit.IH st(2,3) v'(1) by simp
  with unquote_step_valid [OF unit.prems(1) unit.hyps st(1)] v'(2) show ?case by simp
qed simp

text \<open>What the walk promises of a leaf, relative to the outermost document \<open>body\<close>.\<close>

definition located :: "bytes \<Rightarrow> leaf \<Rightarrow> bool" where
  "located body l \<longleftrightarrow>
     leaf_tok l \<noteq> [] \<and> chain (leaf_tok l) (leaf_value l) body \<and>
     leaf_length l = length (leaf_value l) \<and>
     leaf_identifiable l = (length (leaf_identity l) \<le> max_identity_bytes)"

definition emits_located :: "bytes \<Rightarrow> emitter \<Rightarrow> bool" where
  "emits_located body emit \<longleftrightarrow>
     (\<forall>raw path enc toks wc occ. toks \<noteq> [] \<longrightarrow> chain toks raw body \<longrightarrow>
        (\<forall>l \<in> set (fst (emit raw path enc toks wc occ)). located body l))"

lemma emits_locatedD:
  "emits_located body emit \<Longrightarrow> toks \<noteq> [] \<Longrightarrow> chain toks raw body \<Longrightarrow>
     emit raw path enc toks wc occ = (ls, occ') \<Longrightarrow> l \<in> set ls \<Longrightarrow> located body l"
  unfolding emits_located_def by (metis fst_conv)

text \<open>The cases of one iteration of \<open>walkValue\<close>, as equations on the token read.\<close>

lemma walk_value_delim:
  "next_token d = Inr (Delim c, d') \<Longrightarrow> walk_value emit env d stack out occ =
     (if c = CHR ''{'' \<or> c = CHR ''['' then
        (if max_nesting_depth \<le> length stack then (Inl MaxDepth, occ)
         else walk_value emit env d'
           (\<lparr>fr_object = (c = CHR ''{''), fr_key = [], fr_has_key = False, fr_index = 0,
             fr_seg = child_segment stack, fr_scalars = []\<rparr> # advance stack) out occ)
      else
        (case stack of
           [] \<Rightarrow> (Inl MalformedJSON, occ)
         | _ # stack' \<Rightarrow>
             if stack' = [] then (Inr (out, d'), occ) else walk_value emit env d' stack' out occ))"
  by (simp add: walk_value.simps [of emit env d])

lemma walk_value_invariant [consumes 1, case_names stop token string]:
  assumes res: "walk_value emit env d stack out occ = (Inr (ls, d''), occ'')"
    and stop: "P d stack out occ"
    and token: "\<And>d tok d' stack stack' out occ.
      next_token d = Inr (tok, d') \<Longrightarrow> P d stack out occ \<Longrightarrow> P d' stack' out occ"
    and string: "\<And>d raw d' stack path wc stack' out occ new occ'.
      next_token d = Inr (StrTok raw, d') \<Longrightarrow> P d stack out occ \<Longrightarrow>
      emit raw path (de_encoded env)
        (token_node (de_data env) (input_offset env d) (input_offset env d') # de_enclosing env) wc occ
        = (new, occ') \<Longrightarrow>
      P d' stack' (out @ new) occ'"
  shows "\<exists>stack'. P d'' stack' ls occ''"
  using res stop
proof (induction "length (dec_rest d)" arbitrary: d stack out occ rule: less_induct)
  case less
  from less.prems(1) obtain tok d' where n: "next_token d = Inr (tok, d')"
    by (cases "next_token d") (auto simp: walk_value.simps [of emit env d])
  note go = less.hyps [OF next_token_length [OF n]]
  note tok = token [OF n less.prems(2)]
  have other: "\<exists>stack'. P d'' stack' ls occ''"
    if "walk_value emit env d stack out occ =
      (case stack of
         [] \<Rightarrow> (Inr (out, d'), occ)
       | f # fs \<Rightarrow>
           if fr_object f \<and> \<not> fr_has_key f then (Inl MalformedJSON, occ)
           else walk_value emit env d' st out occ)" for st
    using that less.prems(1) go [OF _ tok, of st] tok by (auto split: list.splits if_splits)
  show ?case
  proof (cases tok)
    case (Delim c)
    note eq = walk_value_delim [OF n [unfolded Delim], of emit env stack out occ]
    show ?thesis
    proof (cases "c = CHR ''{'' \<or> c = CHR ''[''")
      case True
      with less.prems(1) eq go [OF _ tok] show ?thesis by (auto split: if_splits)
    next
      case False
      with less.prems(1) eq go [OF _ tok] tok show ?thesis by (auto split: list.splits if_splits)
    qed
  next
    case (StrTok raw)
    note str = string [OF n [unfolded StrTok] less.prems(2)]
    show ?thesis
    proof (cases stack)
      case Nil
      with less.prems(1) n StrTok str show ?thesis
        by (auto simp: walk_value.simps [of emit env d] Let_def split: prod.splits)
    next
      case (Cons f fs)
      show ?thesis
      proof (cases "fr_object f \<and> \<not> fr_has_key f")
        case True
        with less.prems(1) n StrTok Cons go [OF _ tok] show ?thesis
          by (auto simp: walk_value.simps [of emit env d] Let_def)
      next
        case False
        with less.prems(1) n StrTok Cons go [OF _ str] show ?thesis
          by (auto simp: walk_value.simps [of emit env d] Let_def split: prod.splits)
      qed
    qed
  next
    case NumTok
    with n show ?thesis by (intro other) (simp add: walk_value.simps [of emit env d])
  next
    case (BoolTok b)
    with n show ?thesis by (intro other) (simp add: walk_value.simps [of emit env d])
  next
    case NullTok
    with n show ?thesis by (intro other) (simp add: walk_value.simps [of emit env d])
  qed
qed

lemma walk_document_located:
  assumes "emits_located body emit" "valid_utf8 (de_data env)"
    and "chain (de_enclosing env) (de_data env) body"
    and "walk_document emit env occ = (Inr ls, occ')" "l \<in> set ls"
  shows "located body l"
proof -
  from assms(4) obtain d where
    w: "walk_value emit env (new_decoder (de_data env)) [] [] occ = (Inr (ls, d), occ')"
    by (auto simp: walk_document_def split: prod.splits sum.splits if_splits)
  have "\<exists>stack' :: frame list. suffix (dec_rest d) (de_data env) \<and> (\<forall>l \<in> set ls. located body l)"
  proof (rule walk_value_invariant [OF w, where
        P = "\<lambda>d stack out occ. suffix (dec_rest d) (de_data env) \<and> (\<forall>l \<in> set out. located body l)"],
      goal_cases stop token string)
    case stop
    then show ?case by (simp add: new_decoder_def)
  next
    case (token d tok d' stack stack' out occ)
    then show ?case using next_token_suffix suffix_order.trans by metis
  next
    case (string d raw d' stack path wc stack' out occ new occ')
    let ?t = "token_node (de_data env) (input_offset env d) (input_offset env d')"
    have "good (tok_raw ?t) \<and> unquote (tok_raw ?t) = Some raw \<and> token_at (de_data env) ?t"
      unfolding input_offset_def using string(1,2) assms(2) by (intro token_node_located) auto
    with assms(3) have "chain (?t # de_enclosing env) raw body" by auto
    then have "\<forall>l \<in> set new. located body l"
      using emits_locatedD [OF assms(1) _ _ string(3)] by blast
    with string(1,2) show ?case
      using next_token_suffix suffix_order.trans by auto blast
  qed
  with assms(5) show ?thesis by simp
qed

lemma literal_leaf_located:
  assumes "toks \<noteq> []" "chain toks raw body" "literal_leaf raw path enc toks wc occ = (l, occ')"
  shows "located body l"
  using assms by (auto simp: literal_leaf_def located_def Let_def)

lemma append_leaf_located: "emits_located body (append_leaf budget)"
proof (induction budget)
  case 0
  then show ?case
    by (auto simp: emits_located_def literal_leaf_located split: prod.splits)
next
  case (Suc budget)
  show ?case
    unfolding emits_located_def
  proof (intro allI impI ballI)
    fix raw path enc toks wc occ l
    assume t: "toks \<noteq> []" "chain toks raw body"
      and l: "l \<in> set (fst (append_leaf (Suc budget) raw path enc toks wc occ))"
    let ?env = "\<lparr>de_data = raw, de_base = path, de_encoded = True, de_enclosing = toks, de_context = wc\<rparr>"
    have "valid_utf8 raw" using t unquote_valid by (cases toks) auto
    note inner = walk_document_located [OF Suc.IH, of ?env occ, simplified, OF this t(2)]
    obtain r occ' where r: "walk_document (append_leaf budget) ?env occ = (r, occ')" by fastforce
    show "located body l"
      using l r inner literal_leaf_located [OF t]
      by (cases r) (auto split: if_splits prod.splits)
  qed
qed

text \<open>
  C14: Every leaf \<open>Walk\<close> returns carries a token chain that locates it: the raw interiors decode,
  level by level, from the input document to the leaf's value. Its length field is the length of
  the value and it is identifiable exactly when its identity fits the cap. Together with C1,
  every leaf of a parsed body can be edited in place.
\<close>

theorem walk_leaves_located:
  assumes "walk data = Inr ls" "l \<in> set ls"
  shows "located data l"
proof -
  have v: "valid_utf8 data" using assms(1) by (auto simp: walk_def split: if_splits)
  with assms(1) have w: "fst (walk_document (append_leaf max_encoded_depth) (root_env data) (\<lambda>_. 0)) = Inr ls"
    by (simp add: walk_def)
  obtain r occ' where "walk_document (append_leaf max_encoded_depth) (root_env data) (\<lambda>_. 0) = (r, occ')"
    by fastforce
  with w have "walk_document (append_leaf max_encoded_depth) (root_env data) (\<lambda>_. 0) = (Inr ls, occ')"
    by simp
  from walk_document_located [OF append_leaf_located _ _ this assms(2)] v show ?thesis
    by (simp add: root_env_def)
qed

definition sample_doc :: bytes where
  "sample_doc = [CHR ''{'', CHR 0x22, CHR ''a'', CHR 0x22, CHR '':'', CHR 0x22, CHR ''s'', CHR 0x22, CHR ''}'']"

lemma walk_leaves_located_witness:
  "\<exists>l. walk sample_doc = Inr [l] \<and> leaf_path l = ''/a'' \<and> leaf_value l = ''s'' \<and> located sample_doc l"
proof -
  have "map_sum id (map (\<lambda>l. (leaf_path l, leaf_value l))) (walk sample_doc) = Inr [(''/a'', ''s'')]"
    by code_simp
  then obtain l where l: "walk sample_doc = Inr [l]" "leaf_path l = ''/a''" "leaf_value l = ''s''"
    by (cases "walk sample_doc") auto
  from walk_leaves_located [OF l(1), of l] l show ?thesis by simp
qed

section \<open>Identities\<close>

text \<open>
  \<open>numbered occ ls occ'\<close>: the counter goes from \<open>occ\<close> to at least \<open>occ'\<close> while \<open>ls\<close> is
  emitted, and each leaf's identity ends in an occurrence number not used before for its path.
\<close>

fun numbered :: "occurrences \<Rightarrow> leaf list \<Rightarrow> occurrences \<Rightarrow> bool" where
  "numbered occ [] occ' \<longleftrightarrow> (\<forall>p. occ p \<le> occ' p)"
| "numbered occ (l # ls) occ' \<longleftrightarrow>
     (\<exists>scalars n. occ (leaf_path l) \<le> n \<and> leaf_identity l = join_identity (leaf_path l) scalars n \<and>
        numbered (occ(leaf_path l := Suc n)) ls occ')"

lemma numbered_mono: "numbered occ ls occ' \<Longrightarrow> (\<And>p. occ0 p \<le> occ p) \<Longrightarrow> numbered occ0 ls occ'"
proof (induction ls arbitrary: occ occ0)
  case Nil
  then show ?case by (auto intro: order_trans)
next
  case (Cons l ls)
  then obtain scalars n where
    n: "occ (leaf_path l) \<le> n" "leaf_identity l = join_identity (leaf_path l) scalars n"
    "numbered (occ(leaf_path l := Suc n)) ls occ'" by auto
  have "numbered (occ0(leaf_path l := Suc n)) ls occ'"
    by (rule Cons.IH [OF n(3)]) (use Cons.prems(2) in auto)
  moreover have "occ0 (leaf_path l) \<le> n" using n(1) Cons.prems(2) by (rule order_trans [rotated])
  ultimately show ?case using n(2) by auto
qed

lemma numbered_le: "numbered occ ls occ' \<Longrightarrow> occ p \<le> occ' p"
proof (induction occ ls occ' rule: numbered.induct)
  case (2 occ l ls occ')
  then obtain n where "occ (leaf_path l) \<le> n" "numbered (occ(leaf_path l := Suc n)) ls occ'" by auto
  with "2.IH" have "(occ(leaf_path l := Suc n)) p \<le> occ' p" by blast
  with \<open>occ (leaf_path l) \<le> n\<close> show ?case by (auto split: if_splits)
qed simp

lemma numbered_append:
  "numbered occ a occ1 \<Longrightarrow> numbered occ1 b occ2 \<Longrightarrow> numbered occ (a @ b) occ2"
  by (induction occ a occ1 rule: numbered.induct) (auto intro: numbered_mono)

lemma last_component:
  assumes "x @ identity_sep @ a = y @ identity_sep @ b" "CHR 0x1F \<notin> set a" "CHR 0x1F \<notin> set b"
  shows "a = b"
proof -
  have "rev a @ CHR 0x1F # rev x = rev b @ CHR 0x1F # rev y"
    using arg_cong [OF assms(1), of rev] by (simp add: identity_sep_def)
  moreover have tw: "takeWhile (\<lambda>c. c \<noteq> CHR 0x1F) (rev s @ CHR 0x1F # r) = rev s"
    if "CHR 0x1F \<notin> set s" for s r
    using that by (subst takeWhile_append2) auto
  ultimately have "rev a = rev b" using tw assms(2,3) by metis
  then show ?thesis by simp
qed

lemma join_identity_occurrence:
  assumes "join_identity p s n = join_identity p' s' n'"
  shows "n = n'"
proof -
  have d: "CHR 0x1F \<notin> set (itoa k)" for k
    using itoa_digits [of "CHR 0x1F" k] by (auto simp: ascii_defs)
  from assms have "(p @ concat (map render_scalar s)) @ identity_sep @ itoa n
      = (p' @ concat (map render_scalar s')) @ identity_sep @ itoa n'"
    by (simp add: join_identity_def)
  from last_component [OF this d d] show ?thesis by (rule itoa_inj)
qed

lemma numbered_later:
  "numbered occ ls occ' \<Longrightarrow> l \<in> set ls \<Longrightarrow>
     \<exists>scalars n. occ (leaf_path l) \<le> n \<and> leaf_identity l = join_identity (leaf_path l) scalars n"
proof (induction ls arbitrary: occ)
  case (Cons k ls)
  from Cons.prems(1) obtain scalars n where
    n: "occ (leaf_path k) \<le> n" "leaf_identity k = join_identity (leaf_path k) scalars n"
    "numbered (occ(leaf_path k := Suc n)) ls occ'" by auto
  show ?case
  proof (cases "l = k")
    case False
    with Cons.prems(2) Cons.IH [OF n(3)] obtain s m where
      "(occ(leaf_path k := Suc n)) (leaf_path l) \<le> m"
      "leaf_identity l = join_identity (leaf_path l) s m" by auto
    moreover from this(1) have "occ (leaf_path l) \<le> m" using n(1) by (auto split: if_splits)
    ultimately show ?thesis by blast
  qed (use n in blast)
qed simp

lemma numbered_distinct:
  "numbered occ ls occ' \<Longrightarrow> i < j \<Longrightarrow> j < length ls \<Longrightarrow> leaf_path (ls ! i) = leaf_path (ls ! j) \<Longrightarrow>
     leaf_identity (ls ! i) \<noteq> leaf_identity (ls ! j)"
proof (induction ls arbitrary: occ i j)
  case (Cons k ls)
  from Cons.prems(1) obtain scalars n where
    n: "leaf_identity k = join_identity (leaf_path k) scalars n"
    "numbered (occ(leaf_path k := Suc n)) ls occ'" by auto
  obtain j' where j: "j = Suc j'" "j' < length ls" using Cons.prems(2,3) by (cases j) auto
  show ?case
  proof (cases i)
    case 0
    from numbered_later [OF n(2), of "ls ! j'"] j Cons.prems(4) 0 obtain s m where
      "Suc n \<le> m" "leaf_identity (ls ! j') = join_identity (leaf_path (ls ! j')) s m"
      by (auto split: if_splits)
    with 0 j n(1) show ?thesis by (auto dest: join_identity_occurrence)
  next
    case (Suc i')
    with Cons.IH [OF n(2), of i' j'] Cons.prems j show ?thesis by simp
  qed
qed simp

definition emits_numbered :: "emitter \<Rightarrow> bool" where
  "emits_numbered emit \<longleftrightarrow>
     (\<forall>raw path enc toks wc occ. numbered occ (fst (emit raw path enc toks wc occ)) (snd (emit raw path enc toks wc occ)))"

lemma literal_numbered:
  "literal_leaf raw path enc toks wc occ = (l, occ') \<Longrightarrow> numbered occ [l] occ'"
  by (fastforce simp: literal_leaf_def Let_def)

lemma emits_numberedD:
  "emits_numbered emit \<Longrightarrow> emit raw path enc toks wc occ = (ls, occ') \<Longrightarrow> numbered occ ls occ'"
  unfolding emits_numbered_def by (metis fst_conv snd_conv)

lemma walk_value_numbered:
  assumes "emits_numbered emit" "walk_value emit env d stack out occ = (r, occ')" "numbered occ0 out occ"
  shows "case r of Inr (ls, _) \<Rightarrow> numbered occ0 ls occ' | Inl _ \<Rightarrow> numbered occ0 [] occ'"
  using assms(2,3)
proof (induction "length (dec_rest d)" arbitrary: d stack out occ rule: less_induct)
  case less
  have le: "numbered occ0 [] occ" if "numbered occ0 out occ" for out occ
    using numbered_le [OF that] by simp
  show ?case
  proof (cases "next_token d")
    case (Inl e)
    with less.prems le show ?thesis by (auto simp: walk_value.simps [of emit env d])
  next
    case (Inr p)
    obtain tok d' where n: "next_token d = Inr (tok, d')" using Inr by (cases p) auto
    note go = less.hyps [OF next_token_length [OF n]]
    have scalar: ?thesis if "tok = NumTok \<or> tok = NullTok \<or> (\<exists>b. tok = BoolTok b)"
      using that less.prems n go le
      by (auto simp: walk_value.simps [of emit env d] split: list.splits if_splits)
    show ?thesis
    proof (cases tok)
      case (Delim c)
      with less.prems n go le show ?thesis
        unfolding walk_value_delim [OF n [unfolded Delim]] by (auto split: list.splits if_splits)
    next
      case (StrTok raw)
      have app: "numbered occ0 (out @ new) occ1" if "emit raw path enc toks wc occ = (new, occ1)"
        for path enc toks wc new occ1
        using numbered_append [OF less.prems(2) emits_numberedD [OF assms(1) that]] .
      show ?thesis
        using less.prems n go le app StrTok
        by (auto simp: walk_value.simps [of emit env d] Let_def split: list.splits if_splits prod.splits)
    qed (use scalar in auto)
  qed
qed

lemma walk_document_numbered:
  assumes "emits_numbered emit" "walk_document emit env occ = (r, occ')"
  shows "case r of Inr ls \<Rightarrow> numbered occ ls occ' | Inl _ \<Rightarrow> numbered occ [] occ'"
proof -
  obtain r0 occ0 where w: "walk_value emit env (new_decoder (de_data env)) [] [] occ = (r0, occ0)"
    by fastforce
  have le: "numbered occ [] occ1" if "numbered occ ls occ1" for ls occ1
    using numbered_le [OF that] by simp
  from walk_value_numbered [OF assms(1) w, of occ] assms(2) w le show ?thesis
    by (auto simp: walk_document_def split: sum.splits prod.splits if_splits)
qed

lemma append_leaf_numbered: "emits_numbered (append_leaf budget)"
proof (induction budget)
  case 0
  show ?case unfolding emits_numbered_def
    using literal_numbered by (auto split: prod.splits simp del: numbered.simps)
next
  case (Suc budget)
  show ?case
    unfolding emits_numbered_def
  proof (intro allI)
    fix raw path enc toks wc occ
    let ?env = "\<lparr>de_data = raw, de_base = path, de_encoded = True, de_enclosing = toks, de_context = wc\<rparr>"
    obtain r occ' where r: "walk_document (append_leaf budget) ?env occ = (r, occ')" by fastforce
    have lit: "numbered occ [l] occ''" if "numbered occ [] occ'"
      "literal_leaf raw path e toks wc occ' = (l, occ'')" for l occ'' e
      using numbered_append [OF that(1) literal_numbered [OF that(2)]] by simp
    show "numbered occ (fst (append_leaf (Suc budget) raw path enc toks wc occ))
        (snd (append_leaf (Suc budget) raw path enc toks wc occ))"
      using walk_document_numbered [OF Suc r] r lit
      by (cases r) (auto split: prod.splits simp del: numbered.simps)
  qed
qed

text \<open>
  Two leaves of one \<open>Walk\<close> that share a path never share an identity: the occurrence number
  that ends an identity is fresh for its path, also when inner documents were tried and discarded
  on the way. Repeated keys and repeated wrappers therefore stay separate channels.
\<close>

theorem walk_identities_distinct:
  assumes "walk data = Inr ls" "i < j" "j < length ls" "leaf_path (ls ! i) = leaf_path (ls ! j)"
  shows "leaf_identity (ls ! i) \<noteq> leaf_identity (ls ! j)"
proof -
  obtain r occ' where r: "walk_document (append_leaf max_encoded_depth) (root_env data) (\<lambda>_. 0) = (r, occ')"
    by fastforce
  with assms(1) have "r = Inr ls" by (auto simp: walk_def split: if_splits)
  with walk_document_numbered [OF append_leaf_numbered r] have "numbered (\<lambda>_. 0) ls occ'" by simp
  from numbered_distinct [OF this assms(2-4)] show ?thesis .
qed

text \<open>A document text with \<open>~\<close> for the quote and \<open>^\<close> for the backslash, to keep samples readable.\<close>

definition json_text :: "bytes \<Rightarrow> bytes" where
  "json_text s = map (\<lambda>c. if c = CHR ''~'' then CHR 0x22 else if c = CHR ''^'' then CHR 0x5C else c) s"

lemma walk_identities_distinct_witness:
  "\<exists>a b. walk (json_text ''{~k~:~s~,~k~:~t~}'') = Inr [a, b] \<and> leaf_path a = leaf_path b \<and>
    leaf_identity a \<noteq> leaf_identity b"
proof -
  have "map_sum id (map leaf_path) (walk (json_text ''{~k~:~s~,~k~:~t~}'')) = Inr [''/k'', ''/k'']"
    by code_simp
  then obtain a b where ab: "walk (json_text ''{~k~:~s~,~k~:~t~}'') = Inr [a, b]"
      "leaf_path a = leaf_path b"
    by (cases "walk (json_text ''{~k~:~s~,~k~:~t~}'')") auto
  with walk_identities_distinct [OF ab(1), of 0 1] show ?thesis by simp
qed

text \<open>
  The separator byte 0x1F does not keep different paths apart: a member key may decode to text
  that contains it, and such a key is indistinguishable from a captured scalar.
\<close>

lemma identity_collision:
  "\<exists>a b. walk (json_text ''{~a^u001fx=1~:~s~,~x~:1,~a~:~t~}'') = Inr [a, b] \<and>
    leaf_path a \<noteq> leaf_path b \<and> leaf_identity a = leaf_identity b"
proof -
  have "map_sum id (map (\<lambda>l. (leaf_path l, leaf_identity l)))
      (walk (json_text ''{~a^u001fx=1~:~s~,~x~:1,~a~:~t~}'')) =
    Inr [(''/a'' @ CHR 0x1F # ''x=1'', ''/a'' @ CHR 0x1F # ''x=1'' @ CHR 0x1F # ''0''),
         (''/a'', ''/a'' @ CHR 0x1F # ''x=1'' @ CHR 0x1F # ''0'')]"
    by code_simp
  then obtain a b where "walk (json_text ''{~a^u001fx=1~:~s~,~x~:1,~a~:~t~}'') = Inr [a, b]"
      "leaf_path a \<noteq> leaf_path b" "leaf_identity a = leaf_identity b"
    by (cases "walk (json_text ''{~a^u001fx=1~:~s~,~x~:1,~a~:~t~}'')") auto
  then show ?thesis by blast
qed

end
