(* ===== verification/Backfill.thy ===== *)
theory Backfill
  imports Placeholder Walk
begin

text \<open>
  \<open>pkg/redact/backfill.go\<close>, \<open>exclusion.go\<close> and \<open>substitute.go\<close>: the session's reverse map, the
  restoring of placeholders in client-bound bodies and the request-side substitution. The reverse
  map is an association list with distinct keys. The source ranges over a Go map and sorts by
  length only, so the order of equally long placeholders is unspecified: \<open>is_snapshot\<close> admits
  every such order and the theorems hold for all of them; \<open>snapshot\<close> is one, for evaluation.
\<close>

section \<open>The reverse map\<close>

record backfiller =
  bf_reverse :: "(bytes \<times> bytes) list"
  bf_excluded :: "bytes list"

definition new_backfiller :: backfiller where
  "new_backfiller = \<lparr>bf_reverse = [], bf_excluded = []\<rparr>"

definition map_placeholder :: "bytes \<Rightarrow> bytes \<Rightarrow> backfiller \<Rightarrow> backfiller" where
  "map_placeholder p secret b =
     (if p = [] then b
      else b\<lparr>bf_reverse := (p, secret) # filter (\<lambda>(k, _). k \<noteq> p) (bf_reverse b)\<rparr>)"

definition exclude_from_backfill :: "bytes list \<Rightarrow> backfiller \<Rightarrow> backfiller" where
  "exclude_from_backfill vs b = b\<lparr>bf_excluded := fold List.insert vs (bf_excluded b)\<rparr>"

definition excludes :: "backfiller \<Rightarrow> bytes \<Rightarrow> bool" where
  "excludes b v \<longleftrightarrow> v \<in> set (bf_excluded b)"

definition excluded_count :: "backfiller \<Rightarrow> nat" where
  "excluded_count b = length (remdups (bf_excluded b))"

text \<open>\<open>Mint\<close>: the forward writer mints, this side records the reverse entry.\<close>

definition mint :: "backfiller \<Rightarrow> engine \<Rightarrow> bytes \<Rightarrow> bytes \<Rightarrow> (redact_error, bytes) result \<times> backfiller \<times> engine" where
  "mint b e secret kind =
     (case placeholder e secret kind of
        (Inl err, e') \<Rightarrow> (Inl err, b, e')
      | (Inr p, e') \<Rightarrow> (Inr p, map_placeholder p secret b, e'))"

section \<open>Restoring\<close>

definition by_length_desc :: "bytes \<times> bytes \<Rightarrow> bytes \<times> bytes \<Rightarrow> bool" where
  "by_length_desc x y \<longleftrightarrow> length (fst y) \<le> length (fst x)"

definition is_snapshot :: "backfiller \<Rightarrow> (bytes \<times> bytes) list \<Rightarrow> bool" where
  "is_snapshot b ps \<longleftrightarrow>
     distinct ps \<and> set ps = set (bf_reverse b) \<and> sorted_wrt by_length_desc ps"

definition snapshot :: "backfiller \<Rightarrow> (bytes \<times> bytes) list" where
  "snapshot b = rev (sort_key (\<lambda>(p, _). length p) (bf_reverse b))"

text \<open>The occurrences \<open>appendLeaves\<close> finds, left to right without overlap.\<close>

function occurrences_from :: "bytes \<Rightarrow> bytes \<Rightarrow> nat \<Rightarrow> nat list" where
  "occurrences_from token v pos =
     (if token = [] \<or> length v < pos then []
      else case index_of token (drop pos v) of
        None \<Rightarrow> []
      | Some i \<Rightarrow> (pos + i) # occurrences_from token v (pos + i + length token))"
  by pat_completeness auto
termination
proof (relation "measure (\<lambda>(token, v, pos). Suc (length v) - pos)", goal_cases)
  case (2 token v pos i)
  then have "i + length token \<le> length v - pos" "0 < length token" "pos \<le> length v"
    using index_of_bound [of token "drop pos v" i] by auto
  then show ?case by (simp only: in_measure split_conv)
qed simp

declare occurrences_from.simps [simp del]

definition append_leaves :: "leaf \<Rightarrow> bytes \<times> bytes \<Rightarrow> edit list" where
  "append_leaves l p =
     map (\<lambda>start. \<lparr>edit_leaf = l, edit_start = int start, edit_end = int (start + length (fst p)),
            edit_repl = raw_spelling l (snd p)\<rparr>)
       (occurrences_from (fst p) (leaf_value l) 0)"

definition live_pairs :: "backfiller \<Rightarrow> (bytes \<times> bytes) list \<Rightarrow> (bytes \<times> bytes) list" where
  "live_pairs b ps = filter (\<lambda>(_, secret). \<not> excludes b secret) ps"

definition backfill_count :: "backfiller \<Rightarrow> (bytes \<times> bytes) list \<Rightarrow> bytes \<Rightarrow> bytes \<times> nat" where
  "backfill_count b ps body =
     (if \<not> contains body placeholder_prefix then (body, 0)
      else
        let live = live_pairs b ps; count = sum_list (map (\<lambda>(p, _). count_sub p body) live)
        in case walk body of
             Inl _ \<Rightarrow> (foldl (\<lambda>out (p, secret). replace_all p secret out) body live, count)
           | Inr leaves \<Rightarrow>
               (let edits = concat (map (\<lambda>l. concat (map (append_leaves l) live)) leaves);
                    out = fst (apply_edits body edits)
                in (foldl (\<lambda>out (p, secret). replace_all p (escape_json_string secret) out) out live, count)))"

definition backfill :: "backfiller \<Rightarrow> (bytes \<times> bytes) list \<Rightarrow> bytes \<Rightarrow> bytes" where
  "backfill b ps body = fst (backfill_count b ps body)"

section \<open>Request-side substitution\<close>

record substitution =
  sub_leaf :: leaf
  sub_start :: int
  sub_end :: int
  sub_category :: bytes

record applied =
  app_index :: nat
  app_category :: bytes
  app_length :: nat

definition sub_located :: "substitution \<Rightarrow> bool" where
  "sub_located s \<longleftrightarrow>
     0 \<le> sub_start s \<and> sub_start s < sub_end s \<and> sub_end s \<le> int (length (leaf_value (sub_leaf s))) \<and>
     raw_span (sub_leaf s) (sub_start s) (sub_end s) \<noteq> None"

definition sub_secret :: "substitution \<Rightarrow> bytes" where
  "sub_secret s = slice (leaf_value (sub_leaf s)) (nat (sub_start s)) (nat (sub_end s))"

text \<open>The loop over \<open>subs\<close>: the edits with the index of the substitution that owns each.\<close>

fun mint_subs :: "backfiller \<Rightarrow> engine \<Rightarrow> (nat \<times> substitution) list \<Rightarrow>
    (redact_error, (edit \<times> nat) list) result \<times> backfiller \<times> engine" where
  "mint_subs b e [] = (Inr [], b, e)"
| "mint_subs b e ((i, s) # ss) =
     (if \<not> sub_located s then mint_subs b e ss
      else case mint b e (sub_secret s) (sub_category s) of
        (Inl err, b', e') \<Rightarrow> (Inl err, b', e')
      | (Inr p, b', e') \<Rightarrow>
          (case mint_subs b' e' ss of
             (Inl err, b'', e'') \<Rightarrow> (Inl err, b'', e'')
           | (Inr es, b'', e'') \<Rightarrow>
               (Inr ((\<lparr>edit_leaf = sub_leaf s, edit_start = sub_start s, edit_end = sub_end s, edit_repl = p\<rparr>, i) # es),
                b'', e'')))"

definition substitute :: "backfiller \<Rightarrow> engine \<Rightarrow> bytes \<Rightarrow> substitution list \<Rightarrow>
    (redact_error, bytes \<times> applied list) result \<times> backfiller \<times> engine" where
  "substitute b e body subs =
     (case mint_subs b e (enumerate 0 subs) of
        (Inl err, b', e') \<Rightarrow> (Inl err, b', e')
      | (Inr es, b', e') \<Rightarrow>
          (let (out, idx) = apply_edits body (map fst es);
               owner = map snd es
           in (Inr (out, map (\<lambda>i. let s = subs ! (owner ! i) in
                  \<lparr>app_index = owner ! i, app_category = sub_category s,
                   app_length = nat (sub_end s - sub_start s)\<rparr>) idx), b', e')))"

section \<open>Snapshots and live pairs\<close>

definition backfiller_ok :: "backfiller \<Rightarrow> bool" where
  "backfiller_ok b \<longleftrightarrow>
     distinct (map fst (bf_reverse b)) \<and> (\<forall>(p, _) \<in> set (bf_reverse b). prefix placeholder_prefix p)"

lemma new_backfiller_ok: "backfiller_ok new_backfiller"
  by (simp add: backfiller_ok_def new_backfiller_def)

lemma token_has_prefix: "placeholder_token p \<Longrightarrow> prefix placeholder_prefix p"
  by (auto simp: placeholder_token_def make_placeholder_def)

lemma map_placeholder_ok:
  "backfiller_ok b \<Longrightarrow> prefix placeholder_prefix p \<Longrightarrow> backfiller_ok (map_placeholder p secret b)"
  by (auto simp: backfiller_ok_def map_placeholder_def distinct_map_filter)

lemma snapshot_is_snapshot:
  assumes "backfiller_ok b"
  shows "is_snapshot b (snapshot b)"
proof -
  have "distinct (bf_reverse b)" using assms by (auto simp: backfiller_ok_def distinct_map)
  moreover have "sorted_wrt by_length_desc (snapshot b)"
  proof -
    have "sorted (map (\<lambda>(p, _). length p) (sort_key (\<lambda>(p, _). length p) (bf_reverse b)))" by simp
    then show ?thesis
      unfolding snapshot_def sorted_wrt_rev sorted_map
      by (rule sorted_wrt_mono_rel [rotated]) (auto simp: by_length_desc_def)
  qed
  ultimately show ?thesis by (simp add: is_snapshot_def snapshot_def)
qed

lemma replace_all_foldl_absent:
  assumes "\<forall>(p, _) \<in> set live. \<not> sublist p body"
  shows "foldl (\<lambda>out (p, secret). replace_all p (f secret) out) body live = body"
  using assms by (induction live) (auto simp: replace_all_no_occurrence)

lemma occurrences_absent: "\<not> sublist token v \<Longrightarrow> occurrences_from token v pos = []"
proof (subst occurrences_from.simps, cases "index_of token (drop pos v)")
  case (Some i)
  assume a: "\<not> sublist token v"
  from Some have "contains (drop pos v) token" by (simp add: contains_def)
  then have "sublist token (drop pos v)" by (simp add: contains_sublist)
  then have "sublist token v" using sublist_drop by (rule sublist_order.order_trans)
  with a show "(if token = [] \<or> length v < pos then []
      else case index_of token (drop pos v) of
        None \<Rightarrow> []
      | Some i \<Rightarrow> (pos + i) # occurrences_from token v (pos + i + length token)) = []" by simp
qed simp

lemma count_foldl_absent:
  "\<forall>(p, _) \<in> set live. \<not> sublist p body \<Longrightarrow> sum_list (map (\<lambda>(p, _). count_sub p body) live) = 0"
  by (induction live) (auto simp: count_sub_zero)

text \<open>
  C5: Restoring touches nothing but mapped placeholders that may be restored: when no
  non-excluded placeholder of the session occurs in the body or in a decoded string value of it,
  the body comes back byte-identical with a count of zero, for every order of the snapshot. So a
  foreign, unknown or excluded placeholder is never turned into a secret.
\<close>

theorem backfill_leaves_unmapped:
  assumes "\<forall>(p, secret) \<in> set ps. excludes b secret \<or>
      (\<not> sublist p body \<and> (\<forall>ls. walk body = Inr ls \<longrightarrow> (\<forall>l \<in> set ls. \<not> sublist p (leaf_value l))))"
  shows "backfill_count b ps body = (body, 0)"
proof (cases "contains body placeholder_prefix")
  case True
  have live: "\<forall>(p, _) \<in> set (live_pairs b ps). \<not> sublist p body"
    using assms by (auto simp: live_pairs_def)
  show ?thesis
  proof (cases "walk body")
    case (Inl err)
    with True replace_all_foldl_absent [OF live, of "\<lambda>s. s"] count_foldl_absent [OF live] show ?thesis
      by (simp add: backfill_count_def Let_def)
  next
    case (Inr ls)
    have "append_leaves l p = []" if "l \<in> set ls" "p \<in> set (live_pairs b ps)" for l p
    proof -
      have "\<not> sublist (fst p) (leaf_value l)"
        using assms Inr that by (auto simp: live_pairs_def)
      then show ?thesis by (simp add: append_leaves_def occurrences_absent)
    qed
    then have none: "concat (map (\<lambda>l. concat (map (append_leaves l) (live_pairs b ps))) ls) = []" by auto
    show ?thesis
      using True Inr replace_all_foldl_absent [OF live, of escape_json_string]
      by (simp add: backfill_count_def Let_def none count_foldl_absent [OF live] del: concat_eq_Nil_conv)
  qed
qed (simp add: backfill_count_def)

definition sample_token :: bytes where
  "sample_token = ''__PII_email_0123456789ab__''"

lemma backfill_leaves_unmapped_witness:
  "backfill_count \<lparr>bf_reverse = [(sample_token, ''bob'')], bf_excluded = [''bob'']\<rparr> [(sample_token, ''bob'')]
     (''say '' @ sample_token) = (''say '' @ sample_token, 0)"
  by (rule backfill_leaves_unmapped) (simp add: excludes_def)

section \<open>Restoring a lone token\<close>

lemma scan_value_underscore: "scan_value (CHR ''_'' # t) = None"
proof -
  have "digits (CHR ''_'' # t) = []" by (simp add: digits_def ascii_defs)
  then have "scan_number (CHR ''_'' # t) = None" by (simp add: scan_number_def scan_integer_def)
  then show ?thesis by (simp add: scan_value_def)
qed

lemma walk_underscore: "\<exists>err. walk (CHR ''_'' # t) = Inl err"
proof -
  have "next_token (new_decoder (CHR ''_'' # t)) = Inl TokErr"
    by (simp add: next_token.simps new_decoder_def skip_space_def is_json_space_def value_token_def
        scan_value_underscore)
  then show ?thesis
    by (simp add: walk_def walk_document_def walk_value.simps root_env_def)
qed

lemma replace_all_self: "p \<noteq> [] \<Longrightarrow> replace_all p s p = s"
  by (cases p) auto

lemma sublist_self_length: "sublist x y \<Longrightarrow> length y \<le> length x \<Longrightarrow> x = y"
  using sublist_length_le [of x y] by (auto simp: sublist_def)

lemma foldl_replace_token:
  assumes "sorted_wrt by_length_desc ps" "distinct (map fst ps)" "(p, secret) \<in> set ps" "p \<noteq> []"
    and "\<forall>(q, _) \<in> set ps. \<not> sublist q secret"
  shows "foldl (\<lambda>out (p, secret). replace_all p secret out) p ps = secret"
  using assms
proof (induction ps)
  case (Cons x ps)
  obtain q t where x: "x = (q, t)" by (cases x)
  show ?case
  proof (cases "q = p")
    case True
    with Cons.prems x have "t = secret" by (auto dest: eq_key_imp_eq_value [of "x # ps"] simp: rev_image_eqI)
    have "foldl (\<lambda>out (p, secret). replace_all p secret out) secret ps = secret"
      using Cons.prems(5) by (intro replace_all_foldl_absent [of ps secret "\<lambda>s. s"]) auto
    with True x \<open>t = secret\<close> Cons.prems(4) show ?thesis by (simp add: replace_all_self)
  next
    case False
    with Cons.prems x have in_ps: "(p, secret) \<in> set ps" by auto
    with Cons.prems(1) x have "length p \<le> length q" by (auto simp: by_length_desc_def)
    with False have "\<not> sublist q p" using sublist_self_length by metis
    then have "replace_all q t p = p" by (rule replace_all_no_occurrence)
    with Cons.IH Cons.prems in_ps x show ?thesis by simp
  qed
qed simp

text \<open>
  A token the session minted restores to its secret: for a mapped, non-excluded placeholder
  and a secret that is not itself placeholder text, \<open>Backfill\<close> of the lone token (what the
  streaming path calls) returns exactly the secret, in every snapshot order and whatever else is
  mapped.
\<close>

theorem backfill_token_restores:
  assumes "backfiller_ok b" "is_snapshot b ps" "(p, secret) \<in> set (bf_reverse b)"
    and "\<not> excludes b secret" "\<not> sublist placeholder_prefix secret"
  shows "backfill b ps p = secret"
proof -
  have pre: "prefix placeholder_prefix p" using assms(1,3) by (auto simp: backfiller_ok_def)
  then have "sublist placeholder_prefix p" by (rule prefix_imp_sublist)
  then have c: "contains p placeholder_prefix" by (simp add: contains_sublist)
  from pre obtain t where t: "p = CHR ''_'' # t" by (auto simp: prefix_def placeholder_prefix_def)
  let ?live = "live_pairs b ps"
  have set: "set ?live \<subseteq> set (bf_reverse b)" using assms(2) by (auto simp: live_pairs_def is_snapshot_def)
  have "sorted_wrt by_length_desc ?live"
    using assms(2) by (simp add: is_snapshot_def live_pairs_def sorted_wrt_filter)
  moreover have "distinct (map fst ?live)"
  proof -
    have "inj_on fst (set (bf_reverse b))" using assms(1) by (simp add: backfiller_ok_def distinct_map)
    then have "inj_on fst (set ?live)" using set by (rule inj_on_subset)
    then show ?thesis using assms(2) by (simp add: distinct_map is_snapshot_def live_pairs_def)
  qed
  moreover have "(p, secret) \<in> set ?live"
    using assms(2-4) by (simp add: is_snapshot_def live_pairs_def)
  moreover have "\<forall>(q, _) \<in> set ?live. \<not> sublist q secret"
  proof (clarify)
    fix q s assume "(q, s) \<in> set ?live" "sublist q secret"
    then have "prefix placeholder_prefix q" using set assms(1) by (auto simp: backfiller_ok_def)
    then have "sublist placeholder_prefix q" by (rule prefix_imp_sublist)
    with \<open>sublist q secret\<close> assms(5) show False using sublist_order.order_trans by blast
  qed
  ultimately have "foldl (\<lambda>out (p, secret). replace_all p secret out) p ?live = secret"
    using t by (intro foldl_replace_token) auto
  with c walk_underscore [of t] t show ?thesis
    by (auto simp: backfill_def backfill_count_def Let_def)
qed

lemma backfill_token_restores_witness:
  "backfill (map_placeholder sample_token ''bob'' new_backfiller) [(sample_token, ''bob'')] sample_token = ''bob''"
proof (rule backfill_token_restores)
  have p: "prefix placeholder_prefix sample_token" by code_simp
  show "backfiller_ok (map_placeholder sample_token ''bob'' new_backfiller)"
    by (rule map_placeholder_ok [OF new_backfiller_ok p])
  show "is_snapshot (map_placeholder sample_token ''bob'' new_backfiller) [(sample_token, ''bob'')]"
    by (simp add: is_snapshot_def map_placeholder_def new_backfiller_def sample_token_def)
  show "(sample_token, ''bob'') \<in> set (bf_reverse (map_placeholder sample_token ''bob'' new_backfiller))"
    by (simp add: map_placeholder_def sample_token_def)
  show "\<not> excludes (map_placeholder sample_token ''bob'' new_backfiller) ''bob''"
    by (simp add: excludes_def map_placeholder_def new_backfiller_def)
  have "\<not> contains ''bob'' placeholder_prefix" by code_simp
  then show "\<not> sublist placeholder_prefix ''bob''" by (simp add: contains_sublist)
qed

section \<open>Sessions\<close>

text \<open>
  Forward and reverse map belong together: every reverse entry \<open>p\<close> to \<open>s\<close> stems from a forward
  entry for \<open>s\<close>.
\<close>

definition session_ok :: "backfiller \<Rightarrow> engine \<Rightarrow> bool" where
  "session_ok b e \<longleftrightarrow> engine_ok e \<and> backfiller_ok b \<and>
     (\<forall>(p, s) \<in> set (bf_reverse b). \<exists>kind. map_of (eng_forward e) (forward_key (sanitize_kind kind) s) = Some p)"

lemma new_session_ok: "session_ok new_backfiller (new_engine digest salt)"
  using new_backfiller_ok new_engine_ok by (simp add: session_ok_def new_backfiller_def)

lemma session_placeholder_secret:
  assumes "session_ok b e" "(p, s) \<in> set (bf_reverse b)"
    and "map_of (eng_forward e) (forward_key (sanitize_kind kind) t) = Some p"
  shows "s = t"
proof -
  obtain k where k: "map_of (eng_forward e) (forward_key (sanitize_kind k) s) = Some p"
    using assms(1,2) unfolding session_ok_def by blast
  have "engine_ok e" using assms(1) by (simp add: session_ok_def)
  from engine_value_inj [OF this k assms(3)] show ?thesis
    by (simp add: forward_key_inj sanitize_kind_no_nul)
qed

lemma map_placeholder_other:
  "q \<noteq> p \<Longrightarrow> (q, s) \<in> set (bf_reverse (map_placeholder p secret b)) \<longleftrightarrow> (q, s) \<in> set (bf_reverse b)"
  by (auto simp: map_placeholder_def)

lemma mint_session:
  assumes "session_ok b e" "mint b e secret kind = (r, b', e')"
  shows "session_ok b' e' \<and> set (bf_reverse b) \<subseteq> set (bf_reverse b') \<and>
    set (bf_reverse b') \<subseteq> insert (case r of Inr p \<Rightarrow> (p, secret) | Inl _ \<Rightarrow> ([], [])) (set (bf_reverse b)) \<and>
    (\<forall>p. r = Inr p \<longrightarrow> placeholder_token p \<and> (p, secret) \<in> set (bf_reverse b')) \<and>
    (\<forall>x. r = Inl x \<longrightarrow> b' = b)"
proof -
  obtain r1 e1 where p: "placeholder e secret kind = (r1, e1)" by fastforce
  have ok: "engine_ok e" using assms(1) by (simp add: session_ok_def)
  note ok1 = placeholder_ok [OF ok p]
  have ext: "\<exists>kind. map_of (eng_forward e1) (forward_key (sanitize_kind kind) s) = Some q"
    if "(q, s) \<in> set (bf_reverse b)" for q s
    using assms(1) that placeholder_extends [OF p] unfolding session_ok_def by blast
  show ?thesis
  proof (cases r1)
    case (Inl err)
    with p assms(2) have "r = Inl err" "b' = b" "e' = e1" by (auto simp: mint_def)
    with assms(1) ok1 ext show ?thesis by (auto simp: session_ok_def)
  next
    case (Inr q)
    with p assms(2) have r: "r = Inr q" "b' = map_placeholder q secret b" "e' = e1" by (auto simp: mint_def)
    from placeholder_recorded p Inr have rec: "map_of (eng_forward e1) (forward_key (sanitize_kind kind) secret) = Some q"
      by blast
    have "q \<in> set (map snd (eng_forward e1))"
      unfolding set_map using imageI [OF map_of_SomeD [OF rec], of snd] by simp
    then have tok: "placeholder_token q" using ok1 unfolding engine_ok_def list_all_iff by blast
    then have pre: "prefix placeholder_prefix q" by (rule token_has_prefix)
    then have ne: "q \<noteq> []" by (auto simp: placeholder_prefix_def)
    have "session_ok b e1" using assms(1) ok1 ext by (auto simp: session_ok_def)
    then have same: "s = secret" if "(q, s) \<in> set (bf_reverse b)" for s
      using session_placeholder_secret that rec by blast
    have mem: "(q, secret) \<in> set (bf_reverse b')" using ne r by (simp add: map_placeholder_def)
    have rev: "set (bf_reverse b') = insert (q, secret) {x \<in> set (bf_reverse b). fst x \<noteq> q}"
      unfolding r(2) map_placeholder_def using ne by (simp add: case_prod_unfold)
    have sub: "set (bf_reverse b) \<subseteq> set (bf_reverse b')"
    proof
      fix x assume x: "x \<in> set (bf_reverse b)"
      show "x \<in> set (bf_reverse b')"
      proof (cases "fst x = q")
        case True
        then have e: "x = (q, snd x)" by (simp add: prod_eq_iff)
        have "(q, snd x) \<in> set (bf_reverse b)" by (rule subst [OF e, of "\<lambda>y. y \<in> set (bf_reverse b)"]) (rule x)
        from e same [OF this] have "x = (q, secret)" by simp
        with mem show ?thesis by simp
      qed (simp add: rev x)
    qed
    have sup: "set (bf_reverse b') \<subseteq> insert (q, secret) (set (bf_reverse b))"
      unfolding rev by (rule insert_mono) (rule Collect_restrict)
    have "backfiller_ok b" using assms(1) by (simp add: session_ok_def)
    then have bok: "backfiller_ok b'" unfolding r(2) using pre by (rule map_placeholder_ok)
    have all: "\<exists>kind. map_of (eng_forward e1) (forward_key (sanitize_kind kind) s) = Some p"
      if m: "(p, s) \<in> set (bf_reverse b')" for p s
    proof (cases "(p, s) = (q, secret)")
      case True
      with rec show ?thesis by (intro exI [of _ kind]) simp
    next
      case False
      with sup m have "(p, s) \<in> set (bf_reverse b)" by (meson insertE subsetD)
      then show ?thesis by (rule ext)
    qed
    have "session_ok b' e'"
      unfolding session_ok_def r(3)
      by (intro conjI ok1 bok ballI, unfold case_prod_unfold, rule all) simp
    then show ?thesis
      unfolding r(1) sum.case using tok mem sub sup by (intro conjI allI impI) simp_all
  qed
qed

lemma mint_subs_session:
  assumes "session_ok b e" "mint_subs b e ss = (r, b', e')"
  shows "session_ok b' e' \<and> set (bf_reverse b) \<subseteq> set (bf_reverse b') \<and>
    (\<forall>(p, s) \<in> set (bf_reverse b') - set (bf_reverse b). \<exists>(i, x) \<in> set ss. sub_located x \<and> s = sub_secret x) \<and>
    (\<forall>es. r = Inr es \<longrightarrow> (\<forall>(ed, i) \<in> set es. \<exists>x. (i, x) \<in> set ss \<and> sub_located x \<and> edit_leaf ed = sub_leaf x \<and>
       edit_start ed = sub_start x \<and> edit_end ed = sub_end x \<and> placeholder_token (edit_repl ed) \<and>
       (edit_repl ed, sub_secret x) \<in> set (bf_reverse b')))"
  using assms
proof (induction ss arbitrary: b e r)
  case (Cons y ss)
  obtain i s where y: "y = (i, s)" by (cases y)
  show ?case
  proof (cases "sub_located s")
    case False
    with Cons.prems(2) y have "mint_subs b e ss = (r, b', e')" by simp
    from Cons.IH [OF Cons.prems(1) this] show ?thesis unfolding y by (auto; blast)
  next
    case True
    obtain r1 b1 e1 where m: "mint b e (sub_secret s) (sub_category s) = (r1, b1, e1)" by (metis prod.exhaust)
    note ms = mint_session [OF Cons.prems(1) m]
    show ?thesis
    proof (cases r1)
      case (Inl err)
      with m True Cons.prems(2) y have "r = Inl err" "b' = b1" "e' = e1" by auto
      with ms Inl Cons.prems(1) show ?thesis by auto
    next
      case (Inr p)
      obtain r2 b2 e2 where rest: "mint_subs b1 e1 ss = (r2, b2, e2)" by (metis prod.exhaust)
      have b2: "b' = b2" "e' = e2" using m True Inr rest Cons.prems(2) y by (auto split: sum.splits)
      with Cons.IH [of b1 e1 r2] ms rest have ih: "session_ok b' e'" "set (bf_reverse b1) \<subseteq> set (bf_reverse b')"
        "\<forall>(p, s) \<in> set (bf_reverse b') - set (bf_reverse b1). \<exists>(i, x) \<in> set ss. sub_located x \<and> s = sub_secret x"
        "\<And>es. r2 = Inr es \<Longrightarrow> (\<forall>(ed, i) \<in> set es. \<exists>x. (i, x) \<in> set ss \<and> sub_located x \<and> edit_leaf ed = sub_leaf x \<and>
           edit_start ed = sub_start x \<and> edit_end ed = sub_end x \<and> placeholder_token (edit_repl ed) \<and>
           (edit_repl ed, sub_secret x) \<in> set (bf_reverse b'))"
        by auto
      have sub: "set (bf_reverse b) \<subseteq> set (bf_reverse b1)" "set (bf_reverse b1) \<subseteq> insert (p, sub_secret s) (set (bf_reverse b))"
        "placeholder_token p" "(p, sub_secret s) \<in> set (bf_reverse b1)" using ms Inr by auto
      have new: "\<forall>(p, t) \<in> set (bf_reverse b') - set (bf_reverse b). \<exists>(i, x) \<in> set (y # ss). sub_located x \<and> t = sub_secret x"
        using ih(3) sub(2) True y by fastforce
      have eds: "\<forall>(ed, j) \<in> set es. \<exists>x. (j, x) \<in> set (y # ss) \<and> sub_located x \<and> edit_leaf ed = sub_leaf x \<and>
           edit_start ed = sub_start x \<and> edit_end ed = sub_end x \<and> placeholder_token (edit_repl ed) \<and>
           (edit_repl ed, sub_secret x) \<in> set (bf_reverse b')" if re: "r = Inr es" for es
      proof -
        obtain es2 where es2: "r2 = Inr es2"
          "es = (\<lparr>edit_leaf = sub_leaf s, edit_start = sub_start s, edit_end = sub_end s, edit_repl = p\<rparr>, i) # es2"
          using re m True Inr rest Cons.prems(2) y by (cases r2) auto
        have "(p, sub_secret s) \<in> set (bf_reverse b')" using sub(4) ih(2) by blast
        with ih(4) [OF es2(1)] es2(2) y True sub(3) show ?thesis by auto
      qed
      from ih(1,2) sub(1) new eds show ?thesis by blast
    qed
  qed
qed auto

lemma apply_edits_indices: "apply_edits body es = (out, idx) \<Longrightarrow> i \<in> set idx \<Longrightarrow> i < length es"
proof -
  assume "apply_edits body es = (out, idx)" "i \<in> set idx"
  then obtain c where c: "c \<in> set (kept_edits body es)" "i = cand_idx c"
    by (auto simp: apply_edits_def Let_def)
  then have "c \<in> set (candidates body es)"
    using keep_disjoint_subset [of 0 "sort_key cand_rs (candidates body es)"] by (auto simp: kept_edits_def)
  with c(2) show ?thesis
    by (auto simp: candidates_def map_filter_def candidate_def in_set_enumerate_eq split: option.splits if_splits)
qed

lemma sound_edits_applied:
  assumes "apply_edits body (map fst es) = (out, idx)" "i \<in> set idx"
    and "\<forall>(ed, j) \<in> set es. \<exists>x. (j, x) \<in> set (enumerate 0 subs) \<and> sub_located x \<and> placeholder_token (edit_repl ed) \<and>
      (edit_repl ed, sub_secret x) \<in> set rs"
  shows "map snd es ! i < length subs \<and> sub_located (subs ! (map snd es ! i)) \<and>
    (\<exists>p. placeholder_token p \<and> (p, sub_secret (subs ! (map snd es ! i))) \<in> set rs)"
proof -
  have i: "i < length es" using apply_edits_indices [OF assms(1,2)] by simp
  then have "es ! i \<in> set es" by simp
  with assms(3) obtain ed j x where x: "es ! i = (ed, j)" "(j, x) \<in> set (enumerate 0 subs)" "sub_located x"
    "placeholder_token (edit_repl ed)" "(edit_repl ed, sub_secret x) \<in> set rs" by force
  from x(2) have "j < length subs" "x = subs ! j" by (auto simp: in_set_enumerate_eq)
  with i x show ?thesis by auto
qed


definition sample_subs :: "substitution list" where
  "sample_subs = [\<lparr>sub_leaf = sample_leaf, sub_start = 0, sub_end = 1, sub_category = ''e-mail''\<rparr>,
     \<lparr>sub_leaf = sample_leaf, sub_start = 2, sub_end = 9, sub_category = ''name''\<rparr>]"


end
