(* ===== verification/JsonValid.thy ===== *)
theory JsonValid
  imports JsonTok
begin

text \<open>
  \<open>encoding/json\<close>'s \<open>Valid\<close>: the syntax scanner run over a whole input, without decoding. It uses
  the states of the token machine; \<open>None\<close> stands for the state after the complete top-level value.
  Unlike the token stream it does not convert numbers, and it stops at 10000 open containers.
\<close>

section \<open>Scalars, unconverted\<close>

definition number_syntax :: "bytes \<Rightarrow> bytes option" where
  "number_syntax s =
     (case scan_integer (if prefix ''-'' s then tl s else s) of
        None \<Rightarrow> None
      | Some (_, s1) \<Rightarrow>
          (case scan_fraction s1 of
             None \<Rightarrow> None
           | Some (_, s2) \<Rightarrow> map_option (\<lambda>(_, _, s3). s3) (scan_exponent s2)))"

definition scalar_syntax :: "bytes \<Rightarrow> bytes option" where
  "scalar_syntax s =
     (case s of
        [] \<Rightarrow> None
      | c # t \<Rightarrow>
          if c = CHR 0x22 then map_option snd (scan_string InString t)
          else if prefix ''true'' s then Some (drop 4 s)
          else if prefix ''false'' s then Some (drop 5 s)
          else if prefix ''null'' s then Some (drop 4 s)
          else number_syntax s)"

lemma number_syntax_length: "number_syntax s = Some r \<Longrightarrow> length r < length s"
proof -
  have int: "length s1 < length u" if "scan_integer u = Some (ip, s1)" for u ip s1
    using that by (cases u) (auto simp: scan_integer_def digits_def split: if_splits)
  have frac: "length s2 \<le> length s1" if "scan_fraction s1 = Some (fp, s2)" for s1 fp s2
    using that by (cases s1) (auto simp: scan_fraction_def split: if_splits)
  have ex: "length s3 \<le> length s2" if "scan_exponent s2 = Some (neg, ep, s3)" for s2 neg ep s3
    using that by (cases s2) (auto simp: scan_exponent_def Let_def split: if_splits)
  assume "number_syntax s = Some r"
  then obtain ip s1 fp s2 neg ep where
    "scan_integer (if prefix ''-'' s then tl s else s) = Some (ip, s1)"
    "scan_fraction s1 = Some (fp, s2)" "scan_exponent s2 = Some (neg, ep, r)"
    by (auto simp: number_syntax_def split: option.splits if_splits)
  from int [OF this(1)] frac [OF this(2)] ex [OF this(3)] show ?thesis
    by (auto split: if_splits)
qed

lemma scalar_syntax_length: "scalar_syntax s = Some r \<Longrightarrow> length r < length s"
  using number_syntax_length [of s r]
  by (cases s) (auto simp: scalar_syntax_def dest!: scan_string_SomeD split: if_splits option.splits)

section \<open>Documents\<close>

definition after_value :: "tok_state \<Rightarrow> tok_state option" where
  "after_value q = (if q = TopValue then None else Some (value_end q))"

definition scan_depth :: nat where
  "scan_depth = 10000"

function syntax_from :: "tok_state option \<Rightarrow> tok_state list \<Rightarrow> bytes \<Rightarrow> bool" where
  "syntax_from st stack s =
     (case skip_space s of
        [] \<Rightarrow> st = None
      | c # t \<Rightarrow>
          (case st of
             None \<Rightarrow> False
           | Some q \<Rightarrow>
               if c = CHR ''['' then
                 value_allowed q \<and> length stack < scan_depth \<and> syntax_from (Some ArrayStart) (q # stack) t
               else if c = CHR ''{'' then
                 value_allowed q \<and> length stack < scan_depth \<and> syntax_from (Some ObjectStart) (q # stack) t
               else if c = CHR '']'' then
                 q \<in> {ArrayStart, ArrayComma} \<and> stack \<noteq> [] \<and> syntax_from (after_value (hd stack)) (tl stack) t
               else if c = CHR ''}'' then
                 q \<in> {ObjectStart, ObjectComma} \<and> stack \<noteq> [] \<and> syntax_from (after_value (hd stack)) (tl stack) t
               else if c = CHR '':'' then q = ObjectColon \<and> syntax_from (Some ObjectValue) stack t
               else if c = CHR '','' then
                 (q = ArrayComma \<and> syntax_from (Some ArrayValue) stack t) \<or>
                 (q = ObjectComma \<and> syntax_from (Some ObjectKey) stack t)
               else
                 (case scalar_syntax (c # t) of
                    None \<Rightarrow> False
                  | Some r \<Rightarrow>
                      if c = CHR 0x22 \<and> q \<in> {ObjectStart, ObjectKey} then syntax_from (Some ObjectColon) stack r
                      else value_allowed q \<and> syntax_from (after_value q) stack r)))"
  by pat_completeness auto
termination
proof (relation "measure (\<lambda>(_, _, s). length s)", goal_cases)
  case 1
  show ?case by simp
next
  case (9 st stack s c t q r)
  then show ?case using scalar_syntax_length [of "c # t" r] skip_space_length [of s c t] by simp
next
  case (10 st stack s c t q r)
  then show ?case using scalar_syntax_length [of "c # t" r] skip_space_length [of s c t] by simp
qed (simp_all add: skip_space_length)

declare syntax_from.simps [simp del]

definition json_valid :: "bytes \<Rightarrow> bool" where
  "json_valid s = syntax_from (Some TopValue) [] s"

lemma json_valid_samples:
  "json_valid ''[1, {}, [true]]''" "json_valid '' 12 ''" "json_valid ''1e999''"
  "\<not> json_valid ''[1,]''" "\<not> json_valid ''01''" "\<not> json_valid ''''" "\<not> json_valid ''{1:2}''"
  "\<not> json_valid ''[1}''" "\<not> json_valid ''1 2''"
  by code_simp+

end
