(* ===== verification/SseBackfill.thy ===== *)
theory SseBackfill
  imports Sse Backfill JsonValid
begin

text \<open>
  \<open>pkg/redact/sse_backfill.go\<close> (\<open>SSEBackfiller\<close>), \<open>sse_leaf.go\<close>, \<open>sse_leaf_scan.go\<close> and
  \<open>sse_spelling.go\<close>: the reassembler that restores placeholders split across the data deltas of an
  event stream. The restorer is the function \<open>restore\<close> (a session's \<open>Backfill\<close> on one token), the
  observer a function that may abort. A slice that the source shares is a value here: the only
  in-place append (\<open>content\<close>) is on the writer's own output, never on a slice of \<open>raw\<close>.
\<close>

section \<open>State\<close>

record sse_segment =
  seg_raw :: bytes
  seg_span :: "nat \<times> nat"
  seg_content :: bytes
  seg_has_span :: bool
  seg_leaf :: bool
  seg_extra :: "edit list"

record carry_part =
  cp_seg :: nat
  cp_leaf :: leaf
  cp_start :: nat
  cp_end :: nat

record reassembler =
  ra_decoder :: sse
  ra_held :: bytes
  ra_spelled :: "(bytes \<times> bytes) list"
  ra_json :: bool
  ra_segments :: "sse_segment list"
  ra_tail :: bytes
  ra_closed :: bool
  ra_carry :: bytes
  ra_carry_key :: bytes
  ra_carry_parts :: "carry_part list"
  ra_held_bytes :: nat

definition new_reassembler :: reassembler where
  "new_reassembler =
     \<lparr>ra_decoder = new_sse, ra_held = [], ra_spelled = [], ra_json = False, ra_segments = [], ra_tail = [],
      ra_closed = False, ra_carry = [], ra_carry_key = [], ra_carry_parts = [], ra_held_bytes = 0\<rparr>"

definition seg_bytes :: "sse_segment \<Rightarrow> bytes" where
  "seg_bytes seg =
     (if \<not> seg_has_span seg then seg_raw seg
      else take (fst (seg_span seg)) (seg_raw seg) @ seg_content seg @ drop (snd (seg_span seg)) (seg_raw seg))"

definition segment_value :: "sse_segment \<Rightarrow> bytes" where
  "segment_value seg = slice (seg_raw seg) (fst (seg_span seg)) (snd (seg_span seg))"

section \<open>Scanning leaves\<close>

text \<open>The complete tokens in a value from offset \<open>i\<close>: where each starts and how long it is.\<close>

function token_spans :: "bytes \<Rightarrow> nat \<Rightarrow> (nat \<times> nat) list" where
  "token_spans v i =
     (if length v \<le> i then []
      else case index_of placeholder_prefix (drop i v) of
        None \<Rightarrow> []
      | Some j \<Rightarrow>
          (let n = placeholder_token_len (drop (i + j) v)
           in if n = 0 then token_spans v (i + j + 1) else (i + j, n) # token_spans v (i + j + n)))"
  by pat_completeness auto
termination
  by (relation "measure (\<lambda>(v, i). length v - i)") auto

declare token_spans.simps [simp del]

definition leaf_tokens :: "bytes \<Rightarrow> bytes list" where
  "leaf_tokens v = map (\<lambda>(i, n). slice v i (i + n)) (token_spans v 0)"

definition leaf_edit :: "(bytes \<Rightarrow> bytes) \<Rightarrow> leaf \<Rightarrow> nat \<times> nat \<Rightarrow> edit option" where
  "leaf_edit restore l p =
     (let (i, n) = p; token = slice (leaf_value l) i (i + n); secret = restore token
      in if secret = token then None
         else Some \<lparr>edit_leaf = l, edit_start = int i, edit_end = int (i + n), edit_repl = raw_spelling l secret\<rparr>)"

definition within_leaf_edits :: "leaf list \<Rightarrow> (bytes \<Rightarrow> bytes) \<Rightarrow> edit list" where
  "within_leaf_edits leaves restore =
     concat (map (\<lambda>l. List.map_filter (leaf_edit restore l) (token_spans (leaf_value l) 0)) leaves)"

definition has_identifiable_leaf :: "leaf list \<Rightarrow> bool" where
  "has_identifiable_leaf leaves = list_ex leaf_identifiable leaves"

definition unique_identity_match :: "leaf list \<Rightarrow> bytes \<Rightarrow> leaf option" where
  "unique_identity_match leaves key =
     (case filter (\<lambda>l. leaf_identifiable l \<and> leaf_identity l = key) leaves of [l] \<Rightarrow> Some l | _ \<Rightarrow> None)"

definition smallest_prefix_at :: "bytes \<Rightarrow> nat \<Rightarrow> nat option" where
  "smallest_prefix_at v from =
     List.find (\<lambda>i. placeholder_token_len (drop i v) = 0 \<and> is_placeholder_prefix (drop i v)) [from..<length v]"

text \<open>One leaf seen by the trailing-prefix searches: a later hit replaces an earlier one.\<close>

definition seek_prefix :: "nat \<Rightarrow> (bytes \<times> leaf) option \<Rightarrow> leaf \<Rightarrow> (bytes \<times> leaf) option" where
  "seek_prefix from best l =
     (case smallest_prefix_at (leaf_value l) from of Some i \<Rightarrow> Some (drop i (leaf_value l), l) | None \<Rightarrow> best)"

definition trailing_prefix :: "leaf list \<Rightarrow> (bytes \<times> leaf) option" where
  "trailing_prefix leaves =
     foldl (\<lambda>best l. if leaf_identifiable l then seek_prefix 0 best l else best) None leaves"

fun trailing_prefix_after :: "leaf list \<Rightarrow> leaf \<Rightarrow> nat \<Rightarrow> (bytes \<times> leaf) option" where
  "trailing_prefix_after [] match k = None"
| "trailing_prefix_after (l # ls) match k =
     (if leaf_identifiable l \<and> leaf_identity l = leaf_identity match then
        foldl (\<lambda>best l. if leaf_identifiable l then seek_prefix 0 best l else best) (seek_prefix k None l) ls
      else trailing_prefix_after ls match k)"

fun first_non_space :: "bytes \<Rightarrow> char" where
  "first_non_space [] = CHR 0x00"
| "first_non_space (c # s) = (if is_json_space c then first_non_space s else c)"

definition origin_torn_inner :: "leaf \<Rightarrow> bool" where
  "origin_torn_inner l \<longleftrightarrow>
     \<not> (leaf_encoded l \<or> json_valid (leaf_value l)) \<and> first_non_space (leaf_value l) \<in> {CHR ''{'', CHR ''[''}"

definition keep_placeholder :: "leaf \<Rightarrow> bytes \<Rightarrow> bool" where
  "keep_placeholder origin secret \<longleftrightarrow> origin_torn_inner origin \<and> escape_json_string secret \<noteq> secret"

definition content_with :: "(bytes \<Rightarrow> bytes) \<Rightarrow> bytes \<Rightarrow> leaf list \<Rightarrow> edit list \<Rightarrow> bytes" where
  "content_with restore v leaves extra =
     (let edits = within_leaf_edits leaves restore @ extra
      in if edits = [] then v else fst (apply_edits v edits))"

section \<open>The queue of segments\<close>

definition held_total :: "reassembler \<Rightarrow> nat" where
  "held_total s = length (ra_held s) + length (ra_carry s) + ra_held_bytes s"

definition fits_budget :: "nat \<Rightarrow> reassembler \<Rightarrow> bool" where
  "fits_budget add s \<longleftrightarrow> held_total s + add \<le> sse_backfill_holdback_bytes"

definition render_held :: "(bytes \<Rightarrow> bytes) \<Rightarrow> nat \<Rightarrow> reassembler \<Rightarrow> reassembler" where
  "render_held restore i s =
     (let seg = ra_segments s ! i; v = segment_value seg
      in case walk v of
           Inl _ \<Rightarrow> s
         | Inr leaves \<Rightarrow>
             s\<lparr>ra_segments := (ra_segments s)[i := seg\<lparr>seg_content := content_with restore v leaves (seg_extra seg)\<rparr>]\<rparr>)"

definition edit_held :: "(bytes \<Rightarrow> bytes) \<Rightarrow> bytes \<Rightarrow> carry_part \<Rightarrow> reassembler \<Rightarrow> reassembler" where
  "edit_held restore repl part s =
     (let i = cp_seg part; seg = ra_segments s ! i;
          e = \<lparr>edit_leaf = cp_leaf part, edit_start = int (cp_start part), edit_end = int (cp_end part), edit_repl = repl\<rparr>
      in render_held restore i (s\<lparr>ra_segments := (ra_segments s)[i := seg\<lparr>seg_extra := seg_extra seg @ [e]\<rparr>]\<rparr>))"

definition emit_segment :: "sse_segment \<Rightarrow> bytes \<Rightarrow> edit list \<Rightarrow> reassembler \<Rightarrow> reassembler" where
  "emit_segment seg content extra s =
     s\<lparr>ra_segments := ra_segments s @ [seg\<lparr>seg_leaf := True, seg_content := content, seg_extra := extra\<rparr>]\<rparr>"

definition hold_segment :: "sse_segment \<Rightarrow> bytes \<Rightarrow> edit list \<Rightarrow> reassembler \<Rightarrow> nat \<times> reassembler" where
  "hold_segment seg content extra s =
     (length (ra_segments s),
      (emit_segment seg content extra s)\<lparr>ra_held_bytes := ra_held_bytes s + length (seg_raw seg) + length content\<rparr>)"

definition clear_carry :: "reassembler \<Rightarrow> reassembler" where
  "clear_carry s = s\<lparr>ra_carry := [], ra_carry_key := [], ra_carry_parts := [], ra_held_bytes := 0\<rparr>"

definition release_segments :: "nat \<Rightarrow> reassembler \<Rightarrow> bytes \<times> reassembler" where
  "release_segments n s =
     (concat (map seg_bytes (take n (ra_segments s))), s\<lparr>ra_segments := drop n (ra_segments s)\<rparr>)"

definition flush_held :: "reassembler \<Rightarrow> bytes \<times> reassembler" where
  "flush_held s = (let (out, s') = release_segments (length (ra_segments s)) s in (out, clear_carry s'))"

definition raw_data :: "sse_segment \<Rightarrow> bool" where
  "raw_data seg \<longleftrightarrow> \<not> seg_leaf seg \<and> seg_has_span seg"

definition append_content :: "nat \<Rightarrow> bytes \<Rightarrow> sse_segment list \<Rightarrow> sse_segment list" where
  "append_content i b segs = segs[i := (segs ! i)\<lparr>seg_content := seg_content (segs ! i) @ b\<rparr>]"

definition handoff_writer :: "reassembler \<Rightarrow> reassembler" where
  "handoff_writer s =
     (if ra_held s = [] then s
      else case List.find (\<lambda>i. raw_data (ra_segments s ! i)) (rev [0..<length (ra_segments s)]) of
        None \<Rightarrow> s
      | Some i \<Rightarrow> s\<lparr>ra_segments := append_content i (ra_held s) (ra_segments s), ra_held := []\<rparr>)"

definition carry_referenced :: "reassembler \<Rightarrow> nat \<Rightarrow> bool" where
  "carry_referenced s n = list_ex (\<lambda>p. cp_seg p = n) (ra_carry_parts s)"

definition has_later_raw :: "reassembler \<Rightarrow> nat \<Rightarrow> bool" where
  "has_later_raw s n = list_ex (\<lambda>j. raw_data (ra_segments s ! j)) [Suc n..<length (ra_segments s)]"

definition blocked :: "reassembler \<Rightarrow> nat \<Rightarrow> bool" where
  "blocked s n \<longleftrightarrow>
     (seg_leaf (ra_segments s ! n) \<and> carry_referenced s n) \<or> (raw_data (ra_segments s ! n) \<and> \<not> has_later_raw s n)"

function drain_from :: "reassembler \<Rightarrow> nat \<Rightarrow> nat" where
  "drain_from s n = (if n < length (ra_segments s) \<and> \<not> blocked s n then drain_from s (Suc n) else n)"
  by pat_completeness auto
termination
  by (relation "measure (\<lambda>(s, n). length (ra_segments s) - n)") auto

declare drain_from.simps [simp del]

definition drain :: "reassembler \<Rightarrow> bytes \<times> reassembler" where
  "drain s = release_segments (drain_from s 0) s"

definition pending_index :: "reassembler \<Rightarrow> nat option" where
  "pending_index s = List.find (\<lambda>i. seg_has_span (ra_segments s ! i)) [0..<length (ra_segments s)]"

section \<open>Events\<close>

text \<open>Hold a segment as the first contributor of a new carry, or emit it when there is none to start.\<close>

definition start_carry :: "sse_segment \<Rightarrow> bytes \<Rightarrow> edit list \<Rightarrow> bytes \<times> leaf \<Rightarrow> reassembler \<Rightarrow> reassembler" where
  "start_carry seg content extra pl s =
     (let (p, l) = pl; (cur, s') = hold_segment seg content extra s
      in s'\<lparr>ra_carry := p, ra_carry_key := leaf_identity l,
           ra_carry_parts := [\<lparr>cp_seg = cur, cp_leaf = l, cp_start = length (leaf_value l) - length p,
             cp_end = length (leaf_value l)\<rparr>]\<rparr>)"

definition can_start :: "sse_segment \<Rightarrow> bytes \<Rightarrow> (bytes \<times> leaf) option \<Rightarrow> reassembler \<Rightarrow> bool" where
  "can_start seg content tp s \<longleftrightarrow>
     (case tp of None \<Rightarrow> False
      | Some (p, _) \<Rightarrow> fits_budget (length (seg_raw seg) + length content + length p) s)"

definition start_or_emit ::
  "sse_segment \<Rightarrow> bytes \<Rightarrow> edit list \<Rightarrow> (bytes \<times> leaf) option \<Rightarrow> reassembler \<Rightarrow> reassembler" where
  "start_or_emit seg content extra tp s =
     (if can_start seg content tp s then start_carry seg content extra (the tp) s
      else emit_segment seg content [] s)"

text \<open>Output first, then what \<open>drain\<close> releases.\<close>

definition then_drain :: "bytes \<Rightarrow> reassembler \<Rightarrow> bytes option \<times> reassembler" where
  "then_drain out s = (let (more_out, s') = drain s in (Some (out @ more_out), s'))"

definition complete_token ::
  "(bytes \<Rightarrow> bytes) \<Rightarrow> sse_segment \<Rightarrow> leaf list \<Rightarrow> leaf \<Rightarrow> bytes \<Rightarrow> reassembler \<Rightarrow> bytes option \<times> reassembler" where
  "complete_token restore seg leaves match token s =
     (let value = segment_value seg; secret = restore token; origin = cp_leaf (hd (ra_carry_parts s))
      in if secret = token \<or> keep_placeholder origin secret then
           (let (out, s1) = flush_held s
            in then_drain out (emit_segment seg (content_with restore value leaves []) [] s1))
         else
           (let k = length token - length (ra_carry s);
                (out, s1) = flush_held (fold (edit_held restore []) (ra_carry_parts s) s);
                extra = [\<lparr>edit_leaf = match, edit_start = 0, edit_end = int k, edit_repl = raw_spelling match secret\<rparr>];
                content = content_with restore value leaves extra
            in then_drain out (start_or_emit seg content extra (trailing_prefix_after leaves match k) s1)))"

definition continue_carry ::
  "(bytes \<Rightarrow> bytes) \<Rightarrow> sse_segment \<Rightarrow> leaf list \<Rightarrow> leaf \<Rightarrow> bytes \<Rightarrow> reassembler \<Rightarrow> bytes option \<times> reassembler" where
  "continue_carry restore seg leaves match combined s =
     (let content = content_with restore (segment_value seg) leaves []
      in if placeholder_prefix_len combined \<noteq> length combined \<or> max_placeholder_len < length combined \<or>
            \<not> fits_budget (length (seg_raw seg) + length content + length (leaf_value match)) s then
           (let (out, s1) = flush_held s in then_drain out (emit_segment seg content [] s1))
         else
           (let (cur, s1) = hold_segment seg content [] s
            in then_drain [] (s1\<lparr>ra_carry := combined, ra_carry_parts := ra_carry_parts s @
                 [\<lparr>cp_seg = cur, cp_leaf = match, cp_start = 0, cp_end = length (leaf_value match)\<rparr>]\<rparr>)))"

text \<open>The state machine on one JSON envelope, once its leaves are known to be usable.\<close>

definition accept_leaves ::
  "(bytes \<Rightarrow> bytes) \<Rightarrow> sse_segment \<Rightarrow> leaf list \<Rightarrow> reassembler \<Rightarrow> bytes option \<times> reassembler" where
  "accept_leaves restore seg leaves s =
     (let content = content_with restore (segment_value seg) leaves []
      in if ra_carry s = [] then
           (if can_start seg content (trailing_prefix leaves) s then
              (let (out, s1) = release_segments (length (ra_segments s)) s
               in then_drain out (start_carry seg content [] (the (trailing_prefix leaves)) s1))
            else then_drain [] (emit_segment seg content [] s))
         else case unique_identity_match leaves (ra_carry_key s) of
           None \<Rightarrow>
             (let (out, s1) = flush_held s
              in then_drain out (start_or_emit seg content [] (trailing_prefix leaves) s1))
         | Some match \<Rightarrow>
             (let combined = ra_carry s @ leaf_value match; t = placeholder_token_len combined
              in if length (ra_carry s) < t then complete_token restore seg leaves match (take t combined) s
                 else continue_carry restore seg leaves match combined s))"

text \<open>\<open>acceptLeaf\<close>: \<open>None\<close> when the event is not a usable envelope.\<close>

definition accept_leaf :: "(bytes \<Rightarrow> bytes) \<Rightarrow> sse_segment \<Rightarrow> reassembler \<Rightarrow> bytes option \<times> reassembler" where
  "accept_leaf restore seg s =
     (if \<not> json_valid (segment_value seg) then (None, s)
      else
        let s1 = handoff_writer s
        in case walk (segment_value seg) of
             Inl _ \<Rightarrow> (None, s1)
           | Inr leaves \<Rightarrow>
               if \<not> has_identifiable_leaf leaves then (None, s1) else accept_leaves restore seg leaves s1)"

definition leaf_spellings :: "(bytes \<Rightarrow> bytes) \<Rightarrow> leaf \<Rightarrow> (bytes \<times> bytes) list" where
  "leaf_spellings restore l = map (\<lambda>tok. (tok, raw_spelling l (restore tok))) (leaf_tokens (leaf_value l))"

text \<open>\<open>spellFeed\<close>: a later leaf's spelling of the same token overrides an earlier one.\<close>

definition spell_feed :: "(bytes \<Rightarrow> bytes) \<Rightarrow> bytes \<Rightarrow> reassembler \<Rightarrow> reassembler" where
  "spell_feed restore value s =
     (if \<not> contains value placeholder_prefix then s\<lparr>ra_spelled := [], ra_json := False\<rparr>
      else s\<lparr>ra_spelled := (case walk value of Inl _ \<Rightarrow> [] | Inr leaves \<Rightarrow>
                 rev (concat (map (leaf_spellings restore) leaves))),
             ra_json := json_valid value\<rparr>)"

definition replace_token :: "(bytes \<Rightarrow> bytes) \<Rightarrow> reassembler \<Rightarrow> bytes \<Rightarrow> bytes" where
  "replace_token restore s token =
     (case map_of (ra_spelled s) token of
        Some sp \<Rightarrow> sp
      | None \<Rightarrow> if ra_json s then escape_json_string (restore token) else restore token)"

definition event_segment :: "event \<Rightarrow> sse_segment" where
  "event_segment ev =
     (let b = \<lparr>seg_raw = ev_raw ev, seg_span = (0, 0), seg_content = [], seg_has_span = False, seg_leaf = False, seg_extra = []\<rparr>
      in case ev_spans ev of [p] \<Rightarrow> b\<lparr>seg_has_span := True, seg_span := p\<rparr> | _ \<Rightarrow> b)"

definition accept_raw :: "(bytes \<Rightarrow> bytes) \<Rightarrow> sse_segment \<Rightarrow> reassembler \<Rightarrow> bytes \<times> reassembler" where
  "accept_raw restore seg s =
     (let (out, s1) = flush_held s; value = segment_value seg; s2 = spell_feed restore value s1;
          (content, held) = feed_hold placeholder_matcher (Some (\<lambda>tok. Some (replace_token restore s2 tok))) value (ra_held s2);
          s3 = s2\<lparr>ra_held := held, ra_segments := ra_segments s2 @ [seg\<lparr>seg_content := content\<rparr>]\<rparr>;
          (out', s4) = release_segments (length (ra_segments s3) - 1) s3
      in (out @ out', s4))"

definition accept :: "(bytes \<Rightarrow> bytes) \<Rightarrow> event \<Rightarrow> reassembler \<Rightarrow> bytes \<times> reassembler" where
  "accept restore ev s =
     (let seg = event_segment ev
      in if seg_has_span seg then
           (case accept_leaf restore seg s of
              (Some out, s1) \<Rightarrow> (out, s1)
            | (None, s1) \<Rightarrow> accept_raw restore seg s1)
         else
           (let s1 = s\<lparr>ra_segments := ra_segments s @ [seg]\<rparr>
            in if pending_index s1 \<noteq> None then ([], s1) else release_segments (length (ra_segments s1)) s1))"

section \<open>Write and Flush\<close>

type_synonym observer = "(event \<Rightarrow> bytes option) option"

definition observed :: "observer \<Rightarrow> event \<Rightarrow> bytes option" where
  "observed obs ev = (case obs of None \<Rightarrow> None | Some f \<Rightarrow> f ev)"

definition drop_tail :: "nat \<Rightarrow> reassembler \<Rightarrow> reassembler" where
  "drop_tail n s = s\<lparr>ra_tail := drop n (ra_tail s)\<rparr>"

definition abort_stream :: "reassembler \<Rightarrow> reassembler" where
  "abort_stream s = (clear_carry s)\<lparr>ra_segments := [], ra_tail := [], ra_closed := True\<rparr>"

fun consume :: "(bytes \<Rightarrow> bytes) \<Rightarrow> observer \<Rightarrow> event list \<Rightarrow> bytes \<Rightarrow> reassembler \<Rightarrow> bytes \<times> reassembler" where
  "consume restore obs [] out s = (out, s)"
| "consume restore obs (ev # evs) out s =
     (let s1 = drop_tail (length (ev_raw ev)) s
      in case observed obs ev of
           Some aborted \<Rightarrow> (aborted, abort_stream s1)
         | None \<Rightarrow> (let (o1, s2) = accept restore ev s1 in consume restore obs evs (out @ o1) s2))"

definition write_chunk :: "(bytes \<Rightarrow> bytes) \<Rightarrow> observer \<Rightarrow> bytes \<Rightarrow> reassembler \<Rightarrow> bytes \<times> reassembler" where
  "write_chunk restore obs chunk s =
     (if ra_closed s then ([], s)
      else
        let (r, d) = feed chunk (ra_decoder s);
            s1 = s\<lparr>ra_tail := ra_tail s @ chunk, ra_decoder := d\<rparr>
        in consume restore obs (case r of Inr evs \<Rightarrow> evs | Inl _ \<Rightarrow> []) [] s1)"

definition flush_stream :: "(bytes \<Rightarrow> bytes) \<Rightarrow> observer \<Rightarrow> reassembler \<Rightarrow> bytes \<times> reassembler" where
  "flush_stream restore obs s =
     (if ra_closed s then ([], s)
      else
        let (evs, d) = close_decoder (ra_decoder s);
            (out, s1) = consume restore obs evs [] (s\<lparr>ra_closed := True, ra_decoder := d\<rparr>);
            s2 = (case pending_index s1 of
                    None \<Rightarrow> s1
                  | Some i \<Rightarrow> s1\<lparr>ra_segments := append_content i (ra_held s1) (ra_segments s1), ra_held := []\<rparr>);
            (out2, s3) = release_segments (length (ra_segments s2)) s2
        in (out @ out2 @ ra_tail s3, clear_carry (s3\<lparr>ra_tail := []\<rparr>)))"

fun write_all :: "(bytes \<Rightarrow> bytes) \<Rightarrow> observer \<Rightarrow> bytes list \<Rightarrow> reassembler \<Rightarrow> bytes \<times> reassembler" where
  "write_all restore obs [] s = ([], s)"
| "write_all restore obs (c # cs) s =
     (let (o1, s1) = write_chunk restore obs c s; (o2, s2) = write_all restore obs cs s1 in (o1 @ o2, s2))"

text \<open>A whole response: every chunk, then \<open>Flush\<close>.\<close>

definition reassemble :: "(bytes \<Rightarrow> bytes) \<Rightarrow> observer \<Rightarrow> bytes list \<Rightarrow> bytes" where
  "reassemble restore obs cs =
     (let (o1, s1) = write_all restore obs cs new_reassembler; (o2, _) = flush_stream restore obs s1 in o1 @ o2)"

end
