(* ===== verification/SseFlow.thy ===== *)
theory SseFlow
  imports SseBackfill
begin

text \<open>
  What the stream reassembler keeps: the framing of every event and their order, its memory bound,
  independence of the chunking, and with a restorer that knows no token every value byte.
\<close>

section \<open>Decoder, tail and closed flag are not read by \<open>accept\<close>\<close>

definition reframe :: "sse \<Rightarrow> bytes \<Rightarrow> bool \<Rightarrow> reassembler \<Rightarrow> reassembler" where
  "reframe d t c s = s\<lparr>ra_decoder := d, ra_tail := t, ra_closed := c\<rparr>"

lemma reframe_sel [simp]:
  "ra_held (reframe d t c s) = ra_held s" "ra_spelled (reframe d t c s) = ra_spelled s"
  "ra_json (reframe d t c s) = ra_json s" "ra_segments (reframe d t c s) = ra_segments s"
  "ra_carry (reframe d t c s) = ra_carry s" "ra_carry_key (reframe d t c s) = ra_carry_key s"
  "ra_carry_parts (reframe d t c s) = ra_carry_parts s" "ra_held_bytes (reframe d t c s) = ra_held_bytes s"
  "ra_decoder (reframe d t c s) = d" "ra_tail (reframe d t c s) = t" "ra_closed (reframe d t c s) = c"
  by (simp_all add: reframe_def)

lemma reframe_upd [simp]:
  "(reframe d t c s)\<lparr>ra_segments := x\<rparr> = reframe d t c (s\<lparr>ra_segments := x\<rparr>)"
  "(reframe d t c s)\<lparr>ra_held := h\<rparr> = reframe d t c (s\<lparr>ra_held := h\<rparr>)"
  "(reframe d t c s)\<lparr>ra_carry := y\<rparr> = reframe d t c (s\<lparr>ra_carry := y\<rparr>)"
  "(reframe d t c s)\<lparr>ra_carry_key := k\<rparr> = reframe d t c (s\<lparr>ra_carry_key := k\<rparr>)"
  "(reframe d t c s)\<lparr>ra_carry_parts := ps\<rparr> = reframe d t c (s\<lparr>ra_carry_parts := ps\<rparr>)"
  "(reframe d t c s)\<lparr>ra_held_bytes := n\<rparr> = reframe d t c (s\<lparr>ra_held_bytes := n\<rparr>)"
  "(reframe d t c s)\<lparr>ra_spelled := sp\<rparr> = reframe d t c (s\<lparr>ra_spelled := sp\<rparr>)"
  "(reframe d t c s)\<lparr>ra_json := j\<rparr> = reframe d t c (s\<lparr>ra_json := j\<rparr>)"
  by (cases s, simp add: reframe_def)+

lemma reframe_reframe [simp]: "reframe d t c (reframe d' t' c' s) = reframe d t c s"
  by (cases s) (simp add: reframe_def)

lemma reframe_self [simp]: "reframe (ra_decoder s) (ra_tail s) (ra_closed s) s = s"
  by (cases s) (simp add: reframe_def)

lemma reframe_ops [simp]:
  "held_total (reframe d t c s) = held_total s"
  "fits_budget n (reframe d t c s) = fits_budget n s"
  "can_start seg content tp (reframe d t c s) = can_start seg content tp s"
  "emit_segment seg content extra (reframe d t c s) = reframe d t c (emit_segment seg content extra s)"
  "hold_segment seg content extra (reframe d t c s) = apsnd (reframe d t c) (hold_segment seg content extra s)"
  "clear_carry (reframe d t c s) = reframe d t c (clear_carry s)"
  "release_segments n (reframe d t c s) = apsnd (reframe d t c) (release_segments n s)"
  "carry_referenced (reframe d t c s) = carry_referenced s"
  "has_later_raw (reframe d t c s) = has_later_raw s"
  "pending_index (reframe d t c s) = pending_index s"
  by (simp_all add: held_total_def fits_budget_def can_start_def emit_segment_def hold_segment_def clear_carry_def
      release_segments_def carry_referenced_def [abs_def] has_later_raw_def [abs_def] pending_index_def
      cong: option.case_cong)

lemma blocked_reframe [simp]: "blocked (reframe d t c s) = blocked s"
  by (simp add: blocked_def [abs_def])

lemma drain_from_reframe [simp]: "drain_from (reframe d t c s) n = drain_from s n"
proof (induction s n rule: drain_from.induct)
  case (1 s n)
  then show ?case by (subst (1 2) drain_from.simps) simp
qed

lemma flush_held_reframe [simp]: "flush_held (reframe d t c s) = apsnd (reframe d t c) (flush_held s)"
  by (simp add: flush_held_def split: prod.split)

lemma drain_reframe [simp]: "drain (reframe d t c s) = apsnd (reframe d t c) (drain s)"
  by (simp add: drain_def)

lemma then_drain_reframe [simp]: "then_drain out (reframe d t c s) = apsnd (reframe d t c) (then_drain out s)"
  by (simp add: then_drain_def split: prod.split)

lemma render_held_reframe [simp]: "render_held restore i (reframe d t c s) = reframe d t c (render_held restore i s)"
  by (simp add: render_held_def Let_def split: sum.split)

lemma edit_held_reframe [simp]: "edit_held restore r p (reframe d t c s) = reframe d t c (edit_held restore r p s)"
  by (simp add: edit_held_def Let_def)

lemma fold_edit_reframe [simp]:
  "fold (edit_held restore r) ps (reframe d t c s) = reframe d t c (fold (edit_held restore r) ps s)"
  by (induction ps arbitrary: s) simp_all

lemma start_carry_reframe [simp]:
  "start_carry seg content extra pl (reframe d t c s) = reframe d t c (start_carry seg content extra pl s)"
  by (simp add: start_carry_def hold_segment_def Let_def split: prod.split)

lemma start_or_emit_reframe [simp]:
  "start_or_emit seg content extra tp (reframe d t c s) = reframe d t c (start_or_emit seg content extra tp s)"
  by (simp add: start_or_emit_def)

lemma handoff_reframe [simp]: "handoff_writer (reframe d t c s) = reframe d t c (handoff_writer s)"
  by (simp add: handoff_writer_def split: option.split)

lemma complete_token_reframe [simp]:
  "complete_token restore seg leaves match tok (reframe d t c s) =
     apsnd (reframe d t c) (complete_token restore seg leaves match tok s)"
  by (simp add: complete_token_def Let_def split: prod.split)

lemma continue_carry_reframe [simp]:
  "continue_carry restore seg leaves match tok (reframe d t c s) =
     apsnd (reframe d t c) (continue_carry restore seg leaves match tok s)"
  by (simp add: continue_carry_def Let_def split: prod.split)

lemma accept_leaves_reframe [simp]:
  "accept_leaves restore seg leaves (reframe d t c s) = apsnd (reframe d t c) (accept_leaves restore seg leaves s)"
  by (simp add: accept_leaves_def Let_def split: prod.split option.split)

lemma accept_leaf_reframe [simp]:
  "accept_leaf restore seg (reframe d t c s) = apsnd (reframe d t c) (accept_leaf restore seg s)"
  by (simp add: accept_leaf_def Let_def split: sum.split)

lemma replace_token_reframe [simp]: "replace_token restore (reframe d t c s) = replace_token restore s"
  by (rule ext) (simp add: replace_token_def split: option.split)

lemma spell_feed_reframe [simp]: "spell_feed restore v (reframe d t c s) = reframe d t c (spell_feed restore v s)"
  by (simp add: spell_feed_def)

lemma accept_raw_reframe [simp]: "accept_raw restore seg (reframe d t c s) = apsnd (reframe d t c) (accept_raw restore seg s)"
  by (simp add: accept_raw_def Let_def release_segments_def split: prod.split)

lemma accept_reframe [simp]: "accept restore ev (reframe d t c s) = apsnd (reframe d t c) (accept restore ev s)"
  by (simp add: accept_def Let_def split: prod.split option.split)

section \<open>Runs\<close>

text \<open>All events of a stream without an observer, from the queue's point of view.\<close>

fun accept_all :: "(bytes \<Rightarrow> bytes) \<Rightarrow> event list \<Rightarrow> reassembler \<Rightarrow> bytes \<times> reassembler" where
  "accept_all restore [] s = ([], s)"
| "accept_all restore (ev # evs) s =
     (let (o1, s1) = accept restore ev s; (o2, s2) = accept_all restore evs s1 in (o1 @ o2, s2))"

lemma accept_all_reframe [simp]:
  "accept_all restore evs (reframe d t c s) = apsnd (reframe d t c) (accept_all restore evs s)"
  by (induction evs arbitrary: s) (simp_all split: prod.split)

lemma accept_all_append:
  "accept_all restore (xs @ ys) s =
     (let (o1, s1) = accept_all restore xs s; (o2, s2) = accept_all restore ys s1 in (o1 @ o2, s2))"
  by (induction xs arbitrary: s) (simp_all split: prod.split)

lemma drop_tail_reframe: "drop_tail n s = reframe (ra_decoder s) (drop n (ra_tail s)) (ra_closed s) s"
  by (cases s) (simp add: drop_tail_def reframe_def)

lemma consume_accept_all:
  "consume restore None evs out s =
     (let (o1, s1) = accept_all restore evs s
      in (out @ o1, reframe (ra_decoder s) (drop (length (concat (map ev_raw evs))) (ra_tail s)) (ra_closed s) s1))"
proof (induction evs arbitrary: out s)
  case Nil
  have "reframe (ra_decoder s) (ra_tail s) (ra_closed s) s = s" by simp
  then show ?case by simp
next
  case (Cons ev evs)
  have fr: "ra_decoder s1 = ra_decoder s \<and> ra_tail s1 = ra_tail s \<and> ra_closed s1 = ra_closed s"
    if "accept restore ev s = (o1, s1)" for o1 s1
  proof -
    have "accept restore ev (reframe (ra_decoder s) (ra_tail s) (ra_closed s) s) =
        apsnd (reframe (ra_decoder s) (ra_tail s) (ra_closed s)) (o1, s1)"
      unfolding accept_reframe that ..
    then have "s1 = reframe (ra_decoder s) (ra_tail s) (ra_closed s) s1" using that by simp
    then show ?thesis by (metis reframe_sel(9-11))
  qed
  obtain o1 s1 where a: "accept restore ev s = (o1, s1)" by fastforce
  show ?case
    by (simp add: observed_def drop_tail_reframe Cons.IH a fr [OF a] add.commute split: prod.split)
qed

text \<open>A stream fed in chunks: the events the decoder dispatches, one \<open>accept\<close> each.\<close>

lemma write_all_accept_all:
  assumes "\<not> ra_closed s" "sse_ok (ra_decoder s)" "\<not> sse_closed (ra_decoder s)" "ra_tail s = sse_buf (ra_decoder s)"
    and "feed_all cs (ra_decoder s) = (evs, d)"
  shows "\<exists>o1 s1. accept_all restore evs s = (o1, s1) \<and>
    write_all restore None cs s = (o1, reframe d (sse_buf d) False s1) \<and> sse_ok d \<and> \<not> sse_closed d"
  using assms
proof (induction cs arbitrary: s evs)
  case Nil
  then show ?case
    by (cases s) (simp add: reframe_def)
next
  case (Cons c cs)
  obtain es1 d1 where r: "scan_lines False (Sse.more c (ra_decoder s)) = (es1, d1)" by fastforce
  note f = feed_open [OF Cons.prems(3) r]
  from scan_lines_ok [OF r sse_ok_more [OF Cons.prems(2)]] Cons.prems(3) have
    d1: "sse_ok d1" "\<not> sse_closed d1" "concat (map ev_raw es1) @ sse_buf d1 = sse_buf (ra_decoder s) @ c" by auto
  obtain es2 where e2: "feed_all cs d1 = (es2, d)" "evs = es1 @ es2"
    using Cons.prems(5) f by (auto split: prod.splits)
  obtain o1 s1 where a: "accept_all restore es1 s = (o1, s1)" by fastforce
  define t where "t = drop (length (concat (map ev_raw es1))) (ra_tail s @ c)"
  have t: "t = sse_buf d1"
    unfolding t_def Cons.prems(4) d1(3) [symmetric] by simp
  have fr: "s\<lparr>ra_tail := ra_tail s @ c, ra_decoder := d1\<rparr> = reframe d1 (ra_tail s @ c) False s"
    using Cons.prems(1) by (cases s) (simp add: reframe_def)
  have "write_chunk restore None c s = consume restore None es1 [] (s\<lparr>ra_tail := ra_tail s @ c, ra_decoder := d1\<rparr>)"
    using Cons.prems(1) f by (simp add: write_chunk_def)
  also have "\<dots> = (o1, reframe d1 (sse_buf d1) False s1)"
    unfolding fr consume_accept_all using a t by (simp add: t_def)
  finally have w: "write_chunk restore None c s = (o1, reframe d1 (sse_buf d1) False s1)" .
  from Cons.IH [of "reframe d1 (sse_buf d1) False s1" es2] e2(1) d1(1,2) obtain o2 s2 where
    "accept_all restore es2 (reframe d1 (sse_buf d1) False s1) = (o2, s2)"
    "write_all restore None cs (reframe d1 (sse_buf d1) False s1) = (o2, reframe d (sse_buf d) False s2)"
    "sse_ok d" "\<not> sse_closed d" by auto
  then show ?case using a w e2(2) by (auto simp: accept_all_append split: prod.splits)
qed

section \<open>Framing and payload\<close>

text \<open>What of a segment never changes, and the value bytes it carries to the client.\<close>

definition frame_of :: "sse_segment \<Rightarrow> bytes \<times> bool \<times> nat \<times> nat" where
  "frame_of g = (seg_raw g, seg_has_span g, seg_span g)"

definition seg_payload :: "sse_segment \<Rightarrow> bytes" where
  "seg_payload g = (if seg_has_span g then seg_content g else [])"

definition payload :: "reassembler \<Rightarrow> bytes" where
  "payload s = concat (map seg_payload (ra_segments s)) @ ra_held s"

text \<open>
  \<open>yields keep F V out s\<close>: the output is made of segments which, with those still queued, have the
  frames \<open>F\<close>; and, if \<open>keep\<close>, carry with the writer's tail the value bytes \<open>V\<close>.
\<close>

definition yields :: "bool \<Rightarrow> (bytes \<times> bool \<times> nat \<times> nat) list \<Rightarrow> bytes \<Rightarrow> bytes \<Rightarrow> reassembler \<Rightarrow> bool" where
  "yields keep F V out s \<longleftrightarrow>
     (\<exists>R. out = concat (map seg_bytes R) \<and> map frame_of (R @ ra_segments s) = F \<and>
        (keep \<longrightarrow> concat (map seg_payload R) @ payload s = V))"

lemma yields_refl: "yields keep (map frame_of (ra_segments s)) (payload s) [] s"
  by (auto simp: yields_def intro!: exI [of _ "[]"])

lemma yields_release:
  assumes "yields keep F V out s" "release_segments n s = (o1, s1)"
  shows "yields keep F V (out @ o1) s1"
proof -
  obtain R where R: "out = concat (map seg_bytes R)" "map frame_of (R @ ra_segments s) = F"
    "keep \<longrightarrow> concat (map seg_payload R) @ payload s = V" using assms(1) by (auto simp: yields_def)
  have s1: "ra_segments s1 = drop n (ra_segments s)" "ra_held s1 = ra_held s" "o1 = concat (map seg_bytes (take n (ra_segments s)))"
    using assms(2) by (auto simp: release_segments_def)
  have split: "concat (map f (take n xs)) @ concat (map f (drop n xs)) = concat (map f xs)" for f :: "sse_segment \<Rightarrow> bytes" and xs
    by (metis append_take_drop_id concat_append map_append)
  show ?thesis
    unfolding yields_def
  proof (intro exI [of _ "R @ take n (ra_segments s)"] conjI impI)
    show "map frame_of ((R @ take n (ra_segments s)) @ ra_segments s1) = F" using R(2) s1(1)
      by (simp add: take_map drop_map)
    assume keep
    have "concat (map seg_payload (R @ take n (ra_segments s))) @ payload s1 =
        concat (map seg_payload R) @ payload s"
      using split [of seg_payload "ra_segments s"] s1(1,2) by (simp add: payload_def)
    with R(3) \<open>keep\<close> show "concat (map seg_payload (R @ take n (ra_segments s))) @ payload s1 = V" by simp
  qed (simp add: R(1) s1(3))
qed

lemma yields_cong:
  "yields keep F V out s \<Longrightarrow> map frame_of (ra_segments s1) = map frame_of (ra_segments s) \<Longrightarrow>
     (keep \<Longrightarrow> payload s1 = payload s) \<Longrightarrow> yields keep F V out s1"
  by (auto simp: yields_def)

lemma yields_same: "yields keep F V out s \<Longrightarrow> ra_segments s1 = ra_segments s \<Longrightarrow> ra_held s1 = ra_held s \<Longrightarrow> yields keep F V out s1"
  by (erule yields_cong) (simp_all add: payload_def)

lemma clear_carry_sel [simp]:
  "ra_segments (clear_carry s) = ra_segments s" "ra_held (clear_carry s) = ra_held s" "ra_carry (clear_carry s) = []"
  "ra_carry_parts (clear_carry s) = []" "ra_held_bytes (clear_carry s) = 0"
  by (simp_all add: clear_carry_def)

lemma yields_flush_held:
  assumes "yields keep F V out s" "flush_held s = (o1, s1)"
  shows "yields keep F V (out @ o1) s1"
proof -
  obtain s2 where r: "release_segments (length (ra_segments s)) s = (o1, s2)" "s1 = clear_carry s2"
    using assms(2) by (auto simp: flush_held_def split: prod.splits)
  from yields_release [OF assms(1) r(1)] show ?thesis
    by (rule yields_same) (simp_all add: r(2))
qed

lemma yields_then_drain:
  "yields keep F V out s \<Longrightarrow> then_drain out s = (r, s1) \<Longrightarrow> \<exists>o1. r = Some o1 \<and> yields keep F V o1 s1"
  using yields_release [of keep F V out s] by (auto simp: then_drain_def drain_def split: prod.splits)

text \<open>A leaf segment joins the queue; the writer holds nothing then.\<close>

lemma emit_segment_sel [simp]:
  "ra_segments (emit_segment seg content extra s) =
     ra_segments s @ [seg\<lparr>seg_leaf := True, seg_content := content, seg_extra := extra\<rparr>]"
  "ra_held (emit_segment seg content extra s) = ra_held s" "ra_carry (emit_segment seg content extra s) = ra_carry s"
  "ra_carry_parts (emit_segment seg content extra s) = ra_carry_parts s"
  "ra_held_bytes (emit_segment seg content extra s) = ra_held_bytes s"
  by (simp_all add: emit_segment_def)

lemma yields_emit:
  assumes "yields keep F V out s" "ra_held s = []" "seg_has_span seg" "keep \<longrightarrow> content = segment_value seg"
  shows "yields keep (F @ [frame_of seg]) (V @ segment_value seg) out (emit_segment seg content extra s)"
proof -
  obtain R where R: "out = concat (map seg_bytes R)" "map frame_of (R @ ra_segments s) = F"
    "keep \<longrightarrow> concat (map seg_payload R) @ payload s = V" using assms(1) by (auto simp: yields_def)
  show ?thesis
    unfolding yields_def
    by (intro exI [of _ R] conjI) (use R assms(2-4) in \<open>auto simp: frame_of_def payload_def seg_payload_def\<close>)
qed

lemma start_carry_sel:
  "start_carry seg content extra (p, l) s = s1 \<Longrightarrow>
     ra_segments s1 = ra_segments (emit_segment seg content extra s) \<and> ra_held s1 = ra_held s \<and> ra_carry s1 = p \<and>
     ra_carry_parts s1 = [\<lparr>cp_seg = length (ra_segments s), cp_leaf = l, cp_start = length (leaf_value l) - length p,
             cp_end = length (leaf_value l)\<rparr>] \<and>
     ra_held_bytes s1 = ra_held_bytes s + length (seg_raw seg) + length content"
  by (auto simp: start_carry_def hold_segment_def)

lemma yields_start:
  assumes "yields keep F V out s" "ra_held s = []" "seg_has_span seg" "keep \<longrightarrow> content = segment_value seg"
  shows "yields keep (F @ [frame_of seg]) (V @ segment_value seg) out (start_carry seg content extra pl s)"
proof -
  obtain p l where pl: "pl = (p, l)" by (cases pl)
  from start_carry_sel [OF refl, of seg content extra p l s] show ?thesis
    by (intro yields_same [OF yields_emit [OF assms]]) (simp_all add: pl)
qed

lemma start_or_emit_held [simp]: "ra_held (start_or_emit seg content extra tp s) = ra_held s"
  using start_carry_sel [OF refl, of seg content extra _ _ s] by (cases tp) (auto simp: start_or_emit_def can_start_def)

lemma yields_start_or_emit:
  assumes "yields keep F V out s" "ra_held s = []" "seg_has_span seg" "keep \<longrightarrow> content = segment_value seg"
  shows "yields keep (F @ [frame_of seg]) (V @ segment_value seg) out (start_or_emit seg content extra tp s)"
  using yields_start [OF assms] yields_emit [OF assms] by (simp add: start_or_emit_def)

lemma update_frames: "frame_of g = frame_of (xs ! i) \<Longrightarrow> map frame_of (xs[i := g]) = map frame_of xs"
  by (metis list_update_id map_update)

lemma render_held_frames: "map frame_of (ra_segments (render_held restore i s)) = map frame_of (ra_segments s)"
  by (simp add: render_held_def Let_def update_frames frame_of_def split: sum.split)

lemma edit_held_frames: "map frame_of (ra_segments (edit_held restore r p s)) = map frame_of (ra_segments s)"
  by (simp add: edit_held_def Let_def render_held_frames update_frames frame_of_def)

lemma fold_edit_frames: "map frame_of (ra_segments (fold (edit_held restore r) ps s)) = map frame_of (ra_segments s)"
  by (induction ps arbitrary: s) (simp_all add: edit_held_frames)

lemma edit_held_held [simp]: "ra_held (edit_held restore r p s) = ra_held s"
  by (auto simp: edit_held_def render_held_def Let_def split: sum.split)

lemma fold_edit_held [simp]: "ra_held (fold (edit_held restore r) ps s) = ra_held s"
  by (induction ps arbitrary: s) simp_all

section \<open>The invariant\<close>

text \<open>
  While the writer holds a tail, its data segment leads the queue and no other data follows. While
  a carry is pending, its contributors are queued leaf segments in order, the first at the head of
  the queue, whose fragments make up the carry.
\<close>

definition raw_pending :: "sse_segment list \<Rightarrow> bool" where
  "raw_pending gs \<longleftrightarrow> gs \<noteq> [] \<and> raw_data (hd gs) \<and> list_all (\<lambda>h. \<not> seg_has_span h) (tl gs)"

definition part_text :: "carry_part \<Rightarrow> bytes" where
  "part_text p = slice (leaf_value (cp_leaf p)) (cp_start p) (cp_end p)"

definition part_ok :: "sse_segment list \<Rightarrow> carry_part \<Rightarrow> bool" where
  "part_ok gs p \<longleftrightarrow> cp_seg p < length gs \<and> seg_leaf (gs ! cp_seg p) \<and>
     seg_has_span (gs ! cp_seg p) \<and> cp_start p \<le> cp_end p \<and>
     cp_end p = length (leaf_value (cp_leaf p))"

definition parts_ok :: "reassembler \<Rightarrow> bool" where
  "parts_ok s \<longleftrightarrow> ra_carry_parts s \<noteq> [] \<and> cp_seg (hd (ra_carry_parts s)) = 0 \<and>
     sorted_wrt (<) (map cp_seg (ra_carry_parts s)) \<and> list_all (part_ok (ra_segments s)) (ra_carry_parts s) \<and>
     concat (map part_text (ra_carry_parts s)) = ra_carry s \<and> is_placeholder_prefix (ra_carry s)"

definition ra_ok :: "reassembler \<Rightarrow> bool" where
  "ra_ok s \<longleftrightarrow>
     (ra_held s \<noteq> [] \<longrightarrow> ra_carry s = [] \<and> length (ra_held s) \<le> max_placeholder_len \<and> raw_pending (ra_segments s)) \<and>
     (ra_carry s = [] \<longrightarrow> ra_held_bytes s = 0 \<and> ra_carry_parts s = []) \<and>
     (ra_carry s \<noteq> [] \<longrightarrow> parts_ok s) \<and> held_total s \<le> sse_backfill_holdback_bytes"

lemma cap_num: "sse_backfill_holdback_bytes = 262144" "max_placeholder_len = 89"
  by (simp_all add: sse_backfill_holdback_bytes_def geometry_nums)

text \<open>A state with nothing held back is good whatever is queued.\<close>

lemma ra_ok_idle: "ra_held s = [] \<Longrightarrow> ra_carry s = [] \<Longrightarrow> ra_held_bytes s = 0 \<Longrightarrow> ra_carry_parts s = [] \<Longrightarrow> ra_ok s"
  by (simp add: ra_ok_def held_total_def)

lemma ra_ok_raw:
  "ra_carry s = [] \<Longrightarrow> ra_held_bytes s = 0 \<Longrightarrow> ra_carry_parts s = [] \<Longrightarrow> length (ra_held s) \<le> max_placeholder_len \<Longrightarrow>
     raw_pending (ra_segments s) \<Longrightarrow> ra_ok s"
  by (simp add: ra_ok_def held_total_def cap_num)

lemma new_reassembler_ok: "ra_ok new_reassembler"
  by (rule ra_ok_idle) (simp_all add: new_reassembler_def)

lemma raw_pending_find:
  assumes "raw_pending gs"
  shows "List.find (\<lambda>i. raw_data (gs ! i)) (rev [0..<length gs]) = Some 0"
    and "List.find (\<lambda>i. seg_has_span (gs ! i)) [0..<length gs] = Some 0"
proof -
  have only: "i = 0" if "i < length gs" "seg_has_span (gs ! i)" for i
  proof (rule ccontr)
    assume "i \<noteq> 0"
    then have "gs ! i \<in> set (List.tl gs)"
      using that(1) by (cases gs) (auto simp: nth_Cons split: nat.splits)
    with assms that(2) show False by (auto simp: raw_pending_def list_all_iff)
  qed
  have z: "raw_data (gs ! 0)" "0 < length gs" using assms by (auto simp: raw_pending_def hd_conv_nth)
  obtain i where i: "List.find (\<lambda>i. raw_data (gs ! i)) (rev [0..<length gs]) = Some i"
    using z by (cases "List.find (\<lambda>i. raw_data (gs ! i)) (rev [0..<length gs])") (auto simp: find_None_iff)
  then have "i < length gs \<and> raw_data (gs ! i)" by (auto simp: find_Some_iff rev_nth)
  then have "i = 0" using only by (auto simp: raw_data_def)
  with i show "List.find (\<lambda>i. raw_data (gs ! i)) (rev [0..<length gs]) = Some 0" by simp
  have "[0..<length gs] = 0 # [1..<length gs]" using z(2) by (simp add: upt_conv_Cons)
  with z(1) show "List.find (\<lambda>i. seg_has_span (gs ! i)) [0..<length gs] = Some 0" by (simp add: raw_data_def)
qed

lemma append_content_payload:
  assumes "raw_pending gs"
  shows "map frame_of (append_content 0 b gs) = map frame_of gs"
    and "concat (map seg_payload (append_content 0 b gs)) = concat (map seg_payload gs) @ b"
proof -
  obtain g rest where g: "gs = g # rest" "raw_data g" "list_all (\<lambda>h. \<not> seg_has_span h) rest"
    using assms by (cases gs) (auto simp: raw_pending_def)
  then have c: "concat (map seg_payload rest) = []" by (auto simp: list_all_iff seg_payload_def)
  from g(1,2) show "map frame_of (append_content 0 b gs) = map frame_of gs"
    "concat (map seg_payload (append_content 0 b gs)) = concat (map seg_payload gs) @ b"
    by (simp_all add: c append_content_def frame_of_def seg_payload_def [of g] seg_payload_def [of "g\<lparr>seg_content := seg_content g @ b\<rparr>"]
        raw_data_def)
qed

lemma handoff_ok:
  assumes "ra_ok s"
  shows "ra_ok (handoff_writer s)" "ra_held (handoff_writer s) = []"
    "map frame_of (ra_segments (handoff_writer s)) = map frame_of (ra_segments s)"
    "payload (handoff_writer s) = payload s" "ra_carry (handoff_writer s) = ra_carry s"
proof -
  have "ra_ok (handoff_writer s) \<and> ra_held (handoff_writer s) = [] \<and>
      map frame_of (ra_segments (handoff_writer s)) = map frame_of (ra_segments s) \<and>
      payload (handoff_writer s) = payload s \<and> ra_carry (handoff_writer s) = ra_carry s"
  proof (cases "ra_held s = []")
    case True
    with assms show ?thesis by (simp add: handoff_writer_def)
  next
    case False
    with assms have r: "raw_pending (ra_segments s)" "ra_carry s = []" "ra_held_bytes s = 0" "ra_carry_parts s = []"
      by (auto simp: ra_ok_def)
    have h: "handoff_writer s = s\<lparr>ra_segments := append_content 0 (ra_held s) (ra_segments s), ra_held := []\<rparr>"
      using False raw_pending_find(1) [OF r(1)] by (simp add: handoff_writer_def)
    show ?thesis
      unfolding h using append_content_payload [OF r(1)] r(2-4) by (simp add: payload_def ra_ok_idle)
  qed
  then show "ra_ok (handoff_writer s)" "ra_held (handoff_writer s) = []"
    "map frame_of (ra_segments (handoff_writer s)) = map frame_of (ra_segments s)"
    "payload (handoff_writer s) = payload s" "ra_carry (handoff_writer s) = ra_carry s" by auto
qed

lemma flush_held_sel:
  "flush_held s = (out, s1) \<Longrightarrow> ra_segments s1 = [] \<and> ra_held s1 = ra_held s \<and> ra_carry s1 = [] \<and>
     ra_carry_parts s1 = [] \<and> ra_held_bytes s1 = 0"
  by (auto simp: flush_held_def release_segments_def)

lemma parts_block: "parts_ok s \<Longrightarrow> drain_from s 0 = 0"
proof -
  assume p: "parts_ok s"
  then have "part_ok (ra_segments s) (hd (ra_carry_parts s))" "cp_seg (hd (ra_carry_parts s)) = 0" "ra_carry_parts s \<noteq> []"
    unfolding parts_ok_def by (auto simp: list_all_iff)
  then have "blocked s 0"
    by (auto simp: blocked_def carry_referenced_def part_ok_def list_ex_iff intro: bexI [of _ "hd (ra_carry_parts s)"])
  then show ?thesis by (subst drain_from.simps) simp
qed

lemma then_drain_ok:
  assumes "ra_ok s" "ra_held s = []" "then_drain out s = (r, s1)"
  shows "ra_ok s1"
proof (cases "ra_carry s = []")
  case True
  with assms have "ra_held_bytes s = 0" "ra_carry_parts s = []" by (auto simp: ra_ok_def)
  moreover have "ra_held s1 = ra_held s" "ra_carry s1 = ra_carry s" "ra_held_bytes s1 = ra_held_bytes s"
    "ra_carry_parts s1 = ra_carry_parts s"
    using assms(3) by (auto simp: then_drain_def drain_def release_segments_def split: prod.splits)
  ultimately show ?thesis using True assms(2) by (intro ra_ok_idle) auto
next
  case False
  with assms(1) have "drain_from s 0 = 0" by (intro parts_block) (simp add: ra_ok_def)
  then have "s1 = s" using assms(3) by (auto simp: then_drain_def drain_def release_segments_def split: prod.splits)
  with assms(1) show ?thesis by simp
qed

section \<open>Trailing prefixes\<close>

definition prefix_hit :: "(bytes \<times> leaf) option \<Rightarrow> bool" where
  "prefix_hit r \<longleftrightarrow> (\<forall>p l. r = Some (p, l) \<longrightarrow> p \<noteq> [] \<and> suffix p (leaf_value l) \<and> is_placeholder_prefix p)"

lemma seek_prefix_hit: "prefix_hit best \<Longrightarrow> prefix_hit (seek_prefix k best l)"
  by (auto simp: prefix_hit_def seek_prefix_def smallest_prefix_at_def find_Some_iff suffix_drop split: option.splits)

lemma foldl_seek_hit:
  "prefix_hit best \<Longrightarrow> prefix_hit (foldl (\<lambda>best l. if leaf_identifiable l then seek_prefix 0 best l else best) best ls)"
  by (induction ls arbitrary: best) (simp_all add: seek_prefix_hit)

lemma trailing_prefix_hit: "prefix_hit (trailing_prefix leaves)"
  unfolding trailing_prefix_def by (rule foldl_seek_hit) (simp add: prefix_hit_def)

lemma trailing_prefix_after_hit: "prefix_hit (trailing_prefix_after leaves match k)"
proof (induction leaves)
  case (Cons l ls)
  have "prefix_hit None" by (simp add: prefix_hit_def)
  with Cons show ?case by (simp add: foldl_seek_hit seek_prefix_hit)
qed (simp add: prefix_hit_def)

lemma start_carry_ok:
  assumes "ra_segments s = []" "ra_held s = []" "ra_carry s = []" "ra_held_bytes s = 0"
    "can_start seg content tp s" "prefix_hit tp" "seg_has_span seg"
  shows "ra_ok (start_carry seg content extra (the tp) s)"
proof -
  obtain p l where tp: "tp = Some (p, l)" using assms(5) by (cases tp) (auto simp: can_start_def)
  with assms(6) have p: "p \<noteq> []" "suffix p (leaf_value l)" "is_placeholder_prefix p" by (auto simp: prefix_hit_def)
  have sel: "ra_segments (start_carry seg content extra (p, l) s) = [seg\<lparr>seg_leaf := True, seg_content := content, seg_extra := extra\<rparr>]"
    "ra_held (start_carry seg content extra (p, l) s) = []" "ra_carry (start_carry seg content extra (p, l) s) = p"
    "ra_carry_parts (start_carry seg content extra (p, l) s) =
       [\<lparr>cp_seg = 0, cp_leaf = l, cp_start = length (leaf_value l) - length p, cp_end = length (leaf_value l)\<rparr>]"
    "ra_held_bytes (start_carry seg content extra (p, l) s) = length (seg_raw seg) + length content"
    using start_carry_sel [OF refl, of seg content extra p l s] assms(1,2,4) by simp_all
  have "slice (leaf_value l) (length (leaf_value l) - length p) (length (leaf_value l)) = p"
    using p(2) by (auto simp: slice_def suffix_def)
  then have "parts_ok (start_carry seg content extra (p, l) s)"
    using p(3) assms(7) by (simp add: parts_ok_def sel part_ok_def part_text_def)
  moreover have "held_total (start_carry seg content extra (p, l) s) \<le> sse_backfill_holdback_bytes"
    using assms(2-5) tp by (simp add: held_total_def sel can_start_def fits_budget_def)
  ultimately show ?thesis using p(1) by (simp add: ra_ok_def sel tp)
qed

lemma start_or_emit_ok:
  assumes "ra_segments s = []" "ra_held s = []" "ra_carry s = []" "ra_held_bytes s = 0" "ra_carry_parts s = []"
    "prefix_hit tp" "seg_has_span seg"
  shows "ra_ok (start_or_emit seg content extra tp s)"
  using start_carry_ok [OF assms(1-4) _ assms(6,7), of content extra] assms(2-5)
  by (auto simp: start_or_emit_def intro: ra_ok_idle)

lemma part_ok_append: "part_ok gs p \<Longrightarrow> part_ok (gs @ hs) p"
  by (auto simp: part_ok_def nth_append)

lemma parts_ok_append:
  assumes "parts_ok s" "ra_segments s1 = ra_segments s @ gs" "ra_carry_parts s1 = ra_carry_parts s" "ra_carry s1 = ra_carry s"
  shows "parts_ok s1"
  using assms part_ok_append by (auto simp: parts_ok_def list_all_iff)

section \<open>One envelope\<close>

lemma content_unrestored: "(\<And>t. restore t = t) \<Longrightarrow> content_with restore v leaves [] = v"
proof -
  assume r: "\<And>t. restore t = t"
  then have "List.map_filter (leaf_edit restore l) xs = []" for l xs
    by (induction xs) (auto simp: List.map_filter_simps leaf_edit_def Let_def)
  then have "within_leaf_edits leaves restore = []" by (induction leaves) (simp_all add: within_leaf_edits_def)
  then show ?thesis by (simp add: content_with_def)
qed

lemma step_drain:
  assumes "yields keep F V out s" "ra_ok s" "ra_held s = []" "then_drain out s = (r, s1)"
  shows "\<exists>o1. r = Some o1 \<and> ra_ok s1 \<and> yields keep F V o1 s1"
  using yields_then_drain [OF assms(1,4)] then_drain_ok [OF assms(2-4)] by blast

lemma step_flush:
  assumes "flush_held s = (out, s1)" "ra_held s = []" "seg_has_span seg" "keep \<longrightarrow> content = segment_value seg"
    "prefix_hit tp" "then_drain out (start_or_emit seg content extra tp s1) = (r, s2)"
  shows "\<exists>o1. r = Some o1 \<and> ra_ok s2 \<and>
    yields keep (map frame_of (ra_segments s) @ [frame_of seg]) (payload s @ segment_value seg) o1 s2"
proof -
  note f = flush_held_sel [OF assms(1)]
  have "yields keep (map frame_of (ra_segments s)) (payload s) out s1"
    using yields_flush_held [OF yields_refl assms(1)] by simp
  from yields_start_or_emit [OF this _ assms(3,4)] f assms(2) have
    "yields keep (map frame_of (ra_segments s) @ [frame_of seg]) (payload s @ segment_value seg) out
       (start_or_emit seg content extra tp s1)" by simp
  then show ?thesis
    by (rule step_drain [OF _ start_or_emit_ok _ assms(6)]) (use f assms in auto)
qed

lemma start_or_emit_None: "start_or_emit seg content extra None s = emit_segment seg content [] s"
  by (simp add: start_or_emit_def can_start_def)

lemma prefix_hit_None [simp]: "prefix_hit None"
  by (simp add: prefix_hit_def)

lemma complete_token_ok:
  assumes "ra_held s = []" "seg_has_span seg" "keep \<longrightarrow> (\<forall>t. restore t = t)"
    "complete_token restore seg leaves match tok s = (r, s2)"
  shows "\<exists>o1. r = Some o1 \<and> ra_ok s2 \<and>
    yields keep (map frame_of (ra_segments s) @ [frame_of seg]) (payload s @ segment_value seg) o1 s2"
proof (cases "restore tok = tok \<or> keep_placeholder (cp_leaf (hd (ra_carry_parts s))) (restore tok)")
  case True
  obtain out s1 where f: "flush_held s = (out, s1)" by fastforce
  have "then_drain out (start_or_emit seg (content_with restore (segment_value seg) leaves []) [] None s1) = (r, s2)"
    using assms(4) True f by (simp add: complete_token_def start_or_emit_None)
  from step_flush [OF f assms(1,2) _ prefix_hit_None this] show ?thesis
    using assms(3) by (simp add: content_unrestored)
next
  case False
  then have nk: "\<not> keep" using assms(3) by auto
  define sE where "sE = fold (edit_held restore []) (ra_carry_parts s) s"
  obtain out s1 where f: "flush_held sE = (out, s1)" by fastforce
  define k where "k = length tok - length (ra_carry s)"
  define extra where "extra = [\<lparr>edit_leaf = match, edit_start = 0, edit_end = int k, edit_repl = raw_spelling match (restore tok)\<rparr>]"
  have d: "then_drain out (start_or_emit seg (content_with restore (segment_value seg) leaves extra) extra
      (trailing_prefix_after leaves match k) s1) = (r, s2)"
    using assms(4) False f unfolding complete_token_def Let_def sE_def [symmetric] k_def [symmetric] extra_def [symmetric]
    by simp
  have "ra_held sE = []" "map frame_of (ra_segments sE) = map frame_of (ra_segments s)"
    using assms(1) by (simp_all add: sE_def fold_edit_frames)
  with step_flush [OF f _ assms(2) _ trailing_prefix_after_hit d, of keep] nk show ?thesis
    by (auto simp: yields_def)
qed

lemma continue_carry_ok:
  assumes "ra_ok s" "ra_held s = []" "ra_carry s \<noteq> []" "seg_has_span seg" "keep \<longrightarrow> (\<forall>t. restore t = t)"
    "continue_carry restore seg leaves match (ra_carry s @ leaf_value match) s = (r, s2)"
  shows "\<exists>o1. r = Some o1 \<and> ra_ok s2 \<and>
    yields keep (map frame_of (ra_segments s) @ [frame_of seg]) (payload s @ segment_value seg) o1 s2"
proof -
  define combined where "combined = ra_carry s @ leaf_value match"
  define content where "content = content_with restore (segment_value seg) leaves []"
  have content: "keep \<longrightarrow> content = segment_value seg" using assms(5) by (simp add: content_def content_unrestored)
  show ?thesis
  proof (cases "placeholder_prefix_len combined \<noteq> length combined \<or> max_placeholder_len < length combined \<or>
            \<not> fits_budget (length (seg_raw seg) + length content + length (leaf_value match)) s")
    case True
    obtain out s1 where f: "flush_held s = (out, s1)" by fastforce
    have "then_drain out (start_or_emit seg content [] None s1) = (r, s2)"
      using assms(6) True f by (simp add: continue_carry_def content_def combined_def Let_def start_or_emit_None)
    from step_flush [OF f assms(2,4) content prefix_hit_None this] show ?thesis .
  next
    case False
    define p where "p = \<lparr>cp_seg = length (ra_segments s), cp_leaf = match, cp_start = 0, cp_end = length (leaf_value match)\<rparr>"
    define s1 where "s1 = (snd (hold_segment seg content [] s))\<lparr>ra_carry := combined, ra_carry_parts := ra_carry_parts s @ [p]\<rparr>"
    have d: "then_drain [] s1 = (r, s2)"
      using assms(6) False
      by (simp add: continue_carry_def content_def combined_def Let_def s1_def p_def hold_segment_def)
    have sel: "ra_segments s1 = ra_segments (emit_segment seg content [] s)" "ra_held s1 = []" "ra_carry s1 = combined"
      "ra_carry_parts s1 = ra_carry_parts s @ [p]" "ra_held_bytes s1 = ra_held_bytes s + length (seg_raw seg) + length content"
      using assms(2) by (simp_all add: s1_def hold_segment_def)
    have po: "parts_ok s" using assms(1,3) by (simp add: ra_ok_def)
    have "is_placeholder_prefix combined"
    proof -
      have "combined \<noteq> []" using assms(3) by (simp add: combined_def)
      with False placeholder_prefix_len_spec(3) [of "length combined - 1" combined] show ?thesis by simp
    qed
    moreover have "part_text p = leaf_value match" "part_ok (ra_segments s1) p"
      using assms(4) by (simp_all add: part_text_def p_def part_ok_def slice_def sel)
    moreover have "\<forall>q \<in> set (ra_carry_parts s). cp_seg q < length (ra_segments s)"
      using po by (auto simp: parts_ok_def list_all_iff part_ok_def)
    ultimately have "parts_ok s1"
      using po part_ok_append by (auto simp: parts_ok_def sel list_all_iff sorted_wrt_append combined_def p_def)
    moreover have "held_total s1 \<le> sse_backfill_holdback_bytes"
      using False assms(2) by (simp add: held_total_def sel fits_budget_def combined_def)
    ultimately have ok: "ra_ok s1" using assms(3) by (simp add: ra_ok_def sel combined_def)
    have "yields keep (map frame_of (ra_segments s) @ [frame_of seg]) (payload s @ segment_value seg) [] s1"
      by (rule yields_same [OF yields_emit [OF yields_refl assms(2,4) content]]) (use sel assms(2) in simp_all)
    from step_drain [OF this ok sel(2) d] show ?thesis .
  qed
qed

lemma accept_leaves_ok:
  assumes "ra_ok s" "ra_held s = []" "seg_has_span seg" "keep \<longrightarrow> (\<forall>t. restore t = t)"
    "accept_leaves restore seg leaves s = (r, s2)"
  shows "\<exists>o1. r = Some o1 \<and> ra_ok s2 \<and>
    yields keep (map frame_of (ra_segments s) @ [frame_of seg]) (payload s @ segment_value seg) o1 s2"
proof (cases "ra_carry s = []")
  case idle: True
  define content where "content = content_with restore (segment_value seg) leaves []"
  have content: "keep \<longrightarrow> content = segment_value seg" using assms(4) by (simp add: content_def content_unrestored)
  have z: "ra_held_bytes s = 0" "ra_carry_parts s = []" using assms(1) idle by (auto simp: ra_ok_def)
  show ?thesis
  proof (cases "can_start seg content (trailing_prefix leaves) s")
    case True
    obtain out s1 where f: "release_segments (length (ra_segments s)) s = (out, s1)" by fastforce
    then have s1: "ra_segments s1 = []" "ra_held s1 = []" "ra_carry s1 = []" "ra_held_bytes s1 = 0"
      "can_start seg content (trailing_prefix leaves) s1"
      using assms(2) idle z True
      by (auto simp: release_segments_def can_start_def fits_budget_def held_total_def split: option.splits)
    have d: "then_drain out (start_carry seg content [] (the (trailing_prefix leaves)) s1) = (r, s2)"
      using assms(5) idle True f by (simp add: accept_leaves_def content_def Let_def)
    have y: "yields keep (map frame_of (ra_segments s)) (payload s) out s1"
      using yields_release [OF yields_refl f] by simp
    have "ra_held (start_carry seg content [] (the (trailing_prefix leaves)) s1) = []"
      using start_carry_sel [OF refl, of seg content "[]" _ _ s1] s1(2) by (cases "the (trailing_prefix leaves)") simp
    from step_drain [OF yields_start [OF y s1(2) assms(3) content]
        start_carry_ok [OF s1 trailing_prefix_hit assms(3)] this d] show ?thesis .
  next
    case False
    have d: "then_drain [] (emit_segment seg content [] s) = (r, s2)"
      using assms(5) idle False by (simp add: accept_leaves_def content_def Let_def)
    have "ra_ok (emit_segment seg content [] s)" using assms(2) idle z by (intro ra_ok_idle) simp_all
    from step_drain [OF yields_emit [OF yields_refl assms(2,3) content] this _ d] assms(2) show ?thesis by simp
  qed
next
  case carry: False
  show ?thesis
  proof (cases "unique_identity_match leaves (ra_carry_key s)")
    case None
    define content where "content = content_with restore (segment_value seg) leaves []"
    have content: "keep \<longrightarrow> content = segment_value seg" using assms(4) by (simp add: content_def content_unrestored)
    obtain out s1 where f: "flush_held s = (out, s1)" by fastforce
    have "then_drain out (start_or_emit seg content [] (trailing_prefix leaves) s1) = (r, s2)"
      using assms(5) carry None f by (simp add: accept_leaves_def content_def Let_def)
    from step_flush [OF f assms(2,3) content trailing_prefix_hit this] show ?thesis .
  next
    case (Some match)
    have a: "(if length (ra_carry s) < placeholder_token_len (ra_carry s @ leaf_value match)
        then complete_token restore seg leaves match (take (placeholder_token_len (ra_carry s @ leaf_value match)) (ra_carry s @ leaf_value match)) s
        else continue_carry restore seg leaves match (ra_carry s @ leaf_value match) s) = (r, s2)"
      using assms(5) carry Some by (simp add: accept_leaves_def Let_def)
    show ?thesis
    proof (cases "length (ra_carry s) < placeholder_token_len (ra_carry s @ leaf_value match)")
      case True
      with a show ?thesis by (intro complete_token_ok [OF assms(2-4)]) (simp only: if_True)
    next
      case False
      with a show ?thesis by (intro continue_carry_ok [OF assms(1,2) carry assms(3,4)]) (simp only: if_False)
    qed
  qed
qed

section \<open>One event\<close>

definition event_value :: "event \<Rightarrow> bytes" where
  "event_value ev = (case ev_spans ev of [(i, j)] \<Rightarrow> slice (ev_raw ev) i j | _ \<Rightarrow> [])"

lemma event_segment_cases:
  obtains i j where "ev_spans ev = [(i, j)]" "event_segment ev = \<lparr>seg_raw = ev_raw ev, seg_span = (i, j), seg_content = [],
      seg_has_span = True, seg_leaf = False, seg_extra = []\<rparr>" "event_value ev = slice (ev_raw ev) i j"
  | "\<not> seg_has_span (event_segment ev)" "event_value ev = []" "length (ev_spans ev) \<noteq> 1"
proof (cases "ev_spans ev")
  case Nil
  with that(2) show ?thesis by (simp add: event_segment_def event_value_def)
next
  case (Cons p ps)
  then show ?thesis
  proof (cases ps)
    case Nil
    obtain i j where "p = (i, j)" by (cases p)
    with Cons Nil that(1) show ?thesis by (simp add: event_segment_def event_value_def)
  next
    case (Cons q qs)
    with \<open>ev_spans ev = p # ps\<close> that(2) show ?thesis
      by (cases p) (simp add: event_segment_def event_value_def)
  qed
qed

text \<open>
  A data value is plain for the raw path when, if it contains the placeholder prefix at all, it
  either takes the leaf path or is no JSON document at all.
\<close>

definition raw_path_plain :: "bytes \<Rightarrow> bool" where
  "raw_path_plain v \<longleftrightarrow> (contains v placeholder_prefix \<longrightarrow>
     (case walk v of Inl _ \<Rightarrow> \<not> json_valid v | Inr leaves \<Rightarrow> json_valid v \<and> has_identifiable_leaf leaves))"

lemma raw_replace_identity:
  assumes "accept_leaf restore seg s = (None, s1)" "\<And>t. restore t = t" "raw_path_plain (segment_value seg)"
  shows "keeps_tokens (Some (\<lambda>tok. Some (replace_token restore (spell_feed restore (segment_value seg) s') tok)))"
proof -
  have no_spell: "replace_token restore (spell_feed restore (segment_value seg) s') tok = tok" for tok
  proof (cases "contains (segment_value seg) placeholder_prefix")
    case False
    then show ?thesis using assms(2) by (simp add: spell_feed_def replace_token_def)
  next
    case c: True
    show ?thesis
    proof (cases "walk (segment_value seg)")
      case (Inl e)
      with c assms(3) have "\<not> json_valid (segment_value seg)" by (simp add: raw_path_plain_def)
      with Inl assms(2) show ?thesis by (simp add: spell_feed_def replace_token_def)
    next
      case (Inr leaves)
      with c assms(3) have "json_valid (segment_value seg)" "has_identifiable_leaf leaves"
        by (simp_all add: raw_path_plain_def)
      with Inr assms(1) have "accept_leaves restore seg leaves (handoff_writer s) = (None, s1)"
        by (simp add: accept_leaf_def Let_def)
      moreover have "fst (accept_leaves restore seg leaves s') \<noteq> None" for s'
        by (auto simp: accept_leaves_def complete_token_def continue_carry_def then_drain_def Let_def split: prod.split option.split)
      ultimately show ?thesis by (metis fst_conv)
    qed
  qed
  then show ?thesis by (simp add: keeps_tokens_def replacement_def)
qed

lemma accept_raw_ok:
  assumes "seg_has_span seg" "\<not> seg_leaf seg" "accept_raw restore seg s = (out, s2)"
    "keep \<longrightarrow> (\<forall>s'. keeps_tokens (Some (\<lambda>tok. Some (replace_token restore (spell_feed restore (segment_value seg) s') tok))))"
  shows "ra_ok s2 \<and> yields keep (map frame_of (ra_segments s) @ [frame_of seg]) (payload s @ segment_value seg) out s2"
proof -
  obtain o1 s1 where f: "flush_held s = (o1, s1)" by fastforce
  note fs = flush_held_sel [OF f]
  define sp where "sp = spell_feed restore (segment_value seg) s1"
  have sp: "ra_segments sp = []" "ra_held sp = ra_held s" "ra_carry sp = []" "ra_carry_parts sp = []" "ra_held_bytes sp = 0"
    using fs by (simp_all add: sp_def spell_feed_def)
  obtain content held where w: "feed_hold placeholder_matcher (Some (\<lambda>tok. Some (replace_token restore sp tok)))
      (segment_value seg) (ra_held sp) = (content, held)" by fastforce
  define s3 where "s3 = sp\<lparr>ra_held := held, ra_segments := ra_segments sp @ [seg\<lparr>seg_content := content\<rparr>]\<rparr>"
  have out: "out = o1" "s2 = s3"
    using assms(3) f w sp(1) unfolding accept_raw_def Let_def sp_def [symmetric] s3_def
    by (auto simp: s3_def release_segments_def sp_def)
  have "length held \<le> max_placeholder_len"
    using w release_held_bound [of placeholder_matcher] unfolding feed_hold_def grammar.limit_eq matcher_sel by blast
  then have ok: "ra_ok s3"
    using sp assms(1,2) by (intro ra_ok_raw) (simp_all add: s3_def raw_pending_def raw_data_def)
  have y1: "yields keep (map frame_of (ra_segments s)) (payload s) o1 s1"
    using yields_flush_held [OF yields_refl f] by simp
  have idt: "keep \<Longrightarrow> content @ held = ra_held s @ segment_value seg"
    using assms(4) w release_identity [of "Some (\<lambda>tok. Some (replace_token restore sp tok))" placeholder_matcher] sp(2)
    by (auto simp: feed_hold_def sp_def)
  obtain R where R: "o1 = concat (map seg_bytes R)" "map frame_of (R @ ra_segments s1) = map frame_of (ra_segments s)"
    "keep \<longrightarrow> concat (map seg_payload R) @ payload s1 = payload s" using y1 by (auto simp: yields_def)
  have "payload s1 = ra_held s" using fs by (simp add: payload_def)
  with R fs idt have "yields keep (map frame_of (ra_segments s) @ [frame_of seg]) (payload s @ segment_value seg) o1 s3"
    unfolding yields_def
    by (intro exI [of _ R]) (auto simp: s3_def sp(1) frame_of_def payload_def seg_payload_def assms(1))
  with ok out show ?thesis by simp
qed

lemma yields_trans:
  assumes "yields keep F V o1 s" "yields keep (map frame_of (ra_segments s) @ F2) (payload s @ V2) o2 s1"
  shows "yields keep (F @ F2) (V @ V2) (o1 @ o2) s1"
proof -
  obtain R where R: "o1 = concat (map seg_bytes R)" "map frame_of (R @ ra_segments s) = F"
    "keep \<longrightarrow> concat (map seg_payload R) @ payload s = V" using assms(1) by (auto simp: yields_def)
  obtain Q where Q: "o2 = concat (map seg_bytes Q)" "map frame_of (Q @ ra_segments s1) = map frame_of (ra_segments s) @ F2"
    "keep \<longrightarrow> concat (map seg_payload Q) @ payload s1 = payload s @ V2" using assms(2) by (auto simp: yields_def)
  show ?thesis
    unfolding yields_def
  proof (intro exI [of _ "R @ Q"] conjI impI)
    show "map frame_of ((R @ Q) @ ra_segments s1) = F @ F2" using R(2) Q(2) by simp
    assume keep
    with R(3) Q(3) show "concat (map seg_payload (R @ Q)) @ payload s1 = V @ V2" by (metis append.assoc concat_append map_append)
  qed (simp add: R(1) Q(1))
qed

lemma pending_None: "pending_index s = None \<Longrightarrow> g \<in> set (ra_segments s) \<Longrightarrow> \<not> seg_has_span g"
  by (auto simp: pending_index_def find_None_iff in_set_conv_nth)

lemma ra_ok_no_span:
  assumes "ra_ok s" "pending_index s = None"
  shows "ra_held s = []" "ra_carry s = []"
proof -
  show "ra_held s = []"
  proof (rule ccontr)
    assume "ra_held s \<noteq> []"
    with assms(1) have "raw_pending (ra_segments s)" by (simp add: ra_ok_def)
    from raw_pending_find(2) [OF this] assms(2) show False by (simp add: pending_index_def)
  qed
  show "ra_carry s = []"
  proof (rule ccontr)
    assume "ra_carry s \<noteq> []"
    with assms(1) have "parts_ok s" by (simp add: ra_ok_def)
    then have "part_ok (ra_segments s) (hd (ra_carry_parts s))" by (auto simp: parts_ok_def list_all_iff)
    with pending_None [OF assms(2)] show False by (auto simp: part_ok_def)
  qed
qed

definition plain_event :: "(bytes \<Rightarrow> bytes) \<Rightarrow> event \<Rightarrow> bool" where
  "plain_event restore ev \<longleftrightarrow> (\<forall>t. restore t = t) \<and> raw_path_plain (event_value ev)"

lemma accept_ok:
  assumes "ra_ok s" "accept restore ev s = (out, s2)" "keep \<longrightarrow> plain_event restore ev"
  shows "ra_ok s2 \<and> yields keep (map frame_of (ra_segments s) @ [frame_of (event_segment ev)]) (payload s @ event_value ev) out s2"
proof (cases rule: event_segment_cases [of ev])
  case (1 i j)
  let ?seg = "event_segment ev"
  have seg: "seg_has_span ?seg" "\<not> seg_leaf ?seg" "segment_value ?seg = event_value ev"
    by (simp_all add: 1(2,3) segment_value_def)
  obtain r s1 where l: "accept_leaf restore ?seg s = (r, s1)" by fastforce
  show ?thesis
  proof (cases r)
    case None
    with l have a: "accept_raw restore ?seg s1 = (out, s2)" using assms(2) seg(1) by (simp add: accept_def Let_def)
    have s1: "s1 = s \<or> s1 = handoff_writer s"
      using l None by (auto simp: accept_leaf_def Let_def accept_leaves_def complete_token_def continue_carry_def then_drain_def
          split: if_splits sum.splits option.splits prod.splits)
    then have same: "map frame_of (ra_segments s1) = map frame_of (ra_segments s)" "payload s1 = payload s"
      using handoff_ok [OF assms(1)] by auto
    have k: "keep \<longrightarrow> (\<forall>s'. keeps_tokens (Some (\<lambda>tok. Some (replace_token restore (spell_feed restore (segment_value ?seg) s') tok))))"
      using raw_replace_identity [OF l [unfolded None]] assms(3) by (auto simp: plain_event_def seg(3))
    from accept_raw_ok [OF seg(1,2) a k] show ?thesis unfolding same seg(3) .
  next
    case (Some o1)
    with l have a: "out = o1" "s2 = s1" using assms(2) seg(1) by (simp_all add: accept_def Let_def)
    from l Some obtain leaves where al: "accept_leaves restore ?seg leaves (handoff_writer s) = (Some o1, s1)"
      by (auto simp: accept_leaf_def Let_def split: if_splits sum.splits)
    note h = handoff_ok [OF assms(1)]
    have k: "keep \<longrightarrow> (\<forall>t. restore t = t)" using assms(3) by (simp add: plain_event_def)
    from accept_leaves_ok [OF h(1,2) seg(1) k al] show ?thesis
      unfolding h(3,4) seg(3) a by simp
  qed
next
  case 2
  define s1 where "s1 = s\<lparr>ra_segments := ra_segments s @ [event_segment ev]\<rparr>"
  have y: "yields keep (map frame_of (ra_segments s) @ [frame_of (event_segment ev)]) (payload s @ event_value ev) [] s1"
    unfolding yields_def using 2
    by (intro exI [of _ "[]"]) (simp add: s1_def payload_def seg_payload_def)
  have ok: "ra_ok s1"
  proof -
    have p: "parts_ok s \<Longrightarrow> parts_ok s1" by (erule parts_ok_append) (simp_all add: s1_def)
    have r: "raw_pending (ra_segments s) \<Longrightarrow> raw_pending (ra_segments s1)"
      using 2(1) by (auto simp: raw_pending_def s1_def)
    from assms(1) p r show ?thesis by (auto simp: ra_ok_def held_total_def s1_def)
  qed
  show ?thesis
  proof (cases "pending_index s1")
    case (Some i)
    with 2 assms(2) have "out = []" "s2 = s1" by (auto simp: accept_def s1_def Let_def)
    with y ok show ?thesis by simp
  next
    case None
    with 2 assms(2) have rel: "release_segments (length (ra_segments s1)) s1 = (out, s2)"
      by (auto simp: accept_def s1_def Let_def)
    from yields_release [OF y rel] have "yields keep (map frame_of (ra_segments s) @ [frame_of (event_segment ev)])
       (payload s @ event_value ev) out s2" by simp
    moreover have "ra_ok s2"
    proof -
      have "ra_held s1 = []" "ra_carry s1 = []" using ra_ok_no_span [OF ok None] .
      moreover from this ok have "ra_held_bytes s1 = 0" "ra_carry_parts s1 = []" by (auto simp: ra_ok_def)
      ultimately show ?thesis using rel by (intro ra_ok_idle) (auto simp: release_segments_def)
    qed
    ultimately show ?thesis by simp
  qed
qed

lemma accept_all_ok:
  assumes "ra_ok s" "accept_all restore evs s = (out, s2)" "keep \<longrightarrow> list_all (plain_event restore) evs"
  shows "ra_ok s2 \<and> yields keep (map frame_of (ra_segments s) @ map (\<lambda>ev. frame_of (event_segment ev)) evs)
     (payload s @ concat (map event_value evs)) out s2"
  using assms
proof (induction evs arbitrary: s out)
  case Nil
  with yields_refl [of keep s] show ?case by simp
next
  case (Cons ev evs)
  obtain o1 s1 where a: "accept restore ev s = (o1, s1)" by fastforce
  obtain o2 where r: "accept_all restore evs s1 = (o2, s2)" "out = o1 @ o2"
    using Cons.prems(2) a by (auto split: prod.splits)
  have k: "keep \<longrightarrow> plain_event restore ev" "keep \<longrightarrow> list_all (plain_event restore) evs" using Cons.prems(3) by auto
  note o = accept_ok [OF Cons.prems(1) a k(1)]
  from Cons.IH [OF conjunct1 [OF o] r(1) k(2)] yields_trans [OF conjunct2 [OF o]] show ?case
    by (simp add: r(2))
qed

section \<open>Whole responses\<close>

text \<open>An event's bytes with its single data value replaced.\<close>

definition respell :: "event \<Rightarrow> bytes \<Rightarrow> bytes" where
  "respell ev content =
     (case ev_spans ev of [(i, j)] \<Rightarrow> take i (ev_raw ev) @ content @ drop j (ev_raw ev) | _ \<Rightarrow> ev_raw ev)"

lemma seg_bytes_respell:
  assumes "frame_of g = frame_of (event_segment ev)"
  shows "seg_bytes g = respell ev (seg_payload g)" "length (ev_spans ev) \<noteq> 1 \<Longrightarrow> seg_payload g = []"
proof -
  have "seg_bytes g = respell ev (seg_payload g) \<and> (length (ev_spans ev) \<noteq> 1 \<longrightarrow> seg_payload g = [])"
  proof (cases rule: event_segment_cases [of ev])
    case (1 i j)
    with assms show ?thesis by (simp add: frame_of_def seg_bytes_def respell_def seg_payload_def)
  next
    case 2
    have "seg_raw (event_segment ev) = ev_raw ev" by (simp add: event_segment_def Let_def split: list.split)
    moreover have "respell ev c = ev_raw ev" for c
      using 2(3) by (auto simp: respell_def split: list.split)
    ultimately show ?thesis using assms 2(1) by (simp add: frame_of_def seg_bytes_def seg_payload_def)
  qed
  then show "seg_bytes g = respell ev (seg_payload g)" "length (ev_spans ev) \<noteq> 1 \<Longrightarrow> seg_payload g = []" by auto
qed

lemma frames_respell:
  "map frame_of R = map (\<lambda>ev. frame_of (event_segment ev)) evs \<Longrightarrow>
     concat (map seg_bytes R) = concat (map2 respell evs (map seg_payload R))"
proof (induction R arbitrary: evs)
  case (Cons g R)
  then obtain ev evs' where "evs = ev # evs'" "frame_of g = frame_of (event_segment ev)"
    "map frame_of R = map (\<lambda>ev. frame_of (event_segment ev)) evs'" by (cases evs) auto
  with Cons.IH [of evs'] seg_bytes_respell(1) [of g ev] show ?case by simp
qed simp

lemma reassemble_accept_all:
  assumes "feed_all cs new_sse = (es, d)" "close_decoder d = (es', d')" "accept_all restore (es @ es') new_reassembler = (o1, s1)"
  shows "reassemble restore None cs =
    o1 @ concat (map seg_bytes (case pending_index s1 of None \<Rightarrow> ra_segments s1
      | Some i \<Rightarrow> append_content i (ra_held s1) (ra_segments s1))) @ sse_buf d'"
proof -
  have n: "\<not> ra_closed new_reassembler" "ra_decoder new_reassembler = new_sse" "ra_tail new_reassembler = sse_buf new_sse"
    by (simp_all add: new_reassembler_def new_sse_def)
  from write_all_accept_all [of new_reassembler cs es d restore] n assms(1) new_sse_scanned(2) obtain oa sa where
    a: "accept_all restore es new_reassembler = (oa, sa)"
    "write_all restore None cs new_reassembler = (oa, reframe d (sse_buf d) False sa)" "sse_ok d" "\<not> sse_closed d" by auto
  obtain ob where b: "accept_all restore es' sa = (ob, s1)" "o1 = oa @ ob"
    using assms(3) a(1) by (auto simp: accept_all_append split: prod.splits)
  have buf: "drop (length (concat (map ev_raw es'))) (sse_buf d) = sse_buf d'"
    unfolding close_ok [OF a(3,4) assms(2), THEN conjunct1, symmetric] by simp
  define s0 where "s0 = reframe d (sse_buf d) False sa"
  have cl: "s0\<lparr>ra_closed := True, ra_decoder := d'\<rparr> = reframe d' (sse_buf d) True sa"
    by (cases sa) (simp add: s0_def reframe_def)
  have c: "consume restore None es' [] (s0\<lparr>ra_closed := True, ra_decoder := d'\<rparr>) = (ob, reframe d' (sse_buf d') True s1)"
    unfolding cl consume_accept_all by (simp add: b(1) buf)
  have "fst (flush_stream restore None s0) = ob @ concat (map seg_bytes (case pending_index s1 of None \<Rightarrow> ra_segments s1
      | Some i \<Rightarrow> append_content i (ra_held s1) (ra_segments s1))) @ sse_buf d'"
    unfolding flush_stream_def using assms(2) c
    by (simp add: s0_def [symmetric] release_segments_def split: option.split) (simp add: s0_def)
  then show ?thesis
    using a(2) b(2) by (simp add: reassemble_def s0_def [symmetric] case_prod_unfold)
qed

lemma reassemble_all_chunks: "reassemble restore None cs = reassemble restore None [concat cs]"
proof -
  obtain es d where f: "feed_all cs new_sse = (es, d)" by fastforce
  then have f1: "feed_all [concat cs] new_sse = (es, d)" using sse_chunk_independent by metis
  obtain es' d' where c: "close_decoder d = (es', d')" by fastforce
  obtain o1 s1 where a: "accept_all restore (es @ es') new_reassembler = (o1, s1)" by fastforce
  show ?thesis unfolding reassemble_accept_all [OF f c a] reassemble_accept_all [OF f1 c a] ..
qed

text \<open>
  C17: The reassembler does not depend on how the upstream response is cut into chunks: for every
  restorer, writing the chunks one by one and flushing gives the bytes that writing the whole
  response at once gives.
\<close>

theorem reassemble_chunks: "reassemble restore None cs = reassemble restore None [concat cs]"
  by (rule reassemble_all_chunks)

lemma reassemble_contents:
  assumes "feed_all cs new_sse = (es, d)" "close_decoder d = (es', d')"
  shows "\<exists>contents. length contents = length (es @ es') \<and>
    reassemble restore None cs = concat (map2 respell (es @ es') contents) @ sse_buf d' \<and>
    (list_all (plain_event restore) (es @ es') \<longrightarrow> concat contents = concat (map event_value (es @ es')))"
proof -
  define keep where "keep = list_all (plain_event restore) (es @ es')"
  obtain o1 s1 where a: "accept_all restore (es @ es') new_reassembler = (o1, s1)" by fastforce
  have "keep \<longrightarrow> list_all (plain_event restore) (es @ es')" by (simp add: keep_def)
  from accept_all_ok [OF new_reassembler_ok a this] have
    ok: "ra_ok s1" "yields keep (map (\<lambda>ev. frame_of (event_segment ev)) (es @ es')) (concat (map event_value (es @ es'))) o1 s1"
    by (simp_all add: new_reassembler_def payload_def)
  define segs where "segs = (case pending_index s1 of None \<Rightarrow> ra_segments s1
      | Some i \<Rightarrow> append_content i (ra_held s1) (ra_segments s1))"
  have segs: "map frame_of segs = map frame_of (ra_segments s1) \<and> concat (map seg_payload segs) = payload s1"
  proof (cases "ra_held s1 = []")
    case True
    then show ?thesis by (simp add: segs_def append_content_def payload_def split: option.split)
  next
    case False
    with ok(1) have r: "raw_pending (ra_segments s1)" by (simp add: ra_ok_def)
    with raw_pending_find(2) [OF r] append_content_payload [OF r] show ?thesis
      by (simp add: segs_def pending_index_def payload_def)
  qed
  obtain R where R: "o1 = concat (map seg_bytes R)"
    "map frame_of (R @ ra_segments s1) = map (\<lambda>ev. frame_of (event_segment ev)) (es @ es')"
    "keep \<longrightarrow> concat (map seg_payload R) @ payload s1 = concat (map event_value (es @ es'))"
    using ok(2) by (auto simp: yields_def)
  have fr: "map frame_of (R @ segs) = map (\<lambda>ev. frame_of (event_segment ev)) (es @ es')"
    using R(2) segs by simp
  show ?thesis
  proof (intro exI [of _ "map seg_payload (R @ segs)"] conjI impI)
    show "length (map seg_payload (R @ segs)) = length (es @ es')"
      using arg_cong [OF fr, of length] by simp
    show "reassemble restore None cs = concat (map2 respell (es @ es') (map seg_payload (R @ segs))) @ sse_buf d'"
      unfolding reassemble_accept_all [OF assms a] segs_def [symmetric] R(1) frames_respell [OF fr, symmetric] by simp
    assume "list_all (plain_event restore) (es @ es')"
    then show "concat (map seg_payload (R @ segs)) = concat (map event_value (es @ es'))"
      using R(3) segs by (simp add: keep_def)
  qed
qed

text \<open>
  The reassembler touches data values only: whatever the restorer, the output is the sequence
  of the decoded events in order, each with all its framing bytes and a possibly different data
  value (an event without exactly one data line is byte-identical), followed by the bytes that no
  event covers.
\<close>

theorem framing_kept:
  assumes "feed_all cs new_sse = (es, d)" "close_decoder d = (es', d')"
  shows "\<exists>contents. length contents = length (es @ es') \<and>
    reassemble restore None cs = concat (map2 respell (es @ es') contents) @ sse_buf d'"
  using reassemble_contents [OF assms] by blast


section \<open>The memory bound\<close>

definition safe :: "reassembler \<Rightarrow> bool" where
  "safe s \<longleftrightarrow> held_total s \<le> sse_backfill_holdback_bytes \<and> (ra_closed s \<or> ra_ok s)"

lemma ra_ok_reframe [simp]: "ra_ok (reframe d t c s) = ra_ok s"
  by (simp add: ra_ok_def parts_ok_def)

lemma accept_closed: "accept restore ev s = (out, s1) \<Longrightarrow> ra_closed s1 = ra_closed s"
  using accept_reframe [of restore ev "ra_decoder s" "ra_tail s" "ra_closed s" s]
  by (metis apsnd_conv prod.inject reframe_self reframe_sel(11))

lemma consume_safe:
  "ra_ok s \<Longrightarrow> consume restore obs evs out s = (o1, s1) \<Longrightarrow>
     held_total s1 \<le> sse_backfill_holdback_bytes \<and> (ra_closed s1 = ra_closed s \<and> ra_ok s1 \<or> ra_closed s1)"
proof (induction evs arbitrary: s out)
  case Nil
  then show ?case by (auto simp: ra_ok_def)
next
  case (Cons ev evs)
  let ?s = "drop_tail (length (ev_raw ev)) s"
  have ok: "ra_ok ?s" "ra_closed ?s = ra_closed s" using Cons.prems(1) by (simp_all add: drop_tail_reframe)
  show ?case
  proof (cases "observed obs ev")
    case (Some b)
    with Cons.prems(2) have "s1 = abort_stream ?s" by simp
    moreover have "length (ra_held ?s) \<le> sse_backfill_holdback_bytes"
      using ok(1) by (simp add: ra_ok_def held_total_def)
    ultimately show ?thesis by (simp add: abort_stream_def held_total_def)
  next
    case None
    obtain o2 s2 where a: "accept restore ev ?s = (o2, s2)" by fastforce
    have "ra_ok s2" using accept_ok [OF ok(1) a, of False] by simp
    from Cons.IH [OF this, of "out @ o2"] Cons.prems(2) None a accept_closed [OF a] ok(2) show ?thesis by simp
  qed
qed

lemma write_chunk_safe: "safe s \<Longrightarrow> write_chunk restore obs c s = (out, s1) \<Longrightarrow> safe s1"
proof (cases "ra_closed s")
  case False
  assume a: "safe s" "write_chunk restore obs c s = (out, s1)"
  obtain r d where f: "feed c (ra_decoder s) = (r, d)" by fastforce
  have "ra_ok (s\<lparr>ra_tail := ra_tail s @ c, ra_decoder := d\<rparr>)"
    using a(1) False by (simp add: safe_def ra_ok_def held_total_def parts_ok_def)
  moreover have "consume restore obs (case r of Inr evs \<Rightarrow> evs | Inl _ \<Rightarrow> []) [] (s\<lparr>ra_tail := ra_tail s @ c, ra_decoder := d\<rparr>) = (out, s1)"
    using a(2) False f by (simp add: write_chunk_def)
  ultimately show ?thesis using consume_safe by (fastforce simp: safe_def)
qed (simp add: write_chunk_def)

lemma write_all_safe: "safe s \<Longrightarrow> write_all restore obs cs s = (out, s1) \<Longrightarrow> safe s1"
proof (induction cs arbitrary: s out)
  case (Cons c cs)
  obtain o1 s2 where w: "write_chunk restore obs c s = (o1, s2)" by fastforce
  with Cons.IH [OF write_chunk_safe [OF Cons.prems(1) w]] Cons.prems(2) show ?case by (auto split: prod.splits)
qed simp

text \<open>
  C19: The reassembler's accumulators stay bounded: after any chunks, with any restorer and
  observer, the writer's tail, the carry and the held segments together are at most 256 KiB; and
  while the stream is open a pending carry is a placeholder prefix and the concatenation of the fragments it was read
  from, all in segments still queued, the first of them at the head.
\<close>

theorem reassembler_bounded:
  assumes "write_all restore obs cs new_reassembler = (out, s)"
  shows "held_total s \<le> sse_backfill_holdback_bytes \<and>
    (\<not> ra_closed s \<and> ra_carry s \<noteq> [] \<longrightarrow>
       concat (map part_text (ra_carry_parts s)) = ra_carry s \<and> is_placeholder_prefix (ra_carry s) \<and>
       cp_seg (hd (ra_carry_parts s)) = 0 \<and> (\<forall>p \<in> set (ra_carry_parts s). cp_seg p < length (ra_segments s)))"
proof -
  have "safe new_reassembler"
    using new_reassembler_ok by (simp add: safe_def ra_ok_def)
  from write_all_safe [OF this assms] show ?thesis
    by (auto simp: safe_def ra_ok_def parts_ok_def part_ok_def list_all_iff)
qed

section \<open>Aborting\<close>

lemma consume_abort:
  assumes "\<forall>e \<in> set evs1. observed obs e = None" "observed obs ev = Some b"
  shows "\<exists>s2. consume restore obs (evs1 @ ev # evs2) out s = (b, abort_stream s2)"
  using assms
proof (induction evs1 arbitrary: out s)
  case Nil
  then show ?case by auto
next
  case (Cons e evs1)
  then show ?case by (simp split: prod.split)
qed

lemma closed_silent: "ra_closed s \<Longrightarrow> write_all restore obs cs s = ([], s) \<and> flush_stream restore obs s = ([], s)"
proof
  show "ra_closed s \<Longrightarrow> write_all restore obs cs s = ([], s)"
    by (induction cs) (simp_all add: write_chunk_def)
qed (simp add: flush_stream_def)

text \<open>
  An abort by the observer is final: the chunk in which it happens yields exactly the
  observer's bytes, nothing that was held or released for earlier events of the same chunk, no
  segment or carry survives, and every later write or flush yields nothing.
\<close>

theorem abort_is_final:
  assumes "\<not> ra_closed s" "feed c (ra_decoder s) = (Inr (evs1 @ ev # evs2), d)"
    and "\<forall>e \<in> set evs1. observed obs e = None" "observed obs ev = Some b"
  shows "\<exists>s1. write_chunk restore obs c s = (b, s1) \<and> ra_closed s1 \<and> ra_segments s1 = [] \<and> ra_carry s1 = [] \<and>
    ra_tail s1 = [] \<and> (\<forall>cs. fst (write_all restore obs cs s1) = []) \<and> fst (flush_stream restore obs s1) = []"
proof -
  from consume_abort [OF assms(3,4), of restore evs2 "[]" "s\<lparr>ra_tail := ra_tail s @ c, ra_decoder := d\<rparr>"] obtain s2 where
    w: "write_chunk restore obs c s = (b, abort_stream s2)"
    using assms(1,2) by (auto simp: write_chunk_def)
  have cl: "ra_closed (abort_stream s2)" by (simp add: abort_stream_def)
  show ?thesis
    by (intro exI [of _ "abort_stream s2"] conjI allI, rule w, rule cl)
      (simp_all add: closed_silent [OF cl], simp_all add: abort_stream_def)
qed

section \<open>Sample responses\<close>

definition quoted :: "bytes \<Rightarrow> bytes" where
  "quoted s = CHR 0x22 # s @ [CHR 0x22]"

text \<open>One event with the JSON envelope \<open>{"t": ...}\<close> or with plain text.\<close>

definition delta :: "bytes \<Rightarrow> bytes" where
  "delta s = ''data: {'' @ quoted ''t'' @ '':'' @ quoted s @ ''}'' @ [CHR 0x0A, CHR 0x0A]"

definition text_delta :: "bytes \<Rightarrow> bytes" where
  "text_delta s = ''data: '' @ s @ [CHR 0x0A, CHR 0x0A]"

definition sample_restore :: "bytes \<Rightarrow> bytes" where
  "sample_restore tok = (if tok = sample_token then ''bob'' else tok)"

lemma split_token_restored:
  "reassemble sample_restore None [delta ''hi __PII_em'', delta (drop 8 sample_token @ ''!'')] = delta ''hi '' @ delta ''bob!''"
  "reassemble sample_restore None [text_delta ''hi __PII_em'', text_delta (drop 8 sample_token @ ''!'')] =
     text_delta ''hi '' @ text_delta ''bob!''"
  by code_simp+

lemma framing_kept_witness:
  "\<exists>es d es' d' contents. feed_all [delta ''hi __PII_em'', delta (drop 8 sample_token)] new_sse = (es, d) \<and>
    close_decoder d = (es', d') \<and> length contents = 2 \<and>
    reassemble sample_restore None [delta ''hi __PII_em'', delta (drop 8 sample_token)] =
      concat (map2 respell (es @ es') contents) @ sse_buf d'"
proof -
  let ?cs = "[delta ''hi __PII_em'', delta (drop 8 sample_token)]"
  obtain es d where f: "feed_all ?cs new_sse = (es, d)" by fastforce
  obtain es' d' where c: "close_decoder d = (es', d')" by fastforce
  have "length (fst (feed_all ?cs new_sse) @ fst (close_decoder (snd (feed_all ?cs new_sse)))) = 2" by code_simp
  with f c have "length (es @ es') = 2" by simp
  with framing_kept [OF f c, of sample_restore] f c show ?thesis by auto
qed


lemma reassembler_bounded_witness:
  "\<exists>out s. write_all sample_restore None [delta ''hi __PII_em''] new_reassembler = (out, s) \<and>
    held_total s = 54 \<and> held_total s \<le> sse_backfill_holdback_bytes"
proof -
  obtain out s where w: "write_all sample_restore None [delta ''hi __PII_em''] new_reassembler = (out, s)" by fastforce
  have "held_total (snd (write_all sample_restore None [delta ''hi __PII_em''] new_reassembler)) = 54" by code_simp
  with reassembler_bounded [OF w] w show ?thesis by auto
qed

definition block_secret :: observer where
  "block_secret = Some (\<lambda>ev. if contains (ev_data ev) ''secret'' then Some ''blocked'' else None)"

lemma abort_is_final_witness:
  "\<exists>s1. write_chunk sample_restore block_secret (text_delta ''fine'' @ text_delta ''a secret'' @ text_delta ''more'') new_reassembler =
    (''blocked'', s1) \<and> ra_closed s1"
proof -
  let ?c = "text_delta ''fine'' @ text_delta ''a secret'' @ text_delta ''more''"
  obtain r d where f: "feed ?c new_sse = (r, d)" by fastforce
  have "(case fst (feed ?c new_sse) of Inl _ \<Rightarrow> None | Inr evs \<Rightarrow> Some (map (observed block_secret) evs)) =
      Some [None, Some ''blocked'', None]" by code_simp
  with f obtain e1 ev e2 where r: "r = Inr [e1, ev, e2]" "observed block_secret e1 = None" "observed block_secret ev = Some ''blocked''"
    by (cases r) auto
  have o: "\<not> ra_closed new_reassembler" "feed ?c (ra_decoder new_reassembler) = (Inr ([e1] @ ev # [e2]), d)"
    "\<forall>e \<in> set [e1]. observed block_secret e = None"
    using f r by (simp_all add: new_reassembler_def)
  from abort_is_final [OF o r(3), of sample_restore] show ?thesis by blast
qed


end
