(* ===== verification/Streaming.thy ===== *)
theory Streaming
  imports SseFlow
begin

text \<open>
  \<open>pkg/proxy/response_sse.go\<close>: the streaming handler over the reassembler. It evaluates nothing; its
  evaluator, counters and warnings are inert, and a missing restorer is a fresh one, which knows no token.
\<close>

record sse_handler =
  sh_restore :: "(bytes \<Rightarrow> bytes) option"
  sh_stream :: reassembler

definition new_sse_handler :: "(bytes \<Rightarrow> bytes) option \<Rightarrow> sse_handler" where
  "new_sse_handler restore = \<lparr>sh_restore = restore, sh_stream = new_reassembler\<rparr>"

definition handler_restore :: "sse_handler \<Rightarrow> bytes \<Rightarrow> bytes" where
  "handler_restore h = (case sh_restore h of None \<Rightarrow> backfill new_backfiller (snapshot new_backfiller) | Some f \<Rightarrow> f)"

text \<open>\<open>None\<close> is \<open>ErrSSEClosed\<close>.\<close>

definition handler_write :: "bytes \<Rightarrow> sse_handler \<Rightarrow> bytes option \<times> sse_handler" where
  "handler_write chunk h =
     (if ra_closed (sh_stream h) then (None, h)
      else case write_chunk (handler_restore h) None chunk (sh_stream h) of (out, s) \<Rightarrow> (Some out, h\<lparr>sh_stream := s\<rparr>))"

definition handler_flush :: "sse_handler \<Rightarrow> bytes \<times> sse_handler" where
  "handler_flush h =
     (case flush_stream (handler_restore h) None (sh_stream h) of (out, s) \<Rightarrow> (out, h\<lparr>sh_stream := s\<rparr>))"

definition handler_held :: "sse_handler \<Rightarrow> nat" where
  "handler_held h = held_total (sh_stream h)"

definition handler_closed :: "sse_handler \<Rightarrow> bool" where
  "handler_closed h = ra_closed (sh_stream h)"

text \<open>A response written in chunks; a refused write ends it.\<close>

fun handler_writes :: "bytes list \<Rightarrow> sse_handler \<Rightarrow> bytes option \<times> sse_handler" where
  "handler_writes [] h = (Some [], h)"
| "handler_writes (c # cs) h =
     (case handler_write c h of
        (None, h) \<Rightarrow> (None, h)
      | (Some o1, h) \<Rightarrow> (case handler_writes cs h of (o2, h) \<Rightarrow> (map_option ((@) o1) o2, h)))"

lemma write_chunk_open: "write_chunk restore None c s = (out, s') \<Longrightarrow> ra_closed s' = ra_closed s"
  by (auto simp: write_chunk_def consume_accept_all Let_def split: prod.splits if_splits)

lemma handler_writes_all:
  "\<not> ra_closed (sh_stream h) \<Longrightarrow> write_all (handler_restore h) None cs (sh_stream h) = (out, s) \<Longrightarrow>
   handler_writes cs h = (Some out, h\<lparr>sh_stream := s\<rparr>) \<and> \<not> ra_closed s"
proof (induction cs arbitrary: h out)
  case (Cons c cs)
  obtain o1 s1 where w: "write_chunk (handler_restore h) None c (sh_stream h) = (o1, s1)" by fastforce
  obtain o2 where a: "write_all (handler_restore h) None cs s1 = (o2, s)" "out = o1 @ o2"
    using Cons.prems(2) w by (auto split: prod.splits)
  have "\<not> ra_closed s1" using write_chunk_open [OF w] Cons.prems(1) by simp
  moreover have "handler_restore (h\<lparr>sh_stream := s1\<rparr>) = handler_restore h" by (simp add: handler_restore_def)
  ultimately have "handler_writes cs (h\<lparr>sh_stream := s1\<rparr>) = (Some o2, h\<lparr>sh_stream := s\<rparr>)" "\<not> ra_closed s"
    using Cons.IH [of "h\<lparr>sh_stream := s1\<rparr>" o2] a(1) by simp_all
  with w a(2) Cons.prems(1) show ?case by (simp add: handler_write_def)
qed simp

lemma flush_closes: "flush_stream restore None s = (out, s') \<Longrightarrow> ra_closed s'"
  by (auto simp: flush_stream_def consume_accept_all Let_def release_segments_def clear_carry_def
      split: prod.splits if_splits option.splits)

text \<open>
  Streaming a response through the handler gives the bytes that restoring it whole gives, however it is
  cut; after the flush nothing more comes out and a write is refused.
\<close>

theorem handler_streams_response:
  "\<exists>o1 h1 o2 h2. handler_writes cs (new_sse_handler restore) = (Some o1, h1) \<and> handler_flush h1 = (o2, h2)
     \<and> o1 @ o2 = reassemble (case restore of None \<Rightarrow> backfill new_backfiller (snapshot new_backfiller) | Some f \<Rightarrow> f) None [concat cs]
     \<and> handler_closed h2 \<and> handler_write c h2 = (None, h2) \<and> handler_flush h2 = ([], h2)"
proof -
  let ?h = "new_sse_handler restore" and ?f = "case restore of None \<Rightarrow> backfill new_backfiller (snapshot new_backfiller) | Some f \<Rightarrow> f"
  have f: "handler_restore ?h = ?f" "sh_stream ?h = new_reassembler" "\<not> ra_closed new_reassembler"
    by (simp_all add: new_sse_handler_def handler_restore_def new_reassembler_def)
  obtain o1 s1 where w: "write_all ?f None cs new_reassembler = (o1, s1)" by fastforce
  with handler_writes_all [of ?h cs o1 s1] f
  have hw: "handler_writes cs ?h = (Some o1, ?h\<lparr>sh_stream := s1\<rparr>)" by simp
  obtain o2 s2 where fl: "flush_stream ?f None s1 = (o2, s2)" by fastforce
  then have hf: "handler_flush (?h\<lparr>sh_stream := s1\<rparr>) = (o2, ?h\<lparr>sh_stream := s2\<rparr>)"
    using f by (simp add: handler_flush_def handler_restore_def)
  have closed: "ra_closed s2" using flush_closes [OF fl] .
  have "reassemble ?f None cs = o1 @ o2" using w fl by (simp add: reassemble_def)
  then have "o1 @ o2 = reassemble ?f None [concat cs]" by (metis reassemble_all_chunks)
  with hw hf closed show ?thesis
    by (intro exI conjI) (auto simp: handler_closed_def handler_write_def handler_flush_def closed_silent)
qed

end
