(* ===== verification/Supply.thy ===== *)
theory Supply
  imports Prelude
begin

text \<open>
  The vocabulary of \<open>pkg/supply\<close>: the typed errors, document size caps, versions
  (\<open>rules_cache.go\<close>), base64 raw-URL decoding and the signature check (\<open>substrate.go\<close>). The
  Ed25519 primitive and the reflective strict JSON decoder are arguments. A contract of its own
  (\<open>verifier\<close>) says what the clients of a \<open>Verifier\<close> rely on.
\<close>

section \<open>Errors\<close>

text \<open>The sentinels \<open>errors.Is\<close> distinguishes; a wrapped cause is not kept.\<close>

datatype supply_error =
    ErrReplay int int | ErrHighWaterCorrupt
  | ErrBadSignature | ErrWrongKey | ErrDocTooLarge | ErrFetch
  | ErrMalformedDoc | ErrNotYetValid | ErrExpired | ErrSchemaVersion
  | ErrUnauthorizedKey | ErrKeyListRollback
  | ErrRevokedSerial | ErrRevokedVersion | ErrRevocationRollback
  | ErrCacheCorrupt | ErrNoCachedPack | ErrDigestMismatch | ErrMinBinaryVersion | ErrBadVersion
  | ErrBadConfig | ErrChannelMismatch | ErrSerialMismatch | ErrCommandGate "bytes list" | ErrFilter
  | ErrUpdateChannel | ErrPlatformMismatch | ErrDowngrade | ErrDelegateFailed
  | ErrNoTarget | ErrRecoveryStuck | ErrIo | ErrPanic | ErrJoined supply_error supply_error

type_synonym 'a outcome = "(supply_error, 'a) result"

section \<open>Documents\<close>

definition domain_update_manifest :: bytes where "domain_update_manifest = ''tokenhush-update-manifest-v1''"
definition domain_update_revocations :: bytes where "domain_update_revocations = ''tokenhush-update-revocations-v1''"
definition domain_update_keylist :: bytes where "domain_update_keylist = ''tokenhush-update-keylist-v1''"
definition domain_rules_manifest :: bytes where "domain_rules_manifest = ''tokenhush-rules-manifest-v1''"
definition domain_rules_pack :: bytes where "domain_rules_pack = ''tokenhush-rules-pack-v1''"
definition domain_rules_revocations :: bytes where "domain_rules_revocations = ''tokenhush-rules-revocations-v1''"

lemmas domain_defs = domain_update_manifest_def domain_update_revocations_def domain_update_keylist_def
  domain_rules_manifest_def domain_rules_pack_def domain_rules_revocations_def

definition key_root_update :: bytes where "key_root_update = ''root-2026-09''"
definition key_rules_root :: bytes where "key_rules_root = ''rules-2026-09''"

definition max_update_doc_bytes :: nat where "max_update_doc_bytes = 128 * 1024"
definition max_rules_doc_bytes :: nat where "max_rules_doc_bytes = 256 * 1024"
definition max_artifact_bytes :: nat where "max_artifact_bytes = 256 * 1024 * 1024"

definition doc_limit :: "bytes \<Rightarrow> nat" where
  "doc_limit domain =
     (if domain = domain_rules_manifest \<or> domain = domain_rules_pack \<or> domain = domain_rules_revocations
      then max_rules_doc_bytes else max_update_doc_bytes)"

definition check_doc_size :: "bytes \<Rightarrow> bytes \<Rightarrow> unit outcome" where
  "check_doc_size domain raw = (if doc_limit domain < length raw then Inl ErrDocTooLarge else Inr ())"

text \<open>
  \<open>decodeFrozenDoc\<close>: the size cap, then the strict decode of exactly one JSON object, which the
  argument \<open>dec\<close> stands for (unknown fields and trailing data make it fail).
\<close>

definition decode_frozen_doc :: "(bytes \<Rightarrow> 'a option) \<Rightarrow> bytes \<Rightarrow> bytes \<Rightarrow> 'a outcome" where
  "decode_frozen_doc dec domain data =
     ok_or (check_doc_size domain data)
       (\<lambda>_. case dec data of None \<Rightarrow> Inl ErrMalformedDoc | Some doc \<Rightarrow> Inr doc)"

lemma decode_frozen_doc_Inr_iff:
  "decode_frozen_doc dec domain data = Inr doc \<longleftrightarrow> length data \<le> doc_limit domain \<and> dec data = Some doc"
  by (auto simp: decode_frozen_doc_def check_doc_size_def split: option.split)

section \<open>Base64, raw URL alphabet\<close>

definition b64_val :: "char \<Rightarrow> nat option" where
  "b64_val c =
     (if is_upper c then Some (byte_val c - 65)
      else if is_lower c then Some (byte_val c - 71)
      else if is_ascii_digit c then Some (byte_val c + 4)
      else if c = CHR ''-'' then Some 62
      else if c = CHR ''_'' then Some 63 else None)"

text \<open>Groups of four digits; a last group of two or three yields one or two bytes.\<close>

fun b64_groups :: "nat list \<Rightarrow> bytes option" where
  "b64_groups [] = Some []"
| "b64_groups [a] = None"
| "b64_groups [a, b] = Some [char_of (a * 4 + b div 16)]"
| "b64_groups [a, b, c] = Some [char_of (a * 4 + b div 16), char_of (b mod 16 * 16 + c div 4)]"
| "b64_groups (a # b # c # d # ds) =
     map_option (\<lambda>t. char_of (a * 4 + b div 16) # char_of (b mod 16 * 16 + c div 4) # char_of (c mod 4 * 64 + d) # t)
       (b64_groups ds)"

definition b64_decode :: "bytes \<Rightarrow> bytes option" where
  "b64_decode s =
     (let t = filter (\<lambda>c. c \<noteq> CHR 0x0A \<and> c \<noteq> CHR 0x0D) s
      in if list_all (\<lambda>c. b64_val c \<noteq> None) t then b64_groups (map (\<lambda>c. the (b64_val c)) t) else None)"

definition decode_signature :: "bytes \<Rightarrow> bytes outcome" where
  "decode_signature s = (case b64_decode s of None \<Rightarrow> Inl ErrBadSignature | Some raw \<Rightarrow> Inr raw)"

section \<open>Signatures\<close>

definition public_key_size :: nat where "public_key_size = 32"
definition signature_size :: nat where "signature_size = 64"

definition verify_ed25519 :: "(bytes \<Rightarrow> bytes \<Rightarrow> bytes \<Rightarrow> bool) \<Rightarrow> bytes \<Rightarrow> bytes \<Rightarrow> bytes \<Rightarrow> unit outcome" where
  "verify_ed25519 ed public input sig =
     (case b64_decode public of
        None \<Rightarrow> Inl ErrWrongKey
      | Some pub \<Rightarrow>
          if length pub \<noteq> public_key_size then Inl ErrWrongKey
          else if length sig \<noteq> signature_size then Inl ErrBadSignature
          else if \<not> ed pub input sig then Inl ErrBadSignature else Inr ())"

type_synonym verify_fun = "bytes \<Rightarrow> bytes \<Rightarrow> bytes \<Rightarrow> bytes \<Rightarrow> unit outcome"

text \<open>\<open>StaticVerifier\<close>: the two embedded roots.\<close>

definition root_update_public :: bytes where
  "root_update_public = ''6X3Sz-1c9u5iySAkHMSR4MvxPy812FV7kjrqd-HHZvQ''"

definition rules_root_public :: bytes where
  "rules_root_public = ''IBCvse8BQWafHk0HwLbaq9gycQm_9uDN8-6DHd-Ucvw''"

definition default_root_keys :: "(bytes \<times> bytes) list" where
  "default_root_keys = [(key_root_update, root_update_public), (key_rules_root, rules_root_public)]"

text \<open>
  \<open>StaticVerifier.Verify\<close> and \<open>keySetVerifier.Verify\<close> differ in where the key comes from only:
  an empty domain and an unknown key id are refused before any cryptography.
\<close>

definition verify_with :: "(bytes \<Rightarrow> bytes \<Rightarrow> bytes \<Rightarrow> bool) \<Rightarrow> (bytes \<Rightarrow> bytes option) \<Rightarrow> verify_fun" where
  "verify_with ed keys domain key_id input sig =
     (if domain = [] then Inl ErrBadSignature
      else case keys key_id of
        None \<Rightarrow> Inl ErrWrongKey
      | Some public \<Rightarrow> verify_ed25519 ed public input sig)"

definition static_verify :: "(bytes \<Rightarrow> bytes \<Rightarrow> bytes \<Rightarrow> bool) \<Rightarrow> verify_fun" where
  "static_verify ed = verify_with ed (map_of default_root_keys)"

text \<open>\<open>verifyFrozen\<close>: a missing verifier and an undecodable signature fail closed.\<close>

definition verify_frozen :: "verify_fun option \<Rightarrow> bytes \<Rightarrow> bytes \<Rightarrow> bytes \<Rightarrow> bytes \<Rightarrow> unit outcome" where
  "verify_frozen v domain key_id signature input =
     (case v of
        None \<Rightarrow> Inl ErrWrongKey
      | Some verify \<Rightarrow> ok_or (decode_signature signature) (\<lambda>sig. verify domain key_id input sig))"

text \<open>
  What the clients rely on: whatever passes was signed, over exactly the bytes checked, by a key
  the verifier knows under the id the document names.
\<close>

locale verifier =
  fixes ed :: "bytes \<Rightarrow> bytes \<Rightarrow> bytes \<Rightarrow> bool"
    and keys :: "bytes \<Rightarrow> bytes option"
    and verify :: verify_fun
  assumes sound: "verify domain key_id input sig = Inr u \<Longrightarrow>
      \<exists>public pub. keys key_id = Some public \<and> b64_decode public = Some pub \<and> ed pub input sig"
    and empty_domain: "verify [] key_id input sig \<noteq> Inr u"
begin

definition signed :: "bytes \<Rightarrow> bytes \<Rightarrow> bytes \<Rightarrow> bool" where
  "signed key_id signature input \<longleftrightarrow>
     (\<exists>public pub sig. keys key_id = Some public \<and> b64_decode public = Some pub \<and>
        b64_decode signature = Some sig \<and> ed pub input sig)"

lemma frozen_signed: "verify_frozen (Some verify) domain key_id signature input = Inr u \<Longrightarrow> signed key_id signature input"
  by (auto simp: verify_frozen_def decode_signature_def signed_def ok_or_Inr_iff dest!: sound split: option.splits)

lemma unknown_key_refused: "keys key_id = None \<Longrightarrow> verify_frozen (Some verify) domain key_id signature input \<noteq> Inr u"
  using frozen_signed by (fastforce simp: signed_def)

end

lemma verify_with_verifier: "verifier ed keys (verify_with ed keys)"
  by unfold_locales (auto simp: verify_with_def verify_ed25519_def split: option.splits if_splits)

interpretation static: verifier ed "map_of default_root_keys" "static_verify ed" for ed
  unfolding static_verify_def by (rule verify_with_verifier)

text \<open>For the witnesses: a well-formed signature, and the embedded roots accepting it.\<close>

definition sample_signature :: bytes where
  "sample_signature = replicate 86 CHR ''A''"

lemma sample_signature_decodes: "\<exists>sig. b64_decode sample_signature = Some sig \<and> length sig = 64"
proof -
  have "map_option length (b64_decode sample_signature) = Some 64" by code_simp
  then show ?thesis by (cases "b64_decode sample_signature") simp_all
qed

lemma root_keys_decode:
  "\<exists>pub. b64_decode root_update_public = Some pub \<and> length pub = 32"
  "\<exists>pub. b64_decode rules_root_public = Some pub \<and> length pub = 32"
proof -
  have "map_option length (b64_decode root_update_public) = Some 32"
    "map_option length (b64_decode rules_root_public) = Some 32" by code_simp+
  then show "\<exists>pub. b64_decode root_update_public = Some pub \<and> length pub = 32"
    "\<exists>pub. b64_decode rules_root_public = Some pub \<and> length pub = 32"
    by (cases "b64_decode root_update_public"; cases "b64_decode rules_root_public"; simp)+
qed

lemma sample_verify:
  assumes "domain \<noteq> []" "key_id \<in> {key_root_update, key_rules_root}"
  shows "verify_frozen (Some (static_verify (\<lambda>_ _ _. True))) domain key_id sample_signature input = Inr ()"
proof -
  have "key_rules_root \<noteq> key_root_update" by (simp add: key_rules_root_def key_root_update_def)
  then show ?thesis
    using assms sample_signature_decodes root_keys_decode
    by (auto simp: verify_frozen_def decode_signature_def static_verify_def verify_with_def default_root_keys_def
        verify_ed25519_def public_key_size_def signature_size_def)
qed

section \<open>Numbers\<close>

text \<open>\<open>strconv.FormatInt(n, 10)\<close>.\<close>

definition format_int :: "int \<Rightarrow> bytes" where
  "format_int n = (if n < 0 then CHR ''-'' # itoa (nat (- n)) else itoa (nat n))"

section \<open>Versions\<close>

text \<open>A parsed version, ordered by its components from the left.\<close>

datatype version = Version nat nat nat

instantiation version :: linorder
begin

fun less_version :: "version \<Rightarrow> version \<Rightarrow> bool" where
  "less_version (Version a b c) (Version d e f) \<longleftrightarrow> a < d \<or> a = d \<and> (b < e \<or> b = e \<and> c < f)"

definition less_eq_version :: "version \<Rightarrow> version \<Rightarrow> bool" where
  "less_eq_version v w \<longleftrightarrow> v < w \<or> v = w"

instance
proof
  fix u v w :: version
  show "v < w \<longleftrightarrow> v \<le> w \<and> \<not> w \<le> v" by (cases v; cases w) (auto simp: less_eq_version_def)
  show "v \<le> v" by (simp add: less_eq_version_def)
  show "u \<le> v \<Longrightarrow> v \<le> w \<Longrightarrow> u \<le> w" by (cases u; cases v; cases w) (auto simp: less_eq_version_def)
  show "v \<le> w \<Longrightarrow> w \<le> v \<Longrightarrow> v = w" by (cases v; cases w) (auto simp: less_eq_version_def)
  show "v \<le> w \<or> w \<le> v" by (cases v; cases w) (auto simp: less_eq_version_def)
qed

end

text \<open>\<open>strconv.Atoi\<close> on a part without a sign: digits only, within 63 bits.\<close>

definition atoi_unsigned :: "bytes \<Rightarrow> nat option" where
  "atoi_unsigned s =
     (if s = [] \<or> \<not> list_all is_ascii_digit s \<or> 2 ^ 63 \<le> digits_value s then None else Some (digits_value s))"

fun parse_parts :: "bytes list \<Rightarrow> nat list option" where
  "parse_parts [] = Some []"
| "parse_parts (p # ps) = (case atoi_unsigned p of None \<Rightarrow> None | Some n \<Rightarrow> map_option (Cons n) (parse_parts ps))"

text \<open>
  \<open>parseVersion\<close>: the text is cut before the first \<open>-\<close> or \<open>+\<close>, so no part can have a sign; missing
  components are zero.
\<close>

definition version_core :: "bytes \<Rightarrow> bytes" where
  "version_core text = takeWhile (\<lambda>c. c \<noteq> CHR ''-'' \<and> c \<noteq> CHR ''+'') (trim_prefix ''v'' (trim_space text))"

definition parse_version :: "bytes \<Rightarrow> version outcome" where
  "parse_version text =
     (let core = version_core text; parts = split_on CHR ''.'' core
      in if core = [] \<or> 3 < length parts then Inl ErrBadVersion
         else case parse_parts parts of
           Some [a] \<Rightarrow> Inr (Version a 0 0)
         | Some [a, b] \<Rightarrow> Inr (Version a b 0)
         | Some [a, b, c] \<Rightarrow> Inr (Version a b c)
         | _ \<Rightarrow> Inl ErrBadVersion)"

fun components :: "version \<Rightarrow> nat list" where
  "components (Version a b c) = [a, b, c]"

text \<open>The loops over the components: a smaller one refuses, a larger one ends the loop.\<close>

fun below_minimum :: "nat list \<Rightarrow> nat list \<Rightarrow> bool" where
  "below_minimum (b # bs) (m # ms) = (if b < m then True else if m < b then False else below_minimum bs ms)"
| "below_minimum _ _ = False"

definition check_min_binary_version :: "bytes \<Rightarrow> version \<Rightarrow> unit outcome" where
  "check_min_binary_version required binary =
     (if trim_space required = [] then Inr ()
      else ok_or (parse_version required)
        (\<lambda>minimum. if below_minimum (components binary) (components minimum) then Inl ErrMinBinaryVersion else Inr ()))"

lemma below_minimum_less: "below_minimum (components v) (components w) \<longleftrightarrow> v < w"
  by (cases v; cases w) auto

text \<open>
  The minimum-version gate is the order on versions: a document passes exactly when it names
  no minimum or one that parses and is at most the running binary's version; an unparsable minimum
  never passes.
\<close>

theorem min_version_gate:
  "check_min_binary_version required binary = Inr () \<longleftrightarrow>
     trim_space required = [] \<or> (\<exists>minimum. parse_version required = Inr minimum \<and> minimum \<le> binary)"
  by (cases "parse_version required")
    (auto simp: check_min_binary_version_def below_minimum_less not_less)

end
