(* ===== verification/Layering.thy ===== *)
theory Layering
  imports Supply "HOL-Library.List_Lexorder" "HOL-Library.Product_Lexorder"
begin

text \<open>
  The import guard of \<open>internal/layering\<close>: the encoded package graph, the reading of \<open>go list\<close>, and the
  check, with what a module that passes it may and may not import. Running \<open>go list\<close> is left out.
\<close>

section \<open>The encoded graph\<close>

type_synonym edge = "bytes \<times> bytes"

definition edge_text :: "edge \<Rightarrow> bytes" where
  "edge_text e = fst e @ '' -> '' @ snd e"

definition allowed_graph :: "(bytes \<times> bytes list) list" where
  "allowed_graph =
     [(''pkg/platform'', []), (''pkg/audit'', []), (''pkg/protocol'', []), (''pkg/redact'', [''pkg/protocol'']),
      (''pkg/filter'', [''pkg/protocol'', ''pkg/audit'']), (''pkg/config'', [''pkg/platform'']),
      (''pkg/supply'', [''pkg/platform'', ''pkg/filter'']),
      (''pkg/proxy'', [''pkg/protocol'', ''pkg/redact'', ''pkg/filter'', ''pkg/audit'', ''pkg/config'', ''pkg/platform'']),
      (''internal/guards'', []), (''internal/layering'', []), (''internal/layering/cmd'', [''internal/layering'']),
      (''internal/cli'', [''pkg/platform'', ''pkg/audit'', ''pkg/protocol'', ''pkg/redact'', ''pkg/filter'', ''pkg/config'',
                        ''pkg/supply'', ''pkg/proxy'']),
      (''cmd/tokenhush'', [''internal/cli''])]"

definition expected_packages :: "bytes list" where
  "expected_packages = sort (map fst allowed_graph)"

definition edge_allowed :: "bytes \<Rightarrow> bytes \<Rightarrow> bool" where
  "edge_allowed source target =
     (case map_of allowed_graph source of None \<Rightarrow> False | Some targets \<Rightarrow> target \<in> set targets)"

section \<open>Reading go list\<close>

record import_graph =
  ig_present :: "bytes list"
  ig_edges :: "edge list"

definition is_testdata :: "bytes \<Rightarrow> bool" where
  "is_testdata pkg \<longleftrightarrow>
     pkg = ''testdata'' \<or> prefix ''testdata/'' pkg \<or> suffix ''/testdata'' pkg \<or> sublist ''/testdata/'' pkg"

definition module_path :: bytes where "module_path = ''github.com/fregie/tokenhush''"

definition internal_suffix :: "bytes \<Rightarrow> bytes option" where
  "internal_suffix import_path =
     (let p = map (\<lambda>c. if c = CHR 0x5C then CHR ''/'' else c) import_path
      in if p = module_path then Some []
         else if prefix (module_path @ ''/'') p then Some (drop (length module_path + 1) p) else None)"

text \<open>\<open>strings.Fields\<close>.\<close>

function fields_from :: "bytes \<Rightarrow> bytes \<Rightarrow> bytes list" where
  "fields_from cur [] = (if cur = [] then [] else [cur])"
| "fields_from cur (c # cs) =
     (case find (\<lambda>r. prefix r (c # cs)) space_runes of
        Some r \<Rightarrow> (if cur = [] then [] else [cur]) @ fields_from [] (drop (max 1 (length r)) (c # cs))
      | None \<Rightarrow> fields_from (cur @ [c]) cs)"
  by pat_completeness auto
termination by (relation "measure (\<lambda>(_, s). length s)") auto

definition go_fields :: "bytes \<Rightarrow> bytes list" where "go_fields s = fields_from [] s"

definition kept_suffix :: "bytes \<Rightarrow> bytes option" where
  "kept_suffix path = (case internal_suffix path of None \<Rightarrow> None | Some s \<Rightarrow> if is_testdata s then None else Some s)"

definition parse_line :: "bytes list \<Rightarrow> import_graph \<Rightarrow> import_graph" where
  "parse_line fs g =
     (case fs of
        [] \<Rightarrow> g
      | path # imports \<Rightarrow>
          (case kept_suffix path of
             None \<Rightarrow> g
           | Some source \<Rightarrow>
               g\<lparr>ig_present := List.insert source (ig_present g),
                 ig_edges := ig_edges g @ map (Pair source) (List.map_filter kept_suffix imports)\<rparr>))"

definition parse_go_list :: "bytes \<Rightarrow> import_graph" where
  "parse_go_list out =
     fold (\<lambda>line. parse_line (go_fields line)) (split_on CHR 0x0A out) \<lparr>ig_present = [], ig_edges = []\<rparr>"

section \<open>The check\<close>

record verdict_line =
  vl_package :: bytes
  vl_edge :: edge
  vl_reason :: bytes

record guard_result =
  gr_violations :: "verdict_line list"
  gr_skips :: "verdict_line list"

definition no_edge :: edge where "no_edge = ([], [])"

text \<open>\<open>sortResult\<close>; names without spaces, as \<open>go list\<close> prints them, make different edges print differently.\<close>

definition sort_lines :: "verdict_line list \<Rightarrow> verdict_line list" where
  "sort_lines ls = sort_key (\<lambda>l. (vl_package l, edge_text (vl_edge l), vl_reason l)) ls"

text \<open>What one edge contributes: a violation, a skip or nothing.\<close>

datatype finding_kind = AsViolation verdict_line | AsSkip verdict_line | Fine

definition judge_edge :: "bytes list \<Rightarrow> bool \<Rightarrow> edge \<Rightarrow> finding_kind" where
  "judge_edge present full e =
     (if is_testdata (fst e) \<or> is_testdata (snd e) then Fine
      else if fst e \<notin> set present
        then AsSkip \<lparr>vl_package = fst e, vl_edge = e, vl_reason = ''source package does not exist yet: '' @ edge_text e\<rparr>
      else if snd e \<notin> set present
        then (if full
              then AsViolation \<lparr>vl_package = fst e, vl_edge = e,
                     vl_reason = ''missing required edge: '' @ edge_text e @ '' (target '' @ snd e @ '' does not exist)''\<rparr>
              else AsSkip \<lparr>vl_package = fst e, vl_edge = e,
                     vl_reason = ''missing required edge, target does not exist yet: '' @ edge_text e\<rparr>)
      else if \<not> edge_allowed (fst e) (snd e)
        then AsViolation \<lparr>vl_package = fst e, vl_edge = e, vl_reason = ''forbidden internal import: '' @ edge_text e\<rparr>
      else Fine)"

definition judge_expected :: "bytes list \<Rightarrow> bool \<Rightarrow> bytes \<Rightarrow> finding_kind" where
  "judge_expected present full pkg =
     (if pkg \<in> set present then Fine
      else (if full then AsViolation else AsSkip)
        \<lparr>vl_package = pkg, vl_edge = no_edge, vl_reason = ''expected package '' @ pkg @ '' does not exist yet''\<rparr>)"

definition judge_present :: "bytes \<Rightarrow> finding_kind" where
  "judge_present pkg =
     (if map_of allowed_graph pkg \<noteq> None then Fine
      else AsViolation \<lparr>vl_package = pkg, vl_edge = no_edge,
             vl_reason = ''package '' @ pkg @ '' is not in the allowed dependency graph''\<rparr>)"

fun violation_line :: "finding_kind \<Rightarrow> verdict_line option" where
  "violation_line (AsViolation l) = Some l"
| "violation_line (AsSkip l) = None"
| "violation_line Fine = None"

fun skip_line :: "finding_kind \<Rightarrow> verdict_line option" where
  "skip_line (AsViolation l) = None"
| "skip_line (AsSkip l) = Some l"
| "skip_line Fine = None"

definition check_layering :: "import_graph \<Rightarrow> bool \<Rightarrow> guard_result" where
  "check_layering g full =
     (let present = filter (\<lambda>p. \<not> is_testdata p) (ig_present g);
          found = map (judge_expected present full) expected_packages @ map judge_present present
                    @ map (judge_edge present full) (ig_edges g)
      in \<lparr>gr_violations = sort_lines (List.map_filter violation_line found),
          gr_skips = sort_lines (List.map_filter skip_line found)\<rparr>)"

section \<open>What a passing module looks like\<close>

definition imports_of :: "import_graph \<Rightarrow> edge set" where
  "imports_of g = {e \<in> set (ig_edges g). \<not> is_testdata (fst e) \<and> \<not> is_testdata (snd e)}"

definition graph_ok :: "import_graph \<Rightarrow> bool" where
  "graph_ok g \<longleftrightarrow> (\<forall>e \<in> set (ig_edges g). fst e \<in> set (ig_present g))"

lemma parse_line_ok: "graph_ok g \<Longrightarrow> graph_ok (parse_line fs g)"
  by (auto simp: parse_line_def graph_ok_def split: list.split option.split)

lemma parse_go_list_ok: "graph_ok (parse_go_list out)"
proof -
  have "graph_ok g \<Longrightarrow> graph_ok (fold (\<lambda>line. parse_line (go_fields line)) ls g)" for ls g
    by (induction ls arbitrary: g) (auto intro: parse_line_ok)
  then show ?thesis by (simp add: parse_go_list_def graph_ok_def)
qed

definition layer :: "bytes \<Rightarrow> nat" where
  "layer pkg =
     (if pkg \<in> {''pkg/platform'', ''pkg/audit'', ''pkg/protocol'', ''internal/guards'', ''internal/layering''} then 0
      else if pkg \<in> {''pkg/redact'', ''pkg/filter'', ''pkg/config'', ''internal/layering/cmd''} then 1
      else if pkg \<in> {''pkg/supply'', ''pkg/proxy''} then 2
      else if pkg = ''internal/cli'' then 3 else 4)"

lemma allowed_descends:
  assumes "edge_allowed s t"
  shows "layer t < layer s"
proof -
  have all: "list_all (\<lambda>p. list_all (\<lambda>t. layer t < layer (fst p)) (snd p)) allowed_graph" by code_simp
  from assms obtain ts where ts: "map_of allowed_graph s = Some ts" "t \<in> set ts"
    unfolding edge_allowed_def by (cases "map_of allowed_graph s") simp_all
  from all map_of_SomeD [OF ts(1)] have "list_all (\<lambda>t. layer t < layer s) ts"
    unfolding list_all_iff by fastforce
  with ts(2) show ?thesis unfolding list_all_iff by blast
qed

lemma map_filter_Nil: "List.map_filter f xs = [] \<Longrightarrow> x \<in> set xs \<Longrightarrow> f x = None"
  by (auto simp: List.map_filter_def filter_empty_conv)

lemma sort_lines_Nil: "sort_lines ls = [] \<Longrightarrow> ls = []"
  unfolding sort_lines_def by (metis length_0_conv length_sort)

lemma violation_free:
  assumes "gr_violations (check_layering g full) = []" "e \<in> set (ig_edges g)"
  shows "violation_line (judge_edge (filter (\<lambda>p. \<not> is_testdata p) (ig_present g)) full e) = None"
  by (rule map_filter_Nil [OF sort_lines_Nil [OF assms(1) [unfolded check_layering_def Let_def guard_result.simps]]])
    (use assms(2) in simp)

lemma passing_edges:
  assumes "gr_violations (check_layering g True) = []" "graph_ok g" "(s, t) \<in> imports_of g"
  shows "edge_allowed s t"
proof -
  have e: "(s, t) \<in> set (ig_edges g)" "\<not> is_testdata s" "\<not> is_testdata t" using assms(3) by (auto simp: imports_of_def)
  then have "s \<in> set (filter (\<lambda>p. \<not> is_testdata p) (ig_present g))"
    using assms(2) by (fastforce simp: graph_ok_def)
  with violation_free [OF assms(1) e(1)] e(2,3) show ?thesis
    unfolding judge_edge_def by (simp split: if_splits)
qed

text \<open>
  A module that passes the full check has a layered import relation: following imports, however far,
  strictly descends the layers, so there is no import cycle, and nothing that the proxy imports
  reaches the update code, nor the filter the redaction.
\<close>

theorem passing_module_layered:
  assumes "gr_violations (check_layering g True) = []" "graph_ok g" "(s, t) \<in> (imports_of g)\<^sup>+"
  shows "layer t < layer s \<and> (s, t) \<notin> {(''pkg/proxy'', ''pkg/supply''), (''pkg/filter'', ''pkg/redact'')}"
proof -
  from assms(3) have "layer t < layer s"
  proof induction
    case (base u)
    then show ?case using passing_edges [OF assms(1,2)] allowed_descends by blast
  next
    case (step u w)
    then show ?case using passing_edges [OF assms(1,2) step(2)] allowed_descends by fastforce
  qed
  moreover have "layer ''pkg/proxy'' = layer ''pkg/supply''" "layer ''pkg/filter'' = layer ''pkg/redact''"
    by code_simp+
  ultimately show ?thesis by auto
qed

definition sample_graph :: import_graph where
  "sample_graph =
     \<lparr>ig_present = map fst allowed_graph, ig_edges = [(''cmd/tokenhush'', ''internal/cli''), (''internal/cli'', ''pkg/protocol'')]\<rparr>"

lemma passing_module_layered_witness:
  "gr_violations (check_layering sample_graph True) = [] \<and> layer ''pkg/protocol'' < layer ''cmd/tokenhush''"
proof -
  have ok: "gr_violations (check_layering sample_graph True) = []" by code_simp
  have wf: "graph_ok sample_graph" by (simp add: graph_ok_def sample_graph_def allowed_graph_def)
  have "list_all (\<lambda>p. \<not> is_testdata p) [''cmd/tokenhush'', ''internal/cli'', ''pkg/protocol'']" by code_simp
  then have "(''cmd/tokenhush'', ''internal/cli'') \<in> imports_of sample_graph"
    "(''internal/cli'', ''pkg/protocol'') \<in> imports_of sample_graph"
    unfolding imports_of_def sample_graph_def by simp_all
  then have "(''cmd/tokenhush'', ''pkg/protocol'') \<in> (imports_of sample_graph)\<^sup>+"
    by (rule trancl_into_trancl [OF r_into_trancl])
  from passing_module_layered [OF ok wf this] ok show ?thesis by blast
qed

end
