(* ===== verification/Config.thy ===== *)
theory Config
  imports Prelude
begin

text \<open>
  The configuration of \<open>pkg/config/config.go\<close>, and the listener of \<open>pkg/proxy/listen.go\<close>, which both
  read an address with \<open>net.ParseIP\<close>. The YAML decoder and the kernel's \<open>bind\<close> are arguments.
\<close>

section \<open>Addresses\<close>

text \<open>
  \<open>net.ParseIP\<close>: four decimal octets without leading zeros, or groups of at most four hexadecimal
  digits with one \<open>::\<close> and an optional dotted tail. The value is the sixteen bytes of an IP; an IPv4
  address is kept under the prefix \<open>::ffff:\<close>. A zone is refused.
\<close>

type_synonym ip = "nat list"

definition octet :: "bytes \<Rightarrow> nat option" where
  "octet ds =
     (if ds = [] \<or> length ds > 3 \<or> \<not> list_all is_ascii_digit ds then None
      else if hd ds = CHR ''0'' \<and> length ds > 1 then None
      else if digits_value ds > 255 then None
      else Some (digits_value ds))"

definition parse_ipv4_fields :: "bytes \<Rightarrow> nat list option" where
  "parse_ipv4_fields s =
     (let fs = split_on CHR ''.'' s
      in if length fs = 4 \<and> list_all (\<lambda>f. octet f \<noteq> None) fs then Some (map (\<lambda>f. the (octet f)) fs) else None)"

definition v4_prefix :: "nat list" where
  "v4_prefix = replicate 10 0 @ [255, 255]"

definition is_hex_char :: "char \<Rightarrow> bool" where
  "is_hex_char c \<longleftrightarrow>
     is_ascii_digit c \<or> in_range CHR ''a'' CHR ''f'' c \<or> in_range CHR ''A'' CHR ''F'' c"

definition hex_char_value :: "char \<Rightarrow> nat" where
  "hex_char_value c =
     (if is_ascii_digit c then byte_val c - 48
      else if is_lower c then byte_val c - 87 else byte_val c - 55)"

definition hex_value :: "bytes \<Rightarrow> nat" where
  "hex_value ds = foldl (\<lambda>n c. n * 16 + hex_char_value c) 0 ds"

text \<open>
  The loop of the IPv6 parser: \<open>got\<close> are the bytes of the fields so far and \<open>gap\<close> the number of bytes
  before the \<open>::\<close>. The result is the final \<open>got\<close> and \<open>gap\<close>, with the whole text used.
\<close>

function v6_fields :: "nat list \<Rightarrow> nat option \<Rightarrow> bytes \<Rightarrow> (nat list \<times> nat option) option" where
  "v6_fields got gap s =
     (let ds = takeWhile is_hex_char s; rest = dropWhile is_hex_char s
      in if 16 \<le> length got then (if s = [] then Some (got, gap) else None)
         else if ds = [] \<or> length ds > 4 then None
         else if prefix ''.'' rest then
           (if gap = None \<and> length got \<noteq> 12 then None
            else if length got + 4 > 16 then None
            else map_option (\<lambda>q. (got @ q, gap)) (parse_ipv4_fields s))
         else
           (let got = got @ [hex_value ds div 256, hex_value ds mod 256]
            in if rest = [] then Some (got, gap)
               else if hd rest \<noteq> CHR '':'' \<or> tl rest = [] then None
               else if prefix '':'' (tl rest) then
                 (if gap \<noteq> None then None
                  else if tl (tl rest) = [] then Some (got, Some (length got))
                  else v6_fields got (Some (length got)) (tl (tl rest)))
               else v6_fields got gap (tl rest)))"
  by pat_completeness auto
termination
proof (relation "measure (\<lambda>(_, _, s). length s)", goal_cases)
  case (2 got gap s ds rest got')
  then have "tl rest \<noteq> []" "length rest \<le> length s" by (simp_all add: length_dropWhile_le)
  then show ?case by (cases rest) auto
next
  case (3 got gap s ds rest got')
  then have "tl rest \<noteq> []" "length rest \<le> length s" by (simp_all add: length_dropWhile_le)
  then show ?case by (cases rest) auto
qed simp

declare v6_fields.simps [simp del]

definition parse_ipv6 :: "bytes \<Rightarrow> ip option" where
  "parse_ipv6 s =
     (if CHR ''%'' \<in> set s then None
      else if s = ''::'' then Some (replicate 16 0)
      else case (if prefix ''::'' s then v6_fields [] (Some 0) (drop 2 s) else v6_fields [] None s) of
             None \<Rightarrow> None
           | Some (got, gap) \<Rightarrow>
               (case gap of
                  None \<Rightarrow> if length got = 16 then Some got else None
                | Some k \<Rightarrow>
                    if length got < 16 then Some (take k got @ replicate (16 - length got) 0 @ drop k got)
                    else None))"

definition parse_ip :: "bytes \<Rightarrow> ip option" where
  "parse_ip s =
     (case find (\<lambda>c. c \<in> set ''.:%'') s of
        None \<Rightarrow> None
      | Some c \<Rightarrow>
          if c = CHR ''.'' then map_option ((@) v4_prefix) (parse_ipv4_fields s)
          else if c = CHR '':'' then parse_ipv6 s
          else None)"

definition ipv4_loopback :: ip where "ipv4_loopback = v4_prefix @ [127, 0, 0, 1]"
definition ipv6_loopback :: ip where "ipv6_loopback = replicate 15 0 @ [1]"

definition is_loopback :: "ip \<Rightarrow> bool" where
  "is_loopback ip =
     (if length ip = 16 \<and> take 12 ip = v4_prefix then ip ! 12 = 127 else ip = ipv6_loopback)"

section \<open>The schema\<close>

record listen =
  listen_host :: bytes
  listen_port :: int

record detectors =
  det_prefix :: bool
  det_email :: bool
  det_luhn :: bool
  det_jwt :: bool
  det_pem :: bool
  det_entropy :: bool

record upstream_entry =
  up_match :: bytes
  up_target :: bytes

record config =
  cfg_listen :: listen
  cfg_log_level :: bytes
  cfg_detectors :: detectors
  cfg_allowlist :: "bytes list"
  cfg_upstreams :: "upstream_entry list"
  cfg_scan_budget :: int
  cfg_detector_timeout :: int
  cfg_max_body :: int
  cfg_response_buffer :: int
  cfg_response_timeout :: int

datatype config_error = UnknownField bytes | InvalidValue bytes | ConfigUnreadable

definition default_port :: int where "default_port = 8787"
definition default_scan_budget :: int where "default_scan_budget = 33554432"
definition default_max_body :: int where "default_max_body = 67108864"
definition default_response_buffer :: int where "default_response_buffer = 33554432"

text \<open>Durations are nanoseconds.\<close>

definition second :: int where "second = 1000000000"
definition default_detector_timeout :: int where "default_detector_timeout = 30 * second"
definition default_response_timeout :: int where "default_response_timeout = 5 * 60 * second"

definition default_detectors :: detectors where
  "default_detectors =
     \<lparr>det_prefix = True, det_email = True, det_luhn = True, det_jwt = True, det_pem = True,
      det_entropy = False\<rparr>"

definition default_config :: config where
  "default_config =
     \<lparr>cfg_listen = \<lparr>listen_host = ''127.0.0.1'', listen_port = default_port\<rparr>,
      cfg_log_level = ''info'', cfg_detectors = default_detectors,
      cfg_allowlist = [], cfg_upstreams = [], cfg_scan_budget = default_scan_budget,
      cfg_detector_timeout = default_detector_timeout, cfg_max_body = default_max_body,
      cfg_response_buffer = default_response_buffer, cfg_response_timeout = default_response_timeout\<rparr>"

text \<open>\<open>Detectors.UnmarshalYAML\<close> on the decoded switches, in the order the map is ranged over.\<close>

definition set_switch :: "bytes \<Rightarrow> bool \<Rightarrow> detectors \<Rightarrow> (config_error, detectors) result" where
  "set_switch name on d =
     (if name = ''prefix'' then Inr (d\<lparr>det_prefix := on\<rparr>)
      else if name = ''email'' then Inr (d\<lparr>det_email := on\<rparr>)
      else if name = ''luhn'' then Inr (d\<lparr>det_luhn := on\<rparr>)
      else if name = ''jwt'' then Inr (d\<lparr>det_jwt := on\<rparr>)
      else if name = ''pem'' then Inr (d\<lparr>det_pem := on\<rparr>)
      else if name = ''entropy'' then Inr (d\<lparr>det_entropy := on\<rparr>)
      else Inl (UnknownField (''detectors.'' @ name)))"

fun unmarshal_detectors :: "(bytes \<times> bool) list \<Rightarrow> detectors \<Rightarrow> (config_error, detectors) result" where
  "unmarshal_detectors [] d = Inr d"
| "unmarshal_detectors ((name, on) # sws) d = ok_or (set_switch name on d) (unmarshal_detectors sws)"

definition log_levels :: "bytes list" where
  "log_levels = [''debug'', ''info'', ''warn'', ''error'']"

definition validate_listen :: "listen \<Rightarrow> config_error option" where
  "validate_listen l =
     (if listen_host l \<noteq> ''localhost'' \<and>
         (case parse_ip (listen_host l) of None \<Rightarrow> True | Some ip \<Rightarrow> \<not> is_loopback ip)
      then Some (InvalidValue ''listen.host'')
      else if listen_port l < 1 \<or> 65535 < listen_port l then Some (InvalidValue ''listen.port'')
      else None)"

fun validate_upstreams :: "nat \<Rightarrow> upstream_entry list \<Rightarrow> config_error option" where
  "validate_upstreams i [] = None"
| "validate_upstreams i (u # us) =
     (if up_match u = [] \<or> up_target u = [] then Some (InvalidValue (''upstreams['' @ itoa i @ '']''))
      else validate_upstreams (Suc i) us)"

definition validate_config :: "config \<Rightarrow> config_error option" where
  "validate_config c =
     (case validate_listen (cfg_listen c) of
        Some e \<Rightarrow> Some e
      | None \<Rightarrow>
          if cfg_log_level c \<notin> set log_levels then Some (InvalidValue ''log.level'')
          else if cfg_scan_budget c \<le> 0 then Some (InvalidValue ''scan_budget_bytes'')
          else if cfg_detector_timeout c \<le> 0 then Some (InvalidValue ''detector_timeout'')
          else if cfg_max_body c \<le> 0 then Some (InvalidValue ''max_body_bytes'')
          else if cfg_response_buffer c \<le> 0 then Some (InvalidValue ''response_buffer_bytes'')
          else if cfg_response_timeout c \<le> 0 then Some (InvalidValue ''response_timeout'')
          else validate_upstreams 0 (cfg_upstreams c))"

text \<open>
  What the strict decoder makes of a document over the defaults: a configuration, the end of the
  input, the error of a field's own unmarshaller, an unknown key, or another failure.
\<close>

datatype yaml_outcome =
  YamlConfig config | YamlEOF | YamlField config_error | YamlUnknown bytes | YamlFailure bytes

definition schema_error :: "yaml_outcome \<Rightarrow> config_error" where
  "schema_error y =
     (case y of
        YamlField e \<Rightarrow> e
      | YamlUnknown m \<Rightarrow> UnknownField m
      | YamlFailure m \<Rightarrow> InvalidValue m
      | _ \<Rightarrow> InvalidValue [])"

definition parse_config :: "(config \<Rightarrow> bytes \<Rightarrow> yaml_outcome) \<Rightarrow> bytes \<Rightarrow> (config_error, config) result" where
  "parse_config yaml data =
     (if trim_space data = [] then Inr default_config
      else case yaml default_config data of
             YamlEOF \<Rightarrow> Inr default_config
           | YamlConfig c \<Rightarrow> (case validate_config c of Some e \<Rightarrow> Inl e | None \<Rightarrow> Inr c)
           | y \<Rightarrow> Inl (schema_error y))"

text \<open>Reading the file: absent, unreadable, or its bytes.\<close>

datatype config_file = FileAbsent | FileUnreadable | FileBytes bytes

definition load_config ::
  "(config \<Rightarrow> bytes \<Rightarrow> yaml_outcome) \<Rightarrow> config_file \<Rightarrow> (config_error, config) result" where
  "load_config yaml f =
     (case f of
        FileAbsent \<Rightarrow> Inr default_config
      | FileUnreadable \<Rightarrow> Inl ConfigUnreadable
      | FileBytes data \<Rightarrow> parse_config yaml data)"

section \<open>The listener\<close>

datatype bind_error = AddressInUse | FamilyUnavailable | BindFailed
datatype listen_error = InvalidPort | NonLoopbackBind | ListenFailed bind_error

definition loopback_bind_ip :: "bytes \<Rightarrow> (listen_error, ip) result" where
  "loopback_bind_ip host =
     (let h = trim_space host
      in if h = [] \<or> equal_fold h ''localhost'' then Inr ipv4_loopback
         else (let h = (if prefix ''['' h \<and> suffix '']'' h then butlast (tl h) else h)
               in case parse_ip h of
                    None \<Rightarrow> Inl NonLoopbackBind
                  | Some ip \<Rightarrow> if is_loopback ip then Inr ip else Inl NonLoopbackBind))"

text \<open>
  \<open>bind ip port\<close> is the kernel's answer, the address the listener got. The second component is every
  address the function asked for, in order.
\<close>

definition listen_on ::
  "(ip \<Rightarrow> int \<Rightarrow> (bind_error, ip \<times> int) result) \<Rightarrow> bytes \<Rightarrow> int
     \<Rightarrow> (listen_error, ip \<times> int) result \<times> ip list" where
  "listen_on bind host port =
     (if port < 0 \<or> 65535 < port then (Inl InvalidPort, [])
      else case loopback_bind_ip host of
             Inl e \<Rightarrow> (Inl e, [])
           | Inr ip \<Rightarrow>
               (let direct = (\<lambda>asked ip.
                  (case bind ip port of
                     Inl e \<Rightarrow> (Inl (ListenFailed e), asked @ [ip])
                   | Inr a \<Rightarrow> (if is_loopback (fst a) then Inr a else Inl NonLoopbackBind, asked @ [ip])))
                in if ip = ipv6_loopback then
                     (case bind ip port of
                        Inr a \<Rightarrow> (Inr a, [ip])
                      | Inl FamilyUnavailable \<Rightarrow> direct [ip] ipv4_loopback
                      | Inl e \<Rightarrow> (Inl (ListenFailed e), [ip]))
                   else direct [] ip))"


section \<open>Loopback only\<close>

lemma is_loopback_constants [simp]: "is_loopback ipv4_loopback" "is_loopback ipv6_loopback"
  by code_simp+

lemma loopback_bind_ip_loopback: "loopback_bind_ip host = Inr ip \<Longrightarrow> is_loopback ip"
  by (auto simp: loopback_bind_ip_def Let_def split: if_splits option.splits)

text \<open>
  Whatever host is configured, every address the listener asks the kernel for is a loopback address,
  and so is the address of a listener it returns, if the kernel binds \<open>::1\<close> to a loopback address.
\<close>

theorem listen_loopback_only:
  assumes "\<And>ip q. bind ipv6_loopback port = Inr (ip, q) \<Longrightarrow> is_loopback ip"
  shows "(\<forall>ip \<in> set (snd (listen_on bind host port)). is_loopback ip)
     \<and> (\<forall>a. fst (listen_on bind host port) = Inr a \<longrightarrow> is_loopback (fst a))"
proof (cases "loopback_bind_ip host")
  case (Inr ip)
  with loopback_bind_ip_loopback [OF this] assms show ?thesis
    by (auto simp: listen_on_def Let_def split: sum.splits bind_error.splits)
qed (simp add: listen_on_def)

text \<open>A configuration that validates names a host the listener accepts and a port it can bind.\<close>

lemma trim_fuel_fresh: "list_all (\<lambda>r. \<not> prefix r s) rs \<Longrightarrow> trim_fuel n rs s = s"
proof (cases n)
  case (Suc m)
  assume "list_all (\<lambda>r. \<not> prefix r s) rs"
  then have "find (\<lambda>r. prefix r s) rs = None" by (simp add: find_None_iff list_all_iff)
  with Suc show ?thesis by simp
qed simp

lemma prefix_hd: "prefix r s \<Longrightarrow> r \<noteq> [] \<Longrightarrow> hd r \<in> set s"
  by (cases r) (auto simp: prefix_def)

lemma trim_space_fresh:
  assumes "\<forall>r \<in> set space_runes. r \<noteq> [] \<and> hd r \<notin> set s \<and> hd (rev r) \<notin> set s"
  shows "trim_space s = s"
proof -
  have "list_all (\<lambda>r. \<not> prefix r s) space_runes"
    using assms prefix_hd unfolding list_all_iff by blast
  moreover have "list_all (\<lambda>r. \<not> prefix r (rev s)) (map rev space_runes)"
    using assms prefix_hd [of _ "rev s"] unfolding list_all_iff by (force simp del: hd_rev)
  ultimately show ?thesis
    by (simp add: trim_space_def trim_fuel_fresh)
qed

definition ip_char :: "char \<Rightarrow> bool" where
  "ip_char c \<longleftrightarrow> is_hex_char c \<or> c = CHR ''.'' \<or> c = CHR '':''"

lemma octet_digits: "octet f \<noteq> None \<Longrightarrow> c \<in> set f \<Longrightarrow> ip_char c"
  by (auto simp: octet_def ip_char_def is_hex_char_def list_all_iff split: if_splits)

lemma parse_ipv4_chars: "parse_ipv4_fields s = Some q \<Longrightarrow> \<forall>c \<in> set s. ip_char c"
proof
  fix c assume "parse_ipv4_fields s = Some q" "c \<in> set s"
  then have fs: "\<forall>f \<in> set (split_on CHR ''.'' s). octet f \<noteq> None"
    by (simp add: parse_ipv4_fields_def Let_def list_all_iff split: if_splits)
  have "set (join_with [d] fs) \<subseteq> insert d (\<Union>(set ` set fs))" for d :: char and fs
    by (induction fs rule: induct_list012) auto
  from this [of "CHR ''.''" "split_on CHR ''.'' s"] \<open>c \<in> set s\<close>
  have "c = CHR ''.'' \<or> (\<exists>f \<in> set (split_on CHR ''.'' s). c \<in> set f)" by auto
  with fs octet_digits show "ip_char c" by (auto simp: ip_char_def)
qed

lemma v6_fields_chars: "v6_fields got gap s = Some r \<Longrightarrow> \<forall>c \<in> set s. ip_char c"
proof (induction got gap s arbitrary: r rule: v6_fields.induct)
  case (1 got gap s)
  obtain ds where ds: "takeWhile is_hex_char s = ds" by blast
  have hex: "\<forall>c \<in> set ds. ip_char c"
    by (auto simp: ip_char_def simp flip: ds dest: set_takeWhileD)
  have colon: "ip_char CHR '':''" by (simp add: ip_char_def)
  consider (all) "dropWhile is_hex_char s = []" | (one) c where "dropWhile is_hex_char s = [c]"
    | (more) c d t where "dropWhile is_hex_char s = c # d # t"
    by (metis list.exhaust)
  then show ?case
  proof cases
    case all
    then have "s = ds" using ds by (metis append_Nil2 takeWhile_dropWhile_id)
    with hex show ?thesis by simp
  next
    case (one c)
    with "1.prems" show ?thesis
      by (subst (asm) v6_fields.simps) (auto simp: Let_def dest: parse_ipv4_chars split: if_splits)
  next
    case (more c d t)
    then have s: "set s = set ds \<union> {c, d} \<union> set t"
      using arg_cong [OF takeWhile_dropWhile_id [of is_hex_char s], of set] ds by simp
    show ?thesis
    proof (cases "c = CHR ''.''")
      case True
      with "1.prems" more show ?thesis
        by (subst (asm) v6_fields.simps) (auto simp: Let_def dest: parse_ipv4_chars split: if_splits)
    next
      case False
      with "1.prems" more have "c = CHR '':''" "\<not> 16 \<le> length got" "ds \<noteq> []" "\<not> length ds > 4"
        by (subst (asm) v6_fields.simps, auto simp: Let_def ds split: if_splits)+
      moreover obtain got' gap' where r: "r = (got', gap')" by fastforce
      ultimately show ?thesis
        using "1.prems" "1.IH" [OF ds [symmetric] more [symmetric]] more False hex colon
        unfolding s r
        by (subst (asm) v6_fields.simps) (auto simp: Let_def ds split: if_splits)
    qed
  qed
qed

lemma parse_ip_chars: "parse_ip s = Some ip \<Longrightarrow> s \<noteq> [] \<and> (\<forall>c \<in> set s. ip_char c)"
proof -
  assume ip: "parse_ip s = Some ip"
  then have "parse_ipv4_fields s \<noteq> None \<or> parse_ipv6 s \<noteq> None" "s \<noteq> []"
    by (auto simp: parse_ip_def split: option.splits if_splits)
  then show ?thesis
    using v6_fields_chars [of "[]" None s] v6_fields_chars [of "[]" "Some 0" "drop 2 s"] parse_ipv4_chars [of s]
    by (auto simp: parse_ipv6_def ip_char_def prefix_def split: option.splits if_splits prod.splits)
qed

theorem valid_listen_binds:
  assumes "validate_listen l = None"
  shows "\<exists>ip. loopback_bind_ip (listen_host l) = Inr ip \<and> is_loopback ip
     \<and> 0 \<le> listen_port l \<and> listen_port l \<le> 65535"
proof (cases "listen_host l = ''localhost''")
  case True
  have "loopback_bind_ip ''localhost'' = Inr ipv4_loopback" by code_simp
  with True assms show ?thesis by (auto simp: validate_listen_def split: if_splits)
next
  case False
  with assms obtain ip where ip: "parse_ip (listen_host l) = Some ip" "is_loopback ip"
    and port: "0 \<le> listen_port l" "listen_port l \<le> 65535"
    by (auto simp: validate_listen_def split: if_splits option.splits)
  from parse_ip_chars [OF ip(1)] have chars: "\<forall>c \<in> set (listen_host l). ip_char c" and ne: "listen_host l \<noteq> []"
    by simp_all
  have "\<forall>r \<in> set space_runes. r \<noteq> [] \<and> \<not> ip_char (hd r) \<and> \<not> ip_char (hd (rev r))" by code_simp
  with chars have trim: "trim_space (listen_host l) = listen_host l"
    by (intro trim_space_fresh) blast
  have "\<not> ip_char CHR ''[''" "\<not> ip_char CHR ''l''" by code_simp+
  with chars have "\<not> prefix ''['' (listen_host l)"
    by (auto simp: prefix_def)
  then have "loopback_bind_ip (listen_host l) = Inr ip
      \<or> loopback_bind_ip (listen_host l) = Inr ipv4_loopback"
    using ip by (simp add: loopback_bind_ip_def Let_def trim)
  with ip port show ?thesis by auto
qed

lemma valid_listen_binds_witness:
  "\<exists>ip. loopback_bind_ip ''::ffff:127.9.0.1'' = Inr ip \<and> is_loopback ip"
proof -
  have "validate_listen \<lparr>listen_host = ''::ffff:127.9.0.1'', listen_port = 8787\<rparr> = None" by code_simp
  from valid_listen_binds [OF this] show ?thesis by auto
qed

definition echo_bind :: "ip \<Rightarrow> int \<Rightarrow> (bind_error, ip \<times> int) result" where
  "echo_bind ip port = (if ip = ipv6_loopback then Inl FamilyUnavailable else Inr (ip, port))"

lemma listen_loopback_only_witness:
  "listen_on echo_bind ''[::1]'' 8787 = (Inr (ipv4_loopback, 8787), [ipv6_loopback, ipv4_loopback])
     \<and> is_loopback ipv4_loopback"
proof
  show r: "listen_on echo_bind ''[::1]'' 8787 = (Inr (ipv4_loopback, 8787), [ipv6_loopback, ipv4_loopback])"
    by code_simp
  have "is_loopback ip" if "echo_bind ipv6_loopback 8787 = Inr (ip, q)" for ip q
    using that by (simp add: echo_bind_def)
  from listen_loopback_only [of echo_bind 8787 "''[::1]''", OF this] r
  show "is_loopback ipv4_loopback" by simp
qed

section \<open>The notice and the close of a listener\<close>

text \<open>The one line \<open>Listen\<close> prints, when it falls back; \<open>reason\<close> is the text of the error.\<close>

definition listen_notices ::
  "(ip \<Rightarrow> int \<Rightarrow> (bind_error, ip \<times> int) result) \<Rightarrow> bytes \<Rightarrow> bytes \<Rightarrow> int \<Rightarrow> bytes list" where
  "listen_notices bind reason host port =
     (if port < 0 \<or> 65535 < port then []
      else case loopback_bind_ip host of
             Inl _ \<Rightarrow> []
           | Inr ip \<Rightarrow>
               if ip = ipv6_loopback \<and> bind ip port = Inl FamilyUnavailable
               then [''proxy: IPv6 loopback unavailable ('' @ reason @ ''); falling back to 127.0.0.1'']
               else [])"

lemma notice_iff_fallback:
  "listen_notices bind reason host port \<noteq> [] \<longleftrightarrow> length (snd (listen_on bind host port)) = 2"
  by (auto simp: listen_notices_def listen_on_def Let_def split: sum.splits bind_error.splits)

text \<open>\<open>Close\<close> of the wrapper: the inner listener is closed once, and its result is kept.\<close>

record loopback_listener =
  ll_result :: "bool option"

definition close_listener :: "bool \<Rightarrow> loopback_listener \<Rightarrow> bool \<times> loopback_listener" where
  "close_listener inner l =
     (case ll_result l of Some r \<Rightarrow> (r, l) | None \<Rightarrow> (inner, l\<lparr>ll_result := Some inner\<rparr>))"

lemma close_again: "close_listener a l = (r, l') \<Longrightarrow> close_listener b l' = (r, l')"
  by (auto simp: close_listener_def split: option.splits)

end
