(* ===== verification/Routes.thy ===== *)
theory Routes
  imports Config
begin

text \<open>
  Routing of a request path, \<open>pkg/proxy/resolve.go\<close>: the configured upstreams by longest match, then
  the built-in table, and no default.
\<close>

record upstream =
  route_base :: bytes
  route_local :: bool

definition anthropic_base_url :: bytes where "anthropic_base_url = ''https://api.anthropic.com''"
definition openai_base_url :: bytes where "openai_base_url = ''https://api.openai.com''"

definition openai_paths :: "bytes list" where
  "openai_paths =
     [''/v1/audio/speech'', ''/v1/audio/transcriptions'', ''/v1/audio/translations'',
      ''/v1/chat/completions'', ''/v1/completions'', ''/v1/embeddings'', ''/v1/images/edits'',
      ''/v1/images/generations'', ''/v1/moderations'', ''/v1/responses'']"

definition anthropic_paths :: "bytes list" where
  "anthropic_paths = [''/v1/messages'', ''/v1/messages/batches'', ''/v1/messages/count_tokens'']"

definition remote :: "bytes \<Rightarrow> upstream" where
  "remote url = \<lparr>route_base = url, route_local = False\<rparr>"

definition served_here :: upstream where
  "served_here = \<lparr>route_base = [], route_local = True\<rparr>"

definition builtin_routes :: "(bytes \<times> upstream) list" where
  "builtin_routes =
     map (\<lambda>p. (p, remote openai_base_url)) openai_paths
       @ map (\<lambda>p. (p, remote anthropic_base_url)) anthropic_paths
       @ [(''/v1/models'', served_here)]"

text \<open>\<open>BuiltinRoutes\<close>: the table in path order.\<close>

definition builtin_route_list :: "(bytes \<times> upstream) list" where
  "builtin_route_list = sort_key fst builtin_routes"

datatype route_error = EmptyPath | UnknownUpstream bytes

definition canonical_route_path :: "bytes \<Rightarrow> bytes" where
  "canonical_route_path path =
     (let path = takeWhile (\<lambda>c. c \<noteq> CHR ''?'' \<and> c \<noteq> CHR ''#'') path
      in if path \<noteq> ''/'' then trim_right ''/'' path else path)"

definition route_matches :: "bytes \<Rightarrow> bytes \<Rightarrow> bool" where
  "route_matches key path \<longleftrightarrow> key = path \<or> key = ''/'' \<or> prefix (key @ ''/'') path"

definition route_target :: "upstream_entry \<Rightarrow> bytes" where
  "route_target e = trim_right ''/'' (trim_space (up_target e))"

definition route_key :: "upstream_entry \<Rightarrow> bytes" where
  "route_key e = canonical_route_path (trim_space (up_match e))"

definition better_route :: "bytes \<Rightarrow> bytes \<Rightarrow> bool" where
  "better_route key best \<longleftrightarrow> length best < length key \<or> (length key = length best \<and> key < best)"

definition consider_route :: "bytes \<Rightarrow> bytes \<times> bytes \<Rightarrow> upstream_entry \<Rightarrow> bytes \<times> bytes" where
  "consider_route path best e =
     (let key = route_key e; target = route_target e
      in if key = [] \<or> \<not> route_matches key path then best
         else if target = [] then best
         else if better_route key (fst best) then (key, target)
         else best)"

definition configured_upstream :: "bytes \<Rightarrow> upstream_entry list \<Rightarrow> upstream option" where
  "configured_upstream path us =
     (let best = foldl (consider_route path) ([], []) us
      in if fst best = [] then None else Some (remote (snd best)))"

text \<open>At most 120 runes of an unknown path reach the error message.\<close>

definition max_route_path_runes :: nat where "max_route_path_runes = 120"

definition resolve :: "bytes \<Rightarrow> config \<Rightarrow> (route_error, upstream) result" where
  "resolve path cfg =
     (let canonical = canonical_route_path path
      in if canonical = [] then Inl EmptyPath
         else case configured_upstream canonical (cfg_upstreams cfg) of
                Some u \<Rightarrow> Inr u
              | None \<Rightarrow>
                  (case map_of builtin_routes canonical of
                     Some u \<Rightarrow> Inr u
                   | None \<Rightarrow> Inl (UnknownUpstream canonical)))"

section \<open>The configured choice is the longest match\<close>

definition live_route :: "bytes \<Rightarrow> upstream_entry \<Rightarrow> bool" where
  "live_route path e \<longleftrightarrow> route_key e \<noteq> [] \<and> route_matches (route_key e) path \<and> route_target e \<noteq> []"

lemma consider_route_live:
  "consider_route path best e =
     (if live_route path e \<and> better_route (route_key e) (fst best) then (route_key e, route_target e) else best)"
  by (auto simp: consider_route_def live_route_def Let_def)

lemma better_route_simps:
  "key \<noteq> [] \<Longrightarrow> better_route key []"
  "\<not> better_route key key"
  by (auto simp: better_route_def)

lemma better_route_trans:
  "\<not> better_route a b \<Longrightarrow> better_route c b \<Longrightarrow> \<not> better_route a c"
  unfolding better_route_def using less_trans [of a c b] by (cases "a < c"; cases "a < b") auto

definition chosen :: "bytes \<Rightarrow> upstream_entry list \<Rightarrow> bytes \<times> bytes \<Rightarrow> bool" where
  "chosen path us best \<longleftrightarrow>
     (case best of (key, target) \<Rightarrow>
        if key = [] then \<forall>e \<in> set us. \<not> live_route path e
        else (\<exists>e \<in> set us. live_route path e \<and> route_key e = key \<and> route_target e = target)
           \<and> (\<forall>e \<in> set us. live_route path e \<longrightarrow> \<not> better_route (route_key e) key))"

lemma chosen_step: "chosen path us best \<Longrightarrow> chosen path (us @ [e]) (consider_route path best e)"
proof -
  assume c: "chosen path us best"
  obtain key target where best: "best = (key, target)" by fastforce
  consider (skip) "\<not> live_route path e" | (keep) "live_route path e" "\<not> better_route (route_key e) key"
    | (take) "live_route path e" "better_route (route_key e) key" by blast
  then show ?thesis
  proof cases
    case skip
    with c best show ?thesis by (auto simp: chosen_def consider_route_live)
  next
    case keep
    then have "key \<noteq> []" by (auto simp: live_route_def better_route_simps)
    with keep c best show ?thesis by (auto simp: chosen_def consider_route_live)
  next
    case take
    then have "route_key e \<noteq> []" by (simp add: live_route_def)
    moreover have "\<not> better_route (route_key x) (route_key e)" if "x \<in> set us" "live_route path x" for x
      using c best that take(2) better_route_trans [of "route_key x" key "route_key e"]
      by (auto simp: chosen_def split: if_splits)
    ultimately show ?thesis
      using take best by (auto simp: chosen_def consider_route_live better_route_simps)
  qed
qed

lemma chosen_fold: "chosen path us (foldl (consider_route path) ([], []) us)"
  by (induction us rule: rev_induct) (simp add: chosen_def, simp add: chosen_step)

lemma configured_upstream_spec:
  "(configured_upstream path us = None \<longrightarrow> (\<forall>e \<in> set us. \<not> live_route path e))
   \<and> (\<forall>u. configured_upstream path us = Some u \<longrightarrow>
        (\<exists>e \<in> set us. live_route path e \<and> u = remote (route_target e)
           \<and> (\<forall>x \<in> set us. live_route path x \<longrightarrow> \<not> better_route (route_key x) (route_key e))))"
proof -
  obtain key target where f: "foldl (consider_route path) ([], []) us = (key, target)" by fastforce
  with chosen_fold [of path us] have "chosen path us (key, target)" by simp
  with f show ?thesis
    by (auto simp: chosen_def configured_upstream_def Let_def split: if_splits)
qed

text \<open>
  C30: The routing contract: a live configured match wins over the table, among the live ones no other has
  a longer key or an equally long key that sorts before; without one the path must be in the table.
\<close>

theorem resolve_longest_match:
  assumes "resolve path cfg = Inr u"
  shows "(\<exists>e \<in> set (cfg_upstreams cfg). live_route (canonical_route_path path) e \<and> u = remote (route_target e)
            \<and> (\<forall>x \<in> set (cfg_upstreams cfg). live_route (canonical_route_path path) x
                 \<longrightarrow> \<not> better_route (route_key x) (route_key e)))
       \<or> ((\<forall>e \<in> set (cfg_upstreams cfg). \<not> live_route (canonical_route_path path) e)
            \<and> (canonical_route_path path, u) \<in> set builtin_routes)"
proof (cases "configured_upstream (canonical_route_path path) (cfg_upstreams cfg)")
  case None
  with assms have "map_of builtin_routes (canonical_route_path path) = Some u"
    by (auto simp: resolve_def Let_def split: if_splits option.splits)
  with None configured_upstream_spec show ?thesis by (blast dest: map_of_SomeD)
next
  case (Some v)
  with assms have "u = v" by (auto simp: resolve_def Let_def split: if_splits)
  with Some configured_upstream_spec show ?thesis by blast
qed

definition route_sample :: config where
  "route_sample = default_config\<lparr>cfg_upstreams :=
     [\<lparr>up_match = ''/v1'', up_target = ''https://a.test/''\<rparr>,
      \<lparr>up_match = ''/v1/chat/'', up_target = '' https://b.test ''\<rparr>,
      \<lparr>up_match = ''/'', up_target = ''https://c.test''\<rparr>]\<rparr>"

lemma resolve_longest_match_witness:
  "\<exists>e \<in> set (cfg_upstreams route_sample). route_key e = ''/v1/chat'' \<and> route_target e = ''https://b.test''"
proof -
  have r: "resolve ''/v1/chat/completions?x=1'' route_sample = Inr (remote ''https://b.test'')" by code_simp
  have l: "\<exists>e \<in> set (cfg_upstreams route_sample). live_route (canonical_route_path ''/v1/chat/completions?x=1'') e"
    by code_simp
  have t: "\<forall>e \<in> set (cfg_upstreams route_sample).
      remote ''https://b.test'' = remote (route_target e) \<longrightarrow> route_key e = ''/v1/chat''"
    by code_simp
  from resolve_longest_match [OF r] l obtain e where
    e: "e \<in> set (cfg_upstreams route_sample)" "remote ''https://b.test'' = remote (route_target e)" by blast
  then have "route_target e = ''https://b.test''" by (simp add: remote_def)
  with e t show ?thesis by blast
qed

text \<open>
  A path the table does not list and no entry routes is an error, and a route never leads to an empty
  target: only the models route is answered locally.
\<close>

lemma builtin_routes_shape:
  "list_all (\<lambda>(p, u). if route_local u then p = ''/v1/models'' \<and> route_base u = [] else route_base u \<noteq> []) builtin_routes"
  by code_simp

theorem resolve_never_blank:
  assumes "resolve path cfg = Inr u"
  shows "if route_local u then canonical_route_path path = ''/v1/models'' \<and> route_base u = [] else route_base u \<noteq> []"
proof -
  have r: "\<not> route_local (remote t)" "route_base (remote t) = t" for t by (simp_all add: remote_def)
  from assms consider (conf) "configured_upstream (canonical_route_path path) (cfg_upstreams cfg) = Some u"
    | (table) "map_of builtin_routes (canonical_route_path path) = Some u"
    by (auto simp: resolve_def Let_def split: if_splits option.splits)
  then show ?thesis
  proof cases
    case conf
    with configured_upstream_spec show ?thesis
      by (metis live_route_def r)
  next
    case table
    then have "(canonical_route_path path, u) \<in> set builtin_routes" by (rule map_of_SomeD)
    with builtin_routes_shape show ?thesis unfolding list_all_iff by fast
  qed
qed

end
