(* ===== verification/Http.thy ===== *)
theory Http
  imports Prelude Utf8 "HOL-Library.AList"
begin

text \<open>
  What the gateway uses of \<open>net/http\<close> and \<open>net/url\<close>: header maps, request bodies, the client side
  of a response, and URL values; with the header and path functions of \<open>pkg/proxy/forward.go\<close>,
  \<open>forward_body.go\<close> and the media-type predicates of \<open>dataplane.go\<close>. A header is an association
  list whose order is the iteration order of the Go map, which the language leaves open.
\<close>

section \<open>Headers\<close>

type_synonym header = "(bytes \<times> bytes list) list"

text \<open>
  \<open>http.CanonicalHeaderKey\<close>: a name with a byte outside the token alphabet is returned unchanged;
  otherwise the first letter and every letter after a hyphen become upper case and the rest lower.
\<close>

definition header_token_byte :: "char \<Rightarrow> bool" where
  "header_token_byte c \<longleftrightarrow> is_ascii_alnum c \<or> c \<in> set ''!#$%&*+-.^_`|~'' \<or> c = CHR 0x27"

fun canonical_letters :: "bool \<Rightarrow> bytes \<Rightarrow> bytes" where
  "canonical_letters up [] = []"
| "canonical_letters up (c # cs) =
     (if up then upper_char c else lower_char c) # canonical_letters (c = CHR ''-'') cs"

definition canonical_header_key :: "bytes \<Rightarrow> bytes" where
  "canonical_header_key s = (if list_all header_token_byte s then canonical_letters True s else s)"

definition header_values :: "header \<Rightarrow> bytes \<Rightarrow> bytes list" where
  "header_values h name = (case map_of h (canonical_header_key name) of None \<Rightarrow> [] | Some vs \<Rightarrow> vs)"

definition header_get :: "header \<Rightarrow> bytes \<Rightarrow> bytes" where
  "header_get h name = (case header_values h name of [] \<Rightarrow> [] | v # _ \<Rightarrow> v)"

definition header_set :: "bytes \<Rightarrow> bytes \<Rightarrow> header \<Rightarrow> header" where
  "header_set name v h = AList.update (canonical_header_key name) [v] h"

definition header_del :: "bytes \<Rightarrow> header \<Rightarrow> header" where
  "header_del name h = AList.delete (canonical_header_key name) h"

section \<open>Copying headers\<close>

definition hop_by_hop_headers :: "bytes list" where
  "hop_by_hop_headers =
     [''Connection'', ''Keep-Alive'', ''Proxy-Authenticate'', ''Proxy-Authorization'',
      ''Proxy-Connection'', ''Te'', ''Trailer'', ''Transfer-Encoding'', ''Upgrade'']"

definition nominated_headers :: "header \<Rightarrow> bytes list" where
  "nominated_headers src =
     filter (\<lambda>name. name \<noteq> [])
       (map trim_space (concat (map (split_on CHR '','') (header_values src ''Connection''))))"

definition skipped_headers :: "header \<Rightarrow> bytes list" where
  "skipped_headers src = map canonical_header_key (hop_by_hop_headers @ nominated_headers src)"

definition copy_header :: "bytes list \<Rightarrow> header \<Rightarrow> bytes \<times> bytes list \<Rightarrow> header" where
  "copy_header skip dst nv =
     (let key = canonical_header_key (fst nv)
      in if key \<in> set skip then dst else AList.update key (snd nv) dst)"

definition copy_end_to_end_headers :: "header \<Rightarrow> header \<Rightarrow> header" where
  "copy_end_to_end_headers dst src = foldl (copy_header (skipped_headers src)) dst src"

definition copy_request_headers :: "header \<Rightarrow> header \<Rightarrow> header" where
  "copy_request_headers dst src = header_del ''Accept-Encoding'' (copy_end_to_end_headers dst src)"

section \<open>Codings and media types\<close>

definition identity_only_encoding :: "header \<Rightarrow> bool" where
  "identity_only_encoding h =
     list_all (\<lambda>value. list_all (\<lambda>tok. equal_fold (trim_space tok) ''identity'') (split_on CHR '','' value))
       (header_values h ''Content-Encoding'')"

definition media_type :: "bytes \<Rightarrow> bytes" where
  "media_type value =
     go_lower (trim_space (case index_byte CHR '';'' value of Some i \<Rightarrow> take i value | None \<Rightarrow> value))"

definition json_whitespace :: bytes where
  "json_whitespace = [CHR 0x20, CHR 0x09, CHR 0x0A, CHR 0x0D]"

definition declares_json :: "header \<Rightarrow> bytes \<Rightarrow> bool" where
  "declares_json h body =
     (case header_values h ''Content-Type'' of
        v # _ \<Rightarrow> media_type v = ''application/json''
      | [] \<Rightarrow>
          (case trim_left json_whitespace body of
             [] \<Rightarrow> False
           | c # _ \<Rightarrow> c = CHR ''{'' \<or> c = CHR ''['' \<or> c = CHR 0x22))"

text \<open>\<open>streamingSSE\<close> of \<open>internal/cli/response_writer.go\<close>.\<close>

definition streaming_sse :: "header \<Rightarrow> bool" where
  "streaming_sse h =
     equal_fold (trim_space (hd (split_on CHR '';'' (header_get h ''Content-Type'')))) ''text/event-stream''"

section \<open>URLs\<close>

text \<open>
  The fields of a \<open>url.URL\<close> the sources read; \<open>url_escaped\<close> is \<open>EscapedPath()\<close>. \<open>url.Parse\<close> itself
  is an argument of the definitions that call it.
\<close>

record url =
  url_scheme :: bytes
  url_opaque :: bytes
  url_user :: bool
  url_host :: bytes
  url_path :: bytes
  url_escaped :: bytes
  url_raw_query :: bytes
  url_force_query :: bool
  url_fragment :: bytes

definition join_paths :: "bytes \<Rightarrow> bytes \<Rightarrow> bytes" where
  "join_paths base request =
     (if base = [] then request
      else if suffix ''/'' base \<and> prefix ''/'' request then base @ tl request
      else if \<not> suffix ''/'' base \<and> \<not> prefix ''/'' request then base @ ''/'' @ request
      else base @ request)"

text \<open>
  \<open>Forwarder.target\<close>: scheme and host of the base, the joined path in both spellings, and the query
  of the request. \<open>RawPath\<close> is set only where it differs from the path.
\<close>

record target_url =
  target_scheme :: bytes
  target_host :: bytes
  target_path :: bytes
  target_raw_path :: bytes
  target_query :: bytes
  target_force_query :: bool

definition forward_target :: "url \<Rightarrow> url \<Rightarrow> target_url" where
  "forward_target base request =
     (let path = join_paths (url_path base) (url_path request);
          escaped = join_paths (url_escaped base) (url_escaped request)
      in \<lparr>target_scheme = url_scheme base, target_host = url_host base, target_path = path,
          target_raw_path = (if escaped \<noteq> path then escaped else []),
          target_query = url_raw_query request, target_force_query = url_force_query request\<rparr>)"

datatype upstream_error =
  UpstreamUnparsable | UpstreamScheme | UpstreamNoHost | UpstreamUserinfo | UpstreamQuery | UpstreamFragment

definition parse_upstream :: "(bytes \<Rightarrow> url option) \<Rightarrow> bytes \<Rightarrow> (upstream_error, url) result" where
  "parse_upstream parse raw =
     (case parse (trim_space raw) of
        None \<Rightarrow> Inl UpstreamUnparsable
      | Some t \<Rightarrow>
          require (equal_fold (url_scheme t) ''http'' \<or> equal_fold (url_scheme t) ''https'') UpstreamScheme
          (require (url_host t \<noteq> []) UpstreamNoHost
          (require (\<not> url_user t) UpstreamUserinfo
          (require (url_raw_query t = [] \<and> \<not> url_force_query t) UpstreamQuery
          (require (url_fragment t = []) UpstreamFragment
          (Inr t))))))"

section \<open>Requests and their bodies\<close>

text \<open>
  A client body delivers its bytes and then ends or fails. \<open>http.MaxBytesReader\<close> reports the overflow
  once more than \<open>cap\<close> bytes arrived, before any later failure.
\<close>

record body_stream =
  stream_bytes :: bytes
  stream_fails :: bool

record request =
  req_method :: bytes
  req_host :: bytes
  req_url :: url
  req_header :: header
  req_length :: int
  req_body :: "body_stream option"

datatype read_error = BodyTooLarge | BodyUnreadable

definition read_request_body :: "int \<Rightarrow> request \<Rightarrow> (read_error, bytes) result" where
  "read_request_body cap r =
     (if cap < req_length r then Inl BodyTooLarge
      else case req_body r of
             None \<Rightarrow> Inr []
           | Some b \<Rightarrow>
               if cap < int (length (stream_bytes b)) then Inl BodyTooLarge
               else if stream_fails b then Inl BodyUnreadable
               else Inr (stream_bytes b))"

text \<open>\<open>DataPlane.forward\<close>: the request with the identical body put back.\<close>

definition with_body :: "bytes \<Rightarrow> request \<Rightarrow> request" where
  "with_body body r =
     r\<lparr>req_body := Some \<lparr>stream_bytes = body, stream_fails = False\<rparr>, req_length := int (length body)\<rparr>"

section \<open>Replies\<close>

text \<open>
  The server's \<open>http.ResponseWriter\<close>: the header map is open until the first \<open>WriteHeader\<close>, which
  commits it; a \<open>Write\<close> before that commits status 200.
\<close>

record reply =
  reply_header :: header
  reply_committed :: "(nat \<times> header) option"
  reply_body :: bytes

definition new_reply :: reply where
  "new_reply = \<lparr>reply_header = [], reply_committed = None, reply_body = []\<rparr>"

definition reply_status :: "nat \<Rightarrow> reply \<Rightarrow> reply" where
  "reply_status status w =
     (case reply_committed w of
        None \<Rightarrow> w\<lparr>reply_committed := Some (status, reply_header w)\<rparr>
      | Some _ \<Rightarrow> w)"

definition reply_write :: "bytes \<Rightarrow> reply \<Rightarrow> reply" where
  "reply_write p w = (let w = reply_status 200 w in w\<lparr>reply_body := reply_body w @ p\<rparr>)"

definition reply_set :: "bytes \<Rightarrow> bytes \<Rightarrow> reply \<Rightarrow> reply" where
  "reply_set name v w = w\<lparr>reply_header := header_set name v (reply_header w)\<rparr>"

text \<open>\<open>http.StatusText\<close> for the statuses the gateway chooses, and \<open>http.Error\<close>.\<close>

fun status_text :: "nat \<Rightarrow> bytes" where
  "status_text n =
     (if n = 400 then ''Bad Request'' else if n = 401 then ''Unauthorized''
      else if n = 403 then ''Forbidden'' else if n = 404 then ''Not Found''
      else if n = 415 then ''Unsupported Media Type'' else if n = 500 then ''Internal Server Error''
      else if n = 502 then ''Bad Gateway'' else if n = 504 then ''Gateway Timeout'' else [])"

declare status_text.simps [simp del]

definition error_headers :: "header \<Rightarrow> header" where
  "error_headers h =
     header_set ''X-Content-Type-Options'' ''nosniff''
       (header_set ''Content-Type'' ''text/plain; charset=utf-8'' (header_del ''Content-Length'' h))"

definition http_error :: "bytes \<Rightarrow> nat \<Rightarrow> reply \<Rightarrow> reply" where
  "http_error message status w =
     reply_write (message @ [CHR 0x0A])
       (reply_status status (w\<lparr>reply_header := error_headers (reply_header w)\<rparr>))"

section \<open>Encoding strings as JSON\<close>

text \<open>
  \<open>json.Marshal\<close> on a string: the HTML characters, the line separators and the control characters
  are escaped and an invalid byte becomes the replacement character.
\<close>

definition json_escape_byte :: "char \<Rightarrow> bytes" where
  "json_escape_byte c =
     (if c = CHR 0x22 then [CHR 0x5C, CHR 0x22]
      else if c = CHR 0x5C then [CHR 0x5C, CHR 0x5C]
      else if c = CHR 0x08 then [CHR 0x5C, CHR ''b'']
      else if c = CHR 0x0C then [CHR 0x5C, CHR ''f'']
      else if c = CHR 0x0A then [CHR 0x5C, CHR ''n'']
      else if c = CHR 0x0D then [CHR 0x5C, CHR ''r'']
      else if c = CHR 0x09 then [CHR 0x5C, CHR ''t'']
      else if byte_val c < (0x20 :: nat) \<or> c \<in> {CHR ''<'', CHR ''>'', CHR ''&''}
        then [CHR 0x5C, CHR ''u'', CHR ''0'', CHR ''0'', hex_digit (byte_val c div 16), hex_digit (byte_val c mod 16)]
      else [c])"

function json_string_from :: "bytes \<Rightarrow> bytes" where
  "json_string_from [] = []"
| "json_string_from (c # cs) =
     (if byte_val c < (0x80 :: nat) then json_escape_byte c @ json_string_from cs
      else case decode_rune (c # cs) of
             (r, n) \<Rightarrow>
               if n \<le> 1 then [CHR 0x5C, CHR ''u'', CHR ''f'', CHR ''f'', CHR ''f'', CHR ''d''] @ json_string_from cs
               else (if r = 0x2028 then [CHR 0x5C, CHR ''u'', CHR ''2'', CHR ''0'', CHR ''2'', CHR ''8'']
                     else if r = 0x2029 then [CHR 0x5C, CHR ''u'', CHR ''2'', CHR ''0'', CHR ''2'', CHR ''9'']
                     else take n (c # cs))
                    @ json_string_from (drop n (c # cs)))"
  by pat_completeness auto
termination
  by (relation "measure length") auto

definition json_string :: "bytes \<Rightarrow> bytes" where
  "json_string s = [CHR 0x22] @ json_string_from s @ [CHR 0x22]"

section \<open>What a copy of a header holds\<close>

definition canonical_header :: "header \<Rightarrow> bool" where
  "canonical_header h \<longleftrightarrow> distinct (map fst h) \<and> (\<forall>k \<in> set (map fst h). canonical_header_key k = k)"

lemma canonical_header_Nil [simp]: "canonical_header []"
  by (simp add: canonical_header_def)

lemma copy_header_lookup:
  "canonical_header_key (fst nv) = fst nv \<Longrightarrow>
     map_of (copy_header skip dst nv) k =
       (if k = fst nv \<and> k \<notin> set skip then Some (snd nv) else map_of dst k)"
  by (auto simp: copy_header_def Let_def update_conv')

lemma copy_headers_lookup:
  "canonical_header src \<Longrightarrow>
     map_of (foldl (copy_header skip) dst src) k =
       (if k \<in> set skip then map_of dst k
        else case map_of src k of None \<Rightarrow> map_of dst k | Some vs \<Rightarrow> Some vs)"
proof (induction src arbitrary: dst)
  case (Cons nv src)
  from Cons.prems have src: "canonical_header src" and nv: "canonical_header_key (fst nv) = fst nv"
    and new: "fst nv \<notin> fst ` set src"
    by (simp_all add: canonical_header_def)
  from new have "map_of src (fst nv) = None" by (simp add: map_of_eq_None_iff)
  with Cons.IH [OF src] nv show ?case
    by (cases nv) (auto simp: copy_header_lookup split: option.splits)
qed simp

lemma keys_update: "set (map fst (AList.update k v h)) = insert k (set (map fst h))"
  by (simp add: dom_map_of_conv_image_fst [symmetric] update_conv')

lemma canonical_update:
  "canonical_header h \<Longrightarrow> canonical_header_key k = k \<Longrightarrow> canonical_header (AList.update k v h)"
  by (simp add: canonical_header_def distinct_update keys_update del: set_map)

lemma canonical_delete: "canonical_header h \<Longrightarrow> canonical_header (AList.delete k h)"
  by (auto simp: canonical_header_def delete_keys distinct_removeAll)

lemma canonical_copy_header:
  "canonical_header dst \<Longrightarrow> canonical_header_key (fst nv) = fst nv \<Longrightarrow>
     canonical_header (copy_header skip dst nv)"
  by (simp add: copy_header_def Let_def canonical_update)

lemma canonical_copy:
  "canonical_header src \<Longrightarrow> canonical_header dst \<Longrightarrow> canonical_header (foldl (copy_header skip) dst src)"
proof (induction src arbitrary: dst)
  case (Cons nv src)
  then have "canonical_header src" "canonical_header_key (fst nv) = fst nv"
    by (auto simp: canonical_header_def)
  with Cons show ?case by (simp add: canonical_copy_header)
qed simp

lemma canonical_names:
  "canonical_header_key ''Accept-Encoding'' = ''Accept-Encoding''"
  "canonical_header_key ''Content-Encoding'' = ''Content-Encoding''"
  "canonical_header_key ''Content-Length'' = ''Content-Length''"
  "canonical_header_key ''Content-Type'' = ''Content-Type''"
  "canonical_header_key ''Connection'' = ''Connection''"
  "canonical_header_key ''X-Content-Type-Options'' = ''X-Content-Type-Options''"
  "map canonical_header_key hop_by_hop_headers = hop_by_hop_headers"
  by code_simp+

text \<open>
  The headers an upstream sees: nothing scoped to the connection, nothing a \<open>Connection\<close> header
  nominates, no \<open>Accept-Encoding\<close>, and every other header with its values untouched.
\<close>

lemma copied_then_deleted:
  "canonical_header src \<Longrightarrow>
     map_of (AList.delete k (foldl (copy_header skip) [] src)) name =
       (if name = k \<or> name \<in> set skip then None else map_of src name)"
  by (simp add: delete_conv' copy_headers_lookup split: option.split)

lemma skipped_headers_set:
  "set (skipped_headers src) = set hop_by_hop_headers \<union> canonical_header_key ` set (nominated_headers src)"
proof -
  have "skipped_headers src = hop_by_hop_headers @ map canonical_header_key (nominated_headers src)"
    unfolding skipped_headers_def map_append canonical_names ..
  then show ?thesis by simp
qed

theorem forwarded_headers:
  assumes "canonical_header src"
  shows "map_of (copy_request_headers [] src) name =
     (if name = ''Accept-Encoding'' \<or> name \<in> set hop_by_hop_headers
         \<or> name \<in> canonical_header_key ` set (nominated_headers src)
      then None else map_of src name)"
  unfolding copy_request_headers_def copy_end_to_end_headers_def header_del_def canonical_names
    copied_then_deleted [OF assms] skipped_headers_set Un_iff ..

definition sample_header :: header where
  "sample_header =
     [(''Authorization'', [''Bearer k'']), (''Connection'', [''close, x-trace'']), (''X-Trace'', [''1'']),
      (''Accept-Encoding'', [''gzip'']), (''X-Kept'', [''a'', ''b''])]"

lemma forwarded_headers_witness:
  "map_of (copy_request_headers [] sample_header) ''X-Trace'' = None
     \<and> map_of (copy_request_headers [] sample_header) ''X-Kept'' = Some [''a'', ''b'']"
proof -
  have "canonical_header sample_header"
    unfolding canonical_header_def by code_simp
  from forwarded_headers [OF this, of "''X-Trace''"] forwarded_headers [OF this, of "''X-Kept''"]
  show ?thesis by code_simp
qed

end
