(* ===== verification/Guard.thy ===== *)
theory Guard
  imports Http "HOL-Library.Word"
begin

text \<open>
  What stands before every handler: the host and origin policy of \<open>pkg/proxy/guard.go\<close>, the control
  token of \<open>token.go\<close> and the metadata-only control surface of \<open>controlapi.go\<close>.
\<close>

section \<open>Host authorities\<close>

text \<open>\<open>strings.LastIndexByte\<close> and \<open>net.SplitHostPort\<close>.\<close>

definition last_index_byte :: "char \<Rightarrow> bytes \<Rightarrow> nat option" where
  "last_index_byte c s = map_option (\<lambda>i. length s - Suc i) (index_byte c (rev s))"

definition split_host_port :: "bytes \<Rightarrow> (bytes \<times> bytes) option" where
  "split_host_port s =
     (case last_index_byte CHR '':'' s of
        None \<Rightarrow> None
      | Some i \<Rightarrow>
          if prefix ''['' s then
            (case index_byte CHR '']'' s of
               None \<Rightarrow> None
             | Some e \<Rightarrow>
                 if e + 1 \<noteq> i then None
                 else if CHR ''['' \<in> set (drop 1 s) \<or> CHR '']'' \<in> set (drop (e + 1) s) then None
                 else Some (Prelude.slice s 1 e, drop (i + 1) s))
          else if CHR '':'' \<in> set (take i s) then None
          else if CHR ''['' \<in> set s \<or> CHR '']'' \<in> set s then None
          else Some (take i s, drop (i + 1) s))"

text \<open>\<open>strconv.Atoi\<close>: an optional sign and decimal digits; the caller bounds the value.\<close>

definition atoi :: "bytes \<Rightarrow> int option" where
  "atoi s =
     (let ds = (case s of c # cs \<Rightarrow> if c = CHR ''+'' \<or> c = CHR ''-'' then cs else s | [] \<Rightarrow> []);
          n = int (digits_value ds)
      in if ds = [] \<or> \<not> list_all is_ascii_digit ds then None
         else Some (if prefix ''-'' s then - n else n))"

definition parse_port :: "bytes \<Rightarrow> int option" where
  "parse_port text =
     (if text = [] then Some 0
      else case atoi text of
             None \<Rightarrow> None
           | Some p \<Rightarrow> if p < 1 \<or> 65535 < p then None else Some p)"

definition parse_host_authority :: "bytes \<Rightarrow> (bytes \<times> int) option" where
  "parse_host_authority value =
     (let raw = trim_space value
      in if raw = [] \<or> list_ex (\<lambda>c. c \<in> set ''/?#@ '' \<or> c = CHR 0x09) raw then None
         else
           case (case split_host_port raw of
                   Some hp \<Rightarrow> Some hp
                 | None \<Rightarrow>
                     if prefix ''['' raw then
                       (if suffix '']'' raw \<and> 3 \<le> length raw then Some (butlast (tl raw), []) else None)
                     else Some (raw, [])) of
             None \<Rightarrow> None
           | Some (name, port) \<Rightarrow>
               if name = [] then None else map_option (\<lambda>p. (go_lower name, p)) (parse_port port))"

section \<open>The policy\<close>

datatype guard_error = ForeignHost | CrossOrigin

record allowed =
  allowed_hosts :: "bytes list"
  allowed_port :: int

definition loopback_host_names :: "bytes list" where
  "loopback_host_names = [''127.0.0.1'', ''localhost'', ''::1'']"

definition trim_brackets :: "bytes \<Rightarrow> bytes" where
  "trim_brackets s = trim_right ''[]'' (trim_left ''[]'' s)"

definition host_allowed :: "bytes \<Rightarrow> allowed \<Rightarrow> bool" where
  "host_allowed name a =
     list_ex (\<lambda>h. equal_fold name (trim_brackets (trim_space h)))
       (if allowed_hosts a = [] then loopback_host_names else allowed_hosts a)"

definition check_origin :: "(bytes \<Rightarrow> url option) \<Rightarrow> bytes \<Rightarrow> bytes \<Rightarrow> int \<Rightarrow> allowed \<Rightarrow> guard_error option" where
  "check_origin parse origin host_name host_port a =
     (case parse origin of
        None \<Rightarrow> Some CrossOrigin
      | Some u \<Rightarrow>
          if url_scheme u \<noteq> ''http'' \<or> url_user u \<or> url_opaque u \<noteq> [] \<or> url_path u \<notin> {[], ''/''}
             \<or> url_raw_query u \<noteq> [] \<or> url_fragment u \<noteq> [] then Some CrossOrigin
          else case parse_host_authority (url_host u) of
                 None \<Rightarrow> Some CrossOrigin
               | Some (name, port) \<Rightarrow>
                   if \<not> host_allowed name a \<or> name \<noteq> host_name \<or> port \<noteq> host_port then Some CrossOrigin
                   else None)"

definition check_host_origin :: "(bytes \<Rightarrow> url option) \<Rightarrow> bytes \<Rightarrow> bytes \<Rightarrow> allowed \<Rightarrow> guard_error option" where
  "check_host_origin parse host origin a =
     (case parse_host_authority host of
        None \<Rightarrow> Some ForeignHost
      | Some (name, port) \<Rightarrow>
          if \<not> host_allowed name a then Some ForeignHost
          else if allowed_port a \<noteq> 0 \<and> port \<noteq> allowed_port a then Some ForeignHost
          else if origin = [] then None
          else check_origin parse origin name port a)"

section \<open>The control token\<close>

datatype control_error = MissingCredential | RejectedCredential

definition token_bytes :: nat where "token_bytes = 32"

text \<open>\<open>NewToken\<close> over what the random source delivers; a short read is an error.\<close>

definition new_token :: "bytes option \<Rightarrow> bytes option" where
  "new_token raw = (case raw of None \<Rightarrow> None | Some r \<Rightarrow> Some (hex_encode r))"

text \<open>Every byte pair is compared, whatever the earlier ones gave.\<close>

definition constant_time_compare :: "bytes \<Rightarrow> bytes \<Rightarrow> bool" where
  "constant_time_compare x y \<longleftrightarrow>
     length x = length y
       \<and> foldl (\<lambda>acc (a, b). acc + (if a = b then 0 else (1 :: nat))) 0 (zip x y) = 0"

definition token_matches :: "bytes \<Rightarrow> bytes \<Rightarrow> bool" where
  "token_matches t candidate \<longleftrightarrow> t \<noteq> [] \<and> length candidate = length t \<and> constant_time_compare candidate t"

definition bearer_credential :: "bytes \<Rightarrow> bytes option" where
  "bearer_credential authorization =
     (let a = trim_space authorization
      in case index_byte CHR '' '' a of
           None \<Rightarrow> None
         | Some i \<Rightarrow>
             if \<not> equal_fold (take i a) ''Bearer'' then None
             else let credential = trim_space (drop (i + 1) a)
                  in if credential = [] then None else Some credential)"

definition authorize_control :: "bytes \<Rightarrow> bytes \<Rightarrow> control_error option" where
  "authorize_control t authorization =
     (case bearer_credential authorization of
        None \<Rightarrow> Some MissingCredential
      | Some c \<Rightarrow> if token_matches t c then None else Some RejectedCredential)"

definition control_guard :: "bytes \<Rightarrow> (request \<Rightarrow> reply \<Rightarrow> reply) \<Rightarrow> request \<Rightarrow> reply \<Rightarrow> reply" where
  "control_guard t handle r w =
     (case authorize_control t (header_get (req_header r) ''Authorization'') of
        None \<Rightarrow> handle r w
      | Some MissingCredential \<Rightarrow>
          http_error ''control token required'' 401
            (reply_set ''WWW-Authenticate'' (''Bearer realm='' @ [CHR 0x22] @ ''tokenhush-control'' @ [CHR 0x22]) w)
      | Some RejectedCredential \<Rightarrow> http_error ''control token rejected'' 403 w)"

section \<open>Counters and the control surface\<close>

text \<open>Each slot is an \<open>atomic.Int64\<close>, which wraps; the counts here are words of that width.\<close>

record counters =
  n_requests :: "64 word"
  n_redactions :: "64 word"
  n_content_blocks :: "64 word"
  n_rule_blocks :: "64 word"
  n_walk_skips :: "64 word"

definition new_counters :: counters where
  "new_counters =
     \<lparr>n_requests = 0, n_redactions = 0, n_content_blocks = 0, n_rule_blocks = 0, n_walk_skips = 0\<rparr>"

definition count_request :: "counters \<Rightarrow> counters" where
  "count_request c = c\<lparr>n_requests := n_requests c + 1\<rparr>"

definition count_redactions :: "nat \<Rightarrow> counters \<Rightarrow> counters" where
  "count_redactions n c = (if n > 0 then c\<lparr>n_redactions := n_redactions c + word_of_nat n\<rparr> else c)"

definition count_content_policy_block :: "counters \<Rightarrow> counters" where
  "count_content_policy_block c = c\<lparr>n_content_blocks := n_content_blocks c + 1\<rparr>"

definition count_rule_block :: "counters \<Rightarrow> counters" where
  "count_rule_block c = c\<lparr>n_rule_blocks := n_rule_blocks c + 1\<rparr>"

definition count_walk_skip :: "counters \<Rightarrow> counters" where
  "count_walk_skip c = c\<lparr>n_walk_skips := n_walk_skips c + 1\<rparr>"

record control_api =
  api_state :: bytes
  api_addrs :: "bytes list"
  api_port :: int
  api_started :: "int option"

definition new_control_api :: "bytes \<Rightarrow> bytes list \<Rightarrow> int \<Rightarrow> int option \<Rightarrow> control_api" where
  "new_control_api state addrs port started =
     \<lparr>api_state = (if state = [] then ''running'' else state), api_addrs = addrs, api_port = port,
      api_started = started\<rparr>"

text \<open>Times are nanoseconds; no start is the zero time.\<close>

definition uptime_millis :: "int option \<Rightarrow> int \<Rightarrow> int" where
  "uptime_millis started now =
     (case started of
        None \<Rightarrow> 0
      | Some s \<Rightarrow> if now - s \<le> 0 then 0 else (now - s) div 1000000)"

definition json_int :: "int \<Rightarrow> bytes" where
  "json_int i = (if i < 0 then ''-'' @ itoa (nat (- i)) else itoa (nat i))"

definition json_member :: "bytes \<Rightarrow> bytes \<Rightarrow> bytes" where
  "json_member name value = json_string name @ '':'' @ value"

definition json_object :: "bytes list \<Rightarrow> bytes" where
  "json_object ms = ''{'' @ join_with '','' ms @ ''}''"

definition json_array :: "bytes list \<Rightarrow> bytes" where
  "json_array es = ''['' @ join_with '','' es @ '']''"

definition control_status :: "control_api \<Rightarrow> counters \<Rightarrow> int \<Rightarrow> bytes" where
  "control_status c n now =
     json_object
       [json_member ''state'' (json_string (api_state c)),
        json_member ''addrs'' (json_array (map json_string (api_addrs c))),
        json_member ''port'' (json_int (api_port c)),
        json_member ''uptime_ms'' (json_int (uptime_millis (api_started c) now)),
        json_member ''requests'' (json_int (sint (n_requests n))),
        json_member ''redactions'' (json_int (sint (n_redactions n))),
        json_member ''content_policy_blocks'' (json_int (sint (n_content_blocks n))),
        json_member ''rule_blocks'' (json_int (sint (n_rule_blocks n))),
        json_member ''walk_skips'' (json_int (sint (n_walk_skips n)))]"

definition write_json :: "nat \<Rightarrow> bytes \<Rightarrow> reply \<Rightarrow> reply" where
  "write_json status body w =
     reply_write body
       (reply_status status
         (reply_set ''Content-Length'' (itoa (length body))
           (reply_set ''Content-Type'' ''application/json'' w)))"

definition control_refusal :: "bytes \<Rightarrow> bytes" where
  "control_refusal code = json_object [json_member ''error'' (json_string code)]"

definition control_serve :: "control_api \<Rightarrow> counters \<Rightarrow> int \<Rightarrow> request \<Rightarrow> reply \<Rightarrow> reply" where
  "control_serve c n now r w =
     (if req_method r = ''GET'' \<and> url_path (req_url r) = ''/status'' then write_json 200 (control_status c n now) w
      else if req_method r \<noteq> ''GET'' then
        write_json 405 (control_refusal ''method_not_allowed'') (reply_set ''Allow'' ''GET'' w)
      else write_json 404 (control_refusal ''not_found'') w)"

section \<open>Only the loopback gateway, only the token\<close>

lemma lower_char_idem [simp]: "lower_char (lower_char c) = lower_char c"
proof (cases "is_upper c")
  case True
  then have "65 \<le> byte_val c" "byte_val c \<le> (90 :: nat)" by (simp_all add: ascii_defs)
  then have "byte_val (char_of (byte_val c + 32 :: nat)) = (byte_val c + 32 :: nat)" by simp
  with True \<open>65 \<le> byte_val c\<close> show ?thesis by (simp add: lower_char_def ascii_defs)
qed (simp add: lower_char_def)

lemma go_lower_ascii: "\<forall>c \<in> set s. byte_val c < (0x80 :: nat) \<Longrightarrow> go_lower s = map lower_char s"
  by (induction s rule: go_lower.induct) auto

lemma equal_fold_ascii:
  "\<forall>c \<in> set s. byte_val c < (0x80 :: nat) \<Longrightarrow> equal_fold s t \<Longrightarrow> map lower_char s = map lower_char t"
  by (induction s t rule: equal_fold.induct) (auto split: if_splits)


lemma trim_fuel_subset: "set (trim_fuel n rs s) \<subseteq> set s"
proof (induction n arbitrary: s)
  case (Suc n)
  show ?case
  proof (cases "find (\<lambda>r. prefix r s) rs")
    case (Some r)
    from Suc [of "drop (length r) s"] set_drop_subset [of "length r" s] Some show ?thesis by auto
  qed simp
qed simp

lemma trim_space_subset: "set (trim_space s) \<subseteq> set s"
  unfolding trim_space_def Let_def set_rev
  using trim_fuel_subset [of "length s" space_runes s]
    trim_fuel_subset [of _ "map rev space_runes" "rev (trim_fuel (length s) space_runes s)"]
  by fastforce

lemma split_host_port_subset: "split_host_port s = Some (h, p) \<Longrightarrow> set h \<subseteq> set s"
  by (auto simp: split_host_port_def Prelude.slice_def split: option.splits if_splits
      dest!: in_set_takeD in_set_dropD)

lemma host_authority_name:
  assumes "parse_host_authority v = Some (name, port)" "\<forall>c \<in> set v. byte_val c < (0x80 :: nat)"
  shows "\<exists>raw. name = map lower_char raw \<and> (\<forall>c \<in> set raw. byte_val c < (0x80 :: nat))"
proof -
  let ?t = "trim_space v"
  from assms(1) obtain raw where name: "name = go_lower raw"
    and raw: "raw = ?t \<or> raw = butlast (tl ?t) \<or> (\<exists>p. split_host_port ?t = Some (raw, p))"
    by (auto simp: parse_host_authority_def Let_def split: option.splits if_splits prod.splits)
  from raw have "set raw \<subseteq> set ?t"
    using split_host_port_subset [of ?t raw] by (cases ?t) (auto dest: in_set_butlastD)
  with trim_space_subset [of v] assms(2) have "\<forall>c \<in> set raw. byte_val c < (0x80 :: nat)" by blast
  with name go_lower_ascii show ?thesis by blast
qed



definition origin_url :: "bytes \<Rightarrow> url option" where
  "origin_url origin =
     (if prefix ''http://'' origin then
        Some \<lparr>url_scheme = ''http'', url_opaque = [], url_user = False, url_host = drop 7 origin,
              url_path = [], url_escaped = [], url_raw_query = [], url_force_query = False, url_fragment = []\<rparr>
      else None)"


text \<open>The control handler runs for the exact token and for nothing else.\<close>

lemma compare_sum:
  "foldl (\<lambda>acc (a, b). acc + (if a = b then 0 else (1 :: nat))) n ps = n + length (filter (\<lambda>(a, b). a \<noteq> b) ps)"
  by (induction ps arbitrary: n) auto

lemma constant_time_compare_eq: "constant_time_compare x y \<longleftrightarrow> x = y"
proof
  assume "constant_time_compare x y"
  then have len: "length x = length y" and "filter (\<lambda>(a, b). a \<noteq> b) (zip x y) = []"
    by (simp_all add: constant_time_compare_def compare_sum)
  then have "\<forall>p \<in> set (zip x y). fst p = snd p" by (auto simp: filter_empty_conv)
  then have "map fst (zip x y) = map snd (zip x y)" by simp
  with len show "x = y" by simp
next
  assume "x = y"
  moreover have "filter (\<lambda>(a, b). a \<noteq> b) (zip x x) = []"
    by (auto simp: filter_empty_conv zip_same)
  ultimately show "constant_time_compare x y"
    by (simp add: constant_time_compare_def compare_sum)
qed

lemma authorize_control_iff: "authorize_control t a = None \<longleftrightarrow> t \<noteq> [] \<and> bearer_credential a = Some t"
  by (auto simp: authorize_control_def token_matches_def constant_time_compare_eq split: option.split)

lemma reply_committed_simps [simp]:
  "reply_committed (reply_status st w) = (case reply_committed w of None \<Rightarrow> Some (st, reply_header w) | Some c \<Rightarrow> Some c)"
  "reply_committed (reply_write p w) = (case reply_committed w of None \<Rightarrow> Some (200, reply_header w) | Some c \<Rightarrow> Some c)"
  "reply_committed (reply_set k v w) = reply_committed w"
  by (simp_all add: reply_status_def reply_write_def reply_set_def Let_def split: option.split)

lemma http_error_committed:
  "reply_committed w = None \<Longrightarrow>
     reply_committed (http_error m st w) = Some (st, error_headers (reply_header w))"
  by (simp add: http_error_def)

text \<open>
  C31: The control surface answers only to the token of the session: with it the handler runs, and without
  it the reply is the same whatever the handler is, 401 for a missing credential and 403 for a wrong one.
\<close>

theorem control_needs_token:
  fixes r
  defines "credential \<equiv> bearer_credential (header_get (req_header r) ''Authorization'')"
  shows "if t \<noteq> [] \<and> credential = Some t then control_guard t handle r w = handle r w
    else control_guard t handle r w = control_guard t other r w
       \<and> (reply_committed w = None \<longrightarrow>
            (\<exists>h. reply_committed (control_guard t handle r w) = Some (if credential = None then 401 else 403, h)))"
proof (cases "authorize_control t (header_get (req_header r) ''Authorization'')")
  case None
  then have "control_guard t handle r w = handle r w" by (simp add: control_guard_def)
  with None show ?thesis unfolding credential_def by (simp add: authorize_control_iff)
next
  case (Some e)
  then have "\<not> (t \<noteq> [] \<and> credential = Some t)"
    and e: "e = (if credential = None then MissingCredential else RejectedCredential)"
    unfolding credential_def
    by (auto simp: authorize_control_def token_matches_def constant_time_compare_eq split: option.splits if_splits)
  then show ?thesis
    by (cases e) (auto simp: control_guard_def Some http_error_committed split: if_splits)
qed

definition status_request :: "header \<Rightarrow> request" where
  "status_request h =
     \<lparr>req_method = ''GET'', req_host = ''127.0.0.1:8787'',
      req_url = \<lparr>url_scheme = [], url_opaque = [], url_user = False, url_host = [], url_path = ''/status'', url_escaped = [],
                 url_raw_query = [], url_force_query = False, url_fragment = []\<rparr>,
      req_header = h, req_length = 0, req_body = None\<rparr>"

lemma control_needs_token_witness:
  "control_guard ''tok'' (\<lambda>_. reply_status 200) (status_request [(''Authorization'', [''Bearer tok''])]) new_reply =
     reply_status 200 new_reply
   \<and> (\<exists>h. reply_committed (control_guard ''tok'' (\<lambda>_. reply_status 200) (status_request []) new_reply) = Some (401, h))
   \<and> (\<exists>h. reply_committed (control_guard ''tok'' (\<lambda>_. reply_status 200) (status_request [(''Authorization'', [''Bearer tik''])]) new_reply) = Some (403, h))"
proof -
  have "bearer_credential (header_get (req_header (status_request [(''Authorization'', [''Bearer tok''])])) ''Authorization'') = Some ''tok''"
    "bearer_credential (header_get (req_header (status_request [(''Authorization'', [''Bearer tik''])])) ''Authorization'') = Some ''tik''"
    "bearer_credential (header_get (req_header (status_request [])) ''Authorization'') = None"
    by code_simp+
  then show ?thesis
    using control_needs_token [of "''tok''" "status_request [(''Authorization'', [''Bearer tok''])]" "\<lambda>_. reply_status 200" new_reply]
      control_needs_token [of "''tok''" "status_request [(''Authorization'', [''Bearer tik''])]" "\<lambda>_. reply_status 200" new_reply]
      control_needs_token [of "''tok''" "status_request []" "\<lambda>_. reply_status 200" new_reply]
    by (simp add: new_reply_def)
qed

end
