(* ===== verification/DataPlane.thy ===== *)
theory DataPlane
  imports Guard Walk
begin

text \<open>
  The request-side gate, \<open>pkg/proxy/dataplane.go\<close> and \<open>dataplane_refusal.go\<close>: it reads the whole
  body, walks and evaluates a declared-JSON one, and either refuses locally or hands the request with
  the identical body to the next handler. The walker, the evaluator and the next handler are the
  arguments of the handler; a seam call returns, panics or outruns its bound.
\<close>

section \<open>Handlers\<close>

text \<open>What a handler of the gateway changes besides its reply: the counters and the notice stream.\<close>

record plane_state =
  ps_counters :: counters
  ps_log :: "bytes list"

type_synonym 's handler =
  "request \<Rightarrow> reply \<Rightarrow> 's plane_state_scheme \<Rightarrow> reply \<times> 's plane_state_scheme"

definition log_line :: "bytes \<Rightarrow> 's plane_state_scheme \<Rightarrow> 's plane_state_scheme" where
  "log_line l s = s\<lparr>ps_log := ps_log s @ [l]\<rparr>"

definition on_counters :: "(counters \<Rightarrow> counters) \<Rightarrow> 's plane_state_scheme \<Rightarrow> 's plane_state_scheme" where
  "on_counters f s = s\<lparr>ps_counters := f (ps_counters s)\<rparr>"

section \<open>Refusals\<close>

record refusal_doc =
  rd_error :: bytes
  rd_reason :: bytes
  rd_rule_id :: bytes

definition refusal_of :: "bytes \<Rightarrow> refusal_doc" where
  "refusal_of code = \<lparr>rd_error = code, rd_reason = [], rd_rule_id = []\<rparr>"

definition failure_reasons :: "bytes list" where
  "failure_reasons = [''budget'', ''timeout'', ''error'', ''panic'', ''malformed'']"

definition plugin_failure :: "bytes \<Rightarrow> refusal_doc" where
  "plugin_failure reason = \<lparr>rd_error = ''plugin_failure'', rd_reason = reason, rd_rule_id = []\<rparr>"

definition rule_blocked :: "bytes \<Rightarrow> refusal_doc" where
  "rule_blocked rule_id = \<lparr>rd_error = ''rule_blocked'', rd_reason = [], rd_rule_id = rule_id\<rparr>"

definition refusal_line :: "refusal_doc \<Rightarrow> bytes" where
  "refusal_line doc =
     ''tokenhush: refused request '' @ rd_error doc
       @ (if rd_reason doc \<noteq> [] then '' reason='' @ rd_reason doc else [])
       @ (if rd_rule_id doc \<noteq> [] then '' rule_id='' @ rd_rule_id doc else [])"

definition log_refusal :: "refusal_doc \<Rightarrow> 's plane_state_scheme \<Rightarrow> 's plane_state_scheme" where
  "log_refusal doc = log_line (refusal_line doc)"

text \<open>\<open>json.Marshal\<close> of the document, with \<open>omitempty\<close> on the last two members.\<close>

definition refusal_json :: "refusal_doc \<Rightarrow> bytes" where
  "refusal_json doc =
     json_object
       ([json_member ''error'' (json_string (rd_error doc))]
        @ (if rd_reason doc \<noteq> [] then [json_member ''reason'' (json_string (rd_reason doc))] else [])
        @ (if rd_rule_id doc \<noteq> [] then [json_member ''rule_id'' (json_string (rd_rule_id doc))] else []))"

definition write_data_plane_refusal ::
  "nat \<Rightarrow> refusal_doc \<Rightarrow> reply \<Rightarrow> 's plane_state_scheme \<Rightarrow> reply \<times> 's plane_state_scheme" where
  "write_data_plane_refusal status doc w s = (write_json status (refusal_json doc) w, log_refusal doc s)"

definition primary_rule :: "bytes list \<Rightarrow> bytes" where
  "primary_rule ids = (case ids of [] \<Rightarrow> [] | i # _ \<Rightarrow> i)"

definition refuse_request ::
  "nat \<Rightarrow> refusal_doc \<Rightarrow> reply \<Rightarrow> 's plane_state_scheme \<Rightarrow> reply \<times> 's plane_state_scheme" where
  "refuse_request status doc w s =
     write_data_plane_refusal status doc w (on_counters count_content_policy_block s)"

definition block_request ::
  "bytes list \<Rightarrow> reply \<Rightarrow> 's plane_state_scheme \<Rightarrow> reply \<times> 's plane_state_scheme" where
  "block_request ids w s =
     write_data_plane_refusal 403 (rule_blocked (primary_rule ids)) w
       (on_counters count_rule_block (on_counters count_content_policy_block s))"

section \<open>The seams\<close>

datatype 'a call = Returned 'a | Panicked | Overran

datatype ('e, 'a) call_outcome = CallValue 'a | CallError 'e | CallFailed bytes

definition guard_call :: "('e, 'a) result call \<Rightarrow> ('e, 'a) call_outcome" where
  "guard_call c =
     (case c of
        Returned (Inr v) \<Rightarrow> CallValue v
      | Returned (Inl e) \<Rightarrow> CallError e
      | Panicked \<Rightarrow> CallFailed ''panic''
      | Overran \<Rightarrow> CallFailed ''timeout'')"

datatype walk_failure = WalkFailed walk_error | OtherWalkFailure

fun walk_classification :: "walk_failure \<Rightarrow> bytes" where
  "walk_classification (WalkFailed MalformedJSON) = ''malformed_json''"
| "walk_classification (WalkFailed TrailingData) = ''trailing_data''"
| "walk_classification (WalkFailed NonUTF8) = ''invalid_utf8''"
| "walk_classification (WalkFailed MaxDepth) = ''max_depth''"
| "walk_classification OtherWalkFailure = ''unwalkable_json''"

text \<open>A \<open>DetectorFailure\<close> with its rule and reason, or any other evaluator error.\<close>

datatype eval_failure = DetectorFailure bytes bytes | OtherEvalFailure

definition failure_reason :: "eval_failure \<Rightarrow> bytes" where
  "failure_reason e =
     (case e of
        DetectorFailure _ reason \<Rightarrow> if reason \<in> set failure_reasons then reason else ''error''
      | OtherEvalFailure \<Rightarrow> ''error'')"

datatype request_action = RequestAllow | RequestBlock | OtherRequestAction bytes

record request_decision =
  rq_action :: request_action
  rq_rules :: "bytes list"

record data_plane =
  dp_walk :: "bytes \<Rightarrow> (walk_failure, leaf list) result call"
  dp_evaluate :: "(leaf list \<Rightarrow> (eval_failure, request_decision) result call) option"
  dp_max_body :: int

section \<open>The handler\<close>

definition forward_admitted :: "'s handler \<Rightarrow> bytes \<Rightarrow> 's handler" where
  "forward_admitted handle body r = handle (with_body body r)"

definition inspect_request :: "data_plane \<Rightarrow> 's handler \<Rightarrow> bytes \<Rightarrow> 's handler" where
  "inspect_request p handle body r w s =
     (case guard_call (dp_walk p body) of
        CallFailed reason \<Rightarrow> refuse_request 403 (plugin_failure reason) w s
      | CallError e \<Rightarrow> refuse_request 400 (refusal_of (walk_classification e)) w s
      | CallValue leaves \<Rightarrow>
          (case dp_evaluate p of
             None \<Rightarrow> forward_admitted handle body r w s
           | Some evaluate \<Rightarrow>
               (case guard_call (evaluate leaves) of
                  CallFailed reason \<Rightarrow> refuse_request 403 (plugin_failure reason) w s
                | CallError e \<Rightarrow> refuse_request 403 (plugin_failure (failure_reason e)) w s
                | CallValue d \<Rightarrow>
                    if rq_action d = RequestAllow then forward_admitted handle body r w s
                    else block_request (rq_rules d) w s)))"

definition data_plane_serve :: "data_plane \<Rightarrow> 's handler \<Rightarrow> 's handler" where
  "data_plane_serve p handle r w s =
     (if \<not> identity_only_encoding (req_header r) then handle r w s
      else case read_request_body (dp_max_body p) r of
             Inl BodyTooLarge \<Rightarrow> refuse_request 403 (refusal_of ''body_too_large'') w s
           | Inl BodyUnreadable \<Rightarrow> refuse_request 400 (refusal_of ''unreadable_body'') w s
           | Inr body \<Rightarrow>
               if \<not> declares_json (req_header r) body then forward_admitted handle body r w s
               else inspect_request p handle body r w s)"

section \<open>Fail closed\<close>

text \<open>What a refusal document may say: a fixed code, a closed reason, or a rule id the core gave.\<close>

definition refusal_codes :: "bytes list" where
  "refusal_codes =
     [''body_too_large'', ''unreadable_body'', ''malformed_json'', ''trailing_data'', ''invalid_utf8'',
      ''max_depth'', ''unwalkable_json'', ''plugin_failure'', ''rule_blocked'']"

definition metadata_only :: "data_plane \<Rightarrow> refusal_doc \<Rightarrow> bool" where
  "metadata_only p doc \<longleftrightarrow>
     rd_error doc \<in> set refusal_codes \<and> (rd_reason doc = [] \<or> rd_reason doc \<in> set failure_reasons)
       \<and> (rd_rule_id doc = [] \<or> (\<exists>evaluate leaves d. dp_evaluate p = Some evaluate
            \<and> evaluate leaves = Returned (Inr d) \<and> rd_rule_id doc \<in> set (rq_rules d)))"

text \<open>The request the gate hands on, if any.\<close>

definition admitted :: "data_plane \<Rightarrow> request \<Rightarrow> request option" where
  "admitted p r =
     (if \<not> identity_only_encoding (req_header r) then Some r
      else case read_request_body (dp_max_body p) r of
             Inl _ \<Rightarrow> None
           | Inr body \<Rightarrow>
               if declares_json (req_header r) body
                  \<and> \<not> (\<exists>leaves. dp_walk p body = Returned (Inr leaves)
                         \<and> (\<forall>evaluate. dp_evaluate p = Some evaluate \<longrightarrow>
                              (\<exists>d. evaluate leaves = Returned (Inr d) \<and> rq_action d = RequestAllow)))
               then None else Some (with_body body r))"

lemma guard_call_cases:
  "guard_call c = CallValue v \<longleftrightarrow> c = Returned (Inr v)"
  "guard_call c = CallError e \<longleftrightarrow> c = Returned (Inl e)"
  "guard_call c = CallFailed x \<Longrightarrow> x \<in> set failure_reasons"
  by (auto simp: guard_call_def failure_reasons_def split: call.splits sum.splits)

lemma failure_reason_closed: "failure_reason e \<in> set failure_reasons"
  by (cases e) (auto simp: failure_reason_def failure_reasons_def)

lemma walk_classification_closed: "walk_classification e \<in> set refusal_codes"
  by (cases e rule: walk_classification.cases) (simp_all add: refusal_codes_def)

lemma codes_closed:
  "''body_too_large'' \<in> set refusal_codes" "''unreadable_body'' \<in> set refusal_codes"
  "''plugin_failure'' \<in> set refusal_codes" "''rule_blocked'' \<in> set refusal_codes"
  by (simp_all add: refusal_codes_def)

definition refused_with ::
  "nat \<Rightarrow> refusal_doc \<Rightarrow> reply \<Rightarrow> 's plane_state_scheme \<Rightarrow> reply \<times> 's plane_state_scheme \<Rightarrow> bool" where
  "refused_with status doc w s out \<longleftrightarrow>
     out = (write_json status (refusal_json doc) w,
            s\<lparr>ps_counters := (ps_counters s)\<lparr>n_content_blocks := n_content_blocks (ps_counters s) + 1,
                  n_rule_blocks := n_rule_blocks (ps_counters s) + (if rd_error doc = ''rule_blocked'' then 1 else 0)\<rparr>,
              ps_log := ps_log s @ [refusal_line doc]\<rparr>)"

lemma refuse_request_with:
  "rd_error doc \<noteq> ''rule_blocked'' \<Longrightarrow> refused_with status doc w s (refuse_request status doc w s)"
  by (simp add: refused_with_def refuse_request_def write_data_plane_refusal_def log_refusal_def
      log_line_def on_counters_def count_content_policy_block_def)

lemma block_request_with: "refused_with 403 (rule_blocked (primary_rule ids)) w s (block_request ids w s)"
  by (simp add: refused_with_def block_request_def write_data_plane_refusal_def log_refusal_def
      log_line_def on_counters_def count_content_policy_block_def count_rule_block_def rule_blocked_def)

definition passes :: "data_plane \<Rightarrow> bytes \<Rightarrow> bool" where
  "passes p body \<longleftrightarrow>
     (\<exists>leaves. dp_walk p body = Returned (Inr leaves)
        \<and> (\<forall>evaluate. dp_evaluate p = Some evaluate \<longrightarrow>
             (\<exists>d. evaluate leaves = Returned (Inr d) \<and> rq_action d = RequestAllow)))"

lemma metadata_only_code:
  "c \<in> set refusal_codes \<Longrightarrow> metadata_only p (refusal_of c)"
  "reason \<in> set failure_reasons \<Longrightarrow> metadata_only p (plugin_failure reason)"
  by (simp_all add: metadata_only_def refusal_of_def plugin_failure_def codes_closed)

lemma metadata_only_block:
  "dp_evaluate p = Some evaluate \<Longrightarrow> evaluate leaves = Returned (Inr d) \<Longrightarrow>
     metadata_only p (rule_blocked (primary_rule (rq_rules d)))"
proof (cases "rq_rules d")
  case (Cons a as)
  assume "dp_evaluate p = Some evaluate" "evaluate leaves = Returned (Inr d)"
  moreover from Cons have "a \<in> set (rq_rules d)" by simp
  ultimately show ?thesis
    using Cons unfolding metadata_only_def rule_blocked_def primary_rule_def by (fastforce simp: codes_closed)
qed (simp add: metadata_only_def rule_blocked_def primary_rule_def codes_closed)

lemma plain_codes:
  "rd_error (plugin_failure x) \<noteq> ''rule_blocked''"
  "rd_error (refusal_of (walk_classification e)) \<noteq> ''rule_blocked''"
  "rd_error (refusal_of ''body_too_large'') \<noteq> ''rule_blocked''"
  "rd_error (refusal_of ''unreadable_body'') \<noteq> ''rule_blocked''"
  by (simp_all add: plugin_failure_def refusal_of_def)
    (cases e rule: walk_classification.cases; simp)

definition refuses ::
  "data_plane \<Rightarrow> reply \<Rightarrow> 's plane_state_scheme \<Rightarrow> reply \<times> 's plane_state_scheme \<Rightarrow> bool" where
  "refuses p w s out \<longleftrightarrow>
     (\<exists>status doc. status \<in> {400, 403} \<and> metadata_only p doc \<and> refused_with status doc w s out)"

lemma refuses_plain:
  "status \<in> {400, 403} \<Longrightarrow> metadata_only p doc \<Longrightarrow> rd_error doc \<noteq> ''rule_blocked'' \<Longrightarrow>
     refuses p w s (refuse_request status doc w s)"
  unfolding refuses_def using refuse_request_with by blast

lemma inspect_request_cases:
  "if passes p body then inspect_request p handle body r w s = forward_admitted handle body r w s
   else refuses p w s (inspect_request p handle body r w s)"
proof (cases "guard_call (dp_walk p body)")
  case (CallValue leaves)
  then have walk: "dp_walk p body = Returned (Inr leaves)" by (simp add: guard_call_cases)
  show ?thesis
  proof (cases "dp_evaluate p")
    case (Some evaluate)
    show ?thesis
    proof (cases "guard_call (evaluate leaves)")
      case (CallValue d)
      then have d: "evaluate leaves = Returned (Inr d)" by (simp add: guard_call_cases)
      have "refuses p w s (block_request (rq_rules d) w s)"
        unfolding refuses_def using block_request_with metadata_only_block [OF Some d] by blast
      with walk Some d CallValue \<open>guard_call (dp_walk p body) = CallValue leaves\<close> show ?thesis
        by (auto simp: passes_def inspect_request_def)
    next
      case (CallError e)
      then have "evaluate leaves = Returned (Inl e)" by (simp add: guard_call_cases)
      moreover have "refuses p w s (refuse_request 403 (plugin_failure (failure_reason e)) w s)"
        by (simp add: refuses_plain metadata_only_code failure_reason_closed plain_codes)
      ultimately show ?thesis
        using walk Some CallError \<open>guard_call (dp_walk p body) = CallValue leaves\<close>
        by (simp add: passes_def inspect_request_def)
    next
      case (CallFailed x)
      then have "\<not> (\<exists>d. evaluate leaves = Returned (Inr d))" by (auto simp: guard_call_def)
      moreover have "refuses p w s (refuse_request 403 (plugin_failure x) w s)"
        by (simp add: refuses_plain metadata_only_code guard_call_cases(3) [OF CallFailed] plain_codes)
      ultimately show ?thesis
        using walk Some CallFailed \<open>guard_call (dp_walk p body) = CallValue leaves\<close>
        by (simp add: passes_def inspect_request_def)
    qed
  next
    case None
    then show ?thesis
      unfolding inspect_request_def by (simp add: walk passes_def guard_call_def)
  qed
next
  case (CallError e)
  then have "dp_walk p body = Returned (Inl e)" by (simp add: guard_call_cases)
  moreover have "refuses p w s (refuse_request 400 (refusal_of (walk_classification e)) w s)"
    by (simp add: refuses_plain metadata_only_code walk_classification_closed plain_codes)
  ultimately show ?thesis by (simp add: passes_def inspect_request_def guard_call_def)
next
  case (CallFailed x)
  then have "\<not> (\<exists>ls. dp_walk p body = Returned (Inr ls))" by (auto simp: guard_call_def)
  moreover have "refuses p w s (refuse_request 403 (plugin_failure x) w s)"
    by (simp add: refuses_plain metadata_only_code guard_call_cases(3) [OF CallFailed] plain_codes)
  ultimately show ?thesis by (simp add: passes_def inspect_request_def CallFailed)
qed

lemma gate_cases:
  "case admitted p r of
     Some r' \<Rightarrow> data_plane_serve p handle r w s = handle r' w s
       \<and> (r' = r \<or> (\<exists>body. read_request_body (dp_max_body p) r = Inr body \<and> r' = with_body body r))
   | None \<Rightarrow> refuses p w s (data_plane_serve p handle r w s)"
proof (cases "identity_only_encoding (req_header r)")
  case True
  show ?thesis
  proof (cases "read_request_body (dp_max_body p) r")
    case (Inl e)
    with True show ?thesis
      by (cases e) (simp_all add: admitted_def data_plane_serve_def refuses_plain metadata_only_code
          codes_closed plain_codes)
  next
    case (Inr body)
    then have a: "admitted p r = (if declares_json (req_header r) body \<and> \<not> passes p body then None else Some (with_body body r))"
      using True by (simp add: admitted_def passes_def)
    show ?thesis
      using inspect_request_cases [of p body handle r w s] True Inr
      by (auto simp: a data_plane_serve_def forward_admitted_def)
  qed
qed (simp add: admitted_def data_plane_serve_def)

text \<open>
  C12: The gate is closed on every failure: a request reaches the next handler unchanged exactly when it is
  encoded (the forwarder's business), does not declare JSON, or walks and is allowed; in every other
  case the reply is one metadata-only document, independent of the next handler, that moves the
  content counter by one and the rule counter only for a block.
\<close>

theorem data_plane_fails_closed:
  "case admitted p r of
     Some r' \<Rightarrow> data_plane_serve p handle r w s = handle r' w s
       \<and> (r' = r \<or> (\<exists>body. read_request_body (dp_max_body p) r = Inr body \<and> r' = with_body body r))
   | None \<Rightarrow> refuses p w s (data_plane_serve p handle r w s)"
  by (rule gate_cases)

end
