(* ===== verification/Forward.thy ===== *)
theory Forward
  imports DataPlane Config
begin

text \<open>
  The forwarder of \<open>pkg/proxy/forward.go\<close> and the buffering half of the gateway's response writer,
  \<open>internal/cli/response_writer.go\<close>, into which it writes. The upstream exchange is an argument: the
  transport fails, or an answer with status, header, body chunks and the way the body ended.
\<close>

section \<open>The buffering writer\<close>

text \<open>\<open>rw_dst\<close> is the client's writer, whose header map the forwarder fills in directly.\<close>

record response_writer =
  rw_dst :: reply
  rw_buf :: bytes
  rw_status :: nat
  rw_wrote :: bool
  rw_local :: bool
  rw_capped :: bool
  rw_timed_out :: bool
  rw_done :: bool

definition new_response_writer :: "reply \<Rightarrow> response_writer" where
  "new_response_writer dst =
     \<lparr>rw_dst = dst, rw_buf = [], rw_status = 0, rw_wrote = False, rw_local = False, rw_capped = False,
      rw_timed_out = False, rw_done = False\<rparr>"

definition rw_header :: "response_writer \<Rightarrow> header" where
  "rw_header w = reply_header (rw_dst w)"

definition rw_set_header :: "header \<Rightarrow> response_writer \<Rightarrow> response_writer" where
  "rw_set_header h w = w\<lparr>rw_dst := (rw_dst w)\<lparr>reply_header := h\<rparr>\<rparr>"

definition rw_write_header :: "nat \<Rightarrow> response_writer \<Rightarrow> response_writer" where
  "rw_write_header status w = (if rw_wrote w then w else w\<lparr>rw_wrote := True, rw_status := status\<rparr>)"

text \<open>\<open>Write\<close>: whether the bytes were taken. A non-positive limit is no limit.\<close>

definition rw_write :: "int \<Rightarrow> bytes \<Rightarrow> response_writer \<Rightarrow> bool \<times> response_writer" where
  "rw_write limit p w =
     (let w = rw_write_header 200 w
      in if rw_capped w then (False, w)
         else if 0 < limit \<and> limit < int (length (rw_buf w)) + int (length p) then (False, w\<lparr>rw_capped := True\<rparr>)
         else (True, w\<lparr>rw_buf := rw_buf w @ p\<rparr>))"

definition mark_local :: "response_writer \<Rightarrow> response_writer" where
  "mark_local w = w\<lparr>rw_local := True\<rparr>"

datatype copy_error = DeadlineExceeded | BufferExceeded | ReadFailed

definition record_copy_error :: "copy_error \<Rightarrow> response_writer \<Rightarrow> response_writer" where
  "record_copy_error e w = (if e = DeadlineExceeded then w\<lparr>rw_timed_out := True\<rparr> else w)"

section \<open>Local refusals\<close>

definition rw_http_error :: "int \<Rightarrow> bytes \<Rightarrow> nat \<Rightarrow> response_writer \<Rightarrow> response_writer" where
  "rw_http_error limit message status w =
     snd (rw_write limit (message @ [CHR 0x0A])
       (rw_write_header status (rw_set_header (error_headers (rw_header w)) w)))"

definition refuse_local ::
  "int \<Rightarrow> nat \<Rightarrow> bytes \<Rightarrow> response_writer \<Rightarrow> 's plane_state_scheme \<Rightarrow> response_writer \<times> 's plane_state_scheme" where
  "refuse_local limit status code w s =
     (rw_http_error limit (status_text status) status (mark_local w), log_refusal (refusal_of code) s)"

definition rw_write_json :: "int \<Rightarrow> nat \<Rightarrow> bytes \<Rightarrow> response_writer \<Rightarrow> response_writer" where
  "rw_write_json limit status body w =
     snd (rw_write limit body (rw_write_header status
       (rw_set_header (header_set ''Content-Length'' (itoa (length body))
          (header_set ''Content-Type'' ''application/json'' (rw_header w))) w)))"

definition refuse_body_too_large ::
  "int \<Rightarrow> response_writer \<Rightarrow> 's plane_state_scheme \<Rightarrow> response_writer \<times> 's plane_state_scheme" where
  "refuse_body_too_large limit w s =
     (rw_write_json limit 403 (refusal_json (refusal_of ''body_too_large'')) (mark_local w),
      log_refusal (refusal_of ''body_too_large'') s)"

section \<open>The forwarder\<close>

record outbound =
  ob_method :: bytes
  ob_target :: target_url
  ob_header :: header
  ob_body :: bytes

datatype exchange =
  TransportFailed bool
| Answered nat header "bytes list" "copy_error option"

text \<open>
  A forwarder: its base URL, the transform (a request body to the new body or an error), the body cap,
  and the world it dials: whether \<open>http.NewRequest\<close> accepts the request, and the exchange.
\<close>

record 's forwarder =
  fw_base :: url
  fw_transform :: "bytes \<Rightarrow> 's \<Rightarrow> bytes option \<times> 's"
  fw_max_body :: int
  fw_limit :: int
  fw_builds :: "bytes \<Rightarrow> target_url \<Rightarrow> bool"
  fw_exchange :: "outbound \<Rightarrow> exchange"

definition forwarder_over ::
  "(bytes \<Rightarrow> 's \<Rightarrow> bytes option \<times> 's) \<Rightarrow> int \<Rightarrow> int \<Rightarrow> (bytes \<Rightarrow> target_url \<Rightarrow> bool)
     \<Rightarrow> (outbound \<Rightarrow> exchange) \<Rightarrow> url \<Rightarrow> 's forwarder" where
  "forwarder_over transform max_body limit builds dial base =
     \<lparr>fw_base = base, fw_transform = transform,
      fw_max_body = (if 0 < max_body then max_body else default_max_body), fw_limit = limit,
      fw_builds = builds, fw_exchange = dial\<rparr>"

text \<open>\<open>NewForwarder\<close>: a malformed base never becomes a forwarder.\<close>

definition new_forwarder ::
  "(bytes \<Rightarrow> url option) \<Rightarrow> bytes \<Rightarrow> (url \<Rightarrow> 's forwarder) \<Rightarrow> (upstream_error, 's forwarder) result" where
  "new_forwarder parse base build = map_sum id build (parse_upstream parse base)"

text \<open>\<open>io.Copy\<close>: the chunks in order until the writer refuses one, then the body's own end.\<close>

fun copy_chunks :: "int \<Rightarrow> bytes list \<Rightarrow> copy_error option \<Rightarrow> response_writer \<Rightarrow> copy_error option \<times> response_writer" where
  "copy_chunks limit [] ending w = (ending, w)"
| "copy_chunks limit (c # cs) ending w =
     (let (ok, w) = rw_write limit c w
      in if ok then copy_chunks limit cs ending w else (Some BufferExceeded, w))"

definition write_transport_error ::
  "int \<Rightarrow> bool \<Rightarrow> response_writer \<Rightarrow> 's plane_state_scheme \<Rightarrow> response_writer \<times> 's plane_state_scheme" where
  "write_transport_error limit timeout w s =
     (if timeout then refuse_local limit 504 ''gateway_timeout'' w s else refuse_local limit 502 ''bad_gateway'' w s)"

definition relay :: "int \<Rightarrow> nat \<Rightarrow> header \<Rightarrow> bytes list \<Rightarrow> copy_error option \<Rightarrow> response_writer \<Rightarrow> response_writer" where
  "relay limit status h chunks ending w =
     (case copy_chunks limit chunks ending
             (rw_write_header status (rw_set_header (copy_end_to_end_headers (rw_header w) h) w)) of
        (Some e, w) \<Rightarrow> record_copy_error e w
      | (None, w) \<Rightarrow> w)"

text \<open>\<open>Forwarder.ServeHTTP\<close>: the dispatched request, if any, the writer and the state.\<close>

definition outbound_of :: "url \<Rightarrow> request \<Rightarrow> bytes \<Rightarrow> outbound" where
  "outbound_of base r body =
     \<lparr>ob_method = req_method r, ob_target = forward_target base (req_url r),
      ob_header = copy_request_headers [] (req_header r), ob_body = body\<rparr>"

definition forwarder_serve ::
  "'s plane_state_scheme forwarder \<Rightarrow> request \<Rightarrow> response_writer \<Rightarrow> 's plane_state_scheme
     \<Rightarrow> outbound option \<times> response_writer \<times> 's plane_state_scheme" where
  "forwarder_serve f r w s =
     (let limit = fw_limit f
      in if \<not> identity_only_encoding (req_header r)
         then (None, refuse_local limit 415 ''unsupported_media_type'' w s)
         else case read_request_body (fw_max_body f) r of
                Inl BodyTooLarge \<Rightarrow> (None, refuse_body_too_large limit w s)
              | Inl BodyUnreadable \<Rightarrow> (None, refuse_local limit 400 ''unreadable_body'' w s)
              | Inr body \<Rightarrow>
                  (case fw_transform f body s of
                     (None, s) \<Rightarrow> (None, refuse_local limit 500 ''transform_error'' w s)
                   | (Some body, s) \<Rightarrow>
                       (let out = outbound_of (fw_base f) r body
                        in if \<not> fw_builds f (ob_method out) (ob_target out)
                           then (None, refuse_local limit 500 ''request_build_error'' w s)
                           else case fw_exchange f out of
                                  TransportFailed timeout \<Rightarrow> (Some out, write_transport_error limit timeout w s)
                                | Answered status h chunks ending \<Rightarrow> (Some out, relay limit status h chunks ending w, s))))"

section \<open>What is dispatched and what is buffered\<close>

lemma write_header_simps [simp]:
  "rw_capped (rw_write_header st w) = rw_capped w"
  "rw_buf (rw_write_header st w) = rw_buf w"
  "rw_dst (rw_write_header st w) = rw_dst w"
  "rw_local (rw_write_header st w) = rw_local w"
  "rw_timed_out (rw_write_header st w) = rw_timed_out w"
  "rw_done (rw_write_header st w) = rw_done w"
  "rw_wrote (rw_write_header st w)"
  by (simp_all add: rw_write_header_def)

text \<open>The buffer never passes its limit.\<close>

definition buffer_ok :: "int \<Rightarrow> response_writer \<Rightarrow> bool" where
  "buffer_ok limit w \<longleftrightarrow> 0 < limit \<longrightarrow> int (length (rw_buf w)) \<le> limit"

lemma rw_write_ok: "buffer_ok limit w \<Longrightarrow> buffer_ok limit (snd (rw_write limit p w))"
  by (auto simp: buffer_ok_def rw_write_def Let_def)

lemma buffer_ok_frames [simp]:
  "buffer_ok limit (rw_write_header st w) = buffer_ok limit w"
  "buffer_ok limit (rw_set_header h w) = buffer_ok limit w"
  "buffer_ok limit (mark_local w) = buffer_ok limit w"
  "buffer_ok limit (record_copy_error e w) = buffer_ok limit w"
  by (simp_all add: buffer_ok_def rw_set_header_def mark_local_def record_copy_error_def)

lemma copy_chunks_ok: "buffer_ok limit w \<Longrightarrow> buffer_ok limit (snd (copy_chunks limit cs ending w))"
proof (induction cs arbitrary: w)
  case (Cons c cs)
  then show ?case
    using rw_write_ok [OF Cons.prems, of c] by (auto simp: Let_def split: prod.splits)
qed simp

text \<open>What the copy leaves: the whole body and its own end, or the cap flag.\<close>

lemma copy_chunks_result:
  assumes "rw_wrote w" "\<not> rw_capped w" "buffer_ok limit w"
  shows "if 0 < limit \<and> limit < int (length (rw_buf w)) + int (length (concat cs))
     then fst (copy_chunks limit cs ending w) = Some BufferExceeded
       \<and> (\<exists>b. snd (copy_chunks limit cs ending w) = w\<lparr>rw_buf := b, rw_capped := True\<rparr>)
     else copy_chunks limit cs ending w = (ending, w\<lparr>rw_buf := rw_buf w @ concat cs\<rparr>)"
  using assms
proof (induction cs arbitrary: w)
  case (Cons c cs)
  have wrote: "rw_write_header 200 w = w" using Cons.prems(1) by (simp add: rw_write_header_def)
  show ?case
  proof (cases "0 < limit \<and> limit < int (length (rw_buf w)) + int (length c)")
    case True
    then have "copy_chunks limit (c # cs) ending w = (Some BufferExceeded, w\<lparr>rw_capped := True\<rparr>)"
      using Cons.prems(2) by (simp add: rw_write_def Let_def wrote)
    moreover have "\<exists>b. w\<lparr>rw_capped := True\<rparr> = w\<lparr>rw_buf := b, rw_capped := True\<rparr>"
      by (rule exI [of _ "rw_buf w"]) simp
    moreover have "0 < limit \<and> limit < int (length (rw_buf w)) + int (length (concat (c # cs)))"
      using True by simp
    ultimately show ?thesis by simp
  next
    case False
    define w1 where "w1 = w\<lparr>rw_buf := rw_buf w @ c\<rparr>"
    have step: "copy_chunks limit (c # cs) ending w = copy_chunks limit cs ending w1"
      using False Cons.prems(2) by (auto simp: rw_write_def Let_def wrote w1_def)
    have "rw_wrote w1" "\<not> rw_capped w1" "buffer_ok limit w1"
      using Cons.prems False by (auto simp: w1_def buffer_ok_def)
    note IH = Cons.IH [OF this]
    have len: "int (length (rw_buf w1)) + int (length (concat cs)) = int (length (rw_buf w)) + int (length (concat (c # cs)))"
      and upd: "w1\<lparr>rw_buf := b, rw_capped := True\<rparr> = w\<lparr>rw_buf := b, rw_capped := True\<rparr>"
        "w1\<lparr>rw_buf := rw_buf w1 @ concat cs\<rparr> = w\<lparr>rw_buf := rw_buf w @ concat (c # cs)\<rparr>" for b
      by (simp_all add: w1_def)
    from IH show ?thesis unfolding step len upd .
  qed
qed (auto simp: buffer_ok_def)

end
