(* ===== verification/ResponsePath.thy ===== *)
theory ResponsePath
  imports Forward JsonValid SseBackfill "HOL-Library.List_Lexorder"
begin

text \<open>
  The client-bound half of the proxy, \<open>pkg/proxy/response_buffered.go\<close> and
  \<open>response_sse_buffered.go\<close>: decode every declared coding, evaluate, restore the session's
  placeholders, and only then choose a status. The decompressors and \<open>strconv.Quote\<close> are arguments.
\<close>

section \<open>Seams and results\<close>

datatype response_action = ResponseAllow | ResponseWarn | ResponseBlock | OtherResponseAction bytes

record response_decision =
  rs_action :: response_action
  rs_rules :: "bytes list"

text \<open>
  No evaluator, restorer or quoting function is a nil seam, the last one that of the warning writer.
  \<open>rh_notices\<close> are the lines the restorer prints for a whole body; those it prints for the tokens of an
  event stream are left out.
\<close>

record response_handler =
  rh_evaluate :: "(bytes \<Rightarrow> response_decision option) option"
  rh_restore :: "(bytes \<Rightarrow> bytes) option"
  rh_notices :: "bytes \<Rightarrow> bytes list"
  rh_quote :: "(bytes \<Rightarrow> bytes) option"
  rh_gunzip :: "bytes \<Rightarrow> bytes option"
  rh_inflate :: "bytes \<Rightarrow> bytes option"

record upstream_response =
  us_status :: nat
  us_header :: header
  us_body :: "body_stream option"

type_synonym verdict = "nat \<times> header \<times> bytes"

text \<open>A nil response is the only error.\<close>

datatype response_error = NilResponse

type_synonym 's responder = "'s plane_state_scheme \<Rightarrow> (response_error, verdict) result \<times> 's plane_state_scheme"

section \<open>Codings\<close>

definition read_all :: "body_stream option \<Rightarrow> bytes option" where
  "read_all b =
     (case b of None \<Rightarrow> Some [] | Some s \<Rightarrow> if stream_fails s then None else Some (stream_bytes s))"

definition coding_of :: "bytes \<Rightarrow> bytes" where
  "coding_of tok = go_lower (trim_space tok)"

definition supported_codings :: "bytes list" where
  "supported_codings = [''gzip'', ''x-gzip'', ''deflate'']"

definition declared_codings :: "bytes list \<Rightarrow> bytes list option" where
  "declared_codings vs =
     (let cs = map coding_of (concat (map (split_on CHR '','') vs))
      in if list_all (\<lambda>c. c = ''identity'' \<or> c \<in> set supported_codings) cs
         then Some (filter (\<lambda>c. c \<noteq> ''identity'') cs) else None)"

definition decode_one :: "response_handler \<Rightarrow> bytes \<Rightarrow> bytes \<Rightarrow> bytes option" where
  "decode_one h coding body =
     (if coding = ''gzip'' \<or> coding = ''x-gzip'' then rh_gunzip h body
      else if coding = ''deflate'' then rh_inflate h body
      else None)"

definition decode_all :: "response_handler \<Rightarrow> bytes \<Rightarrow> bytes list \<Rightarrow> bytes option" where
  "decode_all h raw codings =
     foldr (\<lambda>coding acc. Option.bind acc (decode_one h coding)) codings (Some raw)"

section \<open>Refusals and warnings\<close>

definition response_refusal :: "nat \<Rightarrow> bytes \<Rightarrow> bytes \<Rightarrow> verdict" where
  "response_refusal status code rule_id =
     (let body = json_object
            ([json_member ''error'' (json_string code)]
             @ (if rule_id \<noteq> [] then [json_member ''rule_id'' (json_string rule_id)] else []))
      in (status,
          header_set ''Content-Length'' (itoa (length body)) (header_set ''Content-Type'' ''application/json'' []),
          body))"

definition undecodable :: verdict where
  "undecodable = response_refusal 502 ''undecodable_content_encoding'' []"

definition unreadable :: verdict where
  "unreadable = response_refusal 502 ''upstream_body_unreadable'' []"

definition warn_lines :: "(bytes \<Rightarrow> bytes) \<Rightarrow> bytes list \<Rightarrow> bytes list" where
  "warn_lines quote ids =
     (if ids = [] then [''tokenhush: response warn'']
      else map (\<lambda>i. ''tokenhush: response warn rule='' @ quote i) ids)"

definition warn_rules :: "response_handler \<Rightarrow> bytes list \<Rightarrow> 's plane_state_scheme \<Rightarrow> 's plane_state_scheme" where
  "warn_rules h ids s =
     (case rh_quote h of None \<Rightarrow> s | Some quote \<Rightarrow> fold log_line (warn_lines quote ids) s)"

definition count_block :: "'s plane_state_scheme \<Rightarrow> 's plane_state_scheme" where
  "count_block s = on_counters count_rule_block (on_counters count_content_policy_block s)"

text \<open>The headers of a processed body: end-to-end, without the codings that were undone.\<close>

definition processed_header :: "header \<Rightarrow> bytes list \<Rightarrow> bytes \<Rightarrow> header" where
  "processed_header h codings body =
     (let c = copy_end_to_end_headers [] h;
          c = (if codings \<noteq> [] then header_del ''Content-Encoding'' c else c)
      in header_set ''Content-Length'' (itoa (length body)) c)"

section \<open>Ordinary responses\<close>

definition restore_body :: "response_handler \<Rightarrow> bytes \<Rightarrow> bytes" where
  "restore_body h body = (case rh_restore h of None \<Rightarrow> body | Some f \<Rightarrow> f body)"

text \<open>The evaluation of one body: the block refusal, if any, and the state.\<close>

definition evaluate_body ::
  "response_handler \<Rightarrow> bytes \<Rightarrow> 's plane_state_scheme \<Rightarrow> verdict option \<times> 's plane_state_scheme" where
  "evaluate_body h body s =
     (case rh_evaluate h of
        None \<Rightarrow> (None, s)
      | Some evaluate \<Rightarrow>
          (case evaluate body of
             None \<Rightarrow> (None, on_counters count_walk_skip s)
           | Some d \<Rightarrow>
               if rs_action d = ResponseWarn then (None, warn_rules h (rs_rules d) s)
               else if rs_action d = ResponseAllow then (None, s)
               else (Some (response_refusal 502 ''rule_blocked'' (primary_rule (rs_rules d))), count_block s)))"

definition decoded_body :: "response_handler \<Rightarrow> upstream_response \<Rightarrow> (verdict, bytes list \<times> bytes) result" where
  "decoded_body h u =
     (case read_all (us_body u) of
        None \<Rightarrow> Inl unreadable
      | Some raw \<Rightarrow>
          (case declared_codings (header_values (us_header u) ''Content-Encoding'') of
             None \<Rightarrow> Inl undecodable
           | Some codings \<Rightarrow>
               (case decode_all h raw codings of
                  None \<Rightarrow> Inl undecodable
                | Some body \<Rightarrow> Inr (codings, body))))"

definition handle_response :: "response_handler \<Rightarrow> upstream_response option \<Rightarrow> 's responder" where
  "handle_response h up s =
     (case up of
        None \<Rightarrow> (Inl NilResponse, s)
      | Some u \<Rightarrow>
          (case decoded_body h u of
             Inl v \<Rightarrow> (Inr v, s)
           | Inr (codings, body) \<Rightarrow>
               (case evaluate_body h body s of
                  (Some v, s) \<Rightarrow> (Inr v, s)
                | (None, s) \<Rightarrow>
                    (let out = restore_body h body
                     in (Inr (us_status u, processed_header (us_header u) codings out, out),
                         fold log_line (rh_notices h body) s)))))"

section \<open>Event streams\<close>

definition decode_sse :: "bytes \<Rightarrow> event list" where
  "decode_sse body =
     (let (r, d) = feed body new_sse; (tail, _) = close_decoder d
      in (case r of Inr evs \<Rightarrow> evs | Inl _ \<Rightarrow> []) @ tail)"

definition restore_sse :: "response_handler \<Rightarrow> bytes \<Rightarrow> bytes" where
  "restore_sse h body = reassemble (case rh_restore h of None \<Rightarrow> (\<lambda>t. t) | Some f \<Rightarrow> f) None [body]"

definition sorted_rule_ids :: "bytes list \<Rightarrow> bytes list" where
  "sorted_rule_ids ids = sort (remdups ids)"

text \<open>What the pass over the events collects: whether any blocked, and the rules of each kind.\<close>

record sse_verdicts =
  sv_blocked :: bool
  sv_block_ids :: "bytes list"
  sv_warn_ids :: "bytes list"

definition evaluate_event ::
  "(bytes \<Rightarrow> response_decision option) \<Rightarrow> event \<Rightarrow> sse_verdicts \<times> 's plane_state_scheme
     \<Rightarrow> sse_verdicts \<times> 's plane_state_scheme" where
  "evaluate_event evaluate ev vs =
     (case vs of (v, s) \<Rightarrow>
        if \<not> json_valid (ev_data ev) then (v, s)
        else case evaluate (ev_data ev) of
               None \<Rightarrow> (v, on_counters count_walk_skip s)
             | Some d \<Rightarrow>
                 if rs_action d = ResponseWarn then (v\<lparr>sv_warn_ids := sv_warn_ids v @ rs_rules d\<rparr>, s)
                 else if rs_action d = ResponseAllow then (v, s)
                 else (v\<lparr>sv_blocked := True, sv_block_ids := sv_block_ids v @ rs_rules d\<rparr>, s))"

definition no_verdicts :: sse_verdicts where
  "no_verdicts = \<lparr>sv_blocked = False, sv_block_ids = [], sv_warn_ids = []\<rparr>"

definition evaluate_sse ::
  "response_handler \<Rightarrow> (bytes \<Rightarrow> response_decision option) \<Rightarrow> bytes \<Rightarrow> 's plane_state_scheme
     \<Rightarrow> response_decision \<times> bool \<times> 's plane_state_scheme" where
  "evaluate_sse h evaluate body s =
     (case fold (evaluate_event evaluate) (decode_sse body) (no_verdicts, s) of
        (v, s) \<Rightarrow>
          if sv_blocked v
          then (\<lparr>rs_action = ResponseBlock, rs_rules = sorted_rule_ids (sv_block_ids v)\<rparr>, True, count_block s)
          else if sv_warn_ids v \<noteq> []
          then (let ids = sorted_rule_ids (sv_warn_ids v)
                in (\<lparr>rs_action = ResponseWarn, rs_rules = ids\<rparr>, False, warn_rules h ids s))
          else (\<lparr>rs_action = ResponseAllow, rs_rules = []\<rparr>, False, s))"

definition handle_buffered_sse :: "response_handler \<Rightarrow> upstream_response option \<Rightarrow> 's responder" where
  "handle_buffered_sse h up s =
     (case up of
        None \<Rightarrow> (Inl NilResponse, s)
      | Some u \<Rightarrow>
          (case decoded_body h u of
             Inl v \<Rightarrow> (Inr v, s)
           | Inr (codings, body) \<Rightarrow>
               (case (case rh_evaluate h of
                        None \<Rightarrow> (\<lparr>rs_action = ResponseAllow, rs_rules = []\<rparr>, False, s)
                      | Some evaluate \<Rightarrow> evaluate_sse h evaluate body s) of
                  (d, True, s) \<Rightarrow> (Inr (response_refusal 502 ''rule_blocked'' (primary_rule (rs_rules d))), s)
                | (d, False, s) \<Rightarrow>
                    (let out = restore_sse h body
                     in (Inr (us_status u, processed_header (us_header u) codings out, out), s)))))"

section \<open>What reaches the client\<close>

lemma processed_header_lookup:
  assumes "canonical_header h"
  shows "map_of (processed_header h codings body) name =
     (if name = ''Content-Length'' then Some [itoa (length body)]
      else if name \<in> set (skipped_headers h) \<or> (name = ''Content-Encoding'' \<and> codings \<noteq> []) then None
      else map_of h name)"
proof -
  have "map_of (copy_end_to_end_headers [] h) name = (if name \<in> set (skipped_headers h) then None else map_of h name)"
    by (simp add: copy_end_to_end_headers_def copy_headers_lookup [OF assms] split: option.split)
  then show ?thesis
    unfolding processed_header_def Let_def header_set_def header_del_def canonical_names update_conv'
    by (simp add: delete_conv')
qed

definition refusal_verdict :: "verdict \<Rightarrow> bool" where
  "refusal_verdict v \<longleftrightarrow>
     v = undecodable \<or> v = unreadable \<or> (\<exists>rule_id. v = response_refusal 502 ''rule_blocked'' rule_id)"

definition lets_through :: "response_handler \<Rightarrow> bytes \<Rightarrow> bool" where
  "lets_through h body \<longleftrightarrow>
     (\<forall>evaluate d. rh_evaluate h = Some evaluate \<longrightarrow> evaluate body = Some d \<longrightarrow>
        rs_action d = ResponseAllow \<or> rs_action d = ResponseWarn)"

lemma evaluate_body_None: "evaluate_body h body s = (None, s') \<Longrightarrow> lets_through h body"
  by (auto simp: evaluate_body_def lets_through_def split: option.splits if_splits)

lemma evaluate_body_Some: "evaluate_body h body s = (Some v, s') \<Longrightarrow>
    (\<exists>rule_id. v = response_refusal 502 ''rule_blocked'' rule_id) \<and> s' = count_block s \<and> \<not> lets_through h body"
  by (auto simp: evaluate_body_def lets_through_def split: option.splits if_splits)

lemma decoded_body_cases:
  "decoded_body h u = Inl v \<Longrightarrow> v = undecodable \<or> v = unreadable"
  "decoded_body h u = Inr (codings, body) \<Longrightarrow>
     \<exists>raw. read_all (us_body u) = Some raw
       \<and> declared_codings (header_values (us_header u) ''Content-Encoding'') = Some codings
       \<and> decode_all h raw codings = Some body"
  by (auto simp: decoded_body_def split: option.splits)

text \<open>
  C13: An ordinary response is all or nothing: either a 502 document that holds no upstream byte, with the
  block counters moved exactly for a rule block; or the upstream status with the end-to-end headers
  and the restored body, decoded in full and not blocked.
\<close>

theorem response_all_or_nothing:
  assumes "handle_response h (Some u) s = (Inr (status, hdr, body), s')"
  shows "(refusal_verdict (status, hdr, body)
            \<and> s' = (if (status, hdr, body) = undecodable \<or> (status, hdr, body) = unreadable then s else count_block s))
       \<or> (\<exists>codings plain. decoded_body h u = Inr (codings, plain) \<and> lets_through h plain
            \<and> status = us_status u \<and> body = restore_body h plain
            \<and> hdr = processed_header (us_header u) codings body)"
proof (cases "decoded_body h u")
  case (Inl v)
  with assms decoded_body_cases(1) [OF Inl] show ?thesis
    by (auto simp: handle_response_def refusal_verdict_def)
next
  case (Inr cb)
  obtain codings plain where cb: "cb = (codings, plain)" by fastforce
  obtain r s1 where ev: "evaluate_body h plain s = (r, s1)" by fastforce
  have other: "response_refusal 502 ''rule_blocked'' rid \<noteq> undecodable"
    "response_refusal 502 ''rule_blocked'' rid \<noteq> unreadable" for rid
    by (simp_all add: response_refusal_def undecodable_def unreadable_def json_object_def json_member_def
        json_string_def json_escape_byte_def Let_def split: list.split)
  show ?thesis
  proof (cases r)
    case None
    with assms Inr cb ev evaluate_body_None [of h plain s s1] show ?thesis
      by (auto simp: handle_response_def Let_def)
  next
    case (Some v)
    with assms Inr cb ev evaluate_body_Some [of h plain s v s1] other other [symmetric]
    show ?thesis by (auto simp: handle_response_def refusal_verdict_def)
  qed
qed

section \<open>The aggregate of an event stream\<close>

definition event_decision :: "(bytes \<Rightarrow> response_decision option) \<Rightarrow> event \<Rightarrow> response_decision option" where
  "event_decision evaluate ev = (if json_valid (ev_data ev) then evaluate (ev_data ev) else None)"

definition blocks_with :: "(bytes \<Rightarrow> response_decision option) \<Rightarrow> event \<Rightarrow> bytes list" where
  "blocks_with evaluate ev =
     (case event_decision evaluate ev of
        Some d \<Rightarrow> if rs_action d \<noteq> ResponseAllow \<and> rs_action d \<noteq> ResponseWarn then rs_rules d else []
      | None \<Rightarrow> [])"

definition event_blocks :: "(bytes \<Rightarrow> response_decision option) \<Rightarrow> event \<Rightarrow> bool" where
  "event_blocks evaluate ev \<longleftrightarrow>
     (\<exists>d. event_decision evaluate ev = Some d \<and> rs_action d \<noteq> ResponseAllow \<and> rs_action d \<noteq> ResponseWarn)"

definition walk_skipped :: "(bytes \<Rightarrow> response_decision option) \<Rightarrow> event \<Rightarrow> bool" where
  "walk_skipped evaluate ev \<longleftrightarrow> json_valid (ev_data ev) \<and> evaluate (ev_data ev) = None"

definition skip_walks :: "nat \<Rightarrow> 's plane_state_scheme \<Rightarrow> 's plane_state_scheme" where
  "skip_walks n s = on_counters (\<lambda>c. c\<lparr>n_walk_skips := n_walk_skips c + of_nat n\<rparr>) s"

lemma skip_walks_simps:
  "skip_walks 0 s = s"
  "skip_walks n (on_counters count_walk_skip s) = skip_walks (Suc n) s"
  by (simp_all add: skip_walks_def on_counters_def count_walk_skip_def algebra_simps)

lemma evaluate_events:
  "fold (evaluate_event evaluate) evs (v, s) = (v', s') \<Longrightarrow>
     sv_blocked v' = (sv_blocked v \<or> list_ex (event_blocks evaluate) evs)
     \<and> sv_block_ids v' = sv_block_ids v @ concat (map (blocks_with evaluate) evs)
     \<and> s' = skip_walks (length (filter (walk_skipped evaluate) evs)) s"
proof (induction evs arbitrary: v s)
  case (Cons ev evs)
  obtain v1 s1 where one: "evaluate_event evaluate ev (v, s) = (v1, s1)" by fastforce
  with Cons.prems have "fold (evaluate_event evaluate) evs (v1, s1) = (v', s')" by simp
  note IH = Cons.IH [OF this]
  have "sv_blocked v1 = (sv_blocked v \<or> event_blocks evaluate ev)
      \<and> sv_block_ids v1 = sv_block_ids v @ blocks_with evaluate ev
      \<and> s1 = (if walk_skipped evaluate ev then on_counters count_walk_skip s else s)"
    using one
    by (auto simp: evaluate_event_def event_blocks_def blocks_with_def event_decision_def walk_skipped_def
        split: if_splits option.splits)
  with IH show ?case by (auto simp: skip_walks_simps)
qed (simp add: skip_walks_simps)

lemma walk_skips_block: "skip_walks n (count_block s) = count_block (skip_walks n s)"
  by (simp add: skip_walks_def count_block_def on_counters_def count_rule_block_def count_content_policy_block_def)

text \<open>
  C32: An event stream is blocked exactly when some event with valid JSON data blocks, whatever the other
  events say and wherever it stands; then the whole stream is replaced by one 502 naming the least
  blocking rule, the block counters move once, and the skips count every JSON event that does not walk.
\<close>

theorem sse_block_is_total:
  assumes "decoded_body h u = Inr (codings, plain)" "rh_evaluate h = Some evaluate"
  defines "skips \<equiv> length (filter (walk_skipped evaluate) (decode_sse plain))"
    and "ids \<equiv> sorted_rule_ids (concat (map (blocks_with evaluate) (decode_sse plain)))"
  shows "if list_ex (event_blocks evaluate) (decode_sse plain)
     then handle_buffered_sse h (Some u) s =
        (Inr (response_refusal 502 ''rule_blocked'' (primary_rule ids)), count_block (skip_walks skips s))
     else \<exists>lines. handle_buffered_sse h (Some u) s =
        (Inr (us_status u, processed_header (us_header u) codings (restore_sse h plain), restore_sse h plain),
         (skip_walks skips s)\<lparr>ps_log := ps_log s @ lines\<rparr>)"
proof -
  obtain v s1 where f: "fold (evaluate_event evaluate) (decode_sse plain) (no_verdicts, s) = (v, s1)" by fastforce
  from evaluate_events [OF f] have
    v: "sv_blocked v = list_ex (event_blocks evaluate) (decode_sse plain)"
      "sv_block_ids v = concat (map (blocks_with evaluate) (decode_sse plain))" "s1 = skip_walks skips s"
    by (simp_all add: no_verdicts_def skips_def)
  have log: "\<exists>lines. warn_rules h is x = x\<lparr>ps_log := ps_log x @ lines\<rparr>" for "is" and x :: "'a plane_state_scheme"
  proof -
    have "fold log_line ls x = x\<lparr>ps_log := ps_log x @ ls\<rparr>" for ls
      by (induction ls arbitrary: x) (simp_all add: log_line_def)
    moreover have "x = x\<lparr>ps_log := ps_log x @ []\<rparr>" by simp
    ultimately show ?thesis unfolding warn_rules_def by (metis option.case_eq_if)
  qed
  have "ps_log (skip_walks skips s) = ps_log s" by (simp add: skip_walks_def on_counters_def)
  moreover have "\<exists>lines. skip_walks skips s = (skip_walks skips s)\<lparr>ps_log := ps_log s @ lines\<rparr>"
    by (rule exI [of _ "[]"]) (simp add: skip_walks_def on_counters_def)
  ultimately show ?thesis
    using assms(1,2) v f log [of "sorted_rule_ids (sv_warn_ids v)" s1]
    by (auto simp: handle_buffered_sse_def evaluate_sse_def ids_def Let_def)
qed

section \<open>Evaluated instances\<close>

definition sample_handler :: "response_action \<Rightarrow> response_handler" where
  "sample_handler act =
     \<lparr>rh_evaluate = Some (\<lambda>_. Some \<lparr>rs_action = act, rs_rules = [''r'']\<rparr>), rh_restore = None, rh_notices = \<lambda>_. [],
      rh_quote = None, rh_gunzip = \<lambda>_. None, rh_inflate = \<lambda>_. None\<rparr>"

definition sample_upstream :: "bytes \<Rightarrow> upstream_response" where
  "sample_upstream body =
     \<lparr>us_status = 200, us_header = [], us_body = Some \<lparr>stream_bytes = body, stream_fails = False\<rparr>\<rparr>"

lemma sample_decoded: "decoded_body (sample_handler act) (sample_upstream body) = Inr ([], body)"
proof -
  have "header_values [] ''Content-Encoding'' = []" by (simp add: header_values_def)
  then show ?thesis
    by (simp add: decoded_body_def sample_upstream_def read_all_def declared_codings_def decode_all_def)
qed

definition sample_plane :: plane_state where
  "sample_plane = \<lparr>ps_counters = new_counters, ps_log = []\<rparr>"

lemma sample_handler_simps [simp]:
  "rh_evaluate (sample_handler act) = Some (\<lambda>_. Some \<lparr>rs_action = act, rs_rules = [''r'']\<rparr>)"
  "rh_restore (sample_handler act) = None" "rh_notices (sample_handler act) = (\<lambda>_. [])"
  by (simp_all add: sample_handler_def)

lemma sample_handled:
  "handle_response (sample_handler ResponseAllow) (Some (sample_upstream body)) s =
     (Inr (200, processed_header [] [] body, body), s)"
  by (simp add: handle_response_def sample_decoded evaluate_body_def restore_body_def)
    (simp add: sample_upstream_def)

lemma response_all_or_nothing_witness:
  "\<exists>hdr s'. handle_response (sample_handler ResponseAllow) (Some (sample_upstream ''{}'')) sample_plane = (Inr (200, hdr, ''{}''), s')
     \<and> hdr = processed_header [] [] ''{}''"
proof -
  have "\<not> refusal_verdict (200, processed_header [] [] ''{}'', ''{}'')"
    by (auto simp: refusal_verdict_def undecodable_def unreadable_def response_refusal_def Let_def)
  with response_all_or_nothing [OF sample_handled, of "''{}''" sample_plane] show ?thesis
    unfolding sample_handled by blast
qed

definition sample_stream :: bytes where
  "sample_stream = ''data: {}'' @ [CHR 0x0A, CHR 0x0A]"

lemma sample_stream_events:
  "map ev_data (decode_sse sample_stream) = [''{}'']" "json_valid ''{}''"
  by code_simp+

lemma sse_block_is_total_witness:
  "handle_buffered_sse (sample_handler ResponseBlock) (Some (sample_upstream sample_stream)) sample_plane =
     (Inr (response_refusal 502 ''rule_blocked'' ''r''), count_block (skip_walks 0 sample_plane))"
proof -
  obtain ev where ev: "decode_sse sample_stream = [ev]" "ev_data ev = ''{}''"
    using sample_stream_events(1) by auto
  have "primary_rule (sorted_rule_ids [''r'']) = ''r''" by code_simp
  with sse_block_is_total [OF sample_decoded sample_handler_simps(1), of ResponseBlock sample_stream sample_plane] ev sample_stream_events(2) show ?thesis
    by (simp add: event_blocks_def event_decision_def walk_skipped_def blocks_with_def)
qed

end
