(* ===== verification/Regex.thy ===== *)
theory Regex
  imports Prelude
begin

text \<open>
  The part of Go's \<open>regexp\<close> the compiled-in patterns use: byte classes, counted greedy repetition,
  sequence, alternation and the greedy option, with the leftmost-first preference of RE2, and
  \<open>FindAllIndex\<close> over it. The patterns only use ASCII classes, so bytes are matched, not runes.
\<close>

section \<open>Patterns\<close>

text \<open>\<open>Rep P m None\<close> is \<open>[P]{m,}\<close>, \<open>Rep P m (Some n)\<close> is \<open>[P]{m,n}\<close>; both are greedy.\<close>

datatype regex =
    Rep "char \<Rightarrow> bool" nat "nat option"
  | Seq regex regex
  | Alt regex regex
  | Opt regex

definition lit :: "char \<Rightarrow> regex" where
  "lit c = Rep (\<lambda>d. d = c) 1 (Some 1)"

definition exactly :: "(char \<Rightarrow> bool) \<Rightarrow> nat \<Rightarrow> regex" where
  "exactly p n = Rep p n (Some n)"

definition at_least :: "(char \<Rightarrow> bool) \<Rightarrow> nat \<Rightarrow> regex" where
  "at_least p n = Rep p n None"

text \<open>A literal text followed by a pattern.\<close>

fun text_then :: "bytes \<Rightarrow> regex \<Rightarrow> regex" where
  "text_then [] r = r"
| "text_then (c # cs) r = Seq (lit c) (text_then cs r)"

fun text_regex :: "bytes \<Rightarrow> regex" where
  "text_regex [] = Rep (\<lambda>_. False) 0 (Some 0)"
| "text_regex [c] = lit c"
| "text_regex (c # cs) = Seq (lit c) (text_regex cs)"

text \<open>The lengths of the matches at the start of \<open>s\<close>, the preferred one first.\<close>

fun lens :: "regex \<Rightarrow> bytes \<Rightarrow> nat list" where
  "lens (Rep p m n) s =
     (let k = length (takeWhile p s); top = (case n of None \<Rightarrow> k | Some n \<Rightarrow> min k n)
      in if m \<le> top then rev [m..<Suc top] else [])"
| "lens (Seq a b) s = concat (map (\<lambda>i. map (\<lambda>j. i + j) (lens b (drop i s))) (lens a s))"
| "lens (Alt a b) s = lens a s @ lens b s"
| "lens (Opt a) s = lens a s @ [0]"

definition match_len :: "regex \<Rightarrow> bytes \<Rightarrow> nat option" where
  "match_len r s = (case lens r s of [] \<Rightarrow> None | n # _ \<Rightarrow> Some n)"

section \<open>FindAllIndex\<close>

type_synonym span = "nat \<times> nat"

text \<open>
  All matches from the left, none overlapping; \<open>i\<close> is the offset of \<open>s\<close>. An empty match (no pattern
  here has one) would only move on by one byte.
\<close>

function find_from :: "regex \<Rightarrow> nat \<Rightarrow> bytes \<Rightarrow> span list" where
  "find_from r i s =
     (case s of
        [] \<Rightarrow> []
      | c # cs \<Rightarrow>
          (case match_len r s of
             Some (Suc n) \<Rightarrow> (i, i + Suc n) # find_from r (i + Suc n) (drop n cs)
           | _ \<Rightarrow> find_from r (Suc i) cs))"
  by pat_completeness auto
termination by (relation "measure (\<lambda>(_, _, s). length s)") auto

declare find_from.simps [simp del]

definition find_all_index :: "regex \<Rightarrow> bytes \<Rightarrow> span list" where
  "find_all_index r s = find_from r 0 s"

definition matches_whole :: "(char \<Rightarrow> bool) \<Rightarrow> bytes \<Rightarrow> bool" where
  "matches_whole p s \<longleftrightarrow> s \<noteq> [] \<and> list_all p s"

section \<open>What the matches are\<close>

lemma lens_bound: "n \<in> set (lens r s) \<Longrightarrow> n \<le> length s"
proof (induction r arbitrary: n s)
  case (Rep p m k)
  then show ?case
    using length_takeWhile_le [of p s] by (auto simp: Let_def split: if_splits option.splits)
next
  case (Seq a b)
  then obtain i j where ij: "n = i + j" "i \<in> set (lens a s)" "j \<in> set (lens b (drop i s))" by auto
  with Seq.IH(1) [OF ij(2)] Seq.IH(2) [OF ij(3)] show ?case by simp
qed auto

lemma match_len_bound: "match_len r s = Some n \<Longrightarrow> n \<le> length s"
  using lens_bound [of n r s] by (auto simp: match_len_def split: list.splits)

text \<open>Ordered, non-empty, non-overlapping spans inside the text.\<close>

fun spans_in :: "nat \<Rightarrow> nat \<Rightarrow> span list \<Rightarrow> bool" where
  "spans_in lo hi [] = True"
| "spans_in lo hi ((a, b) # ss) = (lo \<le> a \<and> a < b \<and> b \<le> hi \<and> spans_in b hi ss)"

lemma spans_in_mono: "spans_in lo hi ss \<Longrightarrow> lo' \<le> lo \<Longrightarrow> spans_in lo' hi ss"
  by (cases ss) auto

lemma spans_in_hi: "spans_in lo hi ss \<Longrightarrow> hi \<le> hi' \<Longrightarrow> spans_in lo hi' ss"
  by (induction lo hi ss rule: spans_in.induct) auto

lemma spans_in_filter: "spans_in lo hi ss \<Longrightarrow> spans_in lo hi (filter P ss)"
proof (induction lo hi ss rule: spans_in.induct)
  case (2 lo hi a b ss)
  then have "spans_in b hi (filter P ss)" by simp
  with 2 show ?case by (auto intro: spans_in_mono)
qed simp

lemma spans_inD: "spans_in lo hi ss \<Longrightarrow> (a, b) \<in> set ss \<Longrightarrow> lo \<le> a \<and> a < b \<and> b \<le> hi"
proof (induction lo hi ss rule: spans_in.induct)
  case (2 lo hi a' b' ss)
  then show ?case by auto
qed simp

lemma find_from_spans: "spans_in i (i + length s) (find_from r i s)"
proof (induction r i s rule: find_from.induct)
  case (1 r i s)
  show ?case
  proof (cases s)
    case Nil
    then show ?thesis by (simp add: find_from.simps)
  next
    case (Cons c cs)
    show ?thesis
    proof (cases "match_len r s")
      case None
      with 1(1) Cons have "spans_in (Suc i) (Suc i + length cs) (find_from r (Suc i) cs)" by simp
      with Cons None show ?thesis by (subst find_from.simps) (auto intro: spans_in_mono)
    next
      case (Some n)
      show ?thesis
      proof (cases n)
        case 0
        with 1(2) Cons Some have "spans_in (Suc i) (Suc i + length cs) (find_from r (Suc i) cs)" by simp
        with Cons Some 0 show ?thesis by (subst find_from.simps) (auto intro: spans_in_mono)
      next
        case (Suc m)
        with match_len_bound [OF Some] Cons have b: "m \<le> length cs" by simp
        with 1(3) [OF Cons Some Suc] Cons Suc Some
        have "spans_in (i + Suc m) (i + length s) (find_from r (i + Suc m) (drop m cs))" by simp
        with Cons Suc Some b show ?thesis by (subst find_from.simps) simp
      qed
    qed
  qed
qed

lemma find_all_spans: "spans_in 0 (length s) (find_all_index r s)"
  using find_from_spans [of 0 s r] by (simp add: find_all_index_def)

end
