(* ===== verification/Primitives.thy ===== *)
theory Primitives
  imports Regex Supply Complex_Main
begin

text \<open>
  The six detector algorithms of \<open>pkg/filter\<close> (\<open>primitive_*.go\<close>, \<open>email_suffixes.go\<close>) and the
  canonical form of email suffixes (\<open>options.go\<close>). What they take from Go's library beyond the
  patterns is a record of arguments: \<open>json.Unmarshal\<close> into a map of raw members (no result when it
  fails, no map for \<open>null\<close>), \<open>math.Log2\<close>, \<open>strings.ToLower\<close> where arbitrary
  text is folded, and \<open>regexp.Compile\<close> of a user-supplied pattern as its
  matches in a text.
\<close>

record golib =
  lib_fields :: "bytes \<Rightarrow> (bytes \<times> bytes) list option option"
  lib_log2 :: "real \<Rightarrow> real"
  lib_to_lower :: "bytes \<Rightarrow> bytes"
  lib_regexp :: "bytes \<Rightarrow> (bytes \<Rightarrow> span list) option"

section \<open>The byte budget\<close>

definition primitive_byte_budget_bytes :: int where
  "primitive_byte_budget_bytes = 2 ^ 20"

definition normalize_budget :: "int \<Rightarrow> int" where
  "normalize_budget budget = (if budget \<le> 0 then primitive_byte_budget_bytes else budget)"

definition primitive_input :: "bytes \<Rightarrow> int \<Rightarrow> bytes" where
  "primitive_input leaf budget = take (nat (normalize_budget budget)) leaf"

lemma primitive_input_length: "length (primitive_input leaf budget) \<le> length leaf"
  by (simp add: primitive_input_def)

section \<open>Provider prefixes\<close>

definition is_token_byte :: "char \<Rightarrow> bool" where
  "is_token_byte b \<longleftrightarrow> is_ascii_alnum b \<or> b = CHR ''_'' \<or> b = CHR ''-''"

definition is_upper_alnum :: "char \<Rightarrow> bool" where
  "is_upper_alnum b \<longleftrightarrow> is_upper b \<or> is_ascii_digit b"

definition prefix_pattern :: regex where
  "prefix_pattern =
     Alt (text_then ''sk-'' (at_least is_token_byte 16))
     (Alt (text_then ''AKIA'' (exactly is_upper_alnum 16))
     (Alt (text_then ''ghp_'' (at_least is_ascii_alnum 20))
     (Alt (text_then ''glpat-'' (at_least is_token_byte 20))
     (Alt (text_then ''xox'' (Seq (exactly (\<lambda>c. c \<in> set ''baprs'') 1)
             (text_then ''-'' (at_least (\<lambda>c. is_ascii_alnum c \<or> c = CHR ''-'') 10))))
     (Alt (text_then ''AIza'' (exactly is_token_byte 35))
          (text_then ''npm_'' (at_least is_ascii_alnum 36)))))))"

text \<open>A match next to a byte that could extend it is part of something longer.\<close>

definition bounded_by :: "(char \<Rightarrow> bool) \<Rightarrow> bytes \<Rightarrow> span \<Rightarrow> bool" where
  "bounded_by p content m \<longleftrightarrow>
     \<not> (0 < fst m \<and> p (content ! (fst m - 1))) \<and> \<not> (snd m < length content \<and> p (content ! snd m))"

definition find_prefix_spans :: "bytes \<Rightarrow> span list" where
  "find_prefix_spans content = filter (bounded_by is_token_byte content) (find_all_index prefix_pattern content)"

definition inspect_prefix :: "bytes \<Rightarrow> int \<Rightarrow> span list" where
  "inspect_prefix content budget = find_prefix_spans (primitive_input content budget)"

section \<open>Email addresses\<close>

definition max_literal_bytes :: nat where "max_literal_bytes = 256"

datatype filter_error =
    ErrUnknownField | ErrBoundExceeded | ErrInvalidValue
  | ErrCompile | ErrDirection | ErrMatchLimit
  | ErrInvalidRule | ErrDuplicateID | ErrNilPolicy
  | ErrFloorDisablesDetector bytes | ErrFloorRemovesCategory bytes | ErrFloorAutoAllow bytes | ErrFloorNarrowsEmail bytes

definition normalize_email_suffix :: "bytes \<Rightarrow> (filter_error, bytes) result" where
  "normalize_email_suffix s =
     (let t = trim_space s
      in require (t \<noteq> []) ErrInvalidValue (
         let canonical = ''.'' @ trim_prefix ''.'' (go_lower t)
         in require (length canonical \<le> max_literal_bytes) ErrBoundExceeded (
            require (\<not> contains canonical ''..'') ErrInvalidValue (
            require (\<not> list_ex (\<lambda>c. c \<in> set [CHR '' '', CHR 0x09, CHR 0x0A, CHR 0x0B, CHR 0x0C, CHR 0x0D]) canonical) ErrInvalidValue (
            require (list_all (\<lambda>c. byte_val c < 0x80) canonical) ErrInvalidValue (Inr canonical))))))"

definition builtin_email_suffixes :: "bytes list" where
  "builtin_email_suffixes =
     [''.com'', ''.org'', ''.net'', ''.edu'', ''.gov'', ''.mil'', ''.int'',
      ''.info'', ''.biz'', ''.name'', ''.pro'', ''.app'', ''.dev'', ''.io'', ''.ai'',
      ''.co'', ''.me'', ''.tv'', ''.cc'', ''.xyz'', ''.online'', ''.site'', ''.tech'', ''.cloud'', ''.email'',
      ''.cn'', ''.com.cn'', ''.net.cn'', ''.org.cn'', ''.gov.cn'',
      ''.hk'', ''.com.hk'', ''.tw'', ''.com.tw'', ''.jp'', ''.co.jp'', ''.kr'', ''.co.kr'',
      ''.uk'', ''.co.uk'', ''.de'', ''.fr'', ''.it'', ''.es'', ''.nl'', ''.be'', ''.ch'', ''.at'', ''.se'', ''.no'', ''.dk'',
      ''.fi'', ''.pl'', ''.cz'', ''.ro'', ''.hu'', ''.gr'', ''.pt'', ''.ie'', ''.ru'',
      ''.br'', ''.com.br'', ''.mx'', ''.com.mx'', ''.ar'', ''.com.ar'', ''.cl'',
      ''.in'', ''.co.in'', ''.au'', ''.com.au'', ''.nz'', ''.co.nz'', ''.sg'', ''.com.sg'', ''.my'', ''.com.my'', ''.id'', ''.co.id'',
      ''.th'', ''.co.th'', ''.ph'', ''.vn'', ''.tr'', ''.za'', ''.co.za'', ''.ae'', ''.sa'', ''.il'', ''.us'', ''.eu'', ''.ca'']"

record email_options =
  eo_suffixes :: "bytes list"
  eo_replace :: bool

text \<open>The union of the built-in and the declared suffixes, deduplicated by first occurrence.\<close>

fun add_suffixes :: "bytes list \<Rightarrow> bytes list \<Rightarrow> (filter_error, bytes list) result" where
  "add_suffixes out [] = Inr out"
| "add_suffixes out (raw # rest) =
     ok_or (normalize_email_suffix raw) (\<lambda>canonical.
       add_suffixes (if canonical \<in> set out then out else out @ [canonical]) rest)"

definition effective_email_suffixes :: "email_options option \<Rightarrow> (filter_error, bytes list) result" where
  "effective_email_suffixes opts =
     (case opts of
        None \<Rightarrow> add_suffixes builtin_email_suffixes []
      | Some o1 \<Rightarrow> add_suffixes (if eo_replace o1 then [] else builtin_email_suffixes) (eo_suffixes o1))"

definition domain_has_suffix :: "bytes \<Rightarrow> bytes list \<Rightarrow> bool" where
  "domain_has_suffix domain sufs =
     (let d = go_lower domain
      in list_ex (\<lambda>s. 2 \<le> length s \<and> (d = List.tl s \<or> suffix s d)) sufs)"

definition email_pattern :: regex where
  "email_pattern =
     Seq (at_least (\<lambda>c. is_ascii_alnum c \<or> c \<in> set ''._%+-'') 1)
     (Seq (lit CHR ''@'')
     (Seq (at_least (\<lambda>c. is_ascii_alnum c \<or> c \<in> set ''.-'') 1)
     (Seq (lit CHR ''.'') (at_least (\<lambda>c. is_lower c \<or> is_upper c) 2))))"

definition split_email :: "bytes \<Rightarrow> (bytes \<times> bytes) option" where
  "split_email candidate =
     (case index_byte CHR ''@'' candidate of
        None \<Rightarrow> None
      | Some pos \<Rightarrow>
          if pos = 0 \<or> pos = length candidate - 1 then None
          else if index_byte CHR ''@'' (drop (pos + 1) candidate) \<noteq> None then None
          else Some (take pos candidate, drop (pos + 1) candidate))"

definition is_email :: "bytes list \<Rightarrow> bytes \<Rightarrow> bool" where
  "is_email sufs candidate \<longleftrightarrow>
     \<not> contains candidate ''..'' \<and>
     (case split_email candidate of
        None \<Rightarrow> False
      | Some (local, domain) \<Rightarrow> local \<noteq> [] \<and> domain \<noteq> [] \<and> domain_has_suffix domain sufs)"

definition find_email_spans :: "bytes \<Rightarrow> bytes list \<Rightarrow> span list" where
  "find_email_spans content sufs =
     filter (\<lambda>(a, b). is_email sufs (slice content a b)) (find_all_index email_pattern content)"

definition inspect_email_with_suffixes :: "bytes \<Rightarrow> int \<Rightarrow> bytes list \<Rightarrow> span list" where
  "inspect_email_with_suffixes content budget sufs = find_email_spans (primitive_input content budget) sufs"

definition inspect_email :: "bytes \<Rightarrow> int \<Rightarrow> span list" where
  "inspect_email content budget = inspect_email_with_suffixes content budget builtin_email_suffixes"

section \<open>JSON Web Tokens\<close>

definition is_jwt_byte :: "char \<Rightarrow> bool" where
  "is_jwt_byte c \<longleftrightarrow> is_ascii_alnum c \<or> c = CHR ''_'' \<or> c = CHR ''='' \<or> c = CHR ''-''"

definition jwt_pattern :: regex where
  "jwt_pattern = Seq (at_least is_jwt_byte 1) (Seq (lit CHR ''.'') (Seq (at_least is_jwt_byte 1) (Seq (lit CHR ''.'') (at_least is_jwt_byte 1))))"

definition is_jwt_boundary_byte :: "char \<Rightarrow> bool" where
  "is_jwt_boundary_byte b \<longleftrightarrow> is_ascii_alnum b \<or> b = CHR ''_'' \<or> b = CHR ''-'' \<or> b = CHR ''.'' \<or> b = CHR ''=''"

definition decode_base64_url :: "bytes \<Rightarrow> bytes option" where
  "decode_base64_url segment = b64_decode (trim_right ''='' segment)"

definition is_jwt_header :: "golib \<Rightarrow> bytes \<Rightarrow> bool" where
  "is_jwt_header lib segment =
     (case decode_base64_url segment of
        None \<Rightarrow> False
      | Some decoded \<Rightarrow>
          (case lib_fields lib decoded of
             Some (Some members) \<Rightarrow> ''alg'' \<in> set (map fst members)
           | _ \<Rightarrow> False))"

definition is_jwt :: "golib \<Rightarrow> bytes \<Rightarrow> bool" where
  "is_jwt lib candidate =
     (case index_byte CHR ''.'' candidate of
        None \<Rightarrow> False
      | Some dot \<Rightarrow> 0 < dot \<and> dot < length candidate \<and> is_jwt_header lib (take dot candidate))"

definition find_jwt_spans :: "golib \<Rightarrow> bytes \<Rightarrow> span list" where
  "find_jwt_spans lib content =
     filter (\<lambda>(a, b). bounded_by is_jwt_boundary_byte content (a, b) \<and> is_jwt lib (slice content a b))
       (find_all_index jwt_pattern content)"

definition inspect_jwt :: "golib \<Rightarrow> bytes \<Rightarrow> int \<Rightarrow> span list" where
  "inspect_jwt lib content budget = find_jwt_spans lib (primitive_input content budget)"

section \<open>Payment cards\<close>

definition luhn_min_digits :: nat where "luhn_min_digits = 13"
definition luhn_max_digits :: nat where "luhn_max_digits = 19"

definition is_run_byte :: "char \<Rightarrow> bool" where
  "is_run_byte b \<longleftrightarrow> is_ascii_digit b \<or> b = CHR '' '' \<or> b = CHR ''-''"

fun all_same_digit :: "bytes \<Rightarrow> bool" where
  "all_same_digit [] = True"
| "all_same_digit (d # ds) = list_all (\<lambda>b. b = d) ds"

text \<open>The checksum loop runs from the right; \<open>double\<close> flips at every digit.\<close>

fun luhn_sum :: "bool \<Rightarrow> bytes \<Rightarrow> nat" where
  "luhn_sum double [] = 0"
| "luhn_sum double (b # bs) =
     (let d = byte_val b - 48; e = (if double then (if 9 < d * 2 then d * 2 - 9 else d * 2) else d)
      in e + luhn_sum (\<not> double) bs)"

definition luhn_valid :: "bytes \<Rightarrow> bool" where
  "luhn_valid digits \<longleftrightarrow> luhn_sum False (rev digits) mod 10 = 0"

text \<open>The run without the separators after its last digit.\<close>

definition trim_run :: "bytes \<Rightarrow> bytes" where
  "trim_run run = rev (dropWhile (\<lambda>b. \<not> is_ascii_digit b) (rev run))"

definition is_card :: "bytes \<Rightarrow> bool" where
  "is_card run \<longleftrightarrow>
     (let digits = filter is_ascii_digit run
      in luhn_min_digits \<le> length digits \<and> length digits \<le> luhn_max_digits \<and>
         \<not> all_same_digit digits \<and> luhn_valid digits)"

text \<open>The scan from one run of digits, spaces and dashes to the next; \<open>i\<close> is the offset of \<open>s\<close>.\<close>

function luhn_from :: "nat \<Rightarrow> bytes \<Rightarrow> span list" where
  "luhn_from i s =
     (case s of
        [] \<Rightarrow> []
      | c # cs \<Rightarrow>
          if \<not> is_ascii_digit c then luhn_from (Suc i) cs
          else
            (let run = takeWhile is_run_byte s; rest = luhn_from (i + length run) (dropWhile is_run_byte s)
             in if is_card run then (i, i + length (trim_run run)) # rest else rest))"
  by pat_completeness auto
termination
  by (relation "measure (\<lambda>(_, s). length s)")
    (auto simp: is_run_byte_def le_imp_less_Suc length_dropWhile_le)

declare luhn_from.simps [simp del]

definition find_luhn_spans :: "bytes \<Rightarrow> span list" where
  "find_luhn_spans content = luhn_from 0 content"

definition inspect_luhn :: "bytes \<Rightarrow> int \<Rightarrow> span list" where
  "inspect_luhn content budget = find_luhn_spans (primitive_input content budget)"

section \<open>Private keys\<close>

text \<open>
  \<open>-----BEGIN ([A-Z0-9 ]*PRIVATE KEY(?: BLOCK)?)-----\<close>; the submatch is the text between the
  dashes. The class is greedy, so the marker is the last \<open>PRIVATE KEY\<close> that lets the rest match.
\<close>

definition header_byte :: "char \<Rightarrow> bool" where
  "header_byte c \<longleftrightarrow> is_upper c \<or> is_ascii_digit c \<or> c = CHR '' ''"

definition private_key_header_pattern :: regex where
  "private_key_header_pattern =
     text_then ''-----BEGIN '' (Seq (at_least header_byte 0)
       (Seq (text_regex ''PRIVATE KEY'') (Seq (Opt (text_regex '' BLOCK'')) (text_regex ''-----''))))"

definition pem_footer :: "bytes \<Rightarrow> bytes" where
  "pem_footer kind = ''-----END '' @ kind @ ''-----''"

definition pem_span :: "bytes \<Rightarrow> span \<Rightarrow> span" where
  "pem_span content m =
     (let footer = pem_footer (slice content (fst m + 11) (snd m - 5))
      in (fst m, case index_of footer (drop (snd m) content) of
                   Some i \<Rightarrow> snd m + i + length footer
                 | None \<Rightarrow> length content))"

definition find_pem_spans :: "bytes \<Rightarrow> span list" where
  "find_pem_spans content = map (pem_span content) (find_all_index private_key_header_pattern content)"

definition inspect_pem :: "bytes \<Rightarrow> int \<Rightarrow> span list" where
  "inspect_pem content budget = find_pem_spans (primitive_input content budget)"

section \<open>High entropy\<close>

definition entropy_default_min_length :: nat where "entropy_default_min_length = 28"
definition entropy_default_min_bits_per_char :: real where "entropy_default_min_bits_per_char = 4"

definition entropy_candidate_pattern :: regex where
  "entropy_candidate_pattern = at_least (\<lambda>c. is_ascii_alnum c \<or> c \<in> set ''+/=_-'') 16"

definition hex_only_byte :: "char \<Rightarrow> bool" where
  "hex_only_byte c \<longleftrightarrow> is_ascii_digit c \<or> in_range CHR ''a'' CHR ''f'' c \<or> in_range CHR ''A'' CHR ''F'' c \<or> c = CHR ''-''"

text \<open>
  The sum over the 256 byte values, with \<open>math.Log2\<close> as an argument; the arithmetic is exact here
  where the code's is \<open>float64\<close>.
\<close>

definition shannon_entropy :: "golib \<Rightarrow> bytes \<Rightarrow> real" where
  "shannon_entropy lib run =
     (if run = [] then 0
      else foldl (\<lambda>h b.
        let n = count_list run (char_of b)
        in if n = 0 then h
           else let p = real n / real (length run) in h - p * lib_log2 lib p) 0 [0..<256::nat])"

definition is_high_entropy :: "golib \<Rightarrow> nat \<Rightarrow> real \<Rightarrow> bytes \<Rightarrow> bool" where
  "is_high_entropy lib min_length min_entropy run \<longleftrightarrow>
     min_length \<le> length run \<and> \<not> matches_whole hex_only_byte run \<and> min_entropy \<le> shannon_entropy lib run"

definition find_entropy_spans :: "golib \<Rightarrow> bytes \<Rightarrow> nat \<Rightarrow> real \<Rightarrow> span list" where
  "find_entropy_spans lib content min_length min_entropy =
     filter (\<lambda>(a, b). is_high_entropy lib min_length min_entropy (slice content a b))
       (find_all_index entropy_candidate_pattern content)"

definition inspect_entropy :: "golib \<Rightarrow> bytes \<Rightarrow> int \<Rightarrow> span list" where
  "inspect_entropy lib content budget =
     find_entropy_spans lib (primitive_input content budget) entropy_default_min_length entropy_default_min_bits_per_char"

end
