(* ===== verification/Detectors.thy ===== *)
theory Detectors
  imports Primitives
begin

text \<open>
  What the six detectors promise: their spans lie inside the inspected part of the leaf, a card
  number between delimiters is found wherever it stands, a suffix matches at label boundaries only,
  and declared email suffixes never narrow the built-in detection.
\<close>

section \<open>Spans\<close>

definition valid_spans :: "bytes \<Rightarrow> int \<Rightarrow> span list \<Rightarrow> bool" where
  "valid_spans leaf budget ss \<longleftrightarrow>
     (\<forall>(a, b) \<in> set ss. a < b \<and> b \<le> length leaf \<and> int b \<le> normalize_budget budget)"

lemma valid_spans_input:
  assumes "\<And>a b. (a, b) \<in> set ss \<Longrightarrow> a < b \<and> b \<le> length (primitive_input leaf budget)"
  shows "valid_spans leaf budget ss"
proof -
  have "0 < normalize_budget budget" by (simp add: normalize_budget_def primitive_byte_budget_bytes_def)
  then have "b \<le> length leaf \<and> int b \<le> normalize_budget budget" if "b \<le> length (primitive_input leaf budget)" for b
    using that by (auto simp: primitive_input_def)
  with assms show ?thesis by (auto simp: valid_spans_def)
qed

lemma filtered_matches: "(a, b) \<in> set (filter P (find_all_index r s)) \<Longrightarrow> a < b \<and> b \<le> length s"
  using spans_inD [OF find_all_spans, of a b r s] by auto

lemma length_takeWhile_dropWhile: "length (takeWhile P xs) + length (dropWhile P xs) = length xs"
  by (induction xs) auto

lemma trim_run_length: "length (trim_run run) \<le> length run"
  using length_dropWhile_le [of _ "rev run"] by (simp add: trim_run_def)

lemma trim_run_nonempty: "is_ascii_digit (hd run) \<Longrightarrow> run \<noteq> [] \<Longrightarrow> 0 < length (trim_run run)"
proof -
  assume "is_ascii_digit (hd run)" "run \<noteq> []"
  then have "\<exists>b \<in> set (rev run). is_ascii_digit b" by (metis hd_in_set set_rev)
  then have "dropWhile (\<lambda>b. \<not> is_ascii_digit b) (rev run) \<noteq> []" by (auto simp: dropWhile_eq_Nil_conv)
  then show ?thesis by (simp add: trim_run_def)
qed

lemma digit_run_byte: "is_ascii_digit c \<Longrightarrow> is_run_byte c"
  by (simp add: is_run_byte_def)

lemma luhn_from_spans: "spans_in i (i + length s) (luhn_from i s)"
proof (induction i s rule: luhn_from.induct)
  case (1 i s)
  show ?case
  proof (cases s)
    case Nil
    then show ?thesis by (simp add: luhn_from.simps)
  next
    case (Cons c cs)
    show ?thesis
    proof (cases "is_ascii_digit c")
      case False
      with 1(1) Cons have "spans_in (Suc i) (Suc i + length cs) (luhn_from (Suc i) cs)" by simp
      with Cons False show ?thesis by (subst luhn_from.simps) (auto intro: spans_in_mono)
    next
      case True
      define run where "run = takeWhile is_run_byte s"
      define rest where "rest = dropWhile is_run_byte s"
      have len: "length run + length rest = length s"
        unfolding run_def rest_def by (rule length_takeWhile_dropWhile)
      have ih: "spans_in (i + length run) (i + length s) (luhn_from (i + length run) rest)"
        using 1(2) [OF Cons _ run_def] True len by (simp add: rest_def add.assoc)
      have hd: "is_ascii_digit (hd run)" "run \<noteq> []" using Cons True by (simp_all add: run_def digit_run_byte)
      have eq: "luhn_from i s = (if is_card run then (i, i + length (trim_run run)) # luhn_from (i + length run) rest
          else luhn_from (i + length run) rest)"
        using Cons True by (subst luhn_from.simps) (simp add: run_def rest_def Let_def)
      show ?thesis
        unfolding eq using ih len trim_run_length [of run] trim_run_nonempty [OF hd]
        by (auto intro: spans_in_mono)
    qed
  qed
qed

lemma pem_span_bounds:
  assumes "(a, b) \<in> set (find_pem_spans s)"
  shows "a < b \<and> b \<le> length s"
proof -
  obtain m where m: "m \<in> set (find_all_index private_key_header_pattern s)" "(a, b) = pem_span s m"
    using assms by (auto simp: find_pem_spans_def)
  obtain x y where xy: "m = (x, y)" by (cases m)
  have "x < y \<and> y \<le> length s" using m xy spans_inD [OF find_all_spans, of x y] by simp
  with m(2) xy index_of_bound [of "pem_footer (slice s (x + 11) (y - 5))" "drop y s"] show ?thesis
    by (auto simp: pem_span_def Let_def split: option.splits)
qed

lemma detector_spans_valid:
  "inspect \<in> {inspect_prefix, \<lambda>leaf budget. inspect_email_with_suffixes leaf budget sufs, inspect_jwt lib, inspect_luhn,
      inspect_pem, inspect_entropy lib} \<Longrightarrow> valid_spans leaf budget (inspect leaf budget)"
  unfolding inspect_prefix_def inspect_email_with_suffixes_def inspect_jwt_def inspect_luhn_def
    inspect_pem_def inspect_entropy_def find_prefix_spans_def find_email_spans_def find_jwt_spans_def
    find_entropy_spans_def find_luhn_spans_def
  using filtered_matches pem_span_bounds spans_inD [OF luhn_from_spans [of 0]]
  by (intro valid_spans_input) fastforce

text \<open>
  No built-in detector can be refused as malformed or run past its budget: on every leaf and
  under every budget, each span any of the six returns is non-empty, lies inside the leaf and ends
  within the budget.
\<close>

theorem builtin_spans_valid:
  "valid_spans leaf budget (inspect_prefix leaf budget) \<and>
   valid_spans leaf budget (inspect_email_with_suffixes leaf budget sufs) \<and>
   valid_spans leaf budget (inspect_jwt lib leaf budget) \<and>
   valid_spans leaf budget (inspect_luhn leaf budget) \<and>
   valid_spans leaf budget (inspect_pem leaf budget) \<and>
   valid_spans leaf budget (inspect_entropy lib leaf budget)"
  using detector_spans_valid [of inspect_prefix sufs lib leaf budget]
    detector_spans_valid [of "\<lambda>leaf budget. inspect_email_with_suffixes leaf budget sufs" sufs lib leaf budget]
    detector_spans_valid [of "inspect_jwt lib" sufs lib leaf budget] detector_spans_valid [of inspect_luhn sufs lib leaf budget]
    detector_spans_valid [of inspect_pem sufs lib leaf budget] detector_spans_valid [of "inspect_entropy lib" sufs lib leaf budget]
  by simp

section \<open>Cards\<close>

lemma last_of_dropWhile: "dropWhile P xs \<noteq> [] \<Longrightarrow> last (dropWhile P xs) = last xs"
  by (induction xs) auto

text \<open>A delimiter ends whatever run precedes it.\<close>

lemma luhn_from_append:
  "u = [] \<or> \<not> is_run_byte (last u) \<Longrightarrow> luhn_from i (u @ w) = luhn_from i u @ luhn_from (i + length u) w"
proof (induction i u rule: luhn_from.induct)
  case (1 i u)
  show ?case
  proof (cases u)
    case Nil
    then show ?thesis by (simp add: luhn_from.simps [of i "[]"])
  next
    case (Cons c cs)
    show ?thesis
    proof (cases "is_ascii_digit c")
      case False
      have "cs = [] \<or> \<not> is_run_byte (last cs)" using 1(3) Cons by auto
      with 1(1) [OF Cons] False have "luhn_from (Suc i) (cs @ w) = luhn_from (Suc i) cs @ luhn_from (Suc i + length cs) w" by simp
      with Cons False show ?thesis by (simp add: luhn_from.simps [of i "c # cs @ w"] luhn_from.simps [of i "c # cs"])
    next
      case True
      define run where "run = takeWhile is_run_byte u"
      have last: "\<not> is_run_byte (last u)" using 1(3) Cons by simp
      have m: "last u \<in> set u" using Cons by simp
      have tw: "takeWhile is_run_byte (u @ w) = run" and dw: "dropWhile is_run_byte (u @ w) = dropWhile is_run_byte u @ w"
        unfolding run_def by (rule takeWhile_append1 [of "last u" u is_run_byte w, OF m last], rule dropWhile_append1 [of "last u" u is_run_byte w, OF m last])
      have rest: "dropWhile is_run_byte u = [] \<or> \<not> is_run_byte (last (dropWhile is_run_byte u))"
        using last last_of_dropWhile [of is_run_byte u] by metis
      have len: "length run + length (dropWhile is_run_byte u) = length u"
        unfolding run_def by (rule length_takeWhile_dropWhile)
      have "luhn_from (i + length run) (dropWhile is_run_byte u @ w) =
          luhn_from (i + length run) (dropWhile is_run_byte u) @ luhn_from (i + length u) w"
        using 1(2) [OF Cons _ run_def rest] True len by (simp add: add.assoc)
      moreover have "luhn_from i u = (if is_card run then (i, i + length (trim_run run)) # luhn_from (i + length run) (dropWhile is_run_byte u)
          else luhn_from (i + length run) (dropWhile is_run_byte u))"
        using Cons True by (subst luhn_from.simps) (simp add: run_def Let_def)
      moreover have "luhn_from i (u @ w) = (if is_card run then (i, i + length (trim_run run)) # luhn_from (i + length run) (dropWhile is_run_byte u @ w)
          else luhn_from (i + length run) (dropWhile is_run_byte u @ w))"
        using Cons True tw dw by (subst luhn_from.simps) (simp add: Let_def)
      ultimately show ?thesis by simp
    qed
  qed
qed

text \<open>
  A card number is found wherever it stands alone: digits with spaces and dashes between them
  that pass the checks, preceded and followed by anything but a digit, a space or a dash, are
  reported with exactly their own span.
\<close>

theorem delimited_card_found:
  assumes "u = [] \<or> \<not> is_run_byte (last u)" "v = [] \<or> \<not> is_run_byte (hd v)"
    and "digs \<noteq> []" "is_ascii_digit (hd digs)" "is_ascii_digit (last digs)" "list_all is_run_byte digs" "is_card digs"
  shows "(length u, length u + length digs) \<in> set (find_luhn_spans (u @ digs @ v))"
proof -
  have run: "takeWhile is_run_byte (digs @ v) = digs"
    using assms(2,6) by (cases v) (auto simp: list_all_iff takeWhile_eq_all_conv [THEN iffD2])
  have trim: "trim_run digs = digs"
    using assms(3,5) by (cases digs rule: rev_cases) (simp_all add: trim_run_def)
  obtain c cs where c: "digs = c # cs" using assms(3) by (cases digs) auto
  have "(i, i + length digs) \<in> set (luhn_from i (digs @ v))" for i
    using c assms(4,7) run trim by (subst luhn_from.simps) (simp add: Let_def)
  then show ?thesis
    using luhn_from_append [OF assms(1), of 0 "digs @ v"] by (simp add: find_luhn_spans_def)
qed

lemma delimited_card_found_witness:
  "(length ''card:'', length ''card:'' + length ''4111 1111-1111 1111'') \<in>
     set (find_luhn_spans (''card:'' @ ''4111 1111-1111 1111'' @ ''.''))"
proof (rule delimited_card_found)
  show "is_card ''4111 1111-1111 1111''" by code_simp
  show "list_all is_run_byte ''4111 1111-1111 1111''" by code_simp
qed (simp_all add: is_run_byte_def ascii_defs)

text \<open>
  Two blind spots of the detectors: a card number followed by a space and further digits (a
  security code, a date) is taken as one over-long number and not reported, although the same card
  alone is; and a token right after an equals sign is not reported, although it is after a space.
\<close>

theorem detector_blind_spots:
  "find_luhn_spans ''4111111111111111'' = [(0, 16)] \<and> find_luhn_spans ''4111111111111111 1234'' = [] \<and>
   (\<exists>lib. find_jwt_spans lib ''t eyJhbGciOiJub25lIn0.e30.c2ln'' = [(2, 30)] \<and>
          find_jwt_spans lib ''t=eyJhbGciOiJub25lIn0.e30.c2ln'' = [])"
proof -
  let ?lib = "\<lparr>lib_fields = \<lambda>_. Some (Some [(''alg'', ''0'')]), lib_log2 = \<lambda>_. 0, lib_to_lower = go_lower, lib_regexp = \<lambda>_. None\<rparr> :: golib"
  have "find_luhn_spans ''4111111111111111'' = [(0, 16)]" "find_luhn_spans ''4111111111111111 1234'' = []" by code_simp+
  moreover have "find_jwt_spans ?lib ''t eyJhbGciOiJub25lIn0.e30.c2ln'' = [(2, 30)]" by code_simp
  moreover have "find_jwt_spans ?lib ''t=eyJhbGciOiJub25lIn0.e30.c2ln'' = []" by code_simp
  ultimately show ?thesis by blast
qed

section \<open>Email suffixes\<close>

lemma split_on_append: "split_on c (p @ c # s) = split_on c p @ split_on c s"
proof (induction p)
  case (Cons b p)
  then show ?case by (cases "split_on c p") auto
qed simp

text \<open>
  A suffix is matched at label boundaries: a domain is under a canonical suffix exactly when
  the labels of the suffix are the last labels of the lower-cased domain.
\<close>

theorem suffix_at_label_boundary:
  fixes s defines "labels \<equiv> split_on CHR ''.''"
  shows "domain_has_suffix domain [''.'' @ s] \<longleftrightarrow>
    s \<noteq> [] \<and> (\<exists>k. drop k (labels (go_lower domain)) = labels s)"
proof (cases "s = []")
  case True
  then show ?thesis by (simp add: domain_has_suffix_def)
next
  case False
  let ?d = "go_lower domain"
  have 1: "domain_has_suffix domain [''.'' @ s] \<longleftrightarrow> ?d = s \<or> (\<exists>p. ?d = p @ ''.'' @ s)"
    using False by (auto simp: domain_has_suffix_def suffix_def Let_def Suc_le_eq)
  have 2: "\<exists>k. drop k (labels ?d) = labels s" if "?d = s \<or> (\<exists>p. ?d = p @ ''.'' @ s)"
    using that
  proof
    assume "?d = s"
    then have "drop 0 (labels ?d) = labels s" by simp
    then show ?thesis ..
  next
    assume "\<exists>p. ?d = p @ ''.'' @ s"
    then obtain p where p: "?d = p @ ''.'' @ s" ..
    then have "labels ?d = labels p @ labels s" by (simp add: labels_def split_on_append)
    then have "drop (length (labels p)) (labels ?d) = labels s" by simp
    then show ?thesis ..
  qed
  have 3: "?d = s \<or> (\<exists>p. ?d = p @ ''.'' @ s)" if "drop k (labels ?d) = labels s" for k
  proof (cases "take k (labels ?d) = []")
    case True
    have "labels ?d = take k (labels ?d) @ drop k (labels ?d)" by simp
    also have "\<dots> = labels s" unfolding True that by simp
    finally have "labels ?d = labels s" .
    then have "join_with ''.'' (labels ?d) = join_with ''.'' (labels s)" by simp
    then show ?thesis by (simp add: labels_def)
  next
    case False
    have "join_with ''.'' (take k (labels ?d) @ drop k (labels ?d)) = join_with ''.'' (take k (labels ?d)) @ ''.'' @ join_with ''.'' (labels s)"
      using join_with_append [OF False, of "labels s" "''.''"] that by (simp add: labels_def)
    then have "?d = join_with ''.'' (take k (labels ?d)) @ ''.'' @ s" by (simp add: labels_def)
    then show ?thesis by blast
  qed
  from 1 2 3 False show ?thesis by blast
qed

lemma add_suffixes_extends: "add_suffixes out ds = Inr r \<Longrightarrow> set out \<subseteq> set r"
proof (induction out ds rule: add_suffixes.induct)
  case (2 out raw rest)
  then show ?case by (force simp: ok_or_Inr_iff split: if_splits)
qed simp

lemma domain_has_suffix_mono: "set ss \<subseteq> set ts \<Longrightarrow> domain_has_suffix d ss \<Longrightarrow> domain_has_suffix d ts"
  by (auto simp: domain_has_suffix_def Let_def list_ex_iff)

text \<open>
  Declared suffixes only widen detection: unless the options replace the built-in set, every
  address the built-in rule reports in a leaf is also reported by the rule with the options.
\<close>

theorem additive_suffixes_widen:
  assumes "effective_email_suffixes (Some opts) = Inr sufs" "\<not> eo_replace opts"
  shows "set (inspect_email leaf budget) \<subseteq> set (inspect_email_with_suffixes leaf budget sufs)"
proof -
  have sub: "set builtin_email_suffixes \<subseteq> set sufs"
    using assms add_suffixes_extends [of builtin_email_suffixes "eo_suffixes opts" sufs]
    by (simp add: effective_email_suffixes_def)
  have "is_email sufs c" if "is_email builtin_email_suffixes c" for c
    using that domain_has_suffix_mono [OF sub] by (auto simp: is_email_def split: option.splits)
  then show ?thesis
    by (auto simp: inspect_email_def inspect_email_with_suffixes_def find_email_spans_def)
qed

lemma additive_suffixes_widen_witness:
  "\<exists>sufs. effective_email_suffixes (Some \<lparr>eo_suffixes = [''Corp''], eo_replace = False\<rparr>) = Inr sufs \<and>
     set (inspect_email ''a@b.com c@d.corp'' 0) \<subseteq> set (inspect_email_with_suffixes ''a@b.com c@d.corp'' 0 sufs)"
proof -
  let ?opts = "\<lparr>eo_suffixes = [''Corp''], eo_replace = False\<rparr>"
  have n: "normalize_email_suffix ''Corp'' = Inr ''.corp''" by code_simp
  have e: "effective_email_suffixes (Some ?opts) =
      Inr (if ''.corp'' \<in> set builtin_email_suffixes then builtin_email_suffixes else builtin_email_suffixes @ [''.corp''])"
    by (simp add: effective_email_suffixes_def n)
  from additive_suffixes_widen [OF e, of "''a@b.com c@d.corp''" 0] e show ?thesis by auto
qed

end
