(* ===== verification/RuleDoc.thy ===== *)
theory RuleDoc
  imports Detectors
begin

text \<open>
  The rule document of \<open>pkg/filter\<close>: its schema and strict decoder (\<open>schema.go\<close>, \<open>options_schema.go\<close>,
  \<open>sensitive_schema.go\<close>), the command signal (\<open>compat_v1.go\<close>) and the floor a remote pack may not go
  below (\<open>floor.go\<close>). \<open>json.Unmarshal\<close> into the typed structs is an argument.
\<close>

section \<open>Vocabulary\<close>

datatype rule_type =
    TypeRegex | TypeKeyword | TypePrefix | TypeEmail | TypeLuhn | TypeJWT | TypePEM | TypeEntropy | TypeCommand
  | OtherType bytes

datatype scope = ScopeRequest | ScopeResponse | ScopeBoth | OtherScope bytes

datatype action = ActionAllow | ActionWarn | ActionRedact | ActionBlock | OtherAction bytes

definition known_type :: "rule_type \<Rightarrow> bool" where
  "known_type t = (case t of OtherType _ \<Rightarrow> False | _ \<Rightarrow> True)"

definition known_scope :: "scope \<Rightarrow> bool" where
  "known_scope s = (case s of OtherScope _ \<Rightarrow> False | _ \<Rightarrow> True)"

definition known_action :: "action \<Rightarrow> bool" where
  "known_action a = (case a of OtherAction _ \<Rightarrow> False | _ \<Rightarrow> True)"

definition category_custom :: bytes where "category_custom = ''custom''"

definition categories :: "bytes list" where
  "categories = [''api_key'', ''email'', ''credit_card'', ''private_key'', ''jwt'', ''high_entropy'', category_custom]"

definition max_matches :: nat where "max_matches = 4096"
definition max_rules :: nat where "max_rules = 256"
definition max_keywords_per_rule :: nat where "max_keywords_per_rule = 64"
definition max_list_entries :: nat where "max_list_entries = 256"
definition max_rule_allowlist :: nat where "max_rule_allowlist = 64"
definition max_pattern_bytes :: nat where "max_pattern_bytes = 1024"
definition max_command_verbs_per_rule :: nat where "max_command_verbs_per_rule = 16"
definition max_command_targets_per_rule :: nat where "max_command_targets_per_rule = 16"
definition max_email_suffixes :: nat where "max_email_suffixes = 256"
definition max_sensitive_keys :: nat where "max_sensitive_keys = 256"
definition default_priority :: int where "default_priority = 100"
definition default_confidence :: real where "default_confidence = 9 / 10"

section \<open>Documents\<close>

record rule_options =
  ro_email :: "email_options option"

record rule_doc =
  rd_id :: bytes
  rd_type :: rule_type
  rd_category :: bytes
  rd_scope :: scope
  rd_action :: action
  rd_priority :: int
  rd_pattern :: bytes
  rd_keywords :: "bytes list"
  rd_case_sensitive :: bool
  rd_confidence :: real
  rd_allowlist :: "bytes list"
  rd_pem_headers :: "bytes list"
  rd_options :: "rule_options option"
  rd_verbs :: "bytes list"
  rd_targets :: "bytes list"
  rd_excluded :: bool

record sensitive_keys =
  sk_keys :: "bytes list"
  sk_case_sensitive :: bool

record document =
  dc_detectors :: "(bytes \<times> bool) list"
  dc_disabled_categories :: "bytes list"
  dc_allowlist :: "bytes list"
  dc_blocklist :: "bytes list"
  dc_sensitive_keys :: "sensitive_keys option"
  dc_rules :: "rule_doc list"
  dc_remote_pack :: bool

text \<open>
  \<open>json.Unmarshal\<close> into a \<open>Document\<close>, a list of raw items and a \<open>SensitiveKeysPayload\<close>. The envelope
  fields the filter never reads, and the per-rule fields no detector reads, are left out.
\<close>

record doclib = golib +
  lib_document :: "bytes \<Rightarrow> document option"
  lib_items :: "bytes \<Rightarrow> bytes list option"
  lib_sensitive :: "bytes \<Rightarrow> sensitive_keys option"

type_synonym 'a filtered = "(filter_error, 'a) result"

section \<open>Strict decoding\<close>

definition document_fields :: "bytes list" where
  "document_fields =
     [''channel'', ''schema_version'', ''min_binary_version'', ''serial'', ''key_id'', ''not_before'', ''expires'',
      ''detectors'', ''disabled_categories'', ''allowlist'', ''blocklist'', ''sensitive_keys'', ''rules'']"

definition rule_fields :: "bytes list" where
  "rule_fields =
     [''id'', ''type'', ''category'', ''scope'', ''action'', ''priority'', ''pattern'', ''keywords'', ''case_sensitive'',
      ''confidence'', ''allowlist'', ''min_digits'', ''max_digits'', ''alphabet'', ''min_length'', ''min_entropy'',
      ''pure_hex_excluded'', ''pem_headers'', ''command'', ''subcommand'', ''verbs'', ''targets'', ''options'']"

definition options_fields :: "bytes list" where "options_fields = [''email'']"
definition email_option_fields :: "bytes list" where "email_option_fields = [''suffixes'', ''replace'']"
definition sensitive_keys_fields :: "bytes list" where "sensitive_keys_fields = [''keys'', ''case_sensitive'']"

definition strict_object :: "('x golib_scheme) \<Rightarrow> bytes \<Rightarrow> bytes list \<Rightarrow> (bytes \<times> bytes) list filtered" where
  "strict_object lib data allowed =
     (case lib_fields lib data of
        Some (Some members) \<Rightarrow>
          require (list_all (\<lambda>(key, _). key \<in> set allowed) members) ErrUnknownField (Inr members)
      | _ \<Rightarrow> Inl ErrInvalidValue)"

definition check_literals :: "bytes list \<Rightarrow> nat \<Rightarrow> unit filtered" where
  "check_literals values max_entries =
     require (length values \<le> max_entries \<and> list_all (\<lambda>v. length v \<le> max_literal_bytes) values) ErrBoundExceeded (Inr ())"

definition strict_decode_rule_options :: "('x golib_scheme) \<Rightarrow> bytes \<Rightarrow> unit filtered" where
  "strict_decode_rule_options lib raw =
     ok_or (strict_object lib raw options_fields) (\<lambda>members.
       case map_of members ''email'' of
         None \<Rightarrow> Inr ()
       | Some raw_email \<Rightarrow> ok_or (strict_object lib raw_email email_option_fields) (\<lambda>_. Inr ()))"

text \<open>Every declared suffix in its canonical form, or the first failure.\<close>

fun canonical_suffixes :: "bytes list \<Rightarrow> bytes list filtered" where
  "canonical_suffixes [] = Inr []"
| "canonical_suffixes (raw # rest) =
     ok_or (normalize_email_suffix raw) (\<lambda>c. ok_or (canonical_suffixes rest) (\<lambda>cs. Inr (c # cs)))"

text \<open>\<open>validateRuleOptions\<close> replaces the suffixes in place: it returns the rule with them.\<close>

definition validate_rule_options :: "rule_doc \<Rightarrow> rule_doc filtered" where
  "validate_rule_options rule =
     (case rd_options rule of
        None \<Rightarrow> Inr rule
      | Some opts \<Rightarrow>
          (case ro_email opts of
             None \<Rightarrow> Inr rule
           | Some email \<Rightarrow>
               require (rd_type rule = TypeEmail) ErrInvalidValue (
               ok_or (check_literals (eo_suffixes email) max_email_suffixes) (\<lambda>_.
               ok_or (canonical_suffixes (eo_suffixes email)) (\<lambda>cs.
                 Inr (rule\<lparr>rd_options := Some (opts\<lparr>ro_email := Some (email\<lparr>eo_suffixes := cs\<rparr>)\<rparr>)\<rparr>))))))"

text \<open>\<open>^[a-z][a-z0-9._-]{0,63}$\<close>\<close>

definition valid_rule_id :: "bytes \<Rightarrow> bool" where
  "valid_rule_id s =
     (case s of
        [] \<Rightarrow> False
      | c # cs \<Rightarrow> is_lower c \<and> length cs \<le> 63 \<and> list_all (\<lambda>c. is_lower c \<or> is_ascii_digit c \<or> c \<in> set ''._-'') cs)"

text \<open>A pattern that compiles and does not match the empty text.\<close>

definition valid_pattern :: "('x golib_scheme) \<Rightarrow> bytes \<Rightarrow> bool" where
  "valid_pattern lib pattern = (case lib_regexp lib pattern of None \<Rightarrow> False | Some re \<Rightarrow> re [] = [])"

definition validate_rule :: "('x golib_scheme) \<Rightarrow> bytes list \<Rightarrow> rule_doc \<Rightarrow> rule_doc filtered" where
  "validate_rule lib ids rule =
     require (valid_rule_id (rd_id rule) \<and> rd_id rule \<notin> set ids) ErrInvalidValue (
     ok_or (check_literals (rd_allowlist rule) max_rule_allowlist) (\<lambda>_.
     ok_or (check_literals (rd_keywords rule) max_keywords_per_rule) (\<lambda>_.
     ok_or (check_literals (rd_verbs rule) max_command_verbs_per_rule) (\<lambda>_.
     ok_or (check_literals (rd_targets rule) max_command_targets_per_rule) (\<lambda>_.
     ok_or (check_literals (rd_pem_headers rule) max_list_entries) (\<lambda>_.
     require (length (rd_pattern rule) \<le> max_pattern_bytes) ErrBoundExceeded (
     ok_or (validate_rule_options rule) (\<lambda>rule.
     if rd_type rule = TypeCommand then Inr rule
     else
       require (known_type (rd_type rule)) ErrInvalidValue (
       require (rd_category rule \<in> set categories) ErrInvalidValue (
       require (known_scope (rd_scope rule)) ErrInvalidValue (
       require (known_action (rd_action rule)) ErrInvalidValue (
       require (0 < rd_confidence rule \<and> rd_confidence rule \<le> 1) ErrInvalidValue (
       if rd_type rule \<noteq> TypeRegex then Inr rule
       else require (valid_pattern lib (rd_pattern rule)) ErrInvalidValue (Inr rule))))))))))))))"

fun validate_rules :: "('x golib_scheme) \<Rightarrow> bytes list \<Rightarrow> rule_doc list \<Rightarrow> rule_doc list filtered" where
  "validate_rules lib ids [] = Inr []"
| "validate_rules lib ids (rule # rules) =
     ok_or (validate_rule lib ids rule) (\<lambda>r.
     ok_or (validate_rules lib (rd_id rule # ids) rules) (\<lambda>rs. Inr (r # rs)))"

text \<open>The defaults apply to absent keys only; a command rule is parse-only.\<close>

definition apply_defaults :: "(bytes \<times> bytes) list \<Rightarrow> rule_doc \<Rightarrow> rule_doc" where
  "apply_defaults members rule =
     (let absent = (\<lambda>key. map_of members key = None);
          r1 = (if absent ''category'' then rule\<lparr>rd_category := category_custom\<rparr> else rule);
          r2 = (if absent ''scope'' then r1\<lparr>rd_scope := ScopeRequest\<rparr> else r1);
          r3 = (if absent ''priority'' then r2\<lparr>rd_priority := default_priority\<rparr> else r2);
          r4 = (if absent ''confidence'' then r3\<lparr>rd_confidence := default_confidence\<rparr> else r3)
      in if rd_type r4 = TypeCommand then r4\<lparr>rd_excluded := True\<rparr> else r4)"

text \<open>
  The walk over the raw rules beside the decoded ones. Both come from the same array, so their
  numbers agree; the code would panic on a missing one, here \<open>None\<close>.
\<close>

fun finalize_rules :: "('x golib_scheme) \<Rightarrow> bytes list \<Rightarrow> rule_doc list \<Rightarrow> rule_doc list option filtered" where
  "finalize_rules lib [] rules = Inr (Some rules)"
| "finalize_rules lib (item # items) rules =
     ok_or (strict_object lib item rule_fields) (\<lambda>members.
     ok_or (case map_of members ''options'' of None \<Rightarrow> Inr () | Some raw \<Rightarrow> strict_decode_rule_options lib raw) (\<lambda>_.
     case rules of
       [] \<Rightarrow> Inr None
     | rule # rest \<Rightarrow>
         ok_or (finalize_rules lib items rest) (\<lambda>rs. Inr (map_option (Cons (apply_defaults members rule)) rs))))"

definition finalize_document :: "('x doclib_scheme) \<Rightarrow> document \<Rightarrow> bytes option \<Rightarrow> document option filtered" where
  "finalize_document lib doc raw_rules =
     ok_or (case raw_rules of
              None \<Rightarrow> Inr (Some (dc_rules doc))
            | Some raw \<Rightarrow>
                (case lib_items lib raw of
                   None \<Rightarrow> Inl ErrInvalidValue
                 | Some items \<Rightarrow> finalize_rules lib items (dc_rules doc))) (\<lambda>finalized.
     case finalized of
       None \<Rightarrow> Inr None
     | Some rules \<Rightarrow>
         ok_or (check_literals (dc_allowlist doc) max_list_entries) (\<lambda>_.
         ok_or (check_literals (dc_blocklist doc) max_list_entries) (\<lambda>_.
         require (length rules \<le> max_rules) ErrBoundExceeded (
         ok_or (validate_rules lib [] rules) (\<lambda>rs. Inr (Some (doc\<lparr>dc_rules := rs\<rparr>)))))))"

definition check_sensitive_keys :: "bytes list \<Rightarrow> unit filtered" where
  "check_sensitive_keys keys =
     require (keys \<noteq> []) ErrInvalidValue (
     require (length keys \<le> max_sensitive_keys) ErrBoundExceeded (
     (let bad = find (\<lambda>key. key = [] \<or> max_literal_bytes < length key) keys
      in case bad of
           None \<Rightarrow> Inr ()
         | Some key \<Rightarrow> Inl (if key = [] then ErrInvalidValue else ErrBoundExceeded))))"

definition validate_sensitive_keys :: "('x doclib_scheme) \<Rightarrow> bytes \<Rightarrow> unit filtered" where
  "validate_sensitive_keys lib raw =
     (if trim_space raw = ''null'' then Inr ()
      else ok_or (strict_object lib raw sensitive_keys_fields) (\<lambda>_.
        case lib_sensitive lib raw of
          None \<Rightarrow> Inl ErrInvalidValue
        | Some payload \<Rightarrow> check_sensitive_keys (sk_keys payload)))"

definition decode_document :: "('x doclib_scheme) \<Rightarrow> bytes \<Rightarrow> document option filtered" where
  "decode_document lib data =
     ok_or (strict_object lib data document_fields) (\<lambda>members.
     let has = (\<lambda>key. map_of members key \<noteq> None)
     in require (has ''serial'' = has ''key_id'') ErrInvalidValue (
        case lib_document lib data of
          None \<Rightarrow> Inl ErrInvalidValue
        | Some doc \<Rightarrow>
            ok_or (case map_of members ''sensitive_keys'' of None \<Rightarrow> Inr () | Some raw \<Rightarrow> validate_sensitive_keys lib raw) (\<lambda>_.
              finalize_document lib (doc\<lparr>dc_remote_pack := has ''serial''\<rparr>) (map_of members ''rules''))))"

section \<open>The command signal\<close>

record command_signal =
  cs_rule_ids :: "bytes list"
  cs_count :: nat

definition signal_present :: "command_signal option \<Rightarrow> bool" where
  "signal_present s = (case s of None \<Rightarrow> False | Some c \<Rightarrow> 0 < cs_count c)"

definition command_signal_of :: "document \<Rightarrow> command_signal" where
  "command_signal_of doc =
     (let ids = map rd_id (filter rd_excluded (dc_rules doc)) in \<lparr>cs_rule_ids = ids, cs_count = length ids\<rparr>)"

definition decode_document_with_signal :: "('x doclib_scheme) \<Rightarrow> bytes \<Rightarrow> (document \<times> command_signal) option filtered" where
  "decode_document_with_signal lib data =
     ok_or (decode_document lib data) (\<lambda>doc. Inr (map_option (\<lambda>d. (d, command_signal_of d)) doc))"

end
