(* ===== verification/Compile.thy ===== *)
theory Compile
  imports RuleDoc "HOL-Library.Product_Lexorder"
begin

text \<open>
  The \<open>Rule\<close> contract and the built-in table (\<open>builtin.go\<close>, the rule types of \<open>primitive_*.go\<close>), the
  floor of a remote pack (\<open>floor.go\<close>) and the load-time compiler (\<open>compile.go\<close>,
  \<open>primitive_builders.go\<close>, \<open>sensitive.go\<close>).
\<close>

section \<open>The Rule contract\<close>

text \<open>
  What one call of \<open>Inspect\<close> does: it returns spans (any integers, for a third-party rule), panics,
  or does not return in time. The metadata methods are constant.
\<close>

datatype inspection = Spans "(int \<times> int) list" | Panics | Hangs

record rule =
  ru_id :: bytes
  ru_type :: rule_type
  ru_category :: bytes
  ru_scope :: scope
  ru_action :: action
  ru_priority :: int
  ru_confidence :: real
  ru_inspect :: "bytes \<Rightarrow> inspection"

definition to_spans :: "span list \<Rightarrow> inspection" where
  "to_spans ss = Spans (map (\<lambda>(a, b). (int a, int b)) ss)"

text \<open>The six built-in rules share scope, action and priority.\<close>

definition builtin_rule :: "bytes \<Rightarrow> rule_type \<Rightarrow> bytes \<Rightarrow> real \<Rightarrow> (bytes \<Rightarrow> span list) \<Rightarrow> rule" where
  "builtin_rule rid typ category confidence inspect =
     \<lparr>ru_id = rid, ru_type = typ, ru_category = category, ru_scope = ScopeRequest, ru_action = ActionRedact,
      ru_priority = default_priority, ru_confidence = confidence, ru_inspect = \<lambda>leaf. to_spans (inspect leaf)\<rparr>"

definition new_prefix_rule :: "int \<Rightarrow> rule" where
  "new_prefix_rule budget =
     builtin_rule ''prefix'' TypePrefix ''api_key'' (95 / 100) (\<lambda>leaf. inspect_prefix leaf (normalize_budget budget))"

definition new_email_rule :: "int \<Rightarrow> rule" where
  "new_email_rule budget =
     builtin_rule ''email'' TypeEmail ''email'' (8 / 10) (\<lambda>leaf. inspect_email leaf (normalize_budget budget))"

definition new_luhn_rule :: "int \<Rightarrow> rule" where
  "new_luhn_rule budget =
     builtin_rule ''luhn'' TypeLuhn ''credit_card'' (9 / 10) (\<lambda>leaf. inspect_luhn leaf (normalize_budget budget))"

definition new_jwt_rule :: "('x golib_scheme) \<Rightarrow> int \<Rightarrow> rule" where
  "new_jwt_rule lib budget =
     builtin_rule ''jwt'' TypeJWT ''jwt'' (95 / 100) (\<lambda>leaf. inspect_jwt (golib.truncate lib) leaf (normalize_budget budget))"

definition new_pem_rule :: "int \<Rightarrow> rule" where
  "new_pem_rule budget =
     builtin_rule ''private_key'' TypePEM ''private_key'' (99 / 100) (\<lambda>leaf. inspect_pem leaf (normalize_budget budget))"

definition new_entropy_rule :: "('x golib_scheme) \<Rightarrow> int \<Rightarrow> rule" where
  "new_entropy_rule lib budget =
     builtin_rule ''high_entropy'' TypeEntropy ''high_entropy'' (6 / 10)
       (\<lambda>leaf. inspect_entropy (golib.truncate lib) leaf (normalize_budget budget))"

definition builtin_table :: "('x golib_scheme) \<Rightarrow> (bytes \<times> (int \<Rightarrow> rule)) list" where
  "builtin_table lib =
     [(''prefix'', new_prefix_rule), (''email'', new_email_rule), (''luhn'', new_luhn_rule), (''jwt'', new_jwt_rule lib),
      (''private_key'', new_pem_rule), (''high_entropy'', new_entropy_rule lib)]"

definition builtin_detectors_budget :: "('x golib_scheme) \<Rightarrow> int \<Rightarrow> rule list" where
  "builtin_detectors_budget lib budget = map (\<lambda>(_, build). build (normalize_budget budget)) (builtin_table lib)"

definition enabled_builtin_detectors :: "('x golib_scheme) \<Rightarrow> bool \<Rightarrow> rule list" where
  "enabled_builtin_detectors lib high_entropy =
     map (\<lambda>(_, build). build primitive_byte_budget_bytes)
       (filter (\<lambda>(rid, _). \<not> (rid = ''high_entropy'' \<and> \<not> high_entropy)) (builtin_table lib))"

section \<open>The floor\<close>

record floor_baseline =
  fb_detectors :: "bytes list"
  fb_categories :: "bytes list"

definition default_floor_baseline :: "('x golib_scheme) \<Rightarrow> floor_baseline" where
  "default_floor_baseline lib =
     (let rules = builtin_detectors_budget lib primitive_byte_budget_bytes
      in \<lparr>fb_detectors = map ru_id rules, fb_categories = map ru_category rules\<rparr>)"

definition replaces_email :: "rule_doc \<Rightarrow> bool" where
  "replaces_email rule =
     (case rd_options rule of
        None \<Rightarrow> False
      | Some opts \<Rightarrow> (case ro_email opts of None \<Rightarrow> False | Some email \<Rightarrow> eo_replace email))"

definition floor_check :: "floor_baseline \<Rightarrow> document option \<Rightarrow> unit filtered" where
  "floor_check b doc =
     (case doc of
        None \<Rightarrow> Inr ()
      | Some d \<Rightarrow>
          if \<not> dc_remote_pack d then Inr ()
          else case find (\<lambda>did. map_of (dc_detectors d) did = Some False) (fb_detectors b) of
            Some did \<Rightarrow> Inl (ErrFloorDisablesDetector did)
          | None \<Rightarrow>
              (case find (\<lambda>c. c \<in> set (fb_categories b)) (dc_disabled_categories d) of
                 Some c \<Rightarrow> Inl (ErrFloorRemovesCategory c)
               | None \<Rightarrow>
                   (case find (\<lambda>r. rd_action r = ActionAllow) (dc_rules d) of
                      Some r \<Rightarrow> Inl (ErrFloorAutoAllow (rd_id r))
                    | None \<Rightarrow>
                        (case find replaces_email (dc_rules d) of
                           Some r \<Rightarrow> Inl (ErrFloorNarrowsEmail (rd_id r))
                         | None \<Rightarrow> Inr ()))))"

section \<open>Compiled rules\<close>

text \<open>A copied literal; an empty one is refused.\<close>

definition copy_literals :: "bytes list \<Rightarrow> bytes list filtered" where
  "copy_literals values = require (list_all (\<lambda>v. v \<noteq> []) values) ErrCompile (Inr values)"

definition fold_ascii :: "bytes \<Rightarrow> bytes" where
  "fold_ascii value = map lower_char value"

datatype matcher = MatchRegexp "bytes \<Rightarrow> span list" | MatchKeywords "bytes list" bool | MatchPrimitive "bytes \<Rightarrow> span list"

record compiled_rule =
  cr_id :: bytes
  cr_type :: rule_type
  cr_category :: bytes
  cr_scope :: scope
  cr_action :: action
  cr_priority :: int
  cr_confidence :: real
  cr_matcher :: matcher
  cr_allow :: "bytes list"

record sensitive_matcher =
  sm_keys :: "bytes list"
  sm_case_sensitive :: bool
  sm_allowlist :: "bytes list"

record compiled =
  co_rules :: "compiled_rule list"
  co_allowlist :: "bytes list"
  co_blocklist :: "bytes list"
  co_sensitive :: "sensitive_matcher option"
  co_command_ids :: "bytes list"
  co_budget :: int

definition new_sensitive_matcher :: "('x golib_scheme) \<Rightarrow> sensitive_keys \<Rightarrow> bytes list \<Rightarrow> sensitive_matcher filtered" where
  "new_sensitive_matcher lib payload allowlist =
     ok_or (check_sensitive_keys (sk_keys payload)) (\<lambda>_.
       Inr \<lparr>sm_keys = (if sk_case_sensitive payload then sk_keys payload else map (lib_to_lower lib) (sk_keys payload)),
            sm_case_sensitive = sk_case_sensitive payload, sm_allowlist = allowlist\<rparr>)"

text \<open>\<open>primitiveBuilders\<close>: options on a detector without any are refused.\<close>

definition build_optionless :: "rule_options option \<Rightarrow> int \<Rightarrow> (bytes \<Rightarrow> int \<Rightarrow> span list) \<Rightarrow> (bytes \<Rightarrow> span list) filtered" where
  "build_optionless opts budget inspect =
     (case opts of
        Some o1 \<Rightarrow> require (ro_email o1 = None) ErrInvalidValue (Inr (\<lambda>content. inspect content (normalize_budget budget)))
      | None \<Rightarrow> Inr (\<lambda>content. inspect content (normalize_budget budget)))"

definition build_email_matcher :: "email_options \<Rightarrow> int \<Rightarrow> (bytes \<Rightarrow> span list) filtered" where
  "build_email_matcher opts budget =
     ok_or (effective_email_suffixes (Some opts)) (\<lambda>sufs.
       Inr (\<lambda>content. inspect_email_with_suffixes content (normalize_budget budget) sufs))"

definition build_email_primitive :: "rule_options option \<Rightarrow> int \<Rightarrow> (bytes \<Rightarrow> span list) filtered" where
  "build_email_primitive opts budget =
     (case opts of
        None \<Rightarrow> Inr (\<lambda>content. inspect_email content (normalize_budget budget))
      | Some o1 \<Rightarrow>
          (case ro_email o1 of
             None \<Rightarrow> Inr (\<lambda>content. inspect_email content (normalize_budget budget))
           | Some email \<Rightarrow> build_email_matcher email budget))"

definition primitive_builder :: "('x golib_scheme) \<Rightarrow> rule_type \<Rightarrow> rule_options option \<Rightarrow> int \<Rightarrow> (bytes \<Rightarrow> span list) filtered" where
  "primitive_builder lib typ opts budget =
     (case typ of
        TypePrefix \<Rightarrow> build_optionless opts budget inspect_prefix
      | TypeEmail \<Rightarrow> build_email_primitive opts budget
      | TypeLuhn \<Rightarrow> build_optionless opts budget inspect_luhn
      | TypeJWT \<Rightarrow> build_optionless opts budget (inspect_jwt (golib.truncate lib))
      | TypePEM \<Rightarrow> build_optionless opts budget inspect_pem
      | TypeEntropy \<Rightarrow> build_optionless opts budget (inspect_entropy (golib.truncate lib))
      | _ \<Rightarrow> Inl ErrCompile)"

text \<open>How a rule matches, by its type.\<close>

definition compile_matcher :: "('x golib_scheme) \<Rightarrow> rule_doc \<Rightarrow> int \<Rightarrow> matcher filtered" where
  "compile_matcher lib rule budget =
     (case rd_type rule of
        TypeRegex \<Rightarrow>
          require (rd_pattern rule \<noteq> []) ErrCompile (
          case lib_regexp lib (rd_pattern rule) of
            None \<Rightarrow> Inl ErrCompile
          | Some re \<Rightarrow> require (re [] = []) ErrCompile (Inr (MatchRegexp re)))
      | TypeKeyword \<Rightarrow>
          require (rd_keywords rule \<noteq> []) ErrCompile (
          ok_or (copy_literals (rd_keywords rule)) (\<lambda>keywords.
            Inr (if rd_case_sensitive rule then MatchKeywords keywords False
                 else MatchKeywords (map fold_ascii keywords) True)))
      | _ \<Rightarrow>
          (case primitive_builder lib (rd_type rule) (rd_options rule) budget of
             Inl _ \<Rightarrow> Inl ErrCompile
           | Inr inspect \<Rightarrow> Inr (MatchPrimitive inspect)))"

definition compiled_type :: "rule_type \<Rightarrow> bool" where
  "compiled_type t = (known_type t \<and> t \<noteq> TypeCommand)"

definition compile_rule :: "('x golib_scheme) \<Rightarrow> rule_doc \<Rightarrow> int \<Rightarrow> compiled_rule filtered" where
  "compile_rule lib rule budget =
     require (compiled_type (rd_type rule)) ErrCompile (
     require (rd_type rule = TypeRegex \<or> rd_pattern rule = []) ErrCompile (
     require (rd_type rule = TypeKeyword \<or> rd_keywords rule = []) ErrCompile (
     require (rd_type rule = TypeKeyword \<or> \<not> rd_case_sensitive rule) ErrCompile (
     let scp = (if rd_scope rule = OtherScope [] then ScopeRequest else rd_scope rule);
         category = (if rd_category rule = [] then category_custom else rd_category rule);
         confidence = (if rd_confidence rule = 0 then default_confidence else rd_confidence rule)
     in require (known_scope scp) ErrCompile (
        require (category \<in> set categories) ErrCompile (
        require (known_action (rd_action rule)) ErrCompile (
        require (0 < confidence \<and> confidence \<le> 1) ErrCompile (
        require (\<not> (rd_action rule = ActionRedact \<and> scp \<noteq> ScopeRequest)) ErrDirection (
        case validate_rule_options rule of
          Inl _ \<Rightarrow> Inl ErrCompile
        | Inr rule \<Rightarrow>
            ok_or (copy_literals (rd_allowlist rule)) (\<lambda>allow.
            ok_or (compile_matcher lib rule budget) (\<lambda>m.
              Inr \<lparr>cr_id = rd_id rule, cr_type = rd_type rule, cr_category = category, cr_scope = scp,
                   cr_action = rd_action rule, cr_priority = rd_priority rule, cr_confidence = confidence,
                   cr_matcher = m, cr_allow = allow\<rparr>)))))))))))"

text \<open>The loop over the rules: evaluable rules and the ids of the parse-only ones, in order.\<close>

fun compile_rules :: "('x golib_scheme) \<Rightarrow> int \<Rightarrow> bytes list \<Rightarrow> rule_doc list \<Rightarrow> (compiled_rule list \<times> bytes list) filtered" where
  "compile_rules lib budget seen [] = Inr ([], [])"
| "compile_rules lib budget seen (rule # rules) =
     require (valid_rule_id (rd_id rule)) ErrCompile (
     require (rd_id rule \<notin> set seen) ErrCompile (
     if rd_type rule = TypeCommand \<or> rd_excluded rule then
       ok_or (compile_rules lib budget (rd_id rule # seen) rules) (\<lambda>(rs, ids). Inr (rs, rd_id rule # ids))
     else
       ok_or (compile_rule lib rule budget) (\<lambda>r.
       ok_or (compile_rules lib budget (rd_id rule # seen) rules) (\<lambda>(rs, ids). Inr (r # rs, ids)))))"

definition compile_with_budget :: "('x golib_scheme) \<Rightarrow> document option \<Rightarrow> int \<Rightarrow> compiled filtered" where
  "compile_with_budget lib doc budget =
     (case doc of
        None \<Rightarrow> Inl ErrInvalidValue
      | Some d \<Rightarrow>
          let budget = normalize_budget budget
          in ok_or (copy_literals (dc_allowlist d)) (\<lambda>allowlist.
             ok_or (copy_literals (dc_blocklist d)) (\<lambda>blocklist.
             ok_or (case dc_sensitive_keys d of
                      None \<Rightarrow> Inr None
                    | Some payload \<Rightarrow> ok_or (new_sensitive_matcher lib payload (dc_allowlist d)) (\<lambda>m. Inr (Some m))) (\<lambda>sensitive.
             ok_or (compile_rules lib budget [] (dc_rules d)) (\<lambda>(rules, ids).
               Inr \<lparr>co_rules = sort_key (\<lambda>r. (cr_priority r, cr_id r)) rules, co_allowlist = allowlist, co_blocklist = blocklist,
                    co_sensitive = sensitive, co_command_ids = ids, co_budget = budget\<rparr>)))))"

end
