(* ===== verification/Evaluate.thy ===== *)
theory Evaluate
  imports Compile Spans
begin

text \<open>
  The evaluator over compiled documents (\<open>evaluate.go\<close>) with the sensitive-key gate (\<open>sensitive.go\<close>).
  Findings are byte spans inside a leaf; every list is bounded by \<open>MaxMatches\<close>.
\<close>

section \<open>Literals\<close>

text \<open>Non-overlapping occurrences of one literal. An empty literal is refused at compile time.\<close>

function literal_spans :: "bytes \<Rightarrow> nat \<Rightarrow> bytes \<Rightarrow> span list" where
  "literal_spans w off s =
     (if w = [] then []
      else case index_of w s of
        None \<Rightarrow> []
      | Some i \<Rightarrow> (off + i, off + i + length w) # literal_spans w (off + i + length w) (drop (i + length w) s))"
  by pat_completeness auto
termination
  by (relation "measure (\<lambda>(_, _, s). length s)") (auto dest!: index_of_bound simp flip: length_greater_0_conv)

declare literal_spans.simps [simp del]

text \<open>Capped at one more than the limit, so that a caller sees the overflow.\<close>

definition keyword_spans :: "bytes \<Rightarrow> bytes list \<Rightarrow> bool \<Rightarrow> nat \<Rightarrow> span list" where
  "keyword_spans value keywords folded limit =
     (let hay = (if folded then fold_ascii value else value)
      in take (Suc limit) (concat (map (\<lambda>k. literal_spans k 0 hay) keywords)))"

definition blocklist_spans :: "bytes \<Rightarrow> bytes list \<Rightarrow> nat \<Rightarrow> span list" where
  "blocklist_spans value literals limit = take (Suc limit) (concat (map (\<lambda>l. literal_spans l 0 value) literals))"

definition regex_spans :: "(bytes \<Rightarrow> span list) \<Rightarrow> bytes \<Rightarrow> nat \<Rightarrow> span list" where
  "regex_spans re value limit = filter (\<lambda>(a, b). a < b) (take (Suc limit) (re value))"

definition rule_spans :: "compiled_rule \<Rightarrow> bytes \<Rightarrow> span list" where
  "rule_spans r value =
     (case cr_matcher r of
        MatchRegexp re \<Rightarrow> regex_spans re value max_matches
      | MatchKeywords keywords folded \<Rightarrow> keyword_spans value keywords folded max_matches
      | MatchPrimitive inspect \<Rightarrow> inspect value)"

section \<open>Allowlists\<close>

text \<open>The scan over the window: each occurrence of the literal, until one reaches the end of the span.\<close>

function window_scan :: "bytes \<Rightarrow> nat \<Rightarrow> nat \<Rightarrow> bytes \<Rightarrow> bool" where
  "window_scan w stop off window =
     (if w = [] then False
      else case index_of w window of
        None \<Rightarrow> False
      | Some i \<Rightarrow> stop \<le> off + i + length w \<or> window_scan w stop (off + i + 1) (drop (i + 1) window))"
  by pat_completeness auto
termination
  by (relation "measure (\<lambda>(_, _, _, v). length v)") (auto dest!: index_of_bound simp flip: length_greater_0_conv)

declare window_scan.simps [simp del]

definition inside_occurrence :: "bytes \<Rightarrow> bytes \<Rightarrow> nat \<Rightarrow> nat \<Rightarrow> bool" where
  "inside_occurrence value w a b =
     (let n = length w; lo = b - n; hi = min (length value) (a + n)
      in if n = 0 \<or> n < b - a then False
         else if hi \<le> lo then False
         else window_scan w b lo (slice value lo hi))"

definition allowlist_suppressed :: "bytes \<Rightarrow> span \<Rightarrow> bytes list list \<Rightarrow> bool" where
  "allowlist_suppressed value s allowed =
     list_ex (list_ex (\<lambda>w. inside_occurrence value w (fst s) (snd s))) allowed"

section \<open>The sensitive-key gate\<close>

definition sensitive_matches :: "('x golib_scheme) \<Rightarrow> sensitive_matcher option \<Rightarrow> leaf \<Rightarrow> bool" where
  "sensitive_matches lib m lf =
     (case m of
        None \<Rightarrow> False
      | Some sm \<Rightarrow>
          leaf_member lf \<and>
          (if sm_case_sensitive sm then leaf_key lf else lib_to_lower lib (leaf_key lf)) \<in> set (sm_keys sm))"

definition sensitive_allows :: "sensitive_matcher option \<Rightarrow> bytes \<Rightarrow> bool" where
  "sensitive_allows m value =
     (case m of
        None \<Rightarrow> False
      | Some sm \<Rightarrow> list_ex (\<lambda>w. inside_occurrence value w 0 (length value)) (sm_allowlist sm))"

section \<open>Findings\<close>

record finding =
  fi_rule_id :: bytes
  fi_category :: bytes
  fi_action :: action
  fi_leaf_index :: nat
  fi_start :: int
  fi_end :: int
  fi_confidence :: real

definition sensitive_key_rule_id :: bytes where "sensitive_key_rule_id = ''sensitive_key''"
definition rule_id_blocklist :: bytes where "rule_id_blocklist = ''blocklist''"

definition sensitive_key_finding :: "nat \<Rightarrow> bytes \<Rightarrow> finding" where
  "sensitive_key_finding index value =
     \<lparr>fi_rule_id = sensitive_key_rule_id, fi_category = category_custom, fi_action = ActionRedact,
      fi_leaf_index = index, fi_start = 0, fi_end = int (length value), fi_confidence = 1\<rparr>"

definition rule_finding :: "compiled_rule \<Rightarrow> nat \<Rightarrow> span \<Rightarrow> finding" where
  "rule_finding r index s =
     \<lparr>fi_rule_id = cr_id r, fi_category = cr_category r, fi_action = cr_action r,
      fi_leaf_index = index, fi_start = int (fst s), fi_end = int (snd s), fi_confidence = cr_confidence r\<rparr>"

definition blocklist_finding :: "nat \<Rightarrow> span \<Rightarrow> finding" where
  "blocklist_finding index s =
     \<lparr>fi_rule_id = rule_id_blocklist, fi_category = category_custom, fi_action = ActionBlock,
      fi_leaf_index = index, fi_start = int (fst s), fi_end = int (snd s), fi_confidence = 1\<rparr>"

definition finding_order :: "finding \<Rightarrow> nat \<times> int \<times> int" where
  "finding_order f = (fi_leaf_index f, fi_start f, fi_end f)"

definition sort_findings :: "finding list \<Rightarrow> finding list" where
  "sort_findings fs = sort_key finding_order fs"

text \<open>Appending findings one by one fails as soon as the total would pass \<open>MaxMatches\<close>.\<close>

definition append_bounded :: "finding list \<Rightarrow> finding list \<Rightarrow> finding list filtered" where
  "append_bounded acc new = require (length acc + length new \<le> max_matches) ErrMatchLimit (Inr (acc @ new))"

section \<open>Evaluation\<close>

fun covers :: "scope \<Rightarrow> scope \<Rightarrow> bool" where
  "covers scp phase \<longleftrightarrow> scp = phase \<or> scp = ScopeBoth"

definition evaluate_rule :: "compiled \<Rightarrow> scope \<Rightarrow> bool \<Rightarrow> nat \<Rightarrow> bytes \<Rightarrow> compiled_rule \<Rightarrow> finding list \<Rightarrow> finding list filtered" where
  "evaluate_rule c phase gated index value r acc =
     (if \<not> covers (cr_scope r) phase then Inr acc
      else if gated \<and> cr_action r = ActionRedact then Inr acc
      else
        let spans = rule_spans r value
        in require (length spans \<le> max_matches) ErrMatchLimit (
           append_bounded acc
             (map (rule_finding r index) (filter (\<lambda>s. \<not> allowlist_suppressed value s [co_allowlist c, cr_allow r]) spans))))"

fun evaluate_rules :: "compiled \<Rightarrow> scope \<Rightarrow> bool \<Rightarrow> nat \<Rightarrow> bytes \<Rightarrow> compiled_rule list \<Rightarrow> finding list \<Rightarrow> finding list filtered" where
  "evaluate_rules c phase gated index value [] acc = Inr acc"
| "evaluate_rules c phase gated index value (r # rs) acc =
     ok_or (evaluate_rule c phase gated index value r acc) (evaluate_rules c phase gated index value rs)"

definition evaluate_leaf :: "('x golib_scheme) \<Rightarrow> compiled \<Rightarrow> scope \<Rightarrow> nat \<Rightarrow> leaf \<Rightarrow> finding list \<Rightarrow> finding list filtered" where
  "evaluate_leaf lib c phase index lf acc =
     (let value = leaf_value lf;
          gated = (phase = ScopeRequest \<and> sensitive_matches lib (co_sensitive c) lf)
      in if value = [] then Inr acc
         else
           ok_or (evaluate_rules c phase gated index value (co_rules c) acc) (\<lambda>acc.
           ok_or (if gated \<and> \<not> sensitive_allows (co_sensitive c) value
                  then append_bounded acc [sensitive_key_finding index value] else Inr acc) (\<lambda>acc.
           let spans = blocklist_spans value (co_blocklist c) max_matches
           in require (length spans \<le> max_matches) ErrMatchLimit (
              append_bounded acc (map (blocklist_finding index) spans)))))"

fun evaluate_leaves :: "('x golib_scheme) \<Rightarrow> compiled \<Rightarrow> scope \<Rightarrow> nat \<Rightarrow> leaf list \<Rightarrow> finding list \<Rightarrow> finding list filtered" where
  "evaluate_leaves lib c phase index [] acc = Inr acc"
| "evaluate_leaves lib c phase index (lf # lfs) acc =
     ok_or (evaluate_leaf lib c phase index lf acc) (evaluate_leaves lib c phase (Suc index) lfs)"

definition evaluate :: "('x golib_scheme) \<Rightarrow> compiled option \<Rightarrow> leaf list \<Rightarrow> scope \<Rightarrow> finding list filtered" where
  "evaluate lib c leaves phase =
     (case c of
        None \<Rightarrow> Inl ErrInvalidValue
      | Some c \<Rightarrow>
          require (phase = ScopeRequest \<or> phase = ScopeResponse) ErrInvalidValue (
          ok_or (evaluate_leaves lib c phase 0 leaves []) (\<lambda>fs. Inr (sort_findings fs))))"

end
