(* ===== verification/Registry.thy ===== *)
theory Registry
  imports Evaluate
begin

text \<open>
  The rule registry (\<open>registry.go\<close>), the shared evaluation loop (\<open>collect.go\<close>) and the action policy
  (\<open>policy.go\<close>). A rule runs in a goroutine under a timer: what comes of it is its \<open>inspection\<close>.
\<close>

section \<open>The registry\<close>

datatype origin = OriginBuiltin | OriginRemotePack | OriginPlugin

record registry_entry =
  re_rule :: rule
  re_origin :: origin
  re_id :: bytes
  re_rank :: int

record registry =
  rg_entries :: "registry_entry list"
  rg_ids :: "bytes list"
  rg_sensitive :: "sensitive_matcher option"

definition new_registry :: registry where
  "new_registry = \<lparr>rg_entries = [], rg_ids = [], rg_sensitive = None\<rparr>"

text \<open>The checks of one candidate, \<open>None\<close> being a nil rule.\<close>

definition check_candidate :: "bytes list \<Rightarrow> rule option \<Rightarrow> rule filtered" where
  "check_candidate taken proposed =
     (case proposed of
        None \<Rightarrow> Inl ErrInvalidRule
      | Some r \<Rightarrow>
          require (valid_rule_id (ru_id r)) ErrInvalidRule (
          require (ru_id r \<notin> set taken) ErrDuplicateID (
          require (known_scope (ru_scope r)) ErrInvalidRule (
          require (known_action (ru_action r)) ErrInvalidRule (
          require (\<not> ((ru_scope r = ScopeResponse \<or> ru_scope r = ScopeBoth) \<and> ru_action r = ActionRedact)) ErrDirection (
          require (0 < ru_confidence r \<and> ru_confidence r \<le> 1) ErrInvalidRule (Inr r)))))))"

fun pending_entries :: "origin \<Rightarrow> bytes list \<Rightarrow> rule option list \<Rightarrow> registry_entry list filtered" where
  "pending_entries origin taken [] = Inr []"
| "pending_entries origin taken (proposed # rest) =
     ok_or (check_candidate taken proposed) (\<lambda>r.
     ok_or (pending_entries origin (ru_id r # taken) rest) (\<lambda>entries.
       Inr (\<lparr>re_rule = r, re_origin = origin, re_id = ru_id r, re_rank = ru_priority r\<rparr> # entries)))"

definition entry_order :: "registry_entry \<Rightarrow> int \<times> bytes" where
  "entry_order e = (re_rank e, re_id e)"

definition add_rules :: "origin \<Rightarrow> rule option list \<Rightarrow> registry \<Rightarrow> unit filtered \<times> registry" where
  "add_rules origin rules reg =
     (case pending_entries origin (rg_ids reg) rules of
        Inl e \<Rightarrow> (Inl e, reg)
      | Inr pending \<Rightarrow>
          (Inr (), reg\<lparr>rg_entries := sort_key entry_order (rg_entries reg @ pending),
                       rg_ids := rg_ids reg @ map re_id pending\<rparr>))"

definition register :: "rule option list \<Rightarrow> registry \<Rightarrow> unit filtered \<times> registry" where
  "register rules reg = add_rules OriginPlugin rules reg"

definition register_builtin :: "rule option list \<Rightarrow> registry \<Rightarrow> unit filtered \<times> registry" where
  "register_builtin rules reg = add_rules OriginBuiltin rules reg"

definition register_builtins :: "('x golib_scheme) \<Rightarrow> bool \<Rightarrow> registry \<Rightarrow> unit filtered \<times> registry" where
  "register_builtins lib high_entropy reg = register_builtin (map Some (enabled_builtin_detectors lib high_entropy)) reg"

text \<open>\<open>compiledView\<close>: a compiled rule as a \<open>Rule\<close>, with the allowlists in force.\<close>

definition compiled_view :: "compiled \<Rightarrow> compiled_rule \<Rightarrow> rule" where
  "compiled_view c r =
     \<lparr>ru_id = cr_id r, ru_type = cr_type r, ru_category = cr_category r, ru_scope = cr_scope r, ru_action = cr_action r,
      ru_priority = cr_priority r, ru_confidence = cr_confidence r,
      ru_inspect = \<lambda>leaf. to_spans (filter (\<lambda>s. \<not> allowlist_suppressed leaf s [co_allowlist c, cr_allow r]) (rule_spans r leaf))\<rparr>"

definition register_compiled :: "compiled option \<Rightarrow> registry \<Rightarrow> unit filtered \<times> registry" where
  "register_compiled cset reg =
     (case cset of
        None \<Rightarrow> (Inl ErrInvalidRule, reg)
      | Some c \<Rightarrow>
          (case add_rules OriginRemotePack (map (\<lambda>r. Some (compiled_view c r)) (co_rules c)) reg of
             (Inl e, reg') \<Rightarrow> (Inl e, reg')
           | (Inr _, reg') \<Rightarrow> (Inr (), reg'\<lparr>rg_sensitive := co_sensitive c\<rparr>)))"

section \<open>One invocation\<close>

datatype reason = ReasonBudget | ReasonTimeout | ReasonError | ReasonPanic | ReasonMalformed

record rule_failure =
  rf_rule_id :: bytes
  rf_origin :: origin
  rf_reason :: reason

definition max_rule_spans :: nat where "max_rule_spans = max_matches"

text \<open>The accepted spans, or the reason of the failure.\<close>

definition invoke :: "rule \<Rightarrow> bytes \<Rightarrow> scope \<Rightarrow> (reason, (int \<times> int) list) result" where
  "invoke r leaf phase =
     (if \<not> known_scope (ru_scope r) \<or> \<not> known_action (ru_action r) \<or> \<not> (0 < ru_confidence r \<and> ru_confidence r \<le> 1) \<or>
         (ru_scope r = ScopeResponse \<or> ru_scope r = ScopeBoth) \<and> ru_action r = ActionRedact
      then Inl ReasonMalformed
      else if \<not> covers (ru_scope r) phase then Inr []
      else
        (case ru_inspect r leaf of
           Panics \<Rightarrow> Inl ReasonPanic
         | Hangs \<Rightarrow> Inl ReasonTimeout
         | Spans spans \<Rightarrow>
             require (length spans \<le> max_rule_spans) ReasonBudget (
             require (list_all (\<lambda>(a, b). 0 \<le> a \<and> a < b \<and> b \<le> int (length leaf)) spans) ReasonMalformed (Inr spans))))"

section \<open>The evaluation loop\<close>

record attributed_finding =
  af_finding :: finding
  af_origin :: origin

definition entry_finding :: "registry_entry \<Rightarrow> nat \<Rightarrow> int \<times> int \<Rightarrow> attributed_finding" where
  "entry_finding e index s =
     \<lparr>af_finding = \<lparr>fi_rule_id = re_id e, fi_category = ru_category (re_rule e), fi_action = ru_action (re_rule e),
        fi_leaf_index = index, fi_start = fst s, fi_end = snd s, fi_confidence = ru_confidence (re_rule e)\<rparr>,
      af_origin = re_origin e\<rparr>"

type_synonym 'a guarded = "(rule_failure, 'a) result"

definition collect_entry ::
    "scope \<Rightarrow> bool \<Rightarrow> nat \<Rightarrow> bytes \<Rightarrow> registry_entry \<Rightarrow> attributed_finding list \<Rightarrow> attributed_finding list guarded" where
  "collect_entry phase gated index value e out =
     (let fail = (\<lambda>reason. Inl \<lparr>rf_rule_id = re_id e, rf_origin = re_origin e, rf_reason = reason\<rparr>)
      in if gated \<and> ru_action (re_rule e) = ActionRedact then Inr out
         else
           (case invoke (re_rule e) value phase of
              Inl reason \<Rightarrow> fail reason
            | Inr spans \<Rightarrow>
                if \<not> covers (ru_scope (re_rule e)) phase then Inr out
                else if max_matches < length out + length spans then fail ReasonBudget
                else Inr (out @ map (entry_finding e index) spans)))"

fun collect_entries ::
    "scope \<Rightarrow> bool \<Rightarrow> nat \<Rightarrow> bytes \<Rightarrow> registry_entry list \<Rightarrow> attributed_finding list \<Rightarrow> attributed_finding list guarded" where
  "collect_entries phase gated index value [] out = Inr out"
| "collect_entries phase gated index value (e # es) out =
     ok_or (collect_entry phase gated index value e out) (collect_entries phase gated index value es)"

definition collect_leaf ::
    "('x golib_scheme) \<Rightarrow> registry_entry list \<Rightarrow> sensitive_matcher option \<Rightarrow> scope \<Rightarrow> nat \<Rightarrow> leaf \<Rightarrow> attributed_finding list \<Rightarrow> attributed_finding list guarded" where
  "collect_leaf lib entries sensitive phase index lf out =
     (let value = leaf_value lf; gated = (phase = ScopeRequest \<and> sensitive_matches lib sensitive lf)
      in if value = [] then Inr out
         else
           ok_or (collect_entries phase gated index value entries out) (\<lambda>out.
           if gated \<and> \<not> sensitive_allows sensitive value then
             (if max_matches \<le> length out
              then Inl \<lparr>rf_rule_id = sensitive_key_rule_id, rf_origin = OriginRemotePack, rf_reason = ReasonBudget\<rparr>
              else Inr (out @ [\<lparr>af_finding = sensitive_key_finding index value, af_origin = OriginRemotePack\<rparr>]))
           else Inr out))"

fun collect_leaves ::
    "('x golib_scheme) \<Rightarrow> registry_entry list \<Rightarrow> sensitive_matcher option \<Rightarrow> scope \<Rightarrow> nat \<Rightarrow> leaf list \<Rightarrow> attributed_finding list \<Rightarrow> attributed_finding list guarded" where
  "collect_leaves lib entries sensitive phase index [] out = Inr out"
| "collect_leaves lib entries sensitive phase index (lf # lfs) out =
     ok_or (collect_leaf lib entries sensitive phase index lf out) (collect_leaves lib entries sensitive phase (Suc index) lfs)"

definition collect :: "('x golib_scheme) \<Rightarrow> registry_entry list \<Rightarrow> sensitive_matcher option \<Rightarrow> leaf list \<Rightarrow> scope \<Rightarrow> attributed_finding list guarded" where
  "collect lib entries sensitive leaves phase =
     ok_or (collect_leaves lib entries sensitive phase 0 leaves []) (\<lambda>out. Inr (sort_key (\<lambda>f. finding_order (af_finding f)) out))"

text \<open>\<open>Registry.Evaluate\<close>; an undefined phase is the only error besides a rule failure.\<close>

definition registry_evaluate :: "('x golib_scheme) \<Rightarrow> registry \<Rightarrow> leaf list \<Rightarrow> scope \<Rightarrow> attributed_finding list guarded filtered" where
  "registry_evaluate lib reg leaves phase =
     require (phase = ScopeRequest \<or> phase = ScopeResponse) ErrInvalidValue
       (Inr (collect lib (rg_entries reg) (rg_sensitive reg) leaves phase))"

section \<open>The policy\<close>

record substitution_request =
  sr_rule_id :: bytes
  sr_origin :: origin
  sr_leaf_index :: nat
  sr_start :: int
  sr_end :: int
  sr_category :: bytes

record decision =
  de_phase :: scope
  de_action :: action
  de_findings :: "attributed_finding list"
  de_substitutions :: "substitution_request list"
  de_warnings :: "(bytes \<times> origin) list"
  de_refusal :: "rule_failure option"

record policy =
  po_entries :: "registry_entry list"
  po_sensitive :: "sensitive_matcher option"

definition new_policy :: "registry option \<Rightarrow> policy" where
  "new_policy reg =
     (case reg of
        None \<Rightarrow> \<lparr>po_entries = [], po_sensitive = None\<rparr>
      | Some r \<Rightarrow> \<lparr>po_entries = rg_entries r, po_sensitive = rg_sensitive r\<rparr>)"

fun action_rank :: "action \<Rightarrow> int" where
  "action_rank ActionAllow = 0"
| "action_rank ActionWarn = 1"
| "action_rank ActionRedact = 2"
| "action_rank ActionBlock = 3"
| "action_rank (OtherAction _) = - 1"

definition finding_action :: "attributed_finding \<Rightarrow> action" where
  "finding_action f = fi_action (af_finding f)"

definition aggregate_action :: "attributed_finding list \<Rightarrow> action" where
  "aggregate_action fs =
     foldl (\<lambda>best f. if action_rank best < action_rank (finding_action f) then finding_action f else best) ActionAllow fs"

definition substitution_of :: "attributed_finding \<Rightarrow> substitution_request" where
  "substitution_of f =
     (let g = af_finding f
      in \<lparr>sr_rule_id = fi_rule_id g, sr_origin = af_origin f, sr_leaf_index = fi_leaf_index g,
          sr_start = fi_start g, sr_end = fi_end g, sr_category = fi_category g\<rparr>)"

text \<open>
  The decision and the metadata-only audit records written: one per refusal, naming the rule and
  the reason.
\<close>

definition decide :: "('x golib_scheme) \<Rightarrow> policy option \<Rightarrow> leaf list \<Rightarrow> scope \<Rightarrow> (decision \<times> rule_failure list) filtered" where
  "decide lib pol leaves phase =
     (case pol of
        None \<Rightarrow> Inl ErrNilPolicy
      | Some p \<Rightarrow>
          require (phase = ScopeRequest \<or> phase = ScopeResponse) ErrInvalidValue (
          case collect lib (po_entries p) (po_sensitive p) leaves phase of
            Inl failure \<Rightarrow>
              Inr (\<lparr>de_phase = phase, de_action = ActionBlock, de_findings = [], de_substitutions = [], de_warnings = [],
                    de_refusal = Some failure\<rparr>, [failure])
          | Inr findings \<Rightarrow>
              let act = aggregate_action findings; backing = filter (\<lambda>f. finding_action f = act) findings
              in Inr (\<lparr>de_phase = phase, de_action = act, de_findings = backing,
                       de_substitutions = (if phase = ScopeRequest \<and> act = ActionRedact then map substitution_of backing else []),
                       de_warnings = (if phase = ScopeResponse \<and> act = ActionWarn
                                      then map (\<lambda>f. (fi_rule_id (af_finding f), af_origin f)) backing else []),
                       de_refusal = None\<rparr>, [])))"

end
