(* ===== verification/Verdict.thy ===== *)
theory Verdict
  imports Registry "HOL-Library.Multiset"
begin

text \<open>
  What the filter promises: allowlists match whole occurrences, the floor, an ordered registry that
  a rejected batch leaves alone, the agreement of the registered and the document path, and the
  verdict of the policy.
\<close>

section \<open>Allowlists\<close>

lemma prefix_drop_length: "prefix w (drop p s) \<Longrightarrow> w \<noteq> [] \<Longrightarrow> p + length w \<le> length s"
  by (auto dest!: prefix_length_le simp flip: length_greater_0_conv)

lemma window_scan_iff:
  "w \<noteq> [] \<Longrightarrow> window_scan w stop off v \<longleftrightarrow> (\<exists>p. prefix w (drop p v) \<and> stop \<le> off + p + length w)"
proof (induction w stop off v rule: window_scan.induct)
  case (1 w stop off v)
  show ?case
  proof (cases "index_of w v")
    case None
    with 1(2) index_of_NoneD [OF None] show ?thesis by (subst window_scan.simps) auto
  next
    case (Some i)
    note i = index_of_SomeD [OF Some]
    from 1(1) [OF 1(2) Some 1(2)] have ih: "window_scan w stop (off + i + 1) (drop (i + 1) v) \<longleftrightarrow>
        (\<exists>p. prefix w (drop (p + (i + 1)) v) \<and> stop \<le> off + i + 1 + p + length w)" by simp
    have eq: "window_scan w stop off v \<longleftrightarrow> stop \<le> off + i + length w \<or> window_scan w stop (off + i + 1) (drop (i + 1) v)"
      using 1(2) Some by (subst window_scan.simps) simp
    show ?thesis
    proof
      assume "window_scan w stop off v"
      then consider "stop \<le> off + i + length w" | p where "prefix w (drop (p + (i + 1)) v)" "stop \<le> off + i + 1 + p + length w"
        using eq ih by blast
      then show "\<exists>p. prefix w (drop p v) \<and> stop \<le> off + p + length w"
      proof cases
        case 1
        with i show ?thesis by blast
      next
        case (2 p)
        then have "prefix w (drop (p + (i + 1)) v) \<and> stop \<le> off + (p + (i + 1)) + length w" by simp
        then show ?thesis ..
      qed
    next
      assume "\<exists>p. prefix w (drop p v) \<and> stop \<le> off + p + length w"
      then obtain p where p: "prefix w (drop p v)" "stop \<le> off + p + length w" by blast
      have "i \<le> p" using i p(1) not_le by blast
      show "window_scan w stop off v"
      proof (cases "p = i")
        case True
        with p(2) eq show ?thesis by simp
      next
        case False
        with \<open>i \<le> p\<close> have "p = p - (i + 1) + (i + 1)" by simp
        with p have "prefix w (drop (p - (i + 1) + (i + 1)) v)" "stop \<le> off + i + 1 + (p - (i + 1)) + length w" by simp_all
        with ih eq show ?thesis by blast
      qed
    qed
  qed
qed

text \<open>
  The allowlist check looks at a window around the span only, and still decides exactly
  whether some occurrence of the literal in the whole leaf covers the span.
\<close>

theorem inside_occurrence_iff:
  assumes "a < b" "b \<le> length value"
  shows "inside_occurrence value w a b \<longleftrightarrow> (\<exists>p. prefix w (drop p value) \<and> p \<le> a \<and> b \<le> p + length w)"
proof (cases "w = []")
  case True
  with assms show ?thesis by (auto simp: inside_occurrence_def)
next
  case False
  define n where "n = length w"
  define lo where "lo = b - n"
  define hi where "hi = min (length value) (a + n)"
  have n: "0 < n" using False by (simp add: n_def)
  have win: "prefix w (drop q (slice value lo hi)) \<longleftrightarrow> prefix w (drop (lo + q) value) \<and> lo + q + n \<le> hi" for q
  proof
    assume p: "prefix w (drop q (slice value lo hi))"
    then have len: "q + n \<le> length (slice value lo hi)" using prefix_drop_length False n_def by blast
    from p have "prefix w (take (hi - lo - q) (drop (lo + q) value))"
      by (simp add: slice_def drop_take add.commute)
    moreover have "prefix (take (hi - lo - q) (drop (lo + q) value)) (drop (lo + q) value)" by (rule take_is_prefix)
    moreover have "q + n \<le> hi - lo" using len by (simp add: slice_def)
    then have "lo + q + n \<le> hi" using n by simp
    ultimately show "prefix w (drop (lo + q) value) \<and> lo + q + n \<le> hi"
      using prefix_order.trans by blast
  next
    assume p: "prefix w (drop (lo + q) value) \<and> lo + q + n \<le> hi"
    then obtain z where z: "drop (lo + q) value = w @ z" by (auto simp: prefix_def)
    have "drop q (slice value lo hi) = take (hi - lo - q) (w @ z)"
      by (simp add: slice_def drop_take add.commute z [symmetric])
    also have "\<dots> = w @ take (hi - lo - q - n) z" using p [THEN conjunct2] by (simp add: n_def)
    finally show "prefix w (drop q (slice value lo hi))" by simp
  qed
  have "inside_occurrence value w a b \<longleftrightarrow> b - a \<le> n \<and> lo < hi \<and> window_scan w b lo (slice value lo hi)"
    using False by (auto simp: inside_occurrence_def Let_def n_def lo_def hi_def)
  also have "\<dots> \<longleftrightarrow> (\<exists>q. prefix w (drop (lo + q) value) \<and> lo + q + n \<le> hi \<and> b \<le> lo + q + n \<and> b - a \<le> n \<and> lo < hi)"
    using window_scan_iff [OF False, of b lo "slice value lo hi"] win by (auto simp: n_def)
  also have "\<dots> \<longleftrightarrow> (\<exists>p. prefix w (drop p value) \<and> p \<le> a \<and> b \<le> p + length w)"
  proof
    assume "\<exists>q. prefix w (drop (lo + q) value) \<and> lo + q + n \<le> hi \<and> b \<le> lo + q + n \<and> b - a \<le> n \<and> lo < hi"
    then obtain q where q: "prefix w (drop (lo + q) value)" "lo + q + n \<le> hi" "b \<le> lo + q + n" by blast
    have "lo + q \<le> a" using q(2) by (simp add: hi_def)
    with q show "\<exists>p. prefix w (drop p value) \<and> p \<le> a \<and> b \<le> p + length w" by (auto simp: n_def)
  next
    assume "\<exists>p. prefix w (drop p value) \<and> p \<le> a \<and> b \<le> p + length w"
    then obtain p where p: "prefix w (drop p value)" "p \<le> a" "b \<le> p + n" by (auto simp: n_def)
    have in_text: "p + n \<le> length value" using prefix_drop_length [OF p(1) False] by (simp add: n_def)
    have "lo \<le> p" using p(3) by (simp add: lo_def)
    then have "lo + (p - lo) = p" by simp
    moreover have "p + n \<le> hi" using in_text p(2) by (simp add: hi_def)
    moreover have "b - a \<le> n" "lo < hi" using p assms n \<open>p + n \<le> hi\<close> \<open>lo \<le> p\<close> by auto
    ultimately show "\<exists>q. prefix w (drop (lo + q) value) \<and> lo + q + n \<le> hi \<and> b \<le> lo + q + n \<and> b - a \<le> n \<and> lo < hi"
      using p by (intro exI [of _ "p - lo"]) simp
  qed
  finally show ?thesis .
qed

lemma inside_occurrence_iff_witness:
  "inside_occurrence ''my test@corp.com.'' ''test@corp.com'' 3 16 \<longleftrightarrow>
     (\<exists>p. prefix ''test@corp.com'' (drop p ''my test@corp.com.'') \<and> p \<le> 3 \<and> 16 \<le> p + length ''test@corp.com'')"
  by (rule inside_occurrence_iff) simp_all

section \<open>The floor\<close>

lemma find_guard_iff:
  "(case find P xs of None \<Rightarrow> k | Some x \<Rightarrow> Inl (f x)) = Inr u \<longleftrightarrow> (\<forall>x \<in> set xs. \<not> P x) \<and> k = Inr u"
proof (cases "find P xs")
  case None
  then have "\<forall>x \<in> set xs. \<not> P x" unfolding find_None_iff by blast
  with None show ?thesis by simp
next
  case (Some x)
  then have "x \<in> set xs \<and> P x" by (auto simp: find_Some_iff)
  with Some show ?thesis by auto
qed

text \<open>
  The floor: a document passes exactly when it is no remote pack, or it disables no built-in
  detector, removes no built-in category, carries no allow rule and replaces no email suffix set -
  whatever its allowlists are.
\<close>

theorem floor_check_iff:
  "floor_check (default_floor_baseline lib) (Some d) = Inr () \<longleftrightarrow>
     \<not> dc_remote_pack d \<or>
     (\<forall>did \<in> {''prefix'', ''email'', ''luhn'', ''jwt'', ''private_key'', ''high_entropy''}. map_of (dc_detectors d) did \<noteq> Some False) \<and>
     set (dc_disabled_categories d) \<inter> {''api_key'', ''email'', ''credit_card'', ''jwt'', ''private_key'', ''high_entropy''} = {} \<and>
     (\<forall>r \<in> set (dc_rules d). rd_action r \<noteq> ActionAllow \<and>
        (\<forall>opts email. rd_options r = Some opts \<longrightarrow> ro_email opts = Some email \<longrightarrow> \<not> eo_replace email))"
proof -
  have base: "fb_detectors (default_floor_baseline lib) = [''prefix'', ''email'', ''luhn'', ''jwt'', ''private_key'', ''high_entropy'']"
    "fb_categories (default_floor_baseline lib) = [''api_key'', ''email'', ''credit_card'', ''jwt'', ''private_key'', ''high_entropy'']"
    by (simp_all add: default_floor_baseline_def builtin_detectors_budget_def builtin_table_def new_prefix_rule_def new_email_rule_def
        new_luhn_rule_def new_jwt_rule_def new_pem_rule_def new_entropy_rule_def builtin_rule_def Let_def)
  have rep: "replaces_email r \<longleftrightarrow> (\<exists>opts email. rd_options r = Some opts \<and> ro_email opts = Some email \<and> eo_replace email)" for r
    by (auto simp: replaces_email_def split: option.splits)
  define D where "D = [''prefix'', ''email'', ''luhn'', ''jwt'', ''private_key'', ''high_entropy'']"
  define C where "C = [''api_key'', ''email'', ''credit_card'', ''jwt'', ''private_key'', ''high_entropy'']"
  have sets: "{''prefix'', ''email'', ''luhn'', ''jwt'', ''private_key'', ''high_entropy''} = set D"
    "{''api_key'', ''email'', ''credit_card'', ''jwt'', ''private_key'', ''high_entropy''} = set C"
    by (simp_all add: D_def C_def)
  show ?thesis
    unfolding sets floor_check_def base D_def [symmetric] C_def [symmetric]
    by (simp add: find_guard_iff rep) blast
qed

text \<open>A remote pack that keeps the floor: a keyword rule and an allowlist, no allow action.\<close>

definition sample_rule_doc :: rule_doc where
  "sample_rule_doc =
     \<lparr>rd_id = ''k1'', rd_type = TypeKeyword, rd_category = category_custom, rd_scope = ScopeRequest, rd_action = ActionRedact,
      rd_priority = 100, rd_pattern = [], rd_keywords = [''acme''], rd_case_sensitive = False, rd_confidence = 1,
      rd_allowlist = [''acmeorg''], rd_pem_headers = [], rd_options = None, rd_verbs = [], rd_targets = [], rd_excluded = False\<rparr>"

definition sample_document :: document where
  "sample_document =
     \<lparr>dc_detectors = [(''prefix'', True)], dc_disabled_categories = [''custom''], dc_allowlist = [], dc_blocklist = [''tok''],
      dc_sensitive_keys = None, dc_rules = [sample_rule_doc], dc_remote_pack = True\<rparr>"

definition sample_golib :: golib where
  "sample_golib = \<lparr>lib_fields = \<lambda>_. None, lib_log2 = log 2, lib_to_lower = go_lower, lib_regexp = \<lambda>_. None\<rparr>"

lemma floor_check_iff_witness:
  "floor_check (default_floor_baseline sample_golib) (Some sample_document) = Inr ()"
  unfolding floor_check_iff
  by (simp add: sample_document_def sample_rule_doc_def)

section \<open>The evaluation loop against its specification\<close>

text \<open>What one rule and one leaf contribute, without limits and failures.\<close>

definition skipped :: "bool \<Rightarrow> registry_entry \<Rightarrow> bool" where
  "skipped gated e \<longleftrightarrow> gated \<and> ru_action (re_rule e) = ActionRedact"

definition entry_findings :: "scope \<Rightarrow> bool \<Rightarrow> nat \<Rightarrow> bytes \<Rightarrow> registry_entry \<Rightarrow> attributed_finding list" where
  "entry_findings phase gated index value e =
     (if skipped gated e \<or> \<not> covers (ru_scope (re_rule e)) phase then []
      else case ru_inspect (re_rule e) value of Spans ss \<Rightarrow> map (entry_finding e index) ss | _ \<Rightarrow> [])"

definition gate :: "('x golib_scheme) \<Rightarrow> sensitive_matcher option \<Rightarrow> scope \<Rightarrow> leaf \<Rightarrow> bool" where
  "gate lib sensitive phase lf \<longleftrightarrow> phase = ScopeRequest \<and> sensitive_matches lib sensitive lf"

definition gate_findings :: "bool \<Rightarrow> sensitive_matcher option \<Rightarrow> nat \<Rightarrow> bytes \<Rightarrow> finding list" where
  "gate_findings gated sensitive index value =
     (if gated \<and> \<not> sensitive_allows sensitive value then [sensitive_key_finding index value] else [])"

definition leaf_findings ::
    "('x golib_scheme) \<Rightarrow> registry_entry list \<Rightarrow> sensitive_matcher option \<Rightarrow> scope \<Rightarrow> nat \<Rightarrow> leaf \<Rightarrow> attributed_finding list" where
  "leaf_findings lib entries sensitive phase index lf =
     (if leaf_value lf = [] then []
      else concat (map (entry_findings phase (gate lib sensitive phase lf) index (leaf_value lf)) entries) @
           map (\<lambda>f. \<lparr>af_finding = f, af_origin = OriginRemotePack\<rparr>)
             (gate_findings (gate lib sensitive phase lf) sensitive index (leaf_value lf)))"

fun all_findings ::
    "('x golib_scheme) \<Rightarrow> registry_entry list \<Rightarrow> sensitive_matcher option \<Rightarrow> scope \<Rightarrow> nat \<Rightarrow> leaf list \<Rightarrow> attributed_finding list" where
  "all_findings lib entries sensitive phase index [] = []"
| "all_findings lib entries sensitive phase index (lf # lfs) =
     leaf_findings lib entries sensitive phase index lf @ all_findings lib entries sensitive phase (Suc index) lfs"

text \<open>A rule behaves on a leaf when it is not run there or its call is accepted.\<close>

definition behaves :: "('x golib_scheme) \<Rightarrow> sensitive_matcher option \<Rightarrow> scope \<Rightarrow> leaf \<Rightarrow> registry_entry \<Rightarrow> bool" where
  "behaves lib sensitive phase lf e \<longleftrightarrow>
     leaf_value lf = [] \<or> skipped (gate lib sensitive phase lf) e \<or> (\<exists>ss. invoke (re_rule e) (leaf_value lf) phase = Inr ss)"

lemma invoke_Inr_covers:
  "invoke r v ph = Inr ss \<Longrightarrow> covers (ru_scope r) ph \<Longrightarrow> ru_inspect r v = Spans ss"
  by (auto simp: invoke_def split: if_splits inspection.splits)

lemma collect_entry_iff:
  assumes "length out \<le> max_matches"
  shows "collect_entry ph g i v e out = Inr out' \<longleftrightarrow>
    (skipped g e \<or> (\<exists>ss. invoke (re_rule e) v ph = Inr ss)) \<and>
    out' = out @ entry_findings ph g i v e \<and> length out' \<le> max_matches"
proof (cases "skipped g e")
  case True
  with assms show ?thesis by (auto simp: collect_entry_def entry_findings_def skipped_def Let_def)
next
  case False
  then have ns: "\<not> (g \<and> ru_action (re_rule e) = ActionRedact)" by (simp add: skipped_def)
  show ?thesis
  proof (cases "invoke (re_rule e) v ph")
    case (Inl x)
    with False ns show ?thesis by (auto simp: collect_entry_def Let_def)
  next
    case (Inr ss)
    show ?thesis
    proof (cases "covers (ru_scope (re_rule e)) ph")
      case True
      with invoke_Inr_covers [OF Inr] Inr False ns show ?thesis
        by (auto simp: collect_entry_def entry_findings_def Let_def)
    next
      case nc: False
      with Inr False ns assms show ?thesis by (auto simp: collect_entry_def entry_findings_def Let_def)
    qed
  qed
qed

lemma collect_entries_iff:
  "length out \<le> max_matches \<Longrightarrow> collect_entries ph g i v es out = Inr out' \<longleftrightarrow>
    (\<forall>e \<in> set es. skipped g e \<or> (\<exists>ss. invoke (re_rule e) v ph = Inr ss)) \<and>
    out' = out @ concat (map (entry_findings ph g i v) es) \<and> length out' \<le> max_matches"
proof (induction es arbitrary: out)
  case Nil
  then show ?case by auto
next
  case (Cons e es)
  let ?out = "out @ entry_findings ph g i v e"
  have "collect_entries ph g i v (e # es) out = Inr out' \<longleftrightarrow>
      (skipped g e \<or> (\<exists>ss. invoke (re_rule e) v ph = Inr ss)) \<and> length ?out \<le> max_matches \<and>
      collect_entries ph g i v es ?out = Inr out'"
    by (auto simp: ok_or_Inr_iff collect_entry_iff [OF Cons.prems])
  then show ?case using Cons.IH [of ?out] by auto
qed

lemma collect_leaf_iff:
  assumes "length out \<le> max_matches"
  shows "collect_leaf lib es s ph i lf out = Inr out' \<longleftrightarrow>
    (\<forall>e \<in> set es. behaves lib s ph lf e) \<and> out' = out @ leaf_findings lib es s ph i lf \<and> length out' \<le> max_matches"
proof (cases "leaf_value lf = []")
  case True
  with assms show ?thesis by (auto simp: collect_leaf_def leaf_findings_def behaves_def Let_def)
next
  case False
  define g where "g = gate lib s ph lf"
  define v where "v = leaf_value lf"
  have unfold: "collect_leaf lib es s ph i lf out =
      ok_or (collect_entries ph g i v es out) (\<lambda>out.
        if gate_findings g s i v = [] then Inr out
        else if max_matches \<le> length out
        then Inl \<lparr>rf_rule_id = sensitive_key_rule_id, rf_origin = OriginRemotePack, rf_reason = ReasonBudget\<rparr>
        else Inr (out @ map (\<lambda>f. \<lparr>af_finding = f, af_origin = OriginRemotePack\<rparr>) (gate_findings g s i v)))"
    using False by (auto simp: collect_leaf_def Let_def g_def v_def gate_def gate_findings_def intro!: arg_cong [of _ _ "ok_or _"])
  have one: "gate_findings g s i v = [] \<or> length (gate_findings g s i v) = 1" by (simp add: gate_findings_def)
  have leaf: "leaf_findings lib es s ph i lf = concat (map (entry_findings ph g i v) es) @
      map (\<lambda>f. \<lparr>af_finding = f, af_origin = OriginRemotePack\<rparr>) (gate_findings g s i v)"
    using False by (simp add: leaf_findings_def g_def v_def)
  have ok: "(\<forall>e \<in> set es. behaves lib s ph lf e) \<longleftrightarrow> (\<forall>e \<in> set es. skipped g e \<or> (\<exists>ss. invoke (re_rule e) v ph = Inr ss))"
    using False by (simp add: behaves_def g_def v_def)
  show ?thesis
    unfolding unfold leaf ok ok_or_Inr_iff collect_entries_iff [OF assms] using one by auto
qed

lemma collect_leaves_iff:
  "length out \<le> max_matches \<Longrightarrow> collect_leaves lib es s ph i lfs out = Inr out' \<longleftrightarrow>
    (\<forall>lf \<in> set lfs. \<forall>e \<in> set es. behaves lib s ph lf e) \<and>
    out' = out @ all_findings lib es s ph i lfs \<and> length out' \<le> max_matches"
proof (induction lfs arbitrary: out i)
  case Nil
  then show ?case by auto
next
  case (Cons lf lfs)
  let ?out = "out @ leaf_findings lib es s ph i lf"
  have "collect_leaves lib es s ph i (lf # lfs) out = Inr out' \<longleftrightarrow>
      (\<forall>e \<in> set es. behaves lib s ph lf e) \<and> length ?out \<le> max_matches \<and> collect_leaves lib es s ph (Suc i) lfs ?out = Inr out'"
    by (auto simp: ok_or_Inr_iff collect_leaf_iff [OF Cons.prems])
  then show ?case using Cons.IH [of ?out "Suc i"] by auto
qed

lemma collect_spec:
  "collect lib es s leaves ph = Inr fs \<longleftrightarrow>
    (\<forall>lf \<in> set leaves. \<forall>e \<in> set es. behaves lib s ph lf e) \<and> length (all_findings lib es s ph 0 leaves) \<le> max_matches \<and>
    fs = sort_key (\<lambda>f. finding_order (af_finding f)) (all_findings lib es s ph 0 leaves)"
  by (auto simp: collect_def ok_or_Inr_iff collect_leaves_iff)

lemma collect_set:
  "collect lib es s leaves ph = Inr fs \<Longrightarrow> set fs = set (all_findings lib es s ph 0 leaves)"
  by (simp add: collect_spec)

section \<open>The verdict\<close>

definition better :: "action \<Rightarrow> attributed_finding \<Rightarrow> action" where
  "better best f = (if action_rank best < action_rank (finding_action f) then finding_action f else best)"

lemma aggregate_better: "aggregate_action fs = foldl better ActionAllow fs"
  by (simp add: aggregate_action_def better_def [abs_def])

lemma better_bounds:
  "action_rank best \<le> action_rank (foldl better best fs) \<and>
   (\<forall>f \<in> set fs. action_rank (finding_action f) \<le> action_rank (foldl better best fs)) \<and>
   (foldl better best fs = best \<or> (\<exists>f \<in> set fs. foldl better best fs = finding_action f))"
proof (induction fs arbitrary: best)
  case (Cons f fs)
  have "action_rank best \<le> action_rank (better best f)" "action_rank (finding_action f) \<le> action_rank (better best f)"
    "better best f = best \<or> better best f = finding_action f"
    by (simp_all add: better_def)
  with Cons [of "better best f"] show ?case by auto
qed simp

lemma aggregate_greatest:
  "f \<in> set fs \<Longrightarrow> action_rank (finding_action f) \<le> action_rank (aggregate_action fs)"
  "aggregate_action fs = ActionAllow \<or> (\<exists>f \<in> set fs. aggregate_action fs = finding_action f)"
  using better_bounds [of ActionAllow fs] by (auto simp: aggregate_better)

lemma rank_block: "action_rank ActionBlock \<le> action_rank a \<Longrightarrow> a = ActionBlock"
  by (cases a) simp_all

lemma aggregate_block: "f \<in> set fs \<Longrightarrow> finding_action f = ActionBlock \<Longrightarrow> aggregate_action fs = ActionBlock"
  using aggregate_greatest(1) [of f fs] rank_block by simp

text \<open>The verdict of a policy, by cases on the outcome of the loop.\<close>

lemma decide_cases:
  assumes "decide lib (Some p) leaves ph = Inr (d, audit)"
  obtains (refused) failure where "collect lib (po_entries p) (po_sensitive p) leaves ph = Inl failure"
      "de_refusal d = Some failure" "audit = [failure]" "de_action d = ActionBlock" "de_findings d = []" "de_substitutions d = []"
    | (judged) fs where "collect lib (po_entries p) (po_sensitive p) leaves ph = Inr fs" "de_refusal d = None" "audit = []"
      "de_action d = aggregate_action fs" "de_findings d = filter (\<lambda>f. finding_action f = aggregate_action fs) fs"
      "de_substitutions d = (if ph = ScopeRequest \<and> aggregate_action fs = ActionRedact then map substitution_of (de_findings d) else [])"
  using assms by (auto simp: decide_def Let_def split: sum.splits)

text \<open>A plugin rule that reports the first two bytes of every leaf, or panics, as the sample of a policy.\<close>

definition sample_leaf :: "bytes \<Rightarrow> leaf" where
  "sample_leaf v =
     \<lparr>leaf_path = ''/a'', leaf_value = v, leaf_length = length v, leaf_encoded = True, leaf_member = True, leaf_key = ''a'',
      leaf_identity = [], leaf_identifiable = False, leaf_tok = []\<rparr>"

definition sample_policy :: "action \<Rightarrow> inspection \<Rightarrow> policy" where
  "sample_policy act answer =
     \<lparr>po_entries =
        [\<lparr>re_rule = \<lparr>ru_id = ''p'', ru_type = OtherType ''x'', ru_category = ''custom'', ru_scope = ScopeRequest, ru_action = act,
                     ru_priority = 1, ru_confidence = 1, ru_inspect = \<lambda>_. answer\<rparr>,
          re_origin = OriginPlugin, re_id = ''p'', re_rank = 1\<rparr>],
      po_sensitive = None\<rparr>"

definition sample_decision :: decision where
  "sample_decision =
     \<lparr>de_phase = ScopeRequest, de_action = ActionRedact,
      de_findings = [\<lparr>af_finding = \<lparr>fi_rule_id = ''p'', fi_category = ''custom'', fi_action = ActionRedact, fi_leaf_index = 0,
                                    fi_start = 0, fi_end = 2, fi_confidence = 1\<rparr>, af_origin = OriginPlugin\<rparr>],
      de_substitutions = [\<lparr>sr_rule_id = ''p'', sr_origin = OriginPlugin, sr_leaf_index = 0, sr_start = 0, sr_end = 2,
                          sr_category = ''custom''\<rparr>],
      de_warnings = [], de_refusal = None\<rparr>"

lemma sample_decide:
  "decide sample_golib (Some (sample_policy ActionRedact (Spans [(0, 2)]))) [sample_leaf ''abc''] ScopeRequest = Inr (sample_decision, [])"
  by (simp add: decide_def sample_policy_def sample_leaf_def sample_decision_def collect_def collect_leaf_def collect_entry_def invoke_def
      known_scope_def known_action_def sensitive_matches_def entry_finding_def max_rule_spans_def max_matches_def Let_def
      aggregate_action_def finding_action_def substitution_of_def)

text \<open>
  C10: The verdict of the policy. When every rule that has to run is accepted and the findings are
  within the limit, the action is the greatest among all findings of the request (Allow without
  any), the decision carries all findings of that action and no other, substitutions are asked for
  a request to be redacted only, and nothing is recorded. In every other case the decision is a
  block with a refusal, no findings and no substitutions, and exactly one audit record.
\<close>

theorem decide_verdict:
  assumes "decide lib (Some p) leaves phase = Inr (d, audit)"
  defines "found \<equiv> all_findings lib (po_entries p) (po_sensitive p) phase 0 leaves"
  shows "if (\<forall>lf \<in> set leaves. \<forall>e \<in> set (po_entries p). behaves lib (po_sensitive p) phase lf e) \<and> length found \<le> max_matches
    then de_refusal d = None \<and> audit = [] \<and>
         (\<forall>f \<in> set found. action_rank (finding_action f) \<le> action_rank (de_action d)) \<and>
         (de_action d = ActionAllow \<or> (\<exists>f \<in> set found. finding_action f = de_action d)) \<and>
         mset (de_findings d) = mset (filter (\<lambda>f. finding_action f = de_action d) found) \<and>
         de_substitutions d = (if phase = ScopeRequest \<and> de_action d = ActionRedact then map substitution_of (de_findings d) else [])
    else (\<exists>failure. de_refusal d = Some failure \<and> audit = [failure]) \<and>
         de_action d = ActionBlock \<and> de_findings d = [] \<and> de_substitutions d = []"
  using assms(1)
proof (cases rule: decide_cases)
  case (refused failure)
  then have "\<not> ((\<forall>lf \<in> set leaves. \<forall>e \<in> set (po_entries p). behaves lib (po_sensitive p) phase lf e) \<and> length found \<le> max_matches)"
    using collect_spec [of lib "po_entries p" "po_sensitive p" leaves phase] unfolding found_def by force
  with refused show ?thesis by simp
next
  case (judged fs)
  note spec = judged(1) [unfolded collect_spec, folded found_def]
  have ms: "mset fs = mset found" and st: "set fs = set found" using spec by simp_all
  have "mset (filter P fs) = mset (filter P found)" for P using ms by (simp add: mset_filter)
  with judged spec st aggregate_greatest(1) [of _ fs] aggregate_greatest(2) [of fs] show ?thesis by fastforce
qed

lemma decide_verdict_witness:
  "\<exists>d audit. decide sample_golib (Some (sample_policy ActionRedact (Spans [(0, 2)]))) [sample_leaf ''abc''] ScopeRequest = Inr (d, audit) \<and>
     (if (\<forall>lf \<in> set [sample_leaf ''abc'']. \<forall>e \<in> set (po_entries (sample_policy ActionRedact (Spans [(0, 2)]))).
            behaves sample_golib None ScopeRequest lf e) \<and>
          length (all_findings sample_golib (po_entries (sample_policy ActionRedact (Spans [(0, 2)]))) None ScopeRequest 0 [sample_leaf ''abc'']) \<le> max_matches
      then de_refusal d = None else de_action d = ActionBlock)"
proof -
  have "po_sensitive (sample_policy ActionRedact (Spans [(0, 2)])) = None" by (simp add: sample_policy_def)
  with decide_verdict [OF sample_decide] sample_decide show ?thesis by (auto split: if_splits)
qed

text \<open>
  C11: Fail closed: a block rule that covers the phase blocks whatever else happens - when it
  reports anything in any leaf, and also when it panics, hangs or answers with malformed spans.
\<close>

theorem block_rule_blocks:
  assumes "phase = ScopeRequest \<or> phase = ScopeResponse" "e \<in> set (po_entries p)" "lf \<in> set leaves" "leaf_value lf \<noteq> []"
    "ru_action (re_rule e) = ActionBlock" "covers (ru_scope (re_rule e)) phase" "ru_inspect (re_rule e) (leaf_value lf) \<noteq> Spans []"
  shows "\<exists>d audit. decide lib (Some p) leaves phase = Inr (d, audit) \<and> de_action d = ActionBlock"
proof -
  obtain d audit where dec: "decide lib (Some p) leaves phase = Inr (d, audit)"
    using assms(1) by (cases "collect lib (po_entries p) (po_sensitive p) leaves phase") (auto simp: decide_def Let_def)
  then show ?thesis
  proof (cases rule: decide_cases)
    case (judged fs)
    let ?v = "leaf_value lf" and ?g = "gate lib (po_sensitive p) phase lf"
    have "behaves lib (po_sensitive p) phase lf e" using judged(1) assms by (simp add: collect_spec)
    then obtain ss where ss: "invoke (re_rule e) ?v phase = Inr ss"
      using assms by (auto simp: behaves_def skipped_def)
    have hit: "ru_inspect (re_rule e) ?v = Spans ss" "ss \<noteq> []"
      using invoke_Inr_covers [OF ss assms(6)] assms(7) by auto
    have "\<exists>i. set (leaf_findings lib (po_entries p) (po_sensitive p) phase i lf) \<subseteq> set (all_findings lib (po_entries p) (po_sensitive p) phase k leaves)" for k
      using assms(3) by (induction leaves arbitrary: k) (auto, fastforce+)
    then obtain i where i: "set (leaf_findings lib (po_entries p) (po_sensitive p) phase i lf) \<subseteq> set fs"
      using collect_set [OF judged(1)] by blast
    have "entry_finding e i (hd ss) \<in> set (entry_findings phase ?g i ?v e)"
      using hit assms by (auto simp: entry_findings_def skipped_def)
    then have "entry_finding e i (hd ss) \<in> set fs"
      using i assms by (auto simp: leaf_findings_def)
    moreover have "finding_action (entry_finding e i (hd ss)) = ActionBlock"
      using assms by (simp add: finding_action_def entry_finding_def)
    ultimately have "de_action d = ActionBlock" using judged(4) aggregate_block by simp
    with dec show ?thesis by blast
  qed (use dec in blast)
qed

lemma block_rule_blocks_witness:
  "\<exists>d audit. decide sample_golib (Some (sample_policy ActionBlock Panics)) [sample_leaf ''abc''] ScopeRequest = Inr (d, audit) \<and> de_action d = ActionBlock"
  by (rule block_rule_blocks [of ScopeRequest "hd (po_entries (sample_policy ActionBlock Panics))" _ "sample_leaf ''abc''"])
    (simp_all add: sample_policy_def sample_leaf_def)

text \<open>Every finding lies in the leaf it names.\<close>

definition in_leaf :: "leaf list \<Rightarrow> nat \<Rightarrow> attributed_finding \<Rightarrow> bool" where
  "in_leaf leaves i f \<longleftrightarrow>
     (let g = af_finding f
      in i \<le> fi_leaf_index g \<and> fi_leaf_index g - i < length leaves \<and> 0 \<le> fi_start g \<and> fi_start g < fi_end g \<and>
         fi_end g \<le> int (length (leaf_value (leaves ! (fi_leaf_index g - i)))))"

lemma invoke_spans: "invoke r v ph = Inr ss \<Longrightarrow> (a, b) \<in> set ss \<Longrightarrow> 0 \<le> a \<and> a < b \<and> b \<le> int (length v)"
  by (auto simp: invoke_def list_all_iff split: if_splits inspection.splits)

lemma leaf_findings_bounds:
  assumes "\<forall>e \<in> set es. behaves lib s ph lf e" "f \<in> set (leaf_findings lib es s ph i lf)"
  shows "fi_leaf_index (af_finding f) = i \<and> 0 \<le> fi_start (af_finding f) \<and> fi_start (af_finding f) < fi_end (af_finding f) \<and>
    fi_end (af_finding f) \<le> int (length (leaf_value lf))"
proof -
  have ne: "leaf_value lf \<noteq> []" using assms(2) by (auto simp: leaf_findings_def)
  show ?thesis
  proof (cases "\<exists>e \<in> set es. f \<in> set (entry_findings ph (gate lib s ph lf) i (leaf_value lf) e)")
    case True
    then obtain e where e: "e \<in> set es" "f \<in> set (entry_findings ph (gate lib s ph lf) i (leaf_value lf) e)" by blast
    then have run: "\<not> skipped (gate lib s ph lf) e" "covers (ru_scope (re_rule e)) ph" by (auto simp: entry_findings_def split: if_splits)
    with assms(1) e(1) ne obtain ss where ss: "invoke (re_rule e) (leaf_value lf) ph = Inr ss" by (auto simp: behaves_def)
    from e(2) run invoke_Inr_covers [OF ss run(2)] obtain a b where ab: "(a, b) \<in> set ss" "f = entry_finding e i (a, b)"
      by (auto simp: entry_findings_def)
    with invoke_spans [OF ss ab(1)] show ?thesis by (simp add: entry_finding_def)
  next
    case False
    with assms(2) ne show ?thesis by (auto simp: leaf_findings_def gate_findings_def sensitive_key_finding_def split: if_splits)
  qed
qed

lemma all_findings_in_leaf:
  "\<forall>lf \<in> set lfs. \<forall>e \<in> set es. behaves lib s ph lf e \<Longrightarrow> f \<in> set (all_findings lib es s ph i lfs) \<Longrightarrow> in_leaf lfs i f"
proof (induction lfs arbitrary: i)
  case (Cons lf lfs)
  show ?case
  proof (cases "f \<in> set (leaf_findings lib es s ph i lf)")
    case True
    with Cons.prems leaf_findings_bounds [of es lib s ph lf f i] show ?thesis by (auto simp: in_leaf_def Let_def)
  next
    case False
    with Cons have "in_leaf lfs (Suc i) f" by simp
    then show ?thesis by (auto simp: in_leaf_def Let_def nth_Cons' diff_Suc split: nat.splits)
  qed
qed simp

text \<open>
  Whatever rules are registered, a substitution the policy asks for belongs to a request
  whose action is Redact and names a non-empty span inside an existing leaf.
\<close>

theorem substitutions_in_leaf:
  assumes "decide lib (Some p) leaves phase = Inr (d, audit)" "r \<in> set (de_substitutions d)"
  shows "phase = ScopeRequest \<and> de_action d = ActionRedact \<and> sr_leaf_index r < length leaves \<and>
    0 \<le> sr_start r \<and> sr_start r < sr_end r \<and> sr_end r \<le> int (length (leaf_value (leaves ! sr_leaf_index r)))"
  using assms(1)
proof (cases rule: decide_cases)
  case (judged fs)
  with assms(2) obtain f where f: "phase = ScopeRequest" "de_action d = ActionRedact" "f \<in> set fs" "r = substitution_of f"
    by (auto split: if_splits)
  have "in_leaf leaves 0 f"
    using judged(1) f(3) all_findings_in_leaf [of leaves "po_entries p" lib "po_sensitive p" phase f 0] by (simp add: collect_spec)
  with f show ?thesis by (simp add: substitution_of_def in_leaf_def Let_def)
qed (use assms(2) in simp)

lemma substitutions_in_leaf_witness:
  "hd (de_substitutions sample_decision) \<in> set (de_substitutions sample_decision) \<and>
   sr_end (hd (de_substitutions sample_decision)) \<le> int (length (leaf_value ([sample_leaf ''abc''] ! sr_leaf_index (hd (de_substitutions sample_decision)))))"
proof -
  have "hd (de_substitutions sample_decision) \<in> set (de_substitutions sample_decision)" by (simp add: sample_decision_def)
  with substitutions_in_leaf [OF sample_decide this] show ?thesis by blast
qed

end
