(* ===== verification/Digest.thy ===== *)
theory Digest
  imports Supply
begin

text \<open>\<open>checkBundleDigest\<close> of \<open>pkg/supply/rules_cache.go\<close>; SHA-256 is the argument \<open>sha\<close>.\<close>

text \<open>\<open>hex.DecodeString\<close>: pairs of digits in either case.\<close>

definition hex_val :: "char \<Rightarrow> nat option" where
  "hex_val c =
     (if is_ascii_digit c then Some (byte_val c - 48)
      else if in_range CHR ''a'' CHR ''f'' c then Some (byte_val c - 87)
      else if in_range CHR ''A'' CHR ''F'' c then Some (byte_val c - 55) else None)"

fun hex_decode :: "bytes \<Rightarrow> bytes option" where
  "hex_decode [] = Some []"
| "hex_decode [c] = None"
| "hex_decode (a # b # cs) =
     (case (hex_val a, hex_val b) of
        (Some x, Some y) \<Rightarrow> map_option (\<lambda>t. char_of (16 * x + y) # t) (hex_decode cs)
      | _ \<Rightarrow> None)"

definition check_bundle_digest :: "(bytes \<Rightarrow> bytes) \<Rightarrow> bytes \<Rightarrow> bytes \<Rightarrow> unit outcome" where
  "check_bundle_digest sha declared raw =
     (case hex_decode (trim_space declared) of
        None \<Rightarrow> Inl ErrDigestMismatch
      | Some digest \<Rightarrow> if sha raw = digest then Inr () else Inl ErrDigestMismatch)"

lemma check_bundle_digest_iff:
  "check_bundle_digest sha declared raw = Inr u \<longleftrightarrow> hex_decode (trim_space declared) = Some (sha raw)"
  by (auto simp: check_bundle_digest_def split: option.splits)

end
