(* ===== verification/HighWater.thy ===== *)
theory HighWater
  imports Supply
begin

text \<open>
  \<open>pkg/supply/highwater.go\<close>: the anti-rollback mark. \<open>HighWater\<close> is the Go interface as a
  contract (the locale \<open>high_water\<close>), the in-memory and the file store interpret it. Persisting is
  a sequence of file operations any of which may fail: the argument \<open>faults\<close> says which do.
\<close>

section \<open>The contract\<close>

text \<open>
  \<open>env\<close> is whatever outside the store decides about one call (the file system's failures). An
  accepted serial becomes the mark, a lower one is refused as a replay, and a call that fails
  leaves the mark as it was.
\<close>

locale high_water =
  fixes ok :: "'s \<Rightarrow> bool"
    and current :: "'s \<Rightarrow> int"
    and advance :: "'env \<Rightarrow> int \<Rightarrow> 's \<Rightarrow> unit outcome \<times> 's"
  assumes keeps_ok: "ok s \<Longrightarrow> ok (snd (advance env n s))"
    and replay: "n < current s \<Longrightarrow> advance env n s = (Inl (ErrReplay (current s) n), s)"
    and accepted: "advance env n s = (Inr (), s') \<Longrightarrow> current s \<le> n \<Longrightarrow> current s' = n"
    and failed: "advance env n s = (Inl e, s') \<Longrightarrow> current s' = current s"
    and idempotent: "fst (advance env (current s) s) = Inr ()"
begin

lemma accepted_not_lower: "advance env n s = (Inr (), s') \<Longrightarrow> current s \<le> n \<and> current s' = n"
  using replay [of n s env] accepted [of env n s s'] by (cases "n < current s") auto

lemma never_back: "advance env n s = (r, s') \<Longrightarrow> current s \<le> current s'"
  using accepted_not_lower [of env n s s'] failed [of env n s _ s'] by (cases r) auto

fun advance_all :: "('env \<times> int) list \<Rightarrow> 's \<Rightarrow> unit outcome list \<times> 's" where
  "advance_all [] s = ([], s)"
| "advance_all ((env, n) # calls) s =
     (let (r, s1) = advance env n s; (rs, s2) = advance_all calls s1 in (r # rs, s2))"

definition accepted_serials :: "('env \<times> int) list \<Rightarrow> 's \<Rightarrow> int list" where
  "accepted_serials calls s =
     map snd (map fst (filter (\<lambda>(_, r). r = Inr ()) (zip calls (fst (advance_all calls s)))))"

text \<open>Over any calls the accepted serials ascend from the mark, and the mark ends at the last of them.\<close>

lemma accepted_ascend:
  assumes "advance_all calls s = (rs, s')"
  shows "sorted (current s # accepted_serials calls s) \<and> last (current s # accepted_serials calls s) = current s'"
  using assms
proof (induction calls arbitrary: s rs)
  case (Cons call calls)
  obtain env n where call: "call = (env, n)" by (cases call)
  obtain r s1 where a: "advance env n s = (r, s1)" by fastforce
  obtain rs1 where b: "advance_all calls s1 = (rs1, s')" "rs = r # rs1"
    using Cons.prems call a by (auto split: prod.splits)
  have acc: "accepted_serials (call # calls) s = (if r = Inr () then n # accepted_serials calls s1 else accepted_serials calls s1)"
    using call a b(1) by (auto simp: accepted_serials_def)
  note ih = Cons.IH [OF b(1)]
  show ?case
  proof (cases r)
    case (Inl e)
    with failed a have "current s1 = current s" by blast
    with ih acc Inl show ?thesis by simp
  next
    case (Inr u)
    with accepted_not_lower a have "current s \<le> n" "current s1 = n" by auto
    with ih acc Inr show ?thesis by auto
  qed
qed (simp add: accepted_serials_def)

lemma advance_all_ok: "ok s \<Longrightarrow> advance_all calls s = (rs, s') \<Longrightarrow> ok s'"
proof (induction calls arbitrary: s rs)
  case (Cons call calls)
  obtain env n where call: "call = (env, n)" by (cases call)
  obtain r s1 where a: "advance env n s = (r, s1)" by fastforce
  obtain rs1 where b: "advance_all calls s1 = (rs1, s')"
    using Cons.prems call a by (auto split: prod.splits)
  have "ok s1" using keeps_ok [OF Cons.prems(1), of env n] a by simp
  from Cons.IH [OF this b] show ?case .
qed simp

end

section \<open>The in-memory store\<close>

type_synonym mem_high_water = int

definition mem_advance :: "unit \<Rightarrow> int \<Rightarrow> mem_high_water \<Rightarrow> unit outcome \<times> mem_high_water" where
  "mem_advance _ serial mark = (if serial < mark then (Inl (ErrReplay mark serial), mark) else (Inr (), serial))"

interpretation mem: high_water "\<lambda>_. True" "\<lambda>mark. mark" mem_advance
  by unfold_locales (auto simp: mem_advance_def split: if_splits)

section \<open>The file store\<close>

text \<open>The steps of \<open>persistHighWater\<close> and \<open>writeTempHighWater\<close> that touch the file system.\<close>

datatype file_step = MkdirAll | CreateTemp | WriteTemp | ChmodTemp | SyncTemp | CloseTemp | RenameTemp

type_synonym faults = "file_step \<Rightarrow> bool"

record file_high_water =
  hw_file :: "bytes option"
  hw_serial :: int

definition high_water_doc :: "int \<Rightarrow> bytes" where
  "high_water_doc serial = ''{'' @ CHR 0x22 # ''serial'' @ CHR 0x22 # '':'' @ format_int serial @ ''}''"

definition write_temp :: "faults \<Rightarrow> unit outcome" where
  "write_temp faults =
     (if faults WriteTemp then Inl ErrIo else if faults ChmodTemp then Inl ErrIo
      else if faults SyncTemp then Inl ErrIo else if faults CloseTemp then Inl ErrIo else Inr ())"

text \<open>
  Only the rename touches the file itself; every failure before it removes the temporary file and
  leaves the old content.
\<close>

definition persist_file :: "faults \<Rightarrow> bytes \<Rightarrow> bytes option \<Rightarrow> unit outcome \<times> bytes option" where
  "persist_file faults content fc =
     (if faults MkdirAll then (Inl ErrIo, fc)
      else if faults CreateTemp then (Inl ErrIo, fc)
      else case write_temp faults of
        Inl e \<Rightarrow> (Inl e, fc)
      | Inr _ \<Rightarrow> if faults RenameTemp then (Inl ErrIo, fc) else (Inr (), Some content))"

definition persist_high_water :: "faults \<Rightarrow> int \<Rightarrow> bytes option \<Rightarrow> unit outcome \<times> bytes option" where
  "persist_high_water faults serial fc = persist_file faults (high_water_doc serial) fc"

text \<open>
  \<open>readHighWater\<close>; \<open>None\<close> is a missing file, \<open>readable\<close> says whether reading a present one succeeds,
  \<open>dec\<close> is \<open>json.Unmarshal\<close> into \<open>highWaterDoc\<close>.
\<close>

definition read_high_water :: "(bytes \<Rightarrow> int option) \<Rightarrow> bool \<Rightarrow> bytes option \<Rightarrow> int outcome" where
  "read_high_water dec readable fc =
     (case fc of
        None \<Rightarrow> Inr 0
      | Some raw \<Rightarrow>
          if \<not> readable then Inl ErrHighWaterCorrupt
          else (case dec raw of
             None \<Rightarrow> Inl ErrHighWaterCorrupt
           | Some serial \<Rightarrow> if serial < 0 then Inl ErrHighWaterCorrupt else Inr serial))"

definition new_file_high_water :: "(bytes \<Rightarrow> int option) \<Rightarrow> bool \<Rightarrow> bytes option \<Rightarrow> file_high_water outcome" where
  "new_file_high_water dec readable fc =
     ok_or (read_high_water dec readable fc) (\<lambda>serial. Inr \<lparr>hw_file = fc, hw_serial = serial\<rparr>)"

definition file_advance :: "faults \<Rightarrow> int \<Rightarrow> file_high_water \<Rightarrow> unit outcome \<times> file_high_water" where
  "file_advance faults serial s =
     (if serial < hw_serial s then (Inl (ErrReplay (hw_serial s) serial), s)
      else if serial = hw_serial s then (Inr (), s)
      else case persist_high_water faults serial (hw_file s) of
        (Inl e, fc) \<Rightarrow> (Inl e, s\<lparr>hw_file := fc\<rparr>)
      | (Inr _, fc) \<Rightarrow> (Inr (), s\<lparr>hw_file := fc, hw_serial := serial\<rparr>))"

lemma persist_file_result:
  "(\<exists>e. persist_file faults content fc = (Inl e, fc)) \<or> persist_file faults content fc = (Inr (), Some content)"
  by (simp add: persist_file_def split: sum.split)

lemma persist_file_cases:
  obtains e where "persist_file faults content fc = (Inl e, fc)" | "persist_file faults content fc = (Inr (), Some content)"
  using persist_file_result [of faults content fc] by blast

text \<open>The mark in memory is the one a restart would read.\<close>

definition durable :: "(bytes \<Rightarrow> int option) \<Rightarrow> file_high_water \<Rightarrow> bool" where
  "durable dec s \<longleftrightarrow> 0 \<le> hw_serial s \<and> read_high_water dec True (hw_file s) = Inr (hw_serial s)"

definition reads_back :: "(bytes \<Rightarrow> int option) \<Rightarrow> bool" where
  "reads_back dec \<longleftrightarrow> (\<forall>n \<ge> 0. dec (high_water_doc n) = Some n)"

lemma file_advance_durable:
  assumes "reads_back dec" "durable dec s"
  shows "durable dec (snd (file_advance faults n s))"
proof (cases "n \<le> hw_serial s")
  case True
  with assms(2) show ?thesis by (auto simp: file_advance_def)
next
  case False
  then show ?thesis
    using assms
    by (cases rule: persist_file_cases [of faults "high_water_doc n" "hw_file s"])
      (auto simp: file_advance_def persist_high_water_def durable_def reads_back_def read_high_water_def)
qed

interpretation store: high_water "\<lambda>s. reads_back dec \<longrightarrow> durable dec s" hw_serial file_advance for dec
proof (unfold_locales, goal_cases)
  case (1 s env n)
  then show ?case using file_advance_durable by blast
next
  case (3 env n s s')
  then show ?case
    by (cases rule: persist_file_cases [of env "high_water_doc n" "hw_file s"])
      (auto simp: file_advance_def persist_high_water_def split: if_splits)
next
  case (4 env n s e s')
  then show ?case
    by (cases rule: persist_file_cases [of env "high_water_doc n" "hw_file s"])
      (auto simp: file_advance_def persist_high_water_def split: if_splits)
qed (simp_all add: file_advance_def)

lemma new_file_durable: "new_file_high_water dec readable fc = Inr s \<Longrightarrow> durable dec s"
  by (auto simp: new_file_high_water_def ok_or_Inr_iff durable_def read_high_water_def split: option.splits if_splits)


text \<open>A decoder that reads the store's own documents, for the witness.\<close>

definition doc_reader :: "bytes \<Rightarrow> int option" where
  "doc_reader raw =
     (let ds = takeWhile is_ascii_digit (drop 10 raw)
      in if ds \<noteq> [] \<and> raw = high_water_doc (int (digits_value ds)) then Some (int (digits_value ds)) else None)"

lemma doc_reader_reads_back: "reads_back doc_reader"
  unfolding reads_back_def
proof (intro allI impI)
  fix n :: int assume "0 \<le> n"
  then have doc: "high_water_doc n = ''{'' @ CHR 0x22 # ''serial'' @ CHR 0x22 # '':'' @ itoa (nat n) @ ''}''"
    by (simp add: high_water_doc_def format_int_def)
  have "takeWhile is_ascii_digit (itoa (nat n) @ ''}'') = itoa (nat n)"
    using itoa_digits [of _ "nat n"] by (subst takeWhile_append2) (auto simp: ascii_defs)
  then have "takeWhile is_ascii_digit (drop 10 (high_water_doc n)) = itoa (nat n)"
    by (simp add: doc)
  with \<open>0 \<le> n\<close> show "doc_reader (high_water_doc n) = Some n" by (simp add: doc_reader_def)
qed


end
