(* ===== verification/Payload.thy ===== *)
theory Payload
  imports Supply "HOL-Library.Word"
begin

text \<open>
  \<open>pkg/supply/payload.go\<close>, the update documents: their payload structs and the exact bytes a
  signature covers, one \<open>name:value\<close> line per field. Serials are 64-bit words, a time is an
  integer of nanoseconds since the epoch.
\<close>

type_synonym u64 = "64 word"
type_synonym time = int

definition unix :: "time \<Rightarrow> int" where
  "unix t = t div 1000000000"

section \<open>Documents\<close>

record update_manifest =
  um_version :: bytes
  um_os :: bytes
  um_arch :: bytes
  um_url :: bytes
  um_sha256 :: bytes
  um_channel :: bytes
  um_serial :: u64
  um_key_id :: bytes
  um_not_before :: time
  um_expires :: time
  um_revoked_serials :: "u64 list"
  um_revoked_versions :: "bytes list"
  um_signature :: bytes

record update_revocations =
  ur_channel :: bytes
  ur_serial :: u64
  ur_key_id :: bytes
  ur_not_before :: time
  ur_expires :: time
  ur_revoked_serials :: "u64 list"
  ur_revoked_versions :: "bytes list"
  ur_signature :: bytes

record update_key =
  uk_key_id :: bytes
  uk_public_key :: bytes
  uk_not_before :: time
  uk_expires :: time

record update_key_list =
  ul_serial :: u64
  ul_key_id :: bytes
  ul_not_before :: time
  ul_expires :: time
  ul_keys :: "update_key list"
  ul_signature :: bytes

section \<open>Signing inputs\<close>

definition format_uint :: "u64 \<Rightarrow> bytes" where
  "format_uint n = itoa (unat n)"

definition sorted_serials :: "u64 list \<Rightarrow> u64 list" where
  "sorted_serials vals = sort vals"

definition sorted_versions :: "bytes list \<Rightarrow> bytes list" where
  "sorted_versions vals = sort vals"

definition join_serials :: "u64 list \<Rightarrow> bytes" where
  "join_serials vals = join_with '','' (map format_uint vals)"

definition signing_line :: "bytes \<times> bytes \<Rightarrow> bytes" where
  "signing_line l = fst l @ '':'' @ snd l"

definition update_signing_input :: "bytes \<Rightarrow> (bytes \<times> bytes) list \<Rightarrow> bytes" where
  "update_signing_input domain lines =
     domain @ [CHR 0x0A] @ concat (map (\<lambda>l. signing_line l @ [CHR 0x0A]) lines)"

definition manifest_lines :: "update_manifest \<Rightarrow> (bytes \<times> bytes) list" where
  "manifest_lines p =
     [(''version'', um_version p), (''os'', um_os p), (''arch'', um_arch p), (''url'', um_url p),
      (''sha256'', um_sha256 p), (''channel'', um_channel p), (''serial'', format_uint (um_serial p)),
      (''key_id'', um_key_id p), (''not_before'', format_int (unix (um_not_before p))),
      (''expires'', format_int (unix (um_expires p))),
      (''revoked_serials'', join_serials (sorted_serials (um_revoked_serials p))),
      (''revoked_versions'', join_with '','' (sorted_versions (um_revoked_versions p)))]"

definition update_manifest_signing_input :: "update_manifest \<Rightarrow> bytes" where
  "update_manifest_signing_input p = update_signing_input domain_update_manifest (manifest_lines p)"

definition revocations_lines :: "update_revocations \<Rightarrow> (bytes \<times> bytes) list" where
  "revocations_lines p =
     [(''channel'', ur_channel p), (''serial'', format_uint (ur_serial p)), (''key_id'', ur_key_id p),
      (''not_before'', format_int (unix (ur_not_before p))), (''expires'', format_int (unix (ur_expires p))),
      (''revoked_serials'', join_serials (sorted_serials (ur_revoked_serials p))),
      (''revoked_versions'', join_with '','' (sorted_versions (ur_revoked_versions p)))]"

definition update_revocations_signing_input :: "update_revocations \<Rightarrow> bytes" where
  "update_revocations_signing_input p = update_signing_input domain_update_revocations (revocations_lines p)"

definition key_line :: "update_key \<Rightarrow> bytes \<times> bytes" where
  "key_line k =
     (''key'', join_with '':'' [uk_key_id k, uk_public_key k, format_int (unix (uk_not_before k)), format_int (unix (uk_expires k))])"

definition key_list_lines :: "update_key_list \<Rightarrow> (bytes \<times> bytes) list" where
  "key_list_lines p =
     [(''serial'', format_uint (ul_serial p)), (''key_id'', ul_key_id p),
      (''not_before'', format_int (unix (ul_not_before p))), (''expires'', format_int (unix (ul_expires p)))]
     @ map key_line (sort_key uk_key_id (ul_keys p))"

definition update_key_list_signing_input :: "update_key_list \<Rightarrow> bytes" where
  "update_key_list_signing_input p = update_signing_input domain_update_keylist (key_list_lines p)"

section \<open>The projection is unambiguous\<close>

definition newline_free :: "bytes \<Rightarrow> bool" where
  "newline_free s \<longleftrightarrow> CHR 0x0A \<notin> set s"

lemma terminated_lines_inj:
  assumes "concat (map (\<lambda>l. l @ [d]) xs) = concat (map (\<lambda>l. l @ [d]) ys)"
    and "\<forall>x \<in> set xs. d \<notin> set x" "\<forall>y \<in> set ys. d \<notin> set y"
  shows "xs = ys"
  using assms
proof (induction xs arbitrary: ys)
  case Nil
  then show ?case by (cases ys) auto
next
  case (Cons x xs)
  then obtain y ys' where ys: "ys = y # ys'" by (cases ys) auto
  have e: "x @ d # concat (map (\<lambda>l. l @ [d]) xs) = y @ d # concat (map (\<lambda>l. l @ [d]) ys')"
    using Cons.prems(1) by (simp add: ys)
  have tw: "takeWhile (\<lambda>c. c \<noteq> d) (z @ d # w) = z" if "d \<notin> set z" for z w
    using that by (subst takeWhile_append2) auto
  have "x = y" using arg_cong [OF e, of "takeWhile (\<lambda>c. c \<noteq> d)"] tw Cons.prems(2,3) ys by simp
  with e have "concat (map (\<lambda>l. l @ [d]) xs) = concat (map (\<lambda>l. l @ [d]) ys')" by simp
  with Cons.IH [of ys'] Cons.prems(2,3) ys \<open>x = y\<close> show ?case by simp
qed

lemma signing_input_inj:
  assumes "update_signing_input domain xs = update_signing_input domain ys"
    and "\<forall>l \<in> set xs. newline_free (signing_line l)" "\<forall>l \<in> set ys. newline_free (signing_line l)"
  shows "map signing_line xs = map signing_line ys"
proof (rule terminated_lines_inj [of "CHR 0x0A"])
  show "concat (map (\<lambda>l. l @ [CHR 0x0A]) (map signing_line xs)) = concat (map (\<lambda>l. l @ [CHR 0x0A]) (map signing_line ys))"
    using assms(1) by (simp add: update_signing_input_def o_def)
qed (use assms(2,3) in \<open>auto simp: newline_free_def\<close>)

lemma same_names:
  "map signing_line xs = map signing_line ys \<Longrightarrow> map fst xs = map fst ys \<Longrightarrow> xs = ys"
proof (induction xs arbitrary: ys)
  case (Cons x xs)
  then obtain y ys' where "ys = y # ys'" by (cases ys) auto
  with Cons show ?case by (cases x; cases y) (auto simp: signing_line_def)
qed simp

lemma format_uint_inj: "format_uint m = format_uint n \<Longrightarrow> m = n"
  unfolding format_uint_def by (drule itoa_inj) (simp add: word_unat_eq_iff)

lemma itoa_head: "itoa n = c # s \<Longrightarrow> is_ascii_digit c"
  using itoa_digits [of c n] by simp

lemma format_int_inj: "format_int m = format_int n \<Longrightarrow> m = n"
proof -
  assume e: "format_int m = format_int n"
  have minus: "CHR ''-'' # s \<noteq> itoa k" for s k
    using itoa_head [of k "CHR ''-''" s] by (auto simp: ascii_defs)
  show ?thesis
  proof (cases "m < 0")
    case True
    with e have "n < 0" using minus by (auto simp: format_int_def split: if_splits)
    with True e show ?thesis by (auto simp: format_int_def dest: itoa_inj)
  next
    case False
    with e have "\<not> n < 0" using minus [THEN not_sym] by (auto simp: format_int_def split: if_splits)
    with False e show ?thesis by (auto simp: format_int_def dest: itoa_inj)
  qed
qed

text \<open>\<open>strings.Join\<close> is undone by splitting, for parts without the separator and no lone empty part.\<close>

lemma split_on_fresh: "d \<notin> set p \<Longrightarrow> split_on d p = [p]"
  by (induction p) auto

lemma split_on_sep: "d \<notin> set p \<Longrightarrow> split_on d (p @ d # s) = p # split_on d s"
  by (induction p) auto

lemma split_join: "ps \<noteq> [] \<Longrightarrow> \<forall>p \<in> set ps. d \<notin> set p \<Longrightarrow> split_on d (join_with [d] ps) = ps"
proof (induction ps)
  case (Cons p ps)
  then show ?case by (cases ps) (simp_all add: split_on_fresh split_on_sep)
qed simp

lemma join_inj:
  assumes "join_with [d] ps = join_with [d] qs" "\<forall>p \<in> set ps. d \<notin> set p \<and> p \<noteq> []" "\<forall>q \<in> set qs. d \<notin> set q \<and> q \<noteq> []"
  shows "ps = qs"
proof -
  have ne: "rs = [] \<longleftrightarrow> join_with [d] rs = []" if "\<forall>r \<in> set rs. d \<notin> set r \<and> r \<noteq> []" for rs :: "bytes list"
  proof (cases rs)
    case (Cons r rs')
    with that have "r \<noteq> []" by simp
    with Cons show ?thesis by (cases rs') simp_all
  qed simp
  show ?thesis
  proof (cases "ps = []")
    case True
    then have "join_with [d] qs = []" by (simp flip: assms(1))
    then have "qs = []" by (rule ne [OF assms(3), THEN iffD2])
    with True show ?thesis by simp
  next
    case False
    have q: "qs \<noteq> []"
    proof
      assume "qs = []"
      then have "join_with [d] ps = []" by (simp add: assms(1))
      then have "ps = []" by (rule ne [OF assms(2), THEN iffD2])
      with False show False ..
    qed
    have "split_on d (join_with [d] ps) = ps" using False assms(2) by (intro split_join) simp_all
    moreover have "split_on d (join_with [d] qs) = qs" using q assms(3) by (intro split_join) simp_all
    ultimately show ?thesis unfolding assms(1) by (rule trans [OF sym])
  qed
qed

lemma comma_no_digit: "CHR '','' \<notin> set (itoa n)" and newline_no_digit: "CHR 0x0A \<notin> set (itoa n)"
  using itoa_digits [of "CHR '',''" n] itoa_digits [of "CHR 0x0A" n] by (simp_all add: ascii_defs, blast+)

lemma join_serials_inj: "join_serials ms = join_serials ns \<Longrightarrow> ms = ns"
proof -
  assume e: "join_serials ms = join_serials ns"
  have ok: "\<forall>p \<in> set (map format_uint ks). CHR '','' \<notin> set p \<and> p \<noteq> []" for ks
    by (simp add: format_uint_def comma_no_digit itoa_not_Nil)
  have "map format_uint ms = map format_uint ns"
    by (rule join_inj [OF _ ok ok]) (use e in \<open>simp add: join_serials_def\<close>)
  then show ?thesis by (rule map_injective) (auto intro: injI format_uint_inj)
qed

text \<open>The fields whose value the document supplies as text.\<close>

definition manifest_texts :: "update_manifest \<Rightarrow> bytes list" where
  "manifest_texts p = [um_version p, um_os p, um_arch p, um_url p, um_sha256 p, um_channel p, um_key_id p]"

definition manifest_plain :: "update_manifest \<Rightarrow> bool" where
  "manifest_plain p \<longleftrightarrow> list_all newline_free (manifest_texts p) \<and>
     list_all (\<lambda>v. newline_free v \<and> CHR '','' \<notin> set v \<and> v \<noteq> []) (um_revoked_versions p)"

lemma digits_newline_free: "newline_free (format_int n)" "newline_free (format_uint k)"
  by (simp_all add: newline_free_def format_int_def format_uint_def newline_no_digit)

lemma join_newline_free: "\<forall>p \<in> set ps. newline_free p \<Longrightarrow> newline_free (join_with '','' ps)"
proof (induction ps)
  case (Cons p ps)
  then show ?case by (cases ps) (auto simp: newline_free_def)
qed (simp add: newline_free_def)

lemma manifest_lines_newline_free:
  assumes "manifest_plain p" "l \<in> set (manifest_lines p)"
  shows "newline_free (signing_line l)"
proof -
  have "newline_free (join_serials ks)" for ks
    unfolding join_serials_def by (rule join_newline_free) (auto simp: digits_newline_free)
  moreover have "newline_free (join_with '','' (sorted_versions (um_revoked_versions p)))"
    by (rule join_newline_free) (use assms(1) in \<open>auto simp: manifest_plain_def sorted_versions_def list_all_iff\<close>)
  moreover have "newline_free (a @ b) = (newline_free a \<and> newline_free b)" for a b by (auto simp: newline_free_def)
  moreover have "newline_free ''version''" "newline_free ''os''" "newline_free ''arch''" "newline_free ''url''"
    "newline_free ''sha256''" "newline_free ''channel''" "newline_free ''serial''" "newline_free ''key_id''"
    "newline_free ''not_before''" "newline_free ''expires''" "newline_free ''revoked_serials''"
    "newline_free ''revoked_versions''" "newline_free '':''"
    by (simp_all add: newline_free_def)
  ultimately show ?thesis
    using assms by (auto simp: manifest_lines_def signing_line_def manifest_plain_def manifest_texts_def digits_newline_free
        simp del: append.simps)
qed

text \<open>
  A signature over an update manifest covers every field: two manifests without line breaks in
  their text fields (and with plain version names) that give the same signing input agree in all
  fields except the signature itself, times to the second and revocation lists up to order.
\<close>

theorem manifest_signing_input_inj:
  assumes "update_manifest_signing_input p = update_manifest_signing_input q" "manifest_plain p" "manifest_plain q"
  shows "manifest_texts p = manifest_texts q \<and> um_serial p = um_serial q \<and>
    unix (um_not_before p) = unix (um_not_before q) \<and> unix (um_expires p) = unix (um_expires q) \<and>
    sorted_serials (um_revoked_serials p) = sorted_serials (um_revoked_serials q) \<and>
    sorted_versions (um_revoked_versions p) = sorted_versions (um_revoked_versions q)"
proof -
  have "map signing_line (manifest_lines p) = map signing_line (manifest_lines q)"
    using assms manifest_lines_newline_free
    by (intro signing_input_inj [of domain_update_manifest]) (auto simp: update_manifest_signing_input_def)
  then have e: "manifest_lines p = manifest_lines q" by (rule same_names) (simp add: manifest_lines_def)
  have "sorted_versions (um_revoked_versions p) = sorted_versions (um_revoked_versions q)"
    by (rule join_inj [of "CHR '',''"])
      (use e assms(2,3) in \<open>auto simp: manifest_lines_def manifest_plain_def sorted_versions_def list_all_iff\<close>)
  moreover have "sorted_serials (um_revoked_serials p) = sorted_serials (um_revoked_serials q)"
    by (rule join_serials_inj) (use e in \<open>simp add: manifest_lines_def\<close>)
  ultimately show ?thesis
    using e by (simp add: manifest_lines_def manifest_texts_def) (blast dest: format_uint_inj format_int_inj)
qed

definition sample_manifest :: "u64 list \<Rightarrow> bytes \<Rightarrow> update_manifest" where
  "sample_manifest serials sig =
     \<lparr>um_version = ''0.6.0'', um_os = ''linux'', um_arch = ''amd64'', um_url = ''u'', um_sha256 = ''00'',
      um_channel = ''stable'', um_serial = 7, um_key_id = ''upd-1'', um_not_before = 0, um_expires = 5000000000,
      um_revoked_serials = serials, um_revoked_versions = [''0.5.1''], um_signature = sig\<rparr>"

lemma sample_manifest_plain: "manifest_plain (sample_manifest serials sig)"
  by (simp add: manifest_plain_def sample_manifest_def manifest_texts_def newline_free_def)

lemma manifest_signing_input_inj_witness:
  "let p = sample_manifest [3, 2] ''AA''; q = sample_manifest [2, 3] ''BB''
   in p \<noteq> q \<and> update_manifest_signing_input p = update_manifest_signing_input q \<and>
      sorted_serials (um_revoked_serials p) = sorted_serials (um_revoked_serials q)"
proof -
  let ?p = "sample_manifest [3, 2] ''AA''" and ?q = "sample_manifest [2, 3] ''BB''"
  have e: "update_manifest_signing_input ?p = update_manifest_signing_input ?q"
    by (simp add: update_manifest_signing_input_def manifest_lines_def sample_manifest_def sorted_serials_def)
  moreover have "?p \<noteq> ?q" by (simp add: sample_manifest_def)
  ultimately show ?thesis
    using manifest_signing_input_inj [OF e sample_manifest_plain sample_manifest_plain] by simp
qed

end
