(* ===== verification/Revocation.thy ===== *)
theory Revocation
  imports Payload
begin

text \<open>
  \<open>pkg/supply/revocation.go\<close>: the store of one revocation stream. Go's mutex makes every operation
  one atomic step; an empty Go slice in the store is always nil here (\<open>sortedSerials\<close> of nothing).
\<close>

section \<open>Binary search\<close>

text \<open>\<open>slices.BinarySearch\<close>: the smallest index whose element is not below the target.\<close>

function search_from :: "'a::linorder list \<Rightarrow> 'a \<Rightarrow> nat \<Rightarrow> nat \<Rightarrow> nat" where
  "search_from xs x i j =
     (if i < j then
        (let h = (i + j) div 2 in if xs ! h < x then search_from xs x (h + 1) j else search_from xs x i h)
      else i)"
  by pat_completeness auto
termination by (relation "measure (\<lambda>(_, _, i, j). j - i)") auto

declare search_from.simps [simp del]

definition binary_search :: "'a::linorder list \<Rightarrow> 'a \<Rightarrow> bool" where
  "binary_search xs x = (let i = search_from xs x 0 (length xs) in i < length xs \<and> xs ! i = x)"

text \<open>Everything before \<open>lo\<close> is below the target, nothing from \<open>hi\<close> on is.\<close>

definition brackets :: "'a::linorder list \<Rightarrow> 'a \<Rightarrow> nat \<Rightarrow> nat \<Rightarrow> bool" where
  "brackets xs x lo hi \<longleftrightarrow>
     (\<forall>k < length xs. (k < lo \<longrightarrow> xs ! k < x) \<and> (hi \<le> k \<longrightarrow> x \<le> xs ! k))"

lemma brackets_below:
  assumes "sorted xs" "brackets xs x i j" "h < length xs" "xs ! h < x"
  shows "brackets xs x (Suc h) j"
  unfolding brackets_def
proof (intro allI impI)
  fix k assume k: "k < length xs"
  have "xs ! k < x" if "k < Suc h"
  proof -
    have "xs ! k \<le> xs ! h" by (rule sorted_nth_mono [OF assms(1)]) (use that assms(3) in simp_all)
    then show ?thesis using assms(4) by (rule le_less_trans)
  qed
  moreover have "x \<le> xs ! k" if "j \<le> k" using assms(2) k that by (simp add: brackets_def)
  ultimately show "(k < Suc h \<longrightarrow> xs ! k < x) \<and> (j \<le> k \<longrightarrow> x \<le> xs ! k)" by blast
qed

lemma brackets_above:
  assumes "sorted xs" "brackets xs x i j" "\<not> xs ! h < x"
  shows "brackets xs x i h"
  unfolding brackets_def
proof (intro allI impI)
  fix k assume k: "k < length xs"
  have "x \<le> xs ! k" if "h \<le> k"
  proof -
    have "xs ! h \<le> xs ! k" by (rule sorted_nth_mono [OF assms(1) that k])
    with assms(3) show ?thesis by (meson le_less_trans not_le)
  qed
  moreover have "xs ! k < x" if "k < i" using assms(2) k that by (simp add: brackets_def)
  ultimately show "(k < i \<longrightarrow> xs ! k < x) \<and> (h \<le> k \<longrightarrow> x \<le> xs ! k)" by blast
qed

lemma search_from_brackets:
  "sorted xs \<Longrightarrow> brackets xs x i j \<Longrightarrow> i \<le> j \<Longrightarrow> j \<le> length xs \<Longrightarrow>
     brackets xs x (search_from xs x i j) (search_from xs x i j)"
proof (induction xs x i j rule: search_from.induct)
  case (1 xs x i j)
  show ?case
  proof (cases "i < j")
    case False
    then have "search_from xs x i j = i" by (subst search_from.simps) simp
    with False 1(4,5) show ?thesis by simp
  next
    case True
    define h where "h = (i + j) div 2"
    have h: "i \<le> h" "h < j" using True by (simp_all add: h_def)
    show ?thesis
    proof (cases "xs ! h < x")
      case below: True
      have "brackets xs x (h + 1) j" using brackets_below [of xs x i j h] 1(3,4,6) h below by simp
      moreover have "search_from xs x i j = search_from xs x (h + 1) j"
        using True below by (simp add: search_from.simps [of xs x i j] h_def)
      ultimately show ?thesis using 1(1) [OF True h_def below] 1(3,6) h by simp
    next
      case False
      have "brackets xs x i h" using brackets_above [of xs x i j h] 1(3,4) False by simp
      moreover have "search_from xs x i j = search_from xs x i h"
        using True False by (simp add: search_from.simps [of xs x i j] h_def)
      ultimately show ?thesis using 1(2) [OF True h_def False] 1(3,6) h by simp
    qed
  qed
qed

lemma binary_search_mem:
  assumes "sorted xs"
  shows "binary_search xs x \<longleftrightarrow> x \<in> set xs"
proof -
  define r where "r = search_from xs x 0 (length xs)"
  have r: "brackets xs x r r"
    unfolding r_def by (rule search_from_brackets) (use assms in \<open>simp_all add: brackets_def\<close>)
  have "r < length xs \<and> xs ! r = x" if m: "x \<in> set xs"
  proof -
    obtain k where k: "k < length xs" "xs ! k = x" using m by (auto simp: in_set_conv_nth)
    then have "r \<le> k" using r by (auto simp: brackets_def not_le [symmetric])
    then have "xs ! r \<le> x" using sorted_nth_mono [OF assms, of r k] k by simp
    moreover have "x \<le> xs ! r" using r k \<open>r \<le> k\<close> by (simp add: brackets_def)
    ultimately show ?thesis using k \<open>r \<le> k\<close> by simp
  qed
  then show ?thesis by (auto simp: binary_search_def r_def [symmetric] Let_def)
qed

section \<open>The store\<close>

record revocation_store =
  rv_serial :: u64
  rv_serials :: "u64 list"
  rv_versions :: "bytes list"

definition new_revocation_store :: revocation_store where
  "new_revocation_store = \<lparr>rv_serial = 0, rv_serials = [], rv_versions = []\<rparr>"

definition apply_revocations :: "u64 \<Rightarrow> u64 list \<Rightarrow> bytes list \<Rightarrow> revocation_store \<Rightarrow> unit outcome \<times> revocation_store" where
  "apply_revocations serial serials versions s =
     (if serial < rv_serial s then (Inl ErrRevocationRollback, s)
      else if serial = rv_serial s \<and> (rv_serials s \<noteq> [] \<or> rv_versions s \<noteq> []) then (Inr (), s)
      else (Inr (), \<lparr>rv_serial = serial, rv_serials = sorted_serials serials, rv_versions = sorted_versions versions\<rparr>))"

definition apply_update :: "verify_fun option \<Rightarrow> update_revocations \<Rightarrow> revocation_store \<Rightarrow> unit outcome \<times> revocation_store" where
  "apply_update v doc s =
     (case verify_frozen v domain_update_revocations (ur_key_id doc) (ur_signature doc) (update_revocations_signing_input doc) of
        Inl e \<Rightarrow> (Inl e, s)
      | Inr _ \<Rightarrow> apply_revocations (ur_serial doc) (ur_revoked_serials doc) (ur_revoked_versions doc) s)"

definition is_serial_revoked :: "revocation_store \<Rightarrow> u64 \<Rightarrow> bool" where
  "is_serial_revoked s serial = binary_search (rv_serials s) serial"

definition is_version_revoked :: "revocation_store \<Rightarrow> bytes \<Rightarrow> bool" where
  "is_version_revoked s version = binary_search (rv_versions s) version"

definition active_serial :: "revocation_store \<Rightarrow> u64" where
  "active_serial s = rv_serial s"

definition check_revoked :: "revocation_store \<Rightarrow> u64 \<Rightarrow> bytes \<Rightarrow> unit outcome" where
  "check_revoked s serial version =
     (if is_serial_revoked s serial then Inl ErrRevokedSerial
      else if version \<noteq> [] \<and> is_version_revoked s version then Inl ErrRevokedVersion else Inr ())"

section \<open>What the store holds\<close>

text \<open>
  The abstract store is the newest document it accepted; \<open>holds s doc\<close> says that \<open>s\<close> answers for
  exactly the contents of \<open>doc\<close>.
\<close>

definition holds :: "revocation_store \<Rightarrow> update_revocations \<Rightarrow> bool" where
  "holds s doc \<longleftrightarrow> rv_serial s = ur_serial doc \<and>
     (\<forall>n. is_serial_revoked s n \<longleftrightarrow> n \<in> set (ur_revoked_serials doc)) \<and>
     (\<forall>v. is_version_revoked s v \<longleftrightarrow> v \<in> set (ur_revoked_versions doc))"

fun apply_updates :: "verify_fun option \<Rightarrow> update_revocations list \<Rightarrow> revocation_store \<Rightarrow> revocation_store" where
  "apply_updates v [] s = s"
| "apply_updates v (doc # docs) s = apply_updates v docs (snd (apply_update v doc s))"

definition verifies :: "verify_fun option \<Rightarrow> update_revocations \<Rightarrow> bool" where
  "verifies v doc \<longleftrightarrow>
     verify_frozen v domain_update_revocations (ur_key_id doc) (ur_signature doc) (update_revocations_signing_input doc) = Inr ()"

lemma installed_holds:
  "holds \<lparr>rv_serial = ur_serial doc, rv_serials = sorted_serials (ur_revoked_serials doc),
     rv_versions = sorted_versions (ur_revoked_versions doc)\<rparr> doc"
  by (simp add: holds_def is_serial_revoked_def is_version_revoked_def sorted_serials_def sorted_versions_def
      binary_search_mem)

text \<open>One call: the store keeps what it held, or holds the new document, which verified.\<close>

lemma apply_update_cases:
  obtains "snd (apply_update v doc s) = s"
  | "holds (snd (apply_update v doc s)) doc" "rv_serial s \<le> ur_serial doc"
    "verify_frozen v domain_update_revocations (ur_key_id doc) (ur_signature doc) (update_revocations_signing_input doc) = Inr ()"
proof (cases "verify_frozen v domain_update_revocations (ur_key_id doc) (ur_signature doc) (update_revocations_signing_input doc)")
  case (Inl e)
  then show ?thesis using that(1) by (simp add: apply_update_def)
next
  case (Inr u)
  show ?thesis
  proof (cases "ur_serial doc < rv_serial s \<or> ur_serial doc = rv_serial s \<and> (rv_serials s \<noteq> [] \<or> rv_versions s \<noteq> [])")
    case True
    with Inr show ?thesis using that(1) by (auto simp: apply_update_def apply_revocations_def)
  next
    case False
    then have "snd (apply_update v doc s) = \<lparr>rv_serial = ur_serial doc, rv_serials = sorted_serials (ur_revoked_serials doc),
        rv_versions = sorted_versions (ur_revoked_versions doc)\<rparr>"
      using Inr by (auto simp: apply_update_def apply_revocations_def)
    with Inr False installed_holds [of doc] show ?thesis using that(2) by (simp add: not_less)
  qed
qed

lemma apply_update_never_back: "rv_serial s \<le> rv_serial (snd (apply_update v doc s))"
  by (rule apply_update_cases [of v doc s]) (auto simp: holds_def)

lemma apply_updates_never_back: "rv_serial s \<le> rv_serial (apply_updates v docs s)"
  by (induction docs arbitrary: s) (auto intro: order_trans [OF apply_update_never_back])

lemma apply_updates_holds:
  "apply_updates v docs s = s \<or>
     (\<exists>doc \<in> set docs. holds (apply_updates v docs s) doc \<and>
        verify_frozen v domain_update_revocations (ur_key_id doc) (ur_signature doc) (update_revocations_signing_input doc) = Inr ())"
proof (induction docs arbitrary: s)
  case (Cons doc docs)
  show ?case
  proof (rule apply_update_cases [of v doc s])
    assume "snd (apply_update v doc s) = s"
    with Cons.IH [of s] show ?thesis by auto
  next
    assume a: "holds (snd (apply_update v doc s)) doc" "rv_serial s \<le> ur_serial doc"
      "verify_frozen v domain_update_revocations (ur_key_id doc) (ur_signature doc) (update_revocations_signing_input doc) = Inr ()"
    from Cons.IH [of "snd (apply_update v doc s)"] a show ?thesis by auto
  qed
qed simp

lemma verified_bounds: "verifies v doc \<Longrightarrow> ur_serial doc \<le> rv_serial (snd (apply_update v doc s))"
  by (auto simp: verifies_def apply_update_def apply_revocations_def)

lemma apply_updates_newest:
  "doc \<in> set docs \<Longrightarrow> verifies v doc \<Longrightarrow> ur_serial doc \<le> rv_serial (apply_updates v docs s)"
proof (induction docs arbitrary: s)
  case (Cons d docs)
  then show ?case
    by (auto intro: order_trans [OF verified_bounds apply_updates_never_back])
qed simp

text \<open>
  C23: The revocation state always is that of one genuine document, the newest: after any sequence
  of documents, the store either is as it was or answers exactly for the lists of one of them, whose
  signature the embedded roots verified; the active serial never decreases and no document that
  verified is newer than it.
\<close>

theorem revocations_from_newest_document:
  fixes ed docs s
  defines "s' \<equiv> apply_updates (Some (static_verify ed)) docs s"
  shows "rv_serial s \<le> rv_serial s' \<and>
    (s' = s \<or> (\<exists>doc \<in> set docs. holds s' doc \<and>
       static.signed ed (ur_key_id doc) (ur_signature doc) (update_revocations_signing_input doc))) \<and>
    (\<forall>doc \<in> set docs. verifies (Some (static_verify ed)) doc \<longrightarrow> ur_serial doc \<le> rv_serial s')"
  using apply_updates_holds [of "Some (static_verify ed)" docs s] apply_updates_never_back [of s _ docs]
    apply_updates_newest [of _ docs "Some (static_verify ed)" s] static.frozen_signed
  unfolding s'_def verifies_def by blast

definition sample_revocations :: "u64 \<Rightarrow> u64 list \<Rightarrow> bytes \<Rightarrow> update_revocations" where
  "sample_revocations serial serials sig =
     \<lparr>ur_channel = ''stable'', ur_serial = serial, ur_key_id = key_root_update, ur_not_before = 0, ur_expires = 1,
      ur_revoked_serials = serials, ur_revoked_versions = [], ur_signature = sig\<rparr>"

lemma sample_revocations_verifies:
  "verifies (Some (static_verify (\<lambda>_ _ _. True))) (sample_revocations serial serials sample_signature)"
  by (simp add: verifies_def sample_revocations_def sample_verify domain_update_revocations_def)

lemma revocations_from_newest_document_witness:
  "let docs = [sample_revocations 4 [2, 1] sample_signature, sample_revocations 3 [] sample_signature,
               sample_revocations 9 [] ''!''];
       s' = apply_updates (Some (static_verify (\<lambda>_ _ _. True))) docs new_revocation_store
   in 4 \<le> rv_serial s' \<and> is_serial_revoked s' 1 \<and> \<not> is_serial_revoked s' 3"
proof -
  let ?v = "Some (static_verify (\<lambda>_ _ _. True))"
  let ?a = "sample_revocations 4 [2, 1] sample_signature" and ?b = "sample_revocations 3 [] sample_signature"
    and ?c = "sample_revocations 9 [] ''!''"
  let ?s = "apply_updates ?v [?a, ?b, ?c] new_revocation_store"
  note main = revocations_from_newest_document [of new_revocation_store "\<lambda>_ _ _. True" "[?a, ?b, ?c]"]
  have le: "4 \<le> rv_serial ?s"
    using main sample_revocations_verifies [of 4 "[2, 1]"] by (simp add: sample_revocations_def)
  have "\<not> static.signed (\<lambda>_ _ _. True) (ur_key_id ?c) (ur_signature ?c) (update_revocations_signing_input ?c)"
    by (simp add: static.signed_def sample_revocations_def b64_decode_def b64_val_def ascii_defs)
  moreover have "\<not> holds ?s ?b" using le by (auto simp: holds_def sample_revocations_def)
  moreover have "?s \<noteq> new_revocation_store" using le by (auto simp: new_revocation_store_def)
  ultimately have "holds ?s ?a" using main by auto
  with le show ?thesis by (simp add: holds_def sample_revocations_def Let_def)
qed

end
