(* ===== verification/KeyList.thy ===== *)
theory KeyList
  imports Revocation
begin

text \<open>
  \<open>pkg/supply/keylist.go\<close>: the online update keys, installed from docs only the embedded update root
  may sign, and the \<open>Verifier\<close> over the installed keys, which interprets the contract \<open>verifier\<close>.
\<close>

section \<open>Verification of a list\<close>

definition verify_key_list :: "update_key_list \<Rightarrow> verify_fun option \<Rightarrow> unit outcome" where
  "verify_key_list p v =
     (if ul_key_id p \<noteq> key_root_update then Inl ErrUnauthorizedKey
      else case v of
        None \<Rightarrow> Inl ErrWrongKey
      | Some verify \<Rightarrow>
          (case decode_signature (ul_signature p) of
             Inl _ \<Rightarrow> Inl ErrUnauthorizedKey
           | Inr signature \<Rightarrow>
               (case verify domain_update_keylist (ul_key_id p) (update_key_list_signing_input p) signature of
                  Inl _ \<Rightarrow> Inl ErrUnauthorizedKey
                | Inr _ \<Rightarrow> Inr ())))"

text \<open>\<open>keyListKeys\<close>; the Go map is the list of its entries, in the order they were added.\<close>

fun index_keys :: "(bytes \<times> bytes) list \<Rightarrow> update_key list \<Rightarrow> (bytes \<times> bytes) list outcome" where
  "index_keys keys [] = Inr keys"
| "index_keys keys (entry # entries) =
     (if uk_key_id entry = [] then Inl ErrMalformedDoc
      else if uk_key_id entry = key_root_update \<or> uk_key_id entry = key_rules_root then Inl ErrMalformedDoc
      else if map_of keys (uk_key_id entry) \<noteq> None then Inl ErrMalformedDoc
      else case b64_decode (uk_public_key entry) of
        None \<Rightarrow> Inl ErrMalformedDoc
      | Some pub \<Rightarrow>
          if length pub \<noteq> public_key_size then Inl ErrMalformedDoc
          else index_keys (keys @ [(uk_key_id entry, uk_public_key entry)]) entries)"

definition key_list_keys :: "update_key_list \<Rightarrow> (bytes \<times> bytes) list outcome" where
  "key_list_keys p = index_keys [] (ul_keys p)"

section \<open>The store\<close>

record key_list_store =
  kl_serial :: u64
  kl_keys :: "(bytes \<times> bytes) list option"

definition new_key_list_store :: key_list_store where
  "new_key_list_store = \<lparr>kl_serial = 0, kl_keys = None\<rparr>"

definition install_keys :: "update_key_list \<Rightarrow> verify_fun option \<Rightarrow> key_list_store \<Rightarrow> unit outcome \<times> key_list_store" where
  "install_keys p v s =
     (case verify_key_list p v of
        Inl e \<Rightarrow> (Inl e, s)
      | Inr _ \<Rightarrow>
          (case key_list_keys p of
             Inl e \<Rightarrow> (Inl e, s)
           | Inr keys \<Rightarrow>
               if ul_serial p < kl_serial s then (Inl ErrKeyListRollback, s)
               else if ul_serial p = kl_serial s \<and> kl_keys s \<noteq> None then (Inr (), s)
               else (Inr (), \<lparr>kl_serial = ul_serial p, kl_keys = Some keys\<rparr>)))"

definition installed_keys :: "key_list_store \<Rightarrow> (bytes \<times> bytes) list" where
  "installed_keys s = (case kl_keys s of None \<Rightarrow> [] | Some keys \<Rightarrow> keys)"

definition public_key :: "key_list_store \<Rightarrow> bytes \<Rightarrow> bytes option" where
  "public_key s key_id = map_of (installed_keys s) key_id"

definition key_ids :: "key_list_store \<Rightarrow> bytes list" where
  "key_ids s = sort (map fst (installed_keys s))"

definition key_set_verify :: "(bytes \<Rightarrow> bytes \<Rightarrow> bytes \<Rightarrow> bool) \<Rightarrow> key_list_store \<Rightarrow> verify_fun" where
  "key_set_verify ed s = verify_with ed (public_key s)"

interpretation installed: verifier ed "public_key s" "key_set_verify ed s" for ed s
  unfolding key_set_verify_def by (rule verify_with_verifier)

section \<open>What the store holds\<close>

definition usable_key :: "bytes \<times> bytes \<Rightarrow> bool" where
  "usable_key k \<longleftrightarrow> fst k \<noteq> [] \<and> fst k \<notin> {key_root_update, key_rules_root} \<and>
     (\<exists>pub. b64_decode (snd k) = Some pub \<and> length pub = public_key_size)"

lemma index_keys_Cons:
  assumes "index_keys keys (entry # entries) = Inr r"
  shows "usable_key (uk_key_id entry, uk_public_key entry) \<and> uk_key_id entry \<notin> fst ` set keys \<and>
    index_keys (keys @ [(uk_key_id entry, uk_public_key entry)]) entries = Inr r"
proof -
  have new: "uk_key_id entry \<noteq> []" "\<not> (uk_key_id entry = key_root_update \<or> uk_key_id entry = key_rules_root)"
    using assms by (simp_all split: if_split_asm)
  then have fresh: "map_of keys (uk_key_id entry) = None" using assms by (simp split: if_split_asm)
  from assms new fresh obtain pub where pub: "b64_decode (uk_public_key entry) = Some pub"
    by (cases "b64_decode (uk_public_key entry)") simp_all
  with assms new fresh have size: "length pub = public_key_size" by (simp split: if_split_asm)
  with assms new fresh pub show ?thesis by (simp add: usable_key_def map_of_eq_None_iff)
qed

lemma index_keys_usable:
  "index_keys keys entries = Inr r \<Longrightarrow> list_all usable_key keys \<Longrightarrow> distinct (map fst keys) \<Longrightarrow>
     list_all usable_key r \<and> distinct (map fst r)"
proof (induction entries arbitrary: keys)
  case (Cons entry entries)
  note step = index_keys_Cons [OF Cons.prems(1)]
  from Cons.IH [of "keys @ [(uk_key_id entry, uk_public_key entry)]"] step Cons.prems(2,3) show ?case by simp
qed simp

lemma index_keys_entries:
  "index_keys keys entries = Inr r \<Longrightarrow> r = keys @ map (\<lambda>e. (uk_key_id e, uk_public_key e)) entries"
proof (induction entries arbitrary: keys)
  case (Cons entry entries)
  from Cons.IH [of "keys @ [(uk_key_id entry, uk_public_key entry)]"] index_keys_Cons [OF Cons.prems]
  show ?case by simp
qed simp

text \<open>The keys in force are exactly the entries of one list the verifier accepted.\<close>

definition genuine_list :: "verify_fun option \<Rightarrow> key_list_store \<Rightarrow> update_key_list \<Rightarrow> bool" where
  "genuine_list v s p \<longleftrightarrow>
     verify_key_list p v = Inr () \<and> kl_serial s = ul_serial p \<and>
     installed_keys s = map (\<lambda>e. (uk_key_id e, uk_public_key e)) (ul_keys p) \<and>
     list_all usable_key (installed_keys s) \<and> distinct (map fst (installed_keys s))"

lemma install_keys_cases:
  obtains "snd (install_keys p v s) = s" | "genuine_list v (snd (install_keys p v s)) p" "kl_serial s \<le> ul_serial p"
proof (cases "verify_key_list p v")
  case (Inl e)
  then show ?thesis using that(1) by (simp add: install_keys_def)
next
  case (Inr u)
  show ?thesis
  proof (cases "key_list_keys p")
    case (Inl e)
    with Inr show ?thesis using that(1) by (simp add: install_keys_def)
  next
    case keys: (Inr keys)
    show ?thesis
    proof (cases "ul_serial p < kl_serial s \<or> ul_serial p = kl_serial s \<and> kl_keys s \<noteq> None")
      case True
      with Inr keys show ?thesis using that(1) by (auto simp: install_keys_def)
    next
      case False
      then have s': "snd (install_keys p v s) = \<lparr>kl_serial = ul_serial p, kl_keys = Some keys\<rparr>"
        using Inr keys by (auto simp: install_keys_def)
      have u: "list_all usable_key keys" "distinct (map fst keys)" "keys = map (\<lambda>e. (uk_key_id e, uk_public_key e)) (ul_keys p)"
        using index_keys_usable [of "[]" "ul_keys p" keys] index_keys_entries [of "[]" "ul_keys p" keys] keys
        unfolding key_list_keys_def by auto
      have "genuine_list v (snd (install_keys p v s)) p"
        using u(1,2) Inr by (simp add: s' genuine_list_def installed_keys_def u(3) [symmetric])
      with False show ?thesis using that(2) by (simp add: not_less)
    qed
  qed
qed

fun install_all :: "verify_fun option \<Rightarrow> update_key_list list \<Rightarrow> key_list_store \<Rightarrow> key_list_store" where
  "install_all v [] s = s"
| "install_all v (p # ps) s = install_all v ps (snd (install_keys p v s))"

lemma install_all_genuine:
  "install_all v ps s = s \<or> (\<exists>p \<in> set ps. genuine_list v (install_all v ps s) p)"
proof (induction ps arbitrary: s)
  case (Cons p ps)
  show ?case
  proof (rule install_keys_cases [of p v s])
    assume "snd (install_keys p v s) = s"
    with Cons.IH [of s] show ?thesis by auto
  next
    assume "genuine_list v (snd (install_keys p v s)) p"
    with Cons.IH [of "snd (install_keys p v s)"] show ?thesis by auto
  qed
qed simp

text \<open>A list passes only with a root signature over its own projection.\<close>

lemma verify_key_list_signed:
  assumes "verify_key_list p (Some (static_verify ed)) = Inr ()"
  shows "ul_key_id p = key_root_update \<and> static.signed ed key_root_update (ul_signature p) (update_key_list_signing_input p)"
proof -
  have "ul_key_id p = key_root_update" using assms by (auto simp: verify_key_list_def split: if_splits)
  moreover have "verify_frozen (Some (static_verify ed)) domain_update_keylist key_root_update (ul_signature p)
      (update_key_list_signing_input p) = Inr ()"
    using assms by (auto simp: verify_key_list_def verify_frozen_def split: if_splits sum.splits)
  ultimately show ?thesis using static.frozen_signed by blast
qed

text \<open>
  C24: The delegation chain: when the key-set verifier of a store filled from any sequence of docs
  accepts a document, the root-signed list in force names the document's key, which is no embedded
  root, and the document's signature verifies under exactly that key.
\<close>

theorem key_delegation:
  assumes "verify_frozen (Some (key_set_verify ed (install_all (Some (static_verify ed)) docs new_key_list_store)))
      domain key_id signature input = Inr ()"
  shows "\<exists>p \<in> set docs. \<exists>entry \<in> set (ul_keys p). \<exists>pub sig.
      static.signed ed key_root_update (ul_signature p) (update_key_list_signing_input p) \<and>
      uk_key_id entry = key_id \<and> key_id \<notin> {[], key_root_update, key_rules_root} \<and>
      b64_decode (uk_public_key entry) = Some pub \<and> length pub = public_key_size \<and>
      b64_decode signature = Some sig \<and> ed pub input sig"
proof -
  let ?s = "install_all (Some (static_verify ed)) docs new_key_list_store"
  from installed.frozen_signed [OF assms] obtain public pub sig where
    k: "public_key ?s key_id = Some public" "b64_decode public = Some pub" "b64_decode signature = Some sig"
      "ed pub input sig"
    by (auto simp: installed.signed_def)
  then have "?s \<noteq> new_key_list_store" by (auto simp: public_key_def installed_keys_def new_key_list_store_def)
  with install_all_genuine obtain p where p: "p \<in> set docs" "genuine_list (Some (static_verify ed)) ?s p" by blast
  from k(1) have m: "(key_id, public) \<in> set (installed_keys ?s)" by (auto simp: public_key_def dest: map_of_SomeD)
  with p(2) obtain entry where "entry \<in> set (ul_keys p)" "uk_key_id entry = key_id" "uk_public_key entry = public"
    by (auto simp: genuine_list_def)
  moreover have "usable_key (key_id, public)" using p(2) m by (auto simp: genuine_list_def list_all_iff)
  moreover have "static.signed ed key_root_update (ul_signature p) (update_key_list_signing_input p)"
    using verify_key_list_signed p(2) by (simp add: genuine_list_def)
  ultimately show ?thesis using p(1) k unfolding usable_key_def by fastforce
qed

definition sample_key_list :: update_key_list where
  "sample_key_list =
     \<lparr>ul_serial = 1, ul_key_id = key_root_update, ul_not_before = 0, ul_expires = 1,
      ul_keys = [\<lparr>uk_key_id = ''upd-1'', uk_public_key = rules_root_public, uk_not_before = 0, uk_expires = 1\<rparr>],
      ul_signature = sample_signature\<rparr>"

lemma key_delegation_witness:
  "let ed = (\<lambda>pub input sig. True); s = install_all (Some (static_verify ed)) [sample_key_list] new_key_list_store
   in key_ids s = [''upd-1''] \<and>
      verify_frozen (Some (key_set_verify ed s)) domain_update_manifest ''upd-1'' sample_signature ''doc'' = Inr () \<and>
      (\<exists>p \<in> set [sample_key_list]. static.signed ed key_root_update (ul_signature p) (update_key_list_signing_input p))"
proof -
  let ?ed = "\<lambda>pub input sig :: bytes. True"
  define st where "st = install_all (Some (static_verify ?ed)) [sample_key_list] new_key_list_store"
  obtain pub where pub: "b64_decode rules_root_public = Some pub" "length pub = 32" using root_keys_decode(2) by blast
  obtain sig where sig: "b64_decode sample_signature = Some sig" "length sig = 64" using sample_signature_decodes by blast
  have "verify_key_list sample_key_list (Some (static_verify ?ed)) = Inr ()"
    using sample_verify [of domain_update_keylist key_root_update "update_key_list_signing_input sample_key_list"] sig
    by (auto simp: verify_key_list_def sample_key_list_def verify_frozen_def decode_signature_def domain_update_keylist_def
        split: sum.splits)
  moreover have "key_list_keys sample_key_list = Inr [(''upd-1'', rules_root_public)]"
    using pub by (simp add: key_list_keys_def sample_key_list_def key_root_update_def key_rules_root_def public_key_size_def)
  ultimately have s: "installed_keys st = [(''upd-1'', rules_root_public)]"
    by (simp add: st_def install_keys_def new_key_list_store_def installed_keys_def sample_key_list_def)
  have v: "verify_frozen (Some (key_set_verify ?ed st)) domain_update_manifest ''upd-1'' sample_signature ''doc'' = Inr ()"
    using pub sig by (simp add: verify_frozen_def decode_signature_def key_set_verify_def verify_with_def public_key_def s
        domain_update_manifest_def verify_ed25519_def public_key_size_def signature_size_def)
  have "key_ids st = [''upd-1'']" by (simp add: key_ids_def s)
  moreover have "\<exists>p \<in> set [sample_key_list]. static.signed ?ed key_root_update (ul_signature p) (update_key_list_signing_input p)"
    using key_delegation [OF v [unfolded st_def]] by blast
  ultimately show ?thesis using v unfolding st_def Let_def by blast
qed

end
