(* ===== verification/Source.thy ===== *)
theory Source
  imports KeyList
begin

text \<open>
  \<open>pkg/supply/source.go\<close>: the install source of the running binary, the version an install may
  accept, and the fetch, verification and freshness check of the two update documents.
\<close>

section \<open>Where the binary was installed from\<close>

datatype install_source = SourceHomebrew | SourceScoop | SourceSelfManaged | SourceUnknown

text \<open>
  \<open>normalizePath\<close>; on Windows the path is lower-cased by \<open>strings.ToLower\<close>, the argument \<open>lower\<close>
  (paths are compared with each other after it, so its Unicode table matters).
\<close>

definition normalize_path :: "(bytes \<Rightarrow> bytes) \<Rightarrow> bytes \<Rightarrow> bytes \<Rightarrow> bytes" where
  "normalize_path lower goos p =
     (let q = trim_right ''/'' (map (\<lambda>c. if c = CHR 0x5C then CHR ''/'' else c) (trim_space p))
      in if goos = ''windows'' then lower q else q)"

definition has_path_prefix :: "bytes \<Rightarrow> bytes \<Rightarrow> bool" where
  "has_path_prefix norm root \<longleftrightarrow> norm = root \<or> prefix (root @ ''/'') norm"

definition dir_of :: "bytes \<Rightarrow> bytes" where
  "dir_of norm =
     (if CHR ''/'' \<notin> set norm then []
      else case rev (List.tl (dropWhile (\<lambda>c. c \<noteq> CHR ''/'') (rev norm))) of
        [] \<Rightarrow> ''/''
      | d \<Rightarrow> d)"

definition is_brew_path :: "(bytes \<Rightarrow> bytes) \<Rightarrow> bytes \<Rightarrow> bytes \<Rightarrow> (bytes \<Rightarrow> bytes) \<Rightarrow> bool" where
  "is_brew_path lower norm goos getenv \<longleftrightarrow>
     (let low = lower norm
      in sublist ''/cellar/'' low \<or> sublist ''/caskroom/'' low \<or> sublist ''/homebrew/'' low) \<or>
     (let root = normalize_path lower goos (getenv ''HOMEBREW_PREFIX'')
      in root \<noteq> [] \<and> has_path_prefix norm root)"

definition is_scoop_path :: "(bytes \<Rightarrow> bytes) \<Rightarrow> bytes \<Rightarrow> bytes \<Rightarrow> (bytes \<Rightarrow> bytes) \<Rightarrow> bytes \<Rightarrow> bool" where
  "is_scoop_path lower norm goos getenv home \<longleftrightarrow>
     sublist ''/scoop/apps/'' norm \<or> sublist ''/scoop/shims/'' norm \<or>
     list_ex (\<lambda>base. let root = normalize_path lower goos base in root \<noteq> [] \<and> has_path_prefix norm root)
       [getenv ''SCOOP'', getenv ''SCOOP_GLOBAL''] \<or>
     home \<noteq> [] \<and> prefix (home @ ''/scoop/'') norm"

definition is_self_managed_path :: "bytes \<Rightarrow> bytes \<Rightarrow> bool" where
  "is_self_managed_path norm home \<longleftrightarrow> home \<noteq> [] \<and> dir_of norm = home @ ''/.local/bin''"

definition detect_source :: "(bytes \<Rightarrow> bytes) \<Rightarrow> bytes \<Rightarrow> bytes \<Rightarrow> (bytes \<Rightarrow> bytes) \<Rightarrow> bytes \<Rightarrow> install_source" where
  "detect_source lower goos exe getenv home =
     (let norm = normalize_path lower goos exe; nhome = normalize_path lower goos home
      in if norm = [] then SourceUnknown
         else if is_brew_path lower norm goos getenv then SourceHomebrew
         else if is_scoop_path lower norm goos getenv nhome then SourceScoop
         else if is_self_managed_path norm nhome then SourceSelfManaged
         else SourceUnknown)"

text \<open>The parent of a path is what stands before its last separator.\<close>

lemma dir_of_eq:
  assumes "d \<noteq> []" "d \<noteq> ''/''"
  shows "dir_of p = d \<longleftrightarrow> (\<exists>base. CHR ''/'' \<notin> set base \<and> p = d @ ''/'' @ base)"
proof
  assume e: "dir_of p = d"
  let ?base = "rev (takeWhile (\<lambda>c. c \<noteq> CHR ''/'') (rev p))" and ?rest = "dropWhile (\<lambda>c. c \<noteq> CHR ''/'') (rev p)"
  have p: "p = rev ?rest @ ?base"
    by (metis rev_append rev_rev_ident takeWhile_dropWhile_id)
  have mem: "CHR ''/'' \<in> set p" using e assms(1) by (auto simp: dir_of_def split: if_splits)
  have ne: "?rest \<noteq> []"
  proof
    assume "?rest = []"
    then have "\<forall>c \<in> set (rev p). c \<noteq> CHR ''/''" unfolding dropWhile_eq_Nil_conv .
    with mem show False unfolding set_rev by blast
  qed
  obtain c rest where cr: "?rest = c # rest" using ne by (cases ?rest) simp_all
  with hd_dropWhile [OF ne] have rest: "?rest = CHR ''/'' # rest" by simp
  have "rev rest = d" using e mem rest assms by (simp add: dir_of_def split: list.splits if_split_asm)
  with p rest have "p = d @ ''/'' @ ?base" by simp
  moreover have "CHR ''/'' \<notin> set ?base" by (auto dest: set_takeWhileD)
  ultimately show "\<exists>base. CHR ''/'' \<notin> set base \<and> p = d @ ''/'' @ base" by blast
next
  assume "\<exists>base. CHR ''/'' \<notin> set base \<and> p = d @ ''/'' @ base"
  then obtain base where base: "CHR ''/'' \<notin> set base" "p = d @ ''/'' @ base" by blast
  have "dropWhile (\<lambda>c. c \<noteq> CHR ''/'') (rev base @ CHR ''/'' # rev d) = CHR ''/'' # rev d"
    by (subst dropWhile_append2) (use base(1) in auto)
  with base assms show "dir_of p = d" by (simp add: dir_of_def split: list.split)
qed

text \<open>
  The only install the updater may replace itself is \<open><home>/.local/bin/<name>\<close>: an executable
  is classified as self-managed exactly when, after normalization, it is a direct child of that
  directory of a non-blank home and lies under no Homebrew and no Scoop location.
\<close>

theorem self_managed_iff:
  "detect_source lower goos exe getenv home = SourceSelfManaged \<longleftrightarrow>
     (\<exists>h base. h = normalize_path lower goos home \<and> h \<noteq> [] \<and> CHR ''/'' \<notin> set base \<and>
        normalize_path lower goos exe = h @ ''/.local/bin/'' @ base \<and>
        \<not> is_brew_path lower (normalize_path lower goos exe) goos getenv \<and>
        \<not> is_scoop_path lower (normalize_path lower goos exe) goos getenv h)"
proof -
  have "dir_of p = h @ ''/.local/bin'' \<longleftrightarrow> (\<exists>base. CHR ''/'' \<notin> set base \<and> p = h @ ''/.local/bin/'' @ base)"
    if "h \<noteq> []" for p h
    using dir_of_eq [of "h @ ''/.local/bin''" p] that by (simp add: append_eq_Cons_conv)
  then show ?thesis by (auto simp: detect_source_def Let_def is_self_managed_path_def)
qed

section \<open>Which version may be installed\<close>

definition env_allow_downgrade :: bytes where "env_allow_downgrade = ''TOKENHUSH_ALLOW_DOWNGRADE''"

definition allow_downgrade_enabled :: "(bytes \<Rightarrow> bytes option) option \<Rightarrow> bool" where
  "allow_downgrade_enabled lookup =
     (case lookup of
        None \<Rightarrow> False
      | Some env \<Rightarrow>
          (case env env_allow_downgrade of
             None \<Rightarrow> False
           | Some v \<Rightarrow> go_lower (trim_space v) \<in> set [''1'', ''true'', ''yes'', ''on'']))"

text \<open>The loop over the components: the first difference decides.\<close>

fun compare_components :: "bool \<Rightarrow> nat list \<Rightarrow> nat list \<Rightarrow> unit outcome" where
  "compare_components down (p # ps) (b # bs) =
     (if b < p then Inr ()
      else if p < b then (if down then Inr () else Inl ErrDowngrade)
      else compare_components down ps bs)"
| "compare_components down _ _ = Inr ()"

definition check_update_version :: "bytes \<Rightarrow> version \<Rightarrow> bool \<Rightarrow> (bytes \<Rightarrow> bytes option) option \<Rightarrow> unit outcome" where
  "check_update_version candidate binary allow lookup =
     ok_or (parse_version candidate)
       (\<lambda>parsed. compare_components (allow \<and> allow_downgrade_enabled lookup) (components parsed) (components binary))"

lemma check_update_version_iff:
  "check_update_version candidate binary allow lookup = Inr u \<longleftrightarrow>
     (\<exists>v. parse_version candidate = Inr v \<and> (binary \<le> v \<or> allow \<and> allow_downgrade_enabled lookup))"
proof -
  have "compare_components down (components v) (components w) = Inr u \<longleftrightarrow> w \<le> v \<or> down" for down v w
    by (cases v; cases w) (auto simp: less_eq_version_def)
  then show ?thesis by (auto simp: check_update_version_def ok_or_Inr_iff)
qed

section \<open>The update documents\<close>

definition check_freshness :: "time \<Rightarrow> time \<Rightarrow> time \<Rightarrow> unit outcome" where
  "check_freshness not_before expires now =
     (if now < not_before then Inl ErrNotYetValid else if expires < now then Inl ErrExpired else Inr ())"

definition verify_update_manifest :: "update_manifest \<Rightarrow> verify_fun option \<Rightarrow> time \<Rightarrow> unit outcome" where
  "verify_update_manifest m v now =
     ok_or (verify_frozen v domain_update_manifest (um_key_id m) (um_signature m) (update_manifest_signing_input m))
       (\<lambda>_. check_freshness (um_not_before m) (um_expires m) now)"

definition base_url :: bytes where "base_url = ''https://updates.tokenhush.com''"
definition channel_query :: bytes where "channel_query = ''?channel=stable''"
definition update_manifest_url :: bytes where "update_manifest_url = base_url @ ''/v1/update/manifest'' @ channel_query"
definition update_revocations_url :: bytes where "update_revocations_url = base_url @ ''/v1/update/revocations'' @ channel_query"

type_synonym fetcher = "bytes \<Rightarrow> bytes outcome"

definition decode_update_manifest :: "(bytes \<Rightarrow> update_manifest option) \<Rightarrow> bytes \<Rightarrow> update_manifest outcome" where
  "decode_update_manifest dec data = decode_frozen_doc dec domain_update_manifest data"

definition decode_update_revocations :: "(bytes \<Rightarrow> update_revocations option) \<Rightarrow> bytes \<Rightarrow> update_revocations outcome" where
  "decode_update_revocations dec data = decode_frozen_doc dec domain_update_revocations data"

definition fetch_revocations ::
    "fetcher \<Rightarrow> (bytes \<Rightarrow> update_revocations option) \<Rightarrow> verify_fun \<Rightarrow> time \<Rightarrow> (update_revocations \<times> revocation_store) outcome" where
  "fetch_revocations fetch dec verify now =
     ok_or (fetch update_revocations_url) (\<lambda>raw.
     ok_or (decode_update_revocations dec raw) (\<lambda>doc.
     case apply_update (Some verify) doc new_revocation_store of
       (Inl e, _) \<Rightarrow> Inl e
     | (Inr _, store) \<Rightarrow>
         ok_or (check_freshness (ur_not_before doc) (ur_expires doc) now) (\<lambda>_. Inr (doc, store))))"

definition fetch_manifest ::
    "fetcher \<Rightarrow> (bytes \<Rightarrow> update_manifest option) \<Rightarrow> verify_fun \<Rightarrow> time \<Rightarrow> update_manifest outcome" where
  "fetch_manifest fetch dec verify now =
     ok_or (fetch update_manifest_url) (\<lambda>raw.
     ok_or (decode_update_manifest dec raw) (\<lambda>m.
     ok_or (verify_update_manifest m (Some verify) now) (\<lambda>_. Inr m)))"

end
