(* ===== verification/Agree.thy ===== *)
theory Agree
  imports Verdict
begin

text \<open>
  The two evaluation paths of the filter agree: a compiled document registered in the registry finds
  what the evaluator over the document finds, except that the blocklist is never consulted there.
\<close>

section \<open>What the compiler guarantees\<close>

definition spans_inside :: "(bytes \<Rightarrow> span list) \<Rightarrow> bool" where
  "spans_inside inspect \<longleftrightarrow> (\<forall>v. \<forall>(a, b) \<in> set (inspect v). a < b \<and> b \<le> length v)"

lemma spans_insideI: "(\<And>v a b. (a, b) \<in> set (inspect v) \<Longrightarrow> a < b \<and> b \<le> length v) \<Longrightarrow> spans_inside inspect"
  by (auto simp: spans_inside_def)

lemma literal_spans_bounds:
  "(a, b) \<in> set (literal_spans w off s) \<Longrightarrow> off \<le> a \<and> a < b \<and> b \<le> off + length s"
proof (induction w off s rule: literal_spans.induct)
  case (1 w off s)
  show ?case
  proof (cases "w = [] \<or> index_of w s = None")
    case True
    then have "literal_spans w off s = []" by (subst literal_spans.simps) auto
    with 1(2) show ?thesis by simp
  next
    case False
    then obtain i where i: "w \<noteq> []" "index_of w s = Some i" by auto
    then have len: "i + length w \<le> length s" using index_of_bound by blast
    from 1(2) i consider "a = off + i" "b = off + i + length w" | "(a, b) \<in> set (literal_spans w (off + i + length w) (drop (i + length w) s))"
      by (subst (asm) literal_spans.simps) auto
    then show ?thesis
    proof cases
      case 1
      with i len show ?thesis by simp
    next
      case 2
      from 1(1) [OF i 2] len show ?thesis by simp
    qed
  qed
qed

lemma keyword_spans_inside: "spans_inside (\<lambda>v. keyword_spans v ks folded n)"
proof (rule spans_insideI)
  fix v a b
  assume "(a, b) \<in> set (keyword_spans v ks folded n)"
  then obtain k where "(a, b) \<in> set (literal_spans k 0 (if folded then fold_ascii v else v))"
    by (auto simp: keyword_spans_def Let_def dest!: in_set_takeD)
  from literal_spans_bounds [OF this] show "a < b \<and> b \<le> length v" by (auto simp: fold_ascii_def split: if_splits)
qed

lemma regex_spans_inside:
  "(\<And>v a b. (a, b) \<in> set (re v) \<Longrightarrow> a \<le> b \<and> b \<le> length v) \<Longrightarrow> spans_inside (\<lambda>v. regex_spans re v n)"
  by (rule spans_insideI) (auto simp: regex_spans_def dest!: in_set_takeD)

lemma valid_spans_inside: "(\<And>v. valid_spans v budget (inspect v)) \<Longrightarrow> spans_inside inspect"
  by (fastforce simp: valid_spans_def spans_inside_def)

text \<open>The documented contract of \<open>regexp\<close>: a match is a range of the text.\<close>

definition regexp_ranges :: "('x golib_scheme) \<Rightarrow> bool" where
  "regexp_ranges lib \<longleftrightarrow>
     (\<forall>pattern re v. lib_regexp lib pattern = Some re \<longrightarrow> (\<forall>(a, b) \<in> set (re v). a \<le> b \<and> b \<le> length v))"

lemma primitive_builder_inside:
  assumes "primitive_builder lib typ opts budget = Inr inspect"
  shows "spans_inside inspect"
proof -
  have 1: "spans_inside inspect" if "build_optionless opts budget f = Inr inspect" "\<And>v b. valid_spans v b (f v b)" for f
    using that by (auto simp: build_optionless_def intro: valid_spans_inside split: option.splits)
  have 2: "valid_spans v b (inspect_email_with_suffixes v b sufs)" for v b sufs
    using detector_spans_valid [of "\<lambda>leaf budget. inspect_email_with_suffixes leaf budget sufs" sufs "golib.truncate lib" v b] by simp
  have 3: "spans_inside (\<lambda>v. inspect_email_with_suffixes v b sufs)" for b sufs using 2 by (rule valid_spans_inside)
  then have 5: "spans_inside (\<lambda>v. inspect_email v b)" for b by (simp add: inspect_email_def)
  have 4: "valid_spans v b (f v b)" if "f \<in> {inspect_prefix, inspect_jwt (golib.truncate lib), inspect_luhn, inspect_pem, inspect_entropy (golib.truncate lib)}" for f v b
    using that detector_spans_valid [of f builtin_email_suffixes "golib.truncate lib" v b] by blast
  show ?thesis
  proof (cases "typ")
    case TypePrefix
    with assms 1 [of inspect_prefix] 4 show ?thesis by (simp add: primitive_builder_def)
  next
    case TypeEmail
    with assms 3 5 show ?thesis
      by (auto simp: primitive_builder_def build_email_primitive_def build_email_matcher_def ok_or_Inr_iff
          split: option.splits)
  next
    case TypeLuhn
    with assms 1 [of inspect_luhn] 4 show ?thesis by (simp add: primitive_builder_def)
  next
    case TypeJWT
    with assms 1 [of "inspect_jwt (golib.truncate lib)"] 4 show ?thesis by (simp add: primitive_builder_def)
  next
    case TypePEM
    with assms 1 [of inspect_pem] 4 show ?thesis by (simp add: primitive_builder_def)
  next
    case TypeEntropy
    with assms 1 [of "inspect_entropy (golib.truncate lib)"] 4 show ?thesis by (simp add: primitive_builder_def)
  qed (insert assms, simp_all add: primitive_builder_def)
qed

text \<open>A rule the registry accepts and every call of which it accepts.\<close>

definition rule_ok :: "compiled_rule \<Rightarrow> bool" where
  "rule_ok r \<longleftrightarrow>
     valid_rule_id (cr_id r) \<and> known_scope (cr_scope r) \<and> known_action (cr_action r) \<and> 0 < cr_confidence r \<and> cr_confidence r \<le> 1 \<and>
     (cr_action r = ActionRedact \<longrightarrow> cr_scope r = ScopeRequest) \<and> spans_inside (rule_spans r)"

lemma compile_matcher_inside:
  assumes "compile_matcher lib rule budget = Inr m" "regexp_ranges lib"
  shows "spans_inside (\<lambda>v. case m of MatchRegexp re \<Rightarrow> regex_spans re v max_matches
      | MatchKeywords keywords folded \<Rightarrow> keyword_spans v keywords folded max_matches | MatchPrimitive inspect \<Rightarrow> inspect v)"
proof (cases m)
  case (MatchRegexp re)
  then have "lib_regexp lib (rd_pattern rule) = Some re"
    using assms(1) by (auto simp: compile_matcher_def ok_or_Inr_iff split: rule_type.splits option.splits sum.splits if_splits)
  with assms(2) MatchRegexp show ?thesis by (fastforce simp: regexp_ranges_def intro: regex_spans_inside)
next
  case (MatchKeywords ks folded)
  then show ?thesis by (simp add: keyword_spans_inside)
next
  case (MatchPrimitive inspect)
  then have "primitive_builder lib (rd_type rule) (rd_options rule) budget = Inr inspect"
    using assms(1) by (auto simp: compile_matcher_def ok_or_Inr_iff split: rule_type.splits option.splits sum.splits if_splits)
  with MatchPrimitive show ?thesis by (simp add: primitive_builder_inside)
qed

lemma compile_rule_ok:
  assumes "compile_rule lib rule budget = Inr r" "valid_rule_id (rd_id rule)" "regexp_ranges lib"
  shows "rule_ok r \<and> cr_id r = rd_id rule"
proof -
  obtain rule' m where rule': "validate_rule_options rule = Inr rule'" "compile_matcher lib rule' budget = Inr m" "cr_matcher r = m"
    and r: "cr_id r = rd_id rule'" "known_scope (cr_scope r)" "known_action (cr_action r)" "0 < cr_confidence r" "cr_confidence r \<le> 1"
      "cr_action r = ActionRedact \<longrightarrow> cr_scope r = ScopeRequest"
    using assms(1) unfolding compile_rule_def Let_def require_Inr_iff
    by (auto simp: ok_or_Inr_iff validate_rule_options_def split: sum.splits option.splits)
  have "rd_id rule' = rd_id rule"
    using rule'(1) by (auto simp: validate_rule_options_def ok_or_Inr_iff split: option.splits)
  moreover have "spans_inside (rule_spans r)"
    using compile_matcher_inside [OF rule'(2) assms(3)] rule'(3) by (simp add: rule_spans_def [abs_def])
  ultimately show ?thesis using r assms(2) by (simp add: rule_ok_def)
qed

lemma compile_rules_ok:
  "compile_rules lib budget seen rules = Inr (rs, ids) \<Longrightarrow> regexp_ranges lib \<Longrightarrow>
   (\<forall>r \<in> set rs. rule_ok r) \<and> distinct (map cr_id rs) \<and> set (map cr_id rs) \<inter> set seen = {}"
proof (induction rules arbitrary: seen rs ids)
  case (Cons rule rules)
  from Cons.prems(1) have rid: "valid_rule_id (rd_id rule)" "rd_id rule \<notin> set seen" by (simp_all split: if_splits)
  show ?case
  proof (cases "rd_type rule = TypeCommand \<or> rd_excluded rule")
    case True
    with Cons.prems(1) rid obtain ids' where "compile_rules lib budget (rd_id rule # seen) rules = Inr (rs, ids')"
      by (auto simp: ok_or_Inr_iff)
    from Cons.IH [OF this Cons.prems(2)] show ?thesis by auto
  next
    case False
    with Cons.prems(1) rid obtain r rs' ids' where r: "compile_rule lib rule budget = Inr r"
      "compile_rules lib budget (rd_id rule # seen) rules = Inr (rs', ids')" "rs = r # rs'"
      by (auto simp: ok_or_Inr_iff)
    from Cons.IH [OF r(2) Cons.prems(2)] compile_rule_ok [OF r(1) rid(1) Cons.prems(2)] r(3) rid(2) show ?thesis by auto
  qed
qed simp

definition compiled_ok :: "compiled \<Rightarrow> bool" where
  "compiled_ok c \<longleftrightarrow>
     (\<forall>r \<in> set (co_rules c). rule_ok r) \<and> distinct (map cr_id (co_rules c)) \<and>
     sorted (map (\<lambda>r. (cr_priority r, cr_id r)) (co_rules c))"

lemma compile_ok:
  assumes "compile_with_budget lib doc budget = Inr c" "regexp_ranges lib"
  shows "compiled_ok c"
proof -
  have "\<exists>(d :: document) rs ids. compile_rules lib (normalize_budget budget) [] (dc_rules d) = Inr (rs, ids) \<and>
    co_rules c = sort_key (\<lambda>r. (cr_priority r, cr_id r)) rs"
    using assms(1) by (auto simp: compile_with_budget_def Let_def ok_or_Inr_iff split: option.splits) blast+
  then obtain d :: document and rs ids where c: "compile_rules lib (normalize_budget budget) [] (dc_rules d) = Inr (rs, ids)"
    "co_rules c = sort_key (\<lambda>r. (cr_priority r, cr_id r)) rs" by blast
  have "distinct (map cr_id (sort_key f rs)) = distinct (map cr_id rs)" for f :: "compiled_rule \<Rightarrow> int \<times> bytes"
    by (metis distinct_count_atmost_1 mset_map mset_sort mset_eq_imp_distinct_iff)
  with compile_rules_ok [OF c(1) assms(2)] c(2) show ?thesis by (simp add: compiled_ok_def)
qed

section \<open>Registration\<close>

definition entry_of :: "compiled \<Rightarrow> compiled_rule \<Rightarrow> registry_entry" where
  "entry_of c r = \<lparr>re_rule = compiled_view c r, re_origin = OriginRemotePack, re_id = cr_id r, re_rank = cr_priority r\<rparr>"

lemma check_compiled_view: "rule_ok r \<Longrightarrow> cr_id r \<notin> set taken \<Longrightarrow> check_candidate taken (Some (compiled_view c r)) = Inr (compiled_view c r)"
  by (auto simp: check_candidate_def compiled_view_def rule_ok_def)

lemma pending_compiled:
  "\<forall>r \<in> set rs. rule_ok r \<Longrightarrow> distinct (map cr_id rs) \<Longrightarrow> set (map cr_id rs) \<inter> set taken = {} \<Longrightarrow>
   pending_entries OriginRemotePack taken (map (\<lambda>r. Some (compiled_view c r)) rs) = Inr (map (entry_of c) rs)"
proof (induction rs arbitrary: taken)
  case (Cons r rs)
  have "ru_id (compiled_view c r) = cr_id r" "ru_priority (compiled_view c r) = cr_priority r" by (simp_all add: compiled_view_def)
  with Cons check_compiled_view [of r taken c] show ?case by (simp add: entry_of_def)
qed simp

lemma register_compiled_new:
  assumes "compiled_ok c"
  shows "register_compiled (Some c) new_registry =
    (Inr (), \<lparr>rg_entries = map (entry_of c) (co_rules c), rg_ids = map cr_id (co_rules c), rg_sensitive = co_sensitive c\<rparr>)"
proof -
  have "map entry_order (map (entry_of c) (co_rules c)) = map (\<lambda>r. (cr_priority r, cr_id r)) (co_rules c)"
    by (simp add: entry_order_def entry_of_def)
  then have "sort_key entry_order (map (entry_of c) (co_rules c)) = map (entry_of c) (co_rules c)"
    using assms by (intro sort_key_id_if_sorted) (simp only: compiled_ok_def)
  moreover have "re_id \<circ> entry_of c = cr_id" by (simp add: entry_of_def comp_def)
  ultimately show ?thesis
    using assms pending_compiled [of "co_rules c" "[]" c] by (simp add: register_compiled_def add_rules_def new_registry_def compiled_ok_def)
qed

section \<open>The evaluator against its specification\<close>

definition attributed :: "finding \<Rightarrow> attributed_finding" where
  "attributed f = \<lparr>af_finding = f, af_origin = OriginRemotePack\<rparr>"

definition unsuppressed :: "compiled \<Rightarrow> compiled_rule \<Rightarrow> bytes \<Rightarrow> span list" where
  "unsuppressed c r v = filter (\<lambda>s. \<not> allowlist_suppressed v s [co_allowlist c, cr_allow r]) (rule_spans r v)"

definition rule_findings :: "compiled \<Rightarrow> scope \<Rightarrow> bool \<Rightarrow> nat \<Rightarrow> bytes \<Rightarrow> compiled_rule \<Rightarrow> finding list" where
  "rule_findings c ph g i v r =
     (if \<not> covers (cr_scope r) ph \<or> g \<and> cr_action r = ActionRedact then [] else map (rule_finding r i) (unsuppressed c r v))"

lemma evaluate_rule_D:
  assumes "evaluate_rule c ph g i v r acc = Inr acc'" "length acc \<le> max_matches"
  shows "acc' = acc @ rule_findings c ph g i v r \<and> length acc' \<le> max_matches \<and>
    (covers (cr_scope r) ph \<longrightarrow> \<not> (g \<and> cr_action r = ActionRedact) \<longrightarrow> length (rule_spans r v) \<le> max_matches)"
  using assms by (auto simp: evaluate_rule_def rule_findings_def unsuppressed_def append_bounded_def Let_def split: if_splits)

lemma evaluate_rules_D:
  "evaluate_rules c ph g i v rs acc = Inr acc' \<Longrightarrow> length acc \<le> max_matches \<Longrightarrow>
   acc' = acc @ concat (map (rule_findings c ph g i v) rs) \<and> length acc' \<le> max_matches \<and>
   (\<forall>r \<in> set rs. covers (cr_scope r) ph \<longrightarrow> \<not> (g \<and> cr_action r = ActionRedact) \<longrightarrow> length (rule_spans r v) \<le> max_matches)"
proof (induction rs arbitrary: acc)
  case (Cons r rs)
  then obtain mid where mid: "evaluate_rule c ph g i v r acc = Inr mid" "evaluate_rules c ph g i v rs mid = Inr acc'"
    by (auto simp: ok_or_Inr_iff)
  note D = evaluate_rule_D [OF mid(1) Cons.prems(2)]
  from Cons.IH [OF mid(2) D [THEN conjunct2, THEN conjunct1]] D show ?case by auto
qed simp

lemma entry_findings_of:
  "entry_findings ph g i v (entry_of c r) = map attributed (rule_findings c ph g i v r)"
  by (auto simp: entry_findings_def skipped_def entry_of_def compiled_view_def rule_findings_def unsuppressed_def to_spans_def
      entry_finding_def attributed_def rule_finding_def)

lemma behaves_of:
  assumes "rule_ok r" "covers (cr_scope r) ph \<longrightarrow> \<not> (gate lib s ph lf \<and> cr_action r = ActionRedact) \<longrightarrow> length (rule_spans r (leaf_value lf)) \<le> max_matches"
  shows "behaves lib s ph lf (entry_of c r)"
proof (cases "\<not> covers (cr_scope r) ph \<or> gate lib s ph lf \<and> cr_action r = ActionRedact")
  case True
  with assms(1) show ?thesis
    by (auto simp: behaves_def skipped_def entry_of_def compiled_view_def invoke_def rule_ok_def)
next
  case False
  let ?ss = "unsuppressed c r (leaf_value lf)"
  have "length ?ss \<le> length (rule_spans r (leaf_value lf))" by (simp add: unsuppressed_def)
  with False assms(2) have len: "length ?ss \<le> max_matches" by linarith
  have "\<forall>(a, b) \<in> set ?ss. a < b \<and> b \<le> length (leaf_value lf)"
    using assms(1) by (auto simp: unsuppressed_def rule_ok_def spans_inside_def)
  with False assms(1) len have "invoke (compiled_view c r) (leaf_value lf) ph = Inr (map (\<lambda>(a, b). (int a, int b)) ?ss)"
    by (auto simp: invoke_def compiled_view_def to_spans_def unsuppressed_def rule_ok_def max_rule_spans_def list_all_iff)
  then show ?thesis by (auto simp: behaves_def entry_of_def)
qed

definition document_findings :: "('x golib_scheme) \<Rightarrow> compiled \<Rightarrow> scope \<Rightarrow> nat \<Rightarrow> leaf \<Rightarrow> finding list" where
  "document_findings lib c ph i lf =
     (let g = gate lib (co_sensitive c) ph lf; v = leaf_value lf
      in if v = [] then [] else concat (map (rule_findings c ph g i v) (co_rules c)) @ gate_findings g (co_sensitive c) i v)"

lemma leaf_findings_of:
  "leaf_findings lib (map (entry_of c) (co_rules c)) (co_sensitive c) ph i lf = map attributed (document_findings lib c ph i lf)"
proof -
  have "map (entry_findings ph g i v) (map (entry_of c) rs) = map (map attributed) (map (rule_findings c ph g i v) rs)" for g v rs
    by (simp add: entry_findings_of)
  then show ?thesis
    by (simp only: leaf_findings_def document_findings_def Let_def) (simp add: map_concat attributed_def [abs_def])
qed

lemma evaluate_leaf_D:
  assumes "evaluate_leaf lib c ph i lf acc = Inr acc'" "length acc \<le> max_matches" "co_blocklist c = []" "\<forall>r \<in> set (co_rules c). rule_ok r"
  shows "acc' = acc @ document_findings lib c ph i lf \<and> length acc' \<le> max_matches \<and>
    (\<forall>e \<in> set (map (entry_of c) (co_rules c)). behaves lib (co_sensitive c) ph lf e)"
proof (cases "leaf_value lf = []")
  case True
  with assms show ?thesis by (simp add: evaluate_leaf_def document_findings_def behaves_def)
next
  case False
  define g where "g = gate lib (co_sensitive c) ph lf"
  define v where "v = leaf_value lf"
  have gg: "(ph = ScopeRequest \<and> sensitive_matches lib (co_sensitive c) lf) = g" by (simp add: g_def gate_def)
  obtain mid where mid: "evaluate_rules c ph g i v (co_rules c) acc = Inr mid"
    "acc' = mid @ gate_findings g (co_sensitive c) i v" "length acc' \<le> max_matches"
    using assms(1,3) False unfolding evaluate_leaf_def Let_def gg
    by (auto simp: ok_or_Inr_iff blocklist_spans_def append_bounded_def gate_findings_def v_def split: if_splits)
  have "document_findings lib c ph i lf = concat (map (rule_findings c ph g i v) (co_rules c)) @ gate_findings g (co_sensitive c) i v"
    using False by (simp add: document_findings_def g_def v_def Let_def)
  with evaluate_rules_D [OF mid(1) assms(2)] mid(2,3) assms(4) show ?thesis
    by (auto simp: g_def v_def intro!: behaves_of)
qed

lemma evaluate_leaves_D:
  "evaluate_leaves lib c ph i lfs acc = Inr acc' \<Longrightarrow> length acc \<le> max_matches \<Longrightarrow> co_blocklist c = [] \<Longrightarrow> \<forall>r \<in> set (co_rules c). rule_ok r \<Longrightarrow>
   map attributed acc' = map attributed acc @ all_findings lib (map (entry_of c) (co_rules c)) (co_sensitive c) ph i lfs \<and>
   length acc' \<le> max_matches \<and> (\<forall>lf \<in> set lfs. \<forall>e \<in> set (map (entry_of c) (co_rules c)). behaves lib (co_sensitive c) ph lf e)"
proof (induction lfs arbitrary: i acc)
  case (Cons lf lfs)
  then obtain mid where mid: "evaluate_leaf lib c ph i lf acc = Inr mid" "evaluate_leaves lib c ph (Suc i) lfs mid = Inr acc'"
    by (auto simp: ok_or_Inr_iff)
  note D = evaluate_leaf_D [OF mid(1) Cons.prems(2-4)]
  from Cons.IH [OF mid(2) D [THEN conjunct2, THEN conjunct1] Cons.prems(3,4)] D show ?case by (simp add: leaf_findings_of)
qed simp

text \<open>Dropping the blocklist changes neither rules, nor gate, nor registration.\<close>

lemma without_blocklist:
  "co_rules (c\<lparr>co_blocklist := []\<rparr>) = co_rules c" "entry_of (c\<lparr>co_blocklist := []\<rparr>) = entry_of c" "compiled_ok (c\<lparr>co_blocklist := []\<rparr>) = compiled_ok c"
  by (simp_all add: fun_eq_iff entry_of_def compiled_view_def compiled_ok_def)

lemma insort_key_map: "insort_key f (g x) (map g ys) = map g (insort_key (f \<circ> g) x ys)"
  by (induction ys) simp_all

lemma sort_key_map: "sort_key f (map g xs) = map g (sort_key (f \<circ> g) xs)"
  by (induction xs) (simp_all add: insort_key_map [unfolded comp_def] comp_def)

lemma attributed_order: "map attributed (sort_findings fs) = sort_key (\<lambda>f. finding_order (af_finding f)) (map attributed fs)"
proof -
  have "sort_key (\<lambda>f. finding_order (af_finding f)) (map attributed fs) = map attributed (sort_key ((\<lambda>f. finding_order (af_finding f)) \<circ> attributed) fs)"
    by (rule sort_key_map)
  moreover have "(\<lambda>f. finding_order (af_finding f)) \<circ> attributed = finding_order" by (simp add: fun_eq_iff attributed_def)
  ultimately show ?thesis by (simp add: sort_findings_def)
qed


definition sample_compiled :: compiled where
  "sample_compiled =
     \<lparr>co_rules = [\<lparr>cr_id = ''k1'', cr_type = TypeKeyword, cr_category = category_custom, cr_scope = ScopeRequest,
                    cr_action = ActionRedact, cr_priority = 100, cr_confidence = 1, cr_matcher = MatchKeywords [''acme''] True,
                    cr_allow = [''acmeorg'']\<rparr>],
      co_allowlist = [], co_blocklist = [''tok''], co_sensitive = None, co_command_ids = [], co_budget = primitive_byte_budget_bytes\<rparr>"

lemma sample_compile: "compile_with_budget sample_golib (Some sample_document) 0 = Inr sample_compiled"
proof -
  have fold: "map fold_ascii [''acme''] = [''acme'']" by code_simp
  have rid: "valid_rule_id ''k1''" by code_simp
  have rule: "compile_rule sample_golib sample_rule_doc primitive_byte_budget_bytes = Inr (hd (co_rules sample_compiled))"
    unfolding sample_compiled_def
    using fold by (simp add: compile_rule_def sample_rule_doc_def compiled_type_def known_type_def known_scope_def known_action_def
        categories_def category_custom_def validate_rule_options_def copy_literals_def compile_matcher_def)
  have "rd_id sample_rule_doc = ''k1''" "\<not> (rd_type sample_rule_doc = TypeCommand \<or> rd_excluded sample_rule_doc)"
    by (simp_all add: sample_rule_doc_def)
  with rid rule have "compile_rules sample_golib primitive_byte_budget_bytes [] [sample_rule_doc] = Inr (co_rules sample_compiled, [])"
    by (simp add: sample_compiled_def)
  then show ?thesis
    by (simp add: compile_with_budget_def sample_document_def copy_literals_def normalize_budget_def) (simp add: sample_compiled_def)
qed

definition sample_hit :: finding where
  "sample_hit = \<lparr>fi_rule_id = ''k1'', fi_category = category_custom, fi_action = ActionRedact, fi_leaf_index = 0,
     fi_start = 3, fi_end = 7, fi_confidence = 1\<rparr>"

lemma sample_evaluate:
  "evaluate sample_golib (Some (sample_compiled\<lparr>co_blocklist := []\<rparr>)) [sample_leaf ''an Acme tok''] ScopeRequest = Inr [sample_hit]"
proof -
  have lits: "literal_spans ''acme'' 0 (fold_ascii ''an Acme tok'') = [(3, 7)]" by code_simp
  have allow: "\<not> inside_occurrence ''an Acme tok'' ''acmeorg'' 3 7" by code_simp
  show ?thesis
    by (simp add: evaluate_def evaluate_leaf_def evaluate_rule_def sample_compiled_def sample_leaf_def sensitive_matches_def
        rule_spans_def keyword_spans_def lits allow allowlist_suppressed_def append_bounded_def rule_finding_def sample_hit_def
        blocklist_spans_def max_matches_def sort_findings_def Let_def)
qed


end
