(* ===== verification/Rules.thy ===== *)
theory Rules
  imports Digest HighWater Source Agree
begin

text \<open>
  The signed rule packs of \<open>pkg/supply\<close>: the rules documents and their signing inputs (\<open>payload.go\<close>,
  \<open>payload_sensitive.go\<close>), the manifest (\<open>manifest.go\<close>), the local cache (\<open>rules_cache.go\<close>) and the sync
  sequence (\<open>rules.go\<close>, \<open>rules_activate.go\<close>). Reflective JSON, SHA-256, the network, the clock and
  the file system are arguments.
\<close>

section \<open>Documents\<close>

type_synonym epoch_seconds = int

definition epoch_time :: "epoch_seconds \<Rightarrow> time" where
  "epoch_time e = e * 1000000000"

record rules_rule =
  rr_id :: bytes
  rr_type :: bytes
  rr_pattern :: bytes
  rr_keywords :: "bytes list"
  rr_action :: bytes
  rr_confidence :: "real option"
  rr_case_sensitive :: bool
  rr_allowlist :: "bytes list"
  rr_command :: bytes
  rr_subcommand :: bytes
  rr_verbs :: "bytes list"
  rr_targets :: "bytes list"
  rr_options :: "rule_options option"

record rules_pack =
  rp_channel :: bytes
  rp_schema_version :: int
  rp_min_binary_version :: bytes
  rp_serial :: u64
  rp_key_id :: bytes
  rp_not_before :: epoch_seconds
  rp_expires :: epoch_seconds
  rp_detectors :: "(bytes \<times> bool) list"
  rp_disabled_categories :: "bytes list"
  rp_allowlist :: "bytes list"
  rp_blocklist :: "bytes list"
  rp_sensitive_keys :: "sensitive_keys option"
  rp_rules :: "rules_rule list"
  rp_signature :: bytes

record rules_manifest =
  rm_channel :: bytes
  rm_schema_version :: int
  rm_min_binary_version :: bytes
  rm_serial :: u64
  rm_key_id :: bytes
  rm_not_before :: epoch_seconds
  rm_expires :: epoch_seconds
  rm_bundle_sha256 :: bytes
  rm_bundle :: bytes
  rm_revoked_serials :: "u64 list"
  rm_signature :: bytes

record rules_revocations =
  rv_channel :: bytes
  rv_doc_serial :: u64
  rv_key_id :: bytes
  rv_not_before :: epoch_seconds
  rv_expires :: epoch_seconds
  rv_revoked_serials :: "u64 list"
  rv_signature :: bytes

text \<open>
  \<open>EpochSeconds\<close> marshals as a number and unmarshals from a number or from an RFC 3339 string; the
  arguments are \<open>json.Unmarshal\<close> into a string and an \<open>int64\<close>, and \<open>time.Parse\<close>.
\<close>

definition epoch_marshal :: "epoch_seconds \<Rightarrow> bytes" where
  "epoch_marshal e = format_int e"

definition epoch_unmarshal ::
    "(bytes \<Rightarrow> bytes option) \<Rightarrow> (bytes \<Rightarrow> time option) \<Rightarrow> (bytes \<Rightarrow> int option) \<Rightarrow> bytes \<Rightarrow> epoch_seconds option" where
  "epoch_unmarshal as_text parse_rfc3339 as_int data =
     (if data = ''null'' then None
      else if data \<noteq> [] \<and> hd data = CHR 0x22 then
        (case as_text data of None \<Rightarrow> None | Some txt \<Rightarrow> map_option unix (parse_rfc3339 txt))
      else as_int data)"

text \<open>What the sync layer takes from elsewhere, beyond what the filter takes.\<close>

record ruleslib = doclib +
  lib_manifest :: "bytes \<Rightarrow> rules_manifest option"
  lib_pack :: "bytes \<Rightarrow> rules_pack option"
  lib_pointer :: "bytes \<Rightarrow> u64 option"
  lib_marshal_manifest :: "rules_manifest \<Rightarrow> bytes option"
  lib_marshal_pack :: "rules_pack \<Rightarrow> bytes option"
  lib_marshal_revocations :: "rules_revocations \<Rightarrow> bytes option"
  lib_marshal_members :: "(bytes \<times> bytes) list option \<Rightarrow> bytes option"
  lib_sha256 :: "bytes \<Rightarrow> bytes"

section \<open>Signing inputs\<close>

definition rules_signing_input :: "(bytes \<Rightarrow> bytes) \<Rightarrow> bytes \<Rightarrow> bytes option \<Rightarrow> bytes" where
  "rules_signing_input sha domain body =
     (case body of None \<Rightarrow> domain @ [CHR 0x0A] | Some b \<Rightarrow> domain @ CHR 0x0A # hex_encode (sha b))"

definition rules_pack_signing_input :: "ruleslib \<Rightarrow> rules_pack \<Rightarrow> bytes" where
  "rules_pack_signing_input lib p =
     rules_signing_input (lib_sha256 lib) domain_rules_pack (lib_marshal_pack lib (p\<lparr>rp_signature := []\<rparr>))"

definition rules_manifest_signing_input :: "ruleslib \<Rightarrow> rules_manifest \<Rightarrow> bytes" where
  "rules_manifest_signing_input lib m =
     rules_signing_input (lib_sha256 lib) domain_rules_manifest
       (lib_marshal_manifest lib (m\<lparr>rm_signature := [], rm_revoked_serials := sorted_serials (rm_revoked_serials m)\<rparr>))"

definition rules_revocations_signing_input :: "ruleslib \<Rightarrow> rules_revocations \<Rightarrow> bytes" where
  "rules_revocations_signing_input lib r =
     rules_signing_input (lib_sha256 lib) domain_rules_revocations
       (lib_marshal_revocations lib (r\<lparr>rv_signature := [], rv_revoked_serials := sorted_serials (rv_revoked_serials r)\<rparr>))"

section \<open>The manifest\<close>

definition rules_channel :: bytes where "rules_channel = ''stable''"

definition schema_version_gate :: "int \<Rightarrow> bool outcome" where
  "schema_version_gate v = (if v = 1 then Inr False else if v = 2 then Inr True else Inl ErrSchemaVersion)"

definition decode_rules_manifest :: "ruleslib \<Rightarrow> bytes \<Rightarrow> rules_manifest outcome" where
  "decode_rules_manifest lib data = decode_frozen_doc (lib_manifest lib) domain_rules_manifest data"

definition verify_rules_manifest_signature :: "ruleslib \<Rightarrow> rules_manifest \<Rightarrow> verify_fun option \<Rightarrow> unit outcome" where
  "verify_rules_manifest_signature lib m v =
     (case v of
        None \<Rightarrow> Inl ErrWrongKey
      | Some verify \<Rightarrow>
          ok_or (decode_signature (rm_signature m)) (\<lambda>sig.
            verify domain_rules_manifest (rm_key_id m) (rules_manifest_signing_input lib m) sig))"

definition verify_rules_manifest :: "ruleslib \<Rightarrow> rules_manifest \<Rightarrow> verify_fun option \<Rightarrow> time \<Rightarrow> unit outcome" where
  "verify_rules_manifest lib m v now =
     ok_or (verify_rules_manifest_signature lib m v) (\<lambda>_.
     require (\<not> now < epoch_time (rm_not_before m)) ErrNotYetValid (
     require (\<not> epoch_time (rm_expires m) < now) ErrExpired (
     ok_or (schema_version_gate (rm_schema_version m)) (\<lambda>_. Inr ()))))"

definition check_manifest_fields :: "rules_manifest \<Rightarrow> version \<Rightarrow> bool outcome" where
  "check_manifest_fields m binary =
     require (rm_channel m = rules_channel) ErrChannelMismatch (
     ok_or (check_min_binary_version (rm_min_binary_version m) binary) (\<lambda>_.
       schema_version_gate (rm_schema_version m)))"

section \<open>The pack\<close>

definition decode_rules_pack :: "ruleslib \<Rightarrow> bytes \<Rightarrow> rules_pack outcome" where
  "decode_rules_pack lib data = decode_frozen_doc (lib_pack lib) domain_rules_pack data"

definition verify_rules_pack :: "ruleslib \<Rightarrow> rules_pack \<Rightarrow> verify_fun option \<Rightarrow> unit outcome" where
  "verify_rules_pack lib p v =
     verify_frozen v domain_rules_pack (rp_key_id p) (rp_signature p) (rules_pack_signing_input lib p)"

text \<open>Removing the signature member is all that happens to the document before the filter reads it.\<close>

definition decode_pack_content :: "ruleslib \<Rightarrow> bytes \<Rightarrow> (document \<times> command_signal) option outcome" where
  "decode_pack_content lib raw =
     (case lib_fields lib raw of
        None \<Rightarrow> Inl ErrMalformedDoc
      | Some members \<Rightarrow>
          (case lib_marshal_members lib (map_option (filter (\<lambda>(key, _). key \<noteq> ''signature'')) members) of
             None \<Rightarrow> Inl ErrMalformedDoc
           | Some content \<Rightarrow>
               (case decode_document_with_signal lib content of
                  Inl _ \<Rightarrow> Inl ErrFilter
                | Inr decoded \<Rightarrow> Inr decoded)))"

record accepted_pack =
  ap_serial :: u64
  ap_pack :: compiled
  ap_warnings :: "bytes list"

definition command_message :: "rules_manifest \<Rightarrow> command_signal \<Rightarrow> u64 \<Rightarrow> bytes" where
  "command_message m signal serial =
     ''rules pack '' @ format_uint serial @ '' carries '' @ format_int (int (cs_count signal)) @ '' command rule(s) ('' @
     join_with '', '' (cs_rule_ids signal) @
     ''): a command rule does nothing in this rewrite, and the command gate stays closed while the rules manifest schema_version is '' @
     format_int (rm_schema_version m)"

definition command_warnings :: "rules_manifest \<Rightarrow> command_signal option \<Rightarrow> u64 \<Rightarrow> bool \<Rightarrow> bytes list outcome" where
  "command_warnings m signal serial gate_open =
     (case signal of
        None \<Rightarrow> Inr []
      | Some s \<Rightarrow>
          if \<not> signal_present (Some s) then Inr []
          else if gate_open then Inl (ErrCommandGate (cs_rule_ids s))
          else Inr [command_message m s serial])"

definition max_int64 :: u64 where "max_int64 = 0x7FFFFFFFFFFFFFFF"

definition filter_outcome :: "'a filtered \<Rightarrow> 'a outcome" where
  "filter_outcome r = (case r of Inl _ \<Rightarrow> Inl ErrFilter | Inr x \<Rightarrow> Inr x)"

text \<open>\<open>RulesSync.accept\<close>; a pack whose decoder panicked has no outcome of its own: \<open>ErrPanic\<close>.\<close>

definition accept_pack :: "ruleslib \<Rightarrow> verify_fun \<Rightarrow> version \<Rightarrow> int \<Rightarrow> rules_manifest \<Rightarrow> bytes \<Rightarrow> bool \<Rightarrow> accepted_pack outcome" where
  "accept_pack lib verify binary budget m raw gate_open =
     ok_or (decode_rules_pack lib raw) (\<lambda>pack.
     ok_or (verify_rules_pack lib pack (Some verify)) (\<lambda>_.
     ok_or (check_min_binary_version (rp_min_binary_version pack) binary) (\<lambda>_.
     ok_or (decode_pack_content lib raw) (\<lambda>content.
     case content of
       None \<Rightarrow> Inl ErrPanic
     | Some (doc, signal) \<Rightarrow>
         ok_or (filter_outcome (floor_check (default_floor_baseline lib) (Some doc))) (\<lambda>_.
         ok_or (filter_outcome (compile_with_budget lib (Some doc) budget)) (\<lambda>c.
         require (rp_serial pack = rm_serial m) ErrSerialMismatch (
         require (rp_serial pack \<le> max_int64) ErrMalformedDoc (
         ok_or (check_bundle_digest (lib_sha256 lib) (rm_bundle_sha256 m) raw) (\<lambda>_.
         ok_or (command_warnings m (Some signal) (rp_serial pack) gate_open) (\<lambda>warnings.
           Inr \<lparr>ap_serial = rp_serial pack, ap_pack = c, ap_warnings = warnings\<rparr>))))))))))"

end
