(* ===== verification/Sync.thy ===== *)
theory Sync
  imports Rules
begin

text \<open>
  The rules cache and the sync layer over it. Every write goes through a temporary file and any of
  its steps may fail; every file that is present may fail to be read.
\<close>

section \<open>The cache\<close>

record rules_cache =
  rc_pointer :: "bytes option"
  rc_manifests :: "u64 \<Rightarrow> bytes option"
  rc_bundles :: "u64 \<Rightarrow> bytes option"

record cached_pack =
  cp_serial :: u64
  cp_manifest :: bytes
  cp_bundle :: bytes

text \<open>What the world decides about one call: which reads succeed and which write steps fail.\<close>

record cache_io =
  io_read_pointer :: bool
  io_read_manifest :: bool
  io_read_bundle :: bool
  io_write_manifest :: faults
  io_write_bundle :: faults
  io_write_pointer :: faults

definition write_file_atomic :: "faults \<Rightarrow> bytes \<Rightarrow> bytes option \<Rightarrow> unit outcome \<times> bytes option" where
  "write_file_atomic faults data old =
     (if faults MkdirAll \<or> faults CreateTemp then (Inl ErrIo, old)
      else if faults WriteTemp \<or> faults ChmodTemp \<or> faults SyncTemp \<or> faults CloseTemp then (Inl ErrIo, old)
      else if faults RenameTemp then (Inl ErrIo, old)
      else (Inr (), Some data))"

definition active_doc :: "u64 \<Rightarrow> bytes" where
  "active_doc serial = ''{'' @ CHR 0x22 # ''serial'' @ CHR 0x22 # '':'' @ format_uint serial @ ''}''"

definition cache_active_serial :: "ruleslib \<Rightarrow> cache_io \<Rightarrow> rules_cache \<Rightarrow> u64 outcome" where
  "cache_active_serial lib io c =
     (case rc_pointer c of
        None \<Rightarrow> Inr 0
      | Some raw \<Rightarrow>
          require (io_read_pointer io) ErrCacheCorrupt (
          case lib_pointer lib raw of None \<Rightarrow> Inl ErrCacheCorrupt | Some serial \<Rightarrow> Inr serial))"

definition read_cached_doc :: "bool \<Rightarrow> bytes option \<Rightarrow> bytes outcome" where
  "read_cached_doc readable doc =
     (case doc of None \<Rightarrow> Inl ErrCacheCorrupt | Some raw \<Rightarrow> require readable ErrCacheCorrupt (Inr raw))"

definition load_active :: "ruleslib \<Rightarrow> cache_io \<Rightarrow> rules_cache \<Rightarrow> cached_pack outcome" where
  "load_active lib io c =
     ok_or (cache_active_serial lib io c) (\<lambda>serial.
     require (serial \<noteq> 0) ErrNoCachedPack (
     ok_or (read_cached_doc (io_read_manifest io) (rc_manifests c serial)) (\<lambda>m.
     ok_or (read_cached_doc (io_read_bundle io) (rc_bundles c serial)) (\<lambda>b.
       Inr \<lparr>cp_serial = serial, cp_manifest = m, cp_bundle = b\<rparr>))))"

text \<open>\<open>Store\<close>: both documents first, the pointer last.\<close>

definition cache_store :: "cache_io \<Rightarrow> u64 \<Rightarrow> bytes \<Rightarrow> bytes \<Rightarrow> rules_cache \<Rightarrow> unit outcome \<times> rules_cache" where
  "cache_store io serial m b c =
     (case write_file_atomic (io_write_manifest io) m (rc_manifests c serial) of
        (Inl e, f) \<Rightarrow> (Inl e, c\<lparr>rc_manifests := (rc_manifests c)(serial := f)\<rparr>)
      | (Inr _, f) \<Rightarrow>
          let c1 = c\<lparr>rc_manifests := (rc_manifests c)(serial := f)\<rparr>
          in (case write_file_atomic (io_write_bundle io) b (rc_bundles c1 serial) of
                (Inl e, g) \<Rightarrow> (Inl e, c1\<lparr>rc_bundles := (rc_bundles c1)(serial := g)\<rparr>)
              | (Inr _, g) \<Rightarrow>
                  let c2 = c1\<lparr>rc_bundles := (rc_bundles c1)(serial := g)\<rparr>
                  in (case write_file_atomic (io_write_pointer io) (active_doc serial) (rc_pointer c2) of
                        (r, p) \<Rightarrow> (r, c2\<lparr>rc_pointer := p\<rparr>))))"

section \<open>The sync layer\<close>

datatype rule_source = SourceRemote | SourceCache | SourceBuiltin

record rules_state =
  rs_source :: rule_source
  rs_serial :: u64
  rs_pack :: "compiled option"
  rs_warnings :: "bytes list"

record rules_sync =
  ry_cache :: rules_cache
  ry_verifier :: verify_fun
  ry_mark :: file_high_water
  ry_binary :: version
  ry_budget :: int
  ry_active :: rules_state

definition builtin_state :: rules_state where
  "builtin_state = \<lparr>rs_source = SourceBuiltin, rs_serial = 0, rs_pack = None, rs_warnings = []\<rparr>"

text \<open>\<open>NewRulesSync\<close> over the files already there; \<open>dec\<close> reads the mark.\<close>

definition new_rules_sync ::
    "(bytes \<Rightarrow> int option) \<Rightarrow> bool \<Rightarrow> bytes option \<Rightarrow> rules_cache \<Rightarrow> verify_fun option \<Rightarrow> bytes \<Rightarrow> int \<Rightarrow> rules_sync outcome" where
  "new_rules_sync dec readable mark_file cache v binary_version budget =
     (case v of
        None \<Rightarrow> Inl ErrBadConfig
      | Some verify \<Rightarrow>
          ok_or (new_file_high_water dec readable mark_file) (\<lambda>mark.
          ok_or (parse_version (if binary_version = [] then ''0.5.0'' else binary_version)) (\<lambda>binary.
            Inr \<lparr>ry_cache = cache, ry_verifier = verify, ry_mark = mark, ry_binary = binary,
                 ry_budget = (if budget \<le> 0 then primitive_byte_budget_bytes else budget), ry_active = builtin_state\<rparr>)))"

definition state_of :: "rule_source \<Rightarrow> accepted_pack \<Rightarrow> rules_state" where
  "state_of source a = \<lparr>rs_source = source, rs_serial = ap_serial a, rs_pack = Some (ap_pack a), rs_warnings = ap_warnings a\<rparr>"

text \<open>\<open>loadCache\<close>: the cached documents are verified again, without the freshness window.\<close>

definition load_cache :: "ruleslib \<Rightarrow> cache_io \<Rightarrow> rules_sync \<Rightarrow> unit outcome \<times> rules_sync" where
  "load_cache lib io s =
     (case load_active lib io (ry_cache s) of
        Inl e \<Rightarrow> (if e = ErrNoCachedPack then Inr () else Inl e, s)
      | Inr cached \<Rightarrow>
          (case ok_or (decode_rules_manifest lib (cp_manifest cached)) (\<lambda>m.
                ok_or (verify_rules_manifest_signature lib m (Some (ry_verifier s))) (\<lambda>_.
                ok_or (check_manifest_fields m (ry_binary s)) (\<lambda>gate_open.
                  accept_pack lib (ry_verifier s) (ry_binary s) (ry_budget s) m (cp_bundle cached) gate_open))) of
             Inl e \<Rightarrow> (Inl e, s)
           | Inr a \<Rightarrow> (Inr (), s\<lparr>ry_active := state_of SourceCache a\<rparr>)))"

definition startup :: "ruleslib \<Rightarrow> cache_io \<Rightarrow> rules_sync \<Rightarrow> unit outcome \<times> rules_sync" where
  "startup lib io s = load_cache lib io s"

definition fallback :: "ruleslib \<Rightarrow> cache_io \<Rightarrow> supply_error \<Rightarrow> rules_sync \<Rightarrow> unit outcome \<times> rules_sync" where
  "fallback lib io fetch_err s =
     (if rs_serial (ry_active s) = 0 then
        (case load_cache lib io s of
           (Inl e, s') \<Rightarrow> (Inl (ErrJoined fetch_err e), s')
         | (Inr _, s') \<Rightarrow> (Inl fetch_err, s'))
      else (Inl fetch_err, s))"

definition replay :: "ruleslib \<Rightarrow> cache_io \<Rightarrow> u64 \<Rightarrow> rules_sync \<Rightarrow> unit outcome \<times> rules_sync" where
  "replay lib io serial s =
     (if rs_serial (ry_active s) = serial then (Inr (), s)
      else
        (case cache_active_serial lib io (ry_cache s) of
           Inl e \<Rightarrow> (Inl e, s)
         | Inr cached \<Rightarrow> if cached \<noteq> serial then (Inr (), s) else load_cache lib io s))"

text \<open>
  The two steps that move the mark take its \<open>Advance\<close> as an argument: the file store when rules are
  activated, a no-op when they are only checked.
\<close>

type_synonym advance_fun = "int \<Rightarrow> file_high_water \<Rightarrow> unit outcome \<times> file_high_water"

definition activate_with ::
    "advance_fun \<Rightarrow> cache_io \<Rightarrow> accepted_pack \<Rightarrow> bytes \<Rightarrow> bytes \<Rightarrow> rule_source \<Rightarrow> rules_sync \<Rightarrow> unit outcome \<times> rules_sync" where
  "activate_with advance io a m b source s =
     (case cache_store io (ap_serial a) m b (ry_cache s) of
        (Inl e, c) \<Rightarrow> (Inl e, s\<lparr>ry_cache := c\<rparr>)
      | (Inr _, c) \<Rightarrow>
          (case advance (sint (ap_serial a)) (ry_mark s) of
             (r, mark) \<Rightarrow> (r, s\<lparr>ry_cache := c, ry_active := state_of source a, ry_mark := mark\<rparr>)))"

definition activate ::
    "cache_io \<Rightarrow> faults \<Rightarrow> accepted_pack \<Rightarrow> bytes \<Rightarrow> bytes \<Rightarrow> rule_source \<Rightarrow> rules_sync \<Rightarrow> unit outcome \<times> rules_sync" where
  "activate io mark_faults = activate_with (file_advance mark_faults) io"

text \<open>The world during one sync.\<close>

record sync_env =
  se_no_sync :: "bytes option"
  se_fetch :: fetcher
  se_now :: time
  se_io :: cache_io
  se_mark_faults :: faults

definition rules_manifest_url :: bytes where "rules_manifest_url = base_url @ ''/v1/rules/manifest'' @ channel_query"
definition rules_bundle_url :: bytes where "rules_bundle_url = base_url @ ''/v1/rules/bundle'' @ channel_query"

text \<open>The checks of the manifest that come before its serial is compared with the mark.\<close>

definition check_rules_manifest :: "ruleslib \<Rightarrow> rules_sync \<Rightarrow> time \<Rightarrow> bytes \<Rightarrow> (rules_manifest \<times> bool) outcome" where
  "check_rules_manifest lib s now raw =
     ok_or (decode_rules_manifest lib raw) (\<lambda>m.
     ok_or (verify_rules_manifest lib m (Some (ry_verifier s)) now) (\<lambda>_.
     ok_or (check_manifest_fields m (ry_binary s)) (\<lambda>gate_open.
     require (rm_serial m \<notin> set (rm_revoked_serials m)) ErrRevokedSerial (Inr (m, gate_open)))))"

definition sync_with :: "advance_fun \<Rightarrow> ruleslib \<Rightarrow> sync_env \<Rightarrow> rules_sync \<Rightarrow> unit outcome \<times> rules_sync" where
  "sync_with advance lib env s =
     (if se_no_sync env = Some ''1'' then (Inr (), s)
      else case se_fetch env rules_manifest_url of
        Inl e \<Rightarrow> fallback lib (se_io env) e s
      | Inr manifest_raw \<Rightarrow>
          (case check_rules_manifest lib s (se_now env) manifest_raw of
             Inl e \<Rightarrow> (Inl e, s)
           | Inr (m, gate_open) \<Rightarrow>
               let mark = hw_serial (ry_mark s)
               in if rm_serial m < word_of_int mark then (Inl (ErrReplay mark (sint (rm_serial m))), s)
                  else if rm_serial m = word_of_int mark then replay lib (se_io env) (rm_serial m) s
                  else
                    (case se_fetch env rules_bundle_url of
                       Inl e \<Rightarrow> fallback lib (se_io env) e s
                     | Inr bundle_raw \<Rightarrow>
                         (case accept_pack lib (ry_verifier s) (ry_binary s) (ry_budget s) m bundle_raw gate_open of
                            Inl e \<Rightarrow> (Inl e, s)
                          | Inr a \<Rightarrow> activate_with advance (se_io env) a manifest_raw bundle_raw SourceRemote s))))"

definition sync :: "ruleslib \<Rightarrow> sync_env \<Rightarrow> rules_sync \<Rightarrow> unit outcome \<times> rules_sync" where
  "sync lib env = sync_with (file_advance (se_mark_faults env)) lib env"

end
