(* ===== verification/Gateway.thy ===== *)
theory Gateway
  imports Routes ResponsePath Backfill Verdict Sync
begin

text \<open>
  The assembled gateway of \<open>internal/cli\<close>: the content-policy glue of \<open>cli.go\<close> and \<open>exclusion.go\<close>, the
  redaction of \<open>redact_request.go\<close>, the commit of \<open>response_writer.go\<close>, and the routing and handler
  chain of \<open>run.go\<close> and \<open>counters.go\<close>.
\<close>

section \<open>State and world\<close>

text \<open>
  The session: the counters and notices every handler shares, the reverse map, the placeholder engine,
  the upstreams a forwarder was built for, and the requests that left the machine.
\<close>

record gateway_state = plane_state +
  gs_backfiller :: backfiller
  gs_engine :: engine
  gs_forwarders :: "(bytes \<times> url) list"
  gs_sent :: "outbound list"

record gateway =
  gw_config :: config
  gw_budget :: int
  gw_log_redactions :: bool
  gw_policy :: policy
  gw_token :: bytes
  gw_port :: int
  gw_addrs :: "bytes list"
  gw_started :: int

text \<open>
  What the code around the model decides during one request: the parsers and decompressors, the order
  of equally long placeholders, whether the walk or the evaluation outran the detector bound, what
  \<open>ServeMux\<close> answers itself to a path that is not in canonical form, and the upstream.
\<close>

record world =
  wd_lib :: ruleslib
  wd_parse :: "bytes \<Rightarrow> url option"
  wd_order :: "backfiller \<Rightarrow> (bytes \<times> bytes) list"
  wd_gunzip :: "bytes \<Rightarrow> bytes option"
  wd_inflate :: "bytes \<Rightarrow> bytes option"
  wd_quote :: "bytes \<Rightarrow> bytes"
  wd_walk_overruns :: bool
  wd_eval_overruns :: bool
  wd_mux :: "request \<Rightarrow> (reply \<Rightarrow> reply) option"
  wd_builds :: "bytes \<Rightarrow> target_url \<Rightarrow> bool"
  wd_exchange :: "outbound \<Rightarrow> exchange"
  wd_now :: int

section \<open>Policy verdicts\<close>

definition rule_ids :: "attributed_finding list \<Rightarrow> bytes list" where
  "rule_ids fs = map (\<lambda>f. fi_rule_id (af_finding f)) fs"

fun reason_text :: "reason \<Rightarrow> bytes" where
  "reason_text ReasonBudget = ''budget''"
| "reason_text ReasonTimeout = ''timeout''"
| "reason_text ReasonError = ''error''"
| "reason_text ReasonPanic = ''panic''"
| "reason_text ReasonMalformed = ''malformed''"

definition evaluate_request :: "gateway \<Rightarrow> world \<Rightarrow> leaf list \<Rightarrow> (eval_failure, request_decision) result" where
  "evaluate_request g wd leaves =
     (case decide (wd_lib wd) (Some (gw_policy g)) leaves ScopeRequest of
        Inl _ \<Rightarrow> Inl OtherEvalFailure
      | Inr (d, _) \<Rightarrow>
          (case de_refusal d of
             Some f \<Rightarrow> Inl (DetectorFailure (rf_rule_id f) (reason_text (rf_reason f)))
           | None \<Rightarrow>
               Inr (if de_action d = ActionBlock
                    then \<lparr>rq_action = RequestBlock, rq_rules = rule_ids (de_findings d)\<rparr>
                    else \<lparr>rq_action = RequestAllow, rq_rules = []\<rparr>)))"

definition evaluate_response :: "gateway \<Rightarrow> world \<Rightarrow> bytes \<Rightarrow> response_decision option" where
  "evaluate_response g wd body =
     (case walk body of
        Inl _ \<Rightarrow> None
      | Inr leaves \<Rightarrow>
          (case decide (wd_lib wd) (Some (gw_policy g)) leaves ScopeResponse of
             Inl _ \<Rightarrow> None
           | Inr (d, _) \<Rightarrow>
               Some (case de_refusal d of
                       Some f \<Rightarrow> \<lparr>rs_action = ResponseBlock, rs_rules = [rf_rule_id f]\<rparr>
                     | None \<Rightarrow>
                         if de_action d = ActionAllow then \<lparr>rs_action = ResponseAllow, rs_rules = []\<rparr>
                         else \<lparr>rs_action = (if de_action d \<noteq> ActionWarn then ResponseBlock else ResponseWarn),
                               rs_rules = rule_ids (de_findings d)\<rparr>)))"

section \<open>Masking\<close>

text \<open>\<open>[]rune(value)\<close>: an invalid byte is the replacement rune.\<close>

function runes_of :: "bytes \<Rightarrow> rune list" where
  "runes_of [] = []"
| "runes_of (c # cs) =
     (let (r, n) = decode_rune (c # cs) in r # runes_of (drop (max 1 n) (c # cs)))"
  by pat_completeness auto
termination
  by (relation "measure length") auto

definition pem_kinds :: "bytes list" where
  "pem_kinds =
     [''PRIVATE KEY'', ''RSA PRIVATE KEY'', ''EC PRIVATE KEY'', ''DSA PRIVATE KEY'', ''OPENSSH PRIVATE KEY'',
      ''ENCRYPTED PRIVATE KEY'', ''PGP PRIVATE KEY BLOCK'']"

definition pem_kind :: "bytes \<Rightarrow> bytes" where
  "pem_kind v =
     (case find (\<lambda>kind. prefix (''-----BEGIN '' @ kind @ ''-----'') v) pem_kinds of None \<Rightarrow> [] | Some k \<Rightarrow> k)"

definition max_mask_domain_bytes :: nat where "max_mask_domain_bytes = 64"

definition email_domain :: "bytes \<Rightarrow> bytes" where
  "email_domain v =
     (case index_byte CHR ''@'' v of
        None \<Rightarrow> []
      | Some i \<Rightarrow>
          (let domain = drop (i + 1) v
           in if i = 0 \<or> i = length v - 1 \<or> CHR ''@'' \<in> set domain \<or> max_mask_domain_bytes < length domain then []
              else domain))"

definition mask_edge_types :: "bytes list" where
  "mask_edge_types = [''api_key'', ''high_entropy'']"

definition ellipsis_bytes :: bytes where
  "ellipsis_bytes = [CHR 0xE2, CHR 0x80, CHR 0xA6]"

definition encode_runes :: "rune list \<Rightarrow> bytes" where
  "encode_runes rs = concat (map encode_rune rs)"

definition masked_form :: "bytes \<Rightarrow> bytes \<Rightarrow> bytes" where
  "masked_form v kind =
     (let rs = runes_of v
      in if kind \<in> set mask_edge_types \<and> 16 \<le> length rs \<and> 8 \<le> length rs - 6
         then encode_runes (take 4 rs) @ ellipsis_bytes @ encode_runes (drop (length rs - 2) rs)
         else if kind = ''private_key'' then (if pem_kind v \<noteq> [] then pem_kind v else ''****'')
         else if kind = ''email'' then (if email_domain v \<noteq> [] then ''****@'' @ email_domain v else ''****'')
         else ''****'')"

definition mask_secret :: "bytes \<Rightarrow> bytes \<Rightarrow> bytes" where
  "mask_secret v kind = (if masked_form v kind = v then ''[redacted]'' else masked_form v kind)"

section \<open>Redacting a request\<close>

definition report_budget_exceeded :: "gateway \<Rightarrow> leaf list \<Rightarrow> gateway_state \<Rightarrow> gateway_state" where
  "report_budget_exceeded g leaves s =
     (let longest = fold (\<lambda>l n. max n (length (leaf_value l))) leaves 0
      in if 0 < gw_budget g \<and> gw_budget g < int longest
         then log_line (''tokenhush: detector budget exceeded leaf='' @ itoa longest @ '' budget='' @ json_int (gw_budget g)) s
         else s)"

definition requested_subs :: "leaf list \<Rightarrow> substitution_request list \<Rightarrow> substitution list" where
  "requested_subs leaves rs =
     map (\<lambda>q. \<lparr>sub_leaf = leaves ! sr_leaf_index q, sub_start = sr_start q, sub_end = sr_end q,
              sub_category = sr_category q\<rparr>)
       (filter (\<lambda>q. sr_leaf_index q < length leaves) rs)"

definition redaction_line :: "substitution list \<Rightarrow> applied \<Rightarrow> bytes" where
  "redaction_line subs a =
     ''tokenhush: redacted request '' @ app_category a @ '' (len='' @ itoa (app_length a) @ '') ''
       @ mask_secret (sub_secret (subs ! app_index a)) (app_category a)"

datatype redact_failure = PolicyFailed | RequestBlocked | MintFailed redact_error

definition redact_request ::
  "gateway \<Rightarrow> world \<Rightarrow> bytes \<Rightarrow> gateway_state \<Rightarrow> (redact_failure, bytes \<times> nat) result \<times> gateway_state" where
  "redact_request g wd body s =
     (case walk body of
        Inl _ \<Rightarrow> (Inr (body, 0), s)
      | Inr leaves \<Rightarrow>
          (let s = report_budget_exceeded g leaves s
           in case decide (wd_lib wd) (Some (gw_policy g)) leaves ScopeRequest of
                Inl _ \<Rightarrow> (Inl PolicyFailed, s)
              | Inr (d, _) \<Rightarrow>
                  if de_refusal d \<noteq> None \<or> de_action d = ActionBlock then (Inl RequestBlocked, s)
                  else if de_action d \<noteq> ActionRedact then (Inr (body, 0), s)
                  else
                    (let subs = requested_subs leaves (de_substitutions d)
                     in case substitute (gs_backfiller s) (gs_engine s) body subs of
                          (Inl e, b, en) \<Rightarrow> (Inl (MintFailed e), s\<lparr>gs_backfiller := b, gs_engine := en\<rparr>)
                        | (Inr (out, apps), b, en) \<Rightarrow>
                            (Inr (out, length apps),
                             (if gw_log_redactions g then fold log_line (map (redaction_line subs) apps) else id)
                               (s\<lparr>gs_backfiller := b, gs_engine := en\<rparr>)))))"

definition redaction_transform ::
  "gateway \<Rightarrow> world \<Rightarrow> bytes \<Rightarrow> gateway_state \<Rightarrow> bytes option \<times> gateway_state" where
  "redaction_transform g wd body s =
     (case redact_request g wd body s of
        (Inl _, s) \<Rightarrow> (None, s)
      | (Inr (out, n), s) \<Rightarrow> (Some out, on_counters (count_redactions n) s))"

section \<open>Restoring and committing a response\<close>

definition session_backfiller :: "config \<Rightarrow> bytes \<Rightarrow> backfiller" where
  "session_backfiller cfg token = exclude_from_backfill (token # cfg_allowlist cfg) new_backfiller"

definition restore_notices :: "gateway \<Rightarrow> world \<Rightarrow> backfiller \<Rightarrow> bytes \<Rightarrow> bytes list" where
  "restore_notices g wd b body =
     (let n = snd (backfill_count b (wd_order wd b) body)
      in if 0 < n \<and> gw_log_redactions g then [''tokenhush: restored response placeholders='' @ itoa n] else [])"

definition responses :: "gateway \<Rightarrow> world \<Rightarrow> gateway_state \<Rightarrow> response_handler" where
  "responses g wd s =
     \<lparr>rh_evaluate = Some (evaluate_response g wd),
      rh_restore = Some (backfill (gs_backfiller s) (wd_order wd (gs_backfiller s))),
      rh_notices = restore_notices g wd (gs_backfiller s),
      rh_quote = Some (wd_quote wd), rh_gunzip = wd_gunzip wd, rh_inflate = wd_inflate wd\<rparr>"

definition refuse_client :: "nat \<Rightarrow> response_writer \<Rightarrow> response_writer" where
  "refuse_client status w =
     w\<lparr>rw_dst := http_error (status_text status) status ((rw_dst w)\<lparr>reply_header := []\<rparr>)\<rparr>"

definition commit_client :: "verdict \<Rightarrow> response_writer \<Rightarrow> response_writer" where
  "commit_client v w =
     (case v of (status, h, body) \<Rightarrow>
        w\<lparr>rw_dst := reply_write body (reply_status status ((rw_dst w)\<lparr>reply_header := h\<rparr>))\<rparr>)"

definition upstream_of :: "response_writer \<Rightarrow> upstream_response" where
  "upstream_of w =
     \<lparr>us_status = rw_status w, us_header = rw_header w,
      us_body = Some \<lparr>stream_bytes = rw_buf w, stream_fails = False\<rparr>\<rparr>"

definition commit_response :: "'s responder \<Rightarrow> response_writer \<Rightarrow> 's plane_state_scheme \<Rightarrow> response_writer \<times> 's plane_state_scheme" where
  "commit_response respond w s =
     (case respond s of
        (Inl _, s) \<Rightarrow> (refuse_client 502 w, s)
      | (Inr v, s) \<Rightarrow> (commit_client v w, s))"

definition rw_finish ::
  "response_handler \<Rightarrow> response_writer \<Rightarrow> 's plane_state_scheme \<Rightarrow> response_writer \<times> 's plane_state_scheme" where
  "rw_finish h w s =
     (if rw_done w then (w, s)
      else
        (let w = rw_write_header 200 (w\<lparr>rw_done := True\<rparr>)
         in if rw_capped w then (refuse_client 502 w, s)
            else if rw_timed_out w then (refuse_client 504 w, s)
            else if rw_local w
              then (w\<lparr>rw_dst := reply_write (rw_buf w) (reply_status (rw_status w) (rw_dst w))\<rparr>, s)
            else if streaming_sse (rw_header w) then commit_response (handle_buffered_sse h (Some (upstream_of w))) w s
            else commit_response (handle_response h (Some (upstream_of w))) w s))"

section \<open>Routing\<close>

definition forwarder_for ::
  "gateway \<Rightarrow> world \<Rightarrow> bytes \<Rightarrow> gateway_state \<Rightarrow> (upstream_error, gateway_state forwarder) result \<times> gateway_state" where
  "forwarder_for g wd base s =
     (let build = forwarder_over (redaction_transform g wd) (cfg_max_body (gw_config g))
                    (cfg_response_buffer (gw_config g)) (wd_builds wd) (wd_exchange wd)
      in case map_of (gs_forwarders s) base of
           Some u \<Rightarrow> (Inr (build u), s)
         | None \<Rightarrow>
             (case new_forwarder (wd_parse wd) base build of
                Inl e \<Rightarrow> (Inl e, s)
              | Inr f \<Rightarrow> (Inr f, s\<lparr>gs_forwarders := (base, fw_base f) # gs_forwarders s\<rparr>)))"

definition models_body :: bytes where
  "models_body =
     json_object [json_member ''object'' (json_string ''list''), json_member ''data'' (json_array [])]"

definition route_request :: "gateway \<Rightarrow> world \<Rightarrow> request \<Rightarrow> reply \<Rightarrow> gateway_state \<Rightarrow> reply \<times> gateway_state" where
  "route_request g wd r w s =
     (case resolve (url_path (req_url r)) (gw_config g) of
        Inl _ \<Rightarrow> (http_error ''unknown_upstream'' 404 w, s)
      | Inr u \<Rightarrow>
          if route_local u then (reply_write models_body (reply_set ''Content-Type'' ''application/json'' w), s)
          else
            (case forwarder_for g wd (route_base u) s of
               (Inl _, s) \<Rightarrow> (http_error ''unknown_upstream'' 502 w, s)
             | (Inr f, s) \<Rightarrow>
                 (case forwarder_serve f r (new_response_writer w) s of
                    (sent, rw, s) \<Rightarrow>
                      (let s = s\<lparr>gs_sent := gs_sent s @ (case sent of None \<Rightarrow> [] | Some out \<Rightarrow> [out])\<rparr>
                       in case rw_finish (responses g wd s) rw s of (rw, s) \<Rightarrow> (rw_dst rw, s)))))"

section \<open>The handler chain\<close>

definition plane_of :: "gateway \<Rightarrow> world \<Rightarrow> data_plane" where
  "plane_of g wd =
     \<lparr>dp_walk = (\<lambda>body. if wd_walk_overruns wd then Overran else Returned (map_sum WalkFailed id (walk body))),
      dp_evaluate = Some (\<lambda>leaves. if wd_eval_overruns wd then Overran else Returned (evaluate_request g wd leaves)),
      dp_max_body = (if 0 < cfg_max_body (gw_config g) then cfg_max_body (gw_config g) else default_max_body)\<rparr>"

definition proxied :: "gateway \<Rightarrow> world \<Rightarrow> request \<Rightarrow> reply \<Rightarrow> gateway_state \<Rightarrow> reply \<times> gateway_state" where
  "proxied g wd r w s =
     data_plane_serve (plane_of g wd) (route_request g wd) r w (on_counters count_request s)"

definition control_of :: "gateway \<Rightarrow> control_api" where
  "control_of g = new_control_api [] (gw_addrs g) (gw_port g) (Some (gw_started g))"

definition serve_request :: "gateway \<Rightarrow> world \<Rightarrow> request \<Rightarrow> reply \<Rightarrow> gateway_state \<Rightarrow> reply \<times> gateway_state" where
  "serve_request g wd r w s =
     (case check_host_origin (wd_parse wd) (req_host r) (header_get (req_header r) ''Origin'')
             \<lparr>allowed_hosts = [], allowed_port = gw_port g\<rparr> of
        Some _ \<Rightarrow> (http_error (status_text 403) 403 w, s)
      | None \<Rightarrow>
          (case wd_mux wd r of
             Some answer \<Rightarrow> (answer w, s)
           | None \<Rightarrow>
               if url_path (req_url r) = ''/status''
               then (control_guard (gw_token g) (control_serve (control_of g) (ps_counters s) (wd_now wd)) r w, s)
               else proxied g wd r w s))"

end
