(* ===== verification/Packs.thy ===== *)
theory Packs
  imports Sync
begin

text \<open>
  What the rules sync promises: whatever the network serves, whatever is done to the cache and
  whichever write fails, the active pack is a built-in or an authentic one; a sync only moves
  forward; storing a pack is all or nothing; a restart without network finds the pack again.
\<close>

section \<open>Acceptance\<close>

text \<open>A pack that was signed for the serial of a signed manifest, intact, above the floor and compiled.\<close>

definition authentic_pack ::
    "ruleslib \<Rightarrow> (bytes \<Rightarrow> bytes \<Rightarrow> bytes \<Rightarrow> bool) \<Rightarrow> version \<Rightarrow> int \<Rightarrow> rules_manifest \<Rightarrow> bytes \<Rightarrow> rules_state \<Rightarrow> bool" where
  "authentic_pack lib ed binary budget m raw st \<longleftrightarrow>
     static.signed ed (rm_key_id m) (rm_signature m) (rules_manifest_signing_input lib m) \<and>
     rm_channel m = rules_channel \<and> check_min_binary_version (rm_min_binary_version m) binary = Inr () \<and>
     rm_schema_version m \<in> {1, 2} \<and> rs_serial st = rm_serial m \<and>
     hex_decode (trim_space (rm_bundle_sha256 m)) = Some (lib_sha256 lib raw) \<and>
     (\<exists>pack doc signal c.
        lib_pack lib raw = Some pack \<and> rp_serial pack = rm_serial m \<and> rp_serial pack \<le> max_int64 \<and>
        static.signed ed (rp_key_id pack) (rp_signature pack) (rules_pack_signing_input lib pack) \<and>
        check_min_binary_version (rp_min_binary_version pack) binary = Inr () \<and>
        decode_pack_content lib raw = Inr (Some (doc, signal)) \<and>
        floor_check (default_floor_baseline lib) (Some doc) = Inr () \<and>
        compile_with_budget lib (Some doc) budget = Inr c \<and> rs_pack st = Some c \<and>
        (if signal_present (Some signal)
         then rm_schema_version m = 1 \<and> rs_warnings st = [command_message m signal (rm_serial m)]
         else rs_warnings st = []))"

lemma manifest_signature_frozen:
  "verify_rules_manifest_signature lib m v = verify_frozen v domain_rules_manifest (rm_key_id m) (rm_signature m) (rules_manifest_signing_input lib m)"
  by (simp add: verify_rules_manifest_signature_def verify_frozen_def)

lemma gate_version: "schema_version_gate v = Inr gate_open \<longleftrightarrow> (v = 1 \<and> \<not> gate_open) \<or> (v = 2 \<and> gate_open)"
  by (auto simp: schema_version_gate_def)

lemma filter_outcome_Inr_iff: "filter_outcome r = Inr x \<longleftrightarrow> r = Inr x"
  by (simp add: filter_outcome_def split: sum.splits)

lemma command_warnings_Inr_iff:
  "command_warnings m (Some signal) serial gate_open = Inr ws \<longleftrightarrow>
     (if signal_present (Some signal) then \<not> gate_open \<and> ws = [command_message m signal serial] else ws = [])"
  by (auto simp: command_warnings_def)

lemma accept_pack_D:
  assumes "accept_pack lib (static_verify ed) binary budget m raw gate_open = Inr a"
  obtains pack doc signal where "lib_pack lib raw = Some pack" "rp_serial pack = rm_serial m" "rp_serial pack \<le> max_int64"
    "static.signed ed (rp_key_id pack) (rp_signature pack) (rules_pack_signing_input lib pack)"
    "check_min_binary_version (rp_min_binary_version pack) binary = Inr ()"
    "decode_pack_content lib raw = Inr (Some (doc, signal))"
    "floor_check (default_floor_baseline lib) (Some doc) = Inr ()"
    "compile_with_budget lib (Some doc) budget = Inr (ap_pack a)"
    "hex_decode (trim_space (rm_bundle_sha256 m)) = Some (lib_sha256 lib raw)"
    "command_warnings m (Some signal) (rm_serial m) gate_open = Inr (ap_warnings a)"
    "ap_serial a = rm_serial m"
proof -
  from assms obtain pack content where 1: "decode_rules_pack lib raw = Inr pack" "verify_rules_pack lib pack (Some (static_verify ed)) = Inr ()"
    "check_min_binary_version (rp_min_binary_version pack) binary = Inr ()" "decode_pack_content lib raw = Inr content"
    and k: "(case content of
       None \<Rightarrow> Inl ErrPanic
     | Some (doc, signal) \<Rightarrow>
         ok_or (filter_outcome (floor_check (default_floor_baseline lib) (Some doc))) (\<lambda>_.
         ok_or (filter_outcome (compile_with_budget lib (Some doc) budget)) (\<lambda>c.
         require (rp_serial pack = rm_serial m) ErrSerialMismatch (
         require (rp_serial pack \<le> max_int64) ErrMalformedDoc (
         ok_or (check_bundle_digest (lib_sha256 lib) (rm_bundle_sha256 m) raw) (\<lambda>_.
         ok_or (command_warnings m (Some signal) (rp_serial pack) gate_open) (\<lambda>warnings.
           Inr \<lparr>ap_serial = rp_serial pack, ap_pack = c, ap_warnings = warnings\<rparr>)))))) ) = Inr a"
    unfolding accept_pack_def ok_or_Inr_iff by auto
  obtain doc signal where content: "content = Some (doc, signal)" using k by (cases content) auto
  have "lib_pack lib raw = Some pack" using 1(1) by (simp add: decode_rules_pack_def decode_frozen_doc_Inr_iff)
  moreover have "static.signed ed (rp_key_id pack) (rp_signature pack) (rules_pack_signing_input lib pack)"
    using 1(2) static.frozen_signed by (simp add: verify_rules_pack_def)
  ultimately show thesis
    using that [of pack doc signal] k 1 content
    by (auto simp: ok_or_Inr_iff filter_outcome_Inr_iff check_bundle_digest_iff)
qed

lemma accepted_authentic:
  assumes "verify_rules_manifest_signature lib m (Some (static_verify ed)) = Inr ()" "check_manifest_fields m binary = Inr gate_open"
    "accept_pack lib (static_verify ed) binary budget m raw gate_open = Inr a"
  shows "authentic_pack lib ed binary budget m raw (state_of source a)"
proof -
  have fields: "rm_channel m = rules_channel" "check_min_binary_version (rm_min_binary_version m) binary = Inr ()"
    "schema_version_gate (rm_schema_version m) = Inr gate_open"
    using assms(2) by (auto simp: check_manifest_fields_def ok_or_Inr_iff)
  have sig: "static.signed ed (rm_key_id m) (rm_signature m) (rules_manifest_signing_input lib m)"
    using assms(1) static.frozen_signed by (simp add: manifest_signature_frozen)
  from assms(3) show ?thesis
  proof (rule accept_pack_D)
    fix pack doc signal
    assume p: "lib_pack lib raw = Some pack" "rp_serial pack = rm_serial m" "rp_serial pack \<le> max_int64"
      "static.signed ed (rp_key_id pack) (rp_signature pack) (rules_pack_signing_input lib pack)"
      "check_min_binary_version (rp_min_binary_version pack) binary = Inr ()"
      "decode_pack_content lib raw = Inr (Some (doc, signal))"
      "floor_check (default_floor_baseline lib) (Some doc) = Inr ()"
      "compile_with_budget lib (Some doc) budget = Inr (ap_pack a)"
      "hex_decode (trim_space (rm_bundle_sha256 m)) = Some (lib_sha256 lib raw)"
      "command_warnings m (Some signal) (rm_serial m) gate_open = Inr (ap_warnings a)" "ap_serial a = rm_serial m"
    have schema: "rm_schema_version m \<in> {1, 2}" "gate_open \<longleftrightarrow> rm_schema_version m = 2"
      using fields(3) by (auto simp: gate_version)
    have w: "if signal_present (Some signal)
         then rm_schema_version m = 1 \<and> ap_warnings a = [command_message m signal (rm_serial m)] else ap_warnings a = []"
      using p(10) schema by (auto simp: command_warnings_Inr_iff split: if_splits)
    show ?thesis
      unfolding authentic_pack_def state_of_def rules_state.simps
      using sig fields(1,2) schema(1) p w by blast
  qed
qed

section \<open>Runs\<close>

text \<open>A process starts, syncs, or finds its cache replaced by anything.\<close>

inductive sync_step :: "ruleslib \<Rightarrow> rules_sync \<Rightarrow> rules_sync \<Rightarrow> bool" for lib where
  start: "startup lib io s = (r, s') \<Longrightarrow> sync_step lib s s'"
| sync: "sync lib env s = (r, s') \<Longrightarrow> sync_step lib s s'"
| tamper: "sync_step lib s (s\<lparr>ry_cache := c\<rparr>)"

inductive sync_run :: "ruleslib \<Rightarrow> rules_sync \<Rightarrow> rules_sync \<Rightarrow> bool" for lib s where
  refl: "sync_run lib s s"
| step: "sync_run lib s t \<Longrightarrow> sync_step lib t u \<Longrightarrow> sync_run lib s u"

definition good_state :: "ruleslib \<Rightarrow> (bytes \<Rightarrow> bytes \<Rightarrow> bytes \<Rightarrow> bool) \<Rightarrow> rules_sync \<Rightarrow> bool" where
  "good_state lib ed s \<longleftrightarrow> ry_verifier s = static_verify ed \<and>
     (ry_active s = builtin_state \<or> (\<exists>m raw. authentic_pack lib ed (ry_binary s) (ry_budget s) m raw (ry_active s)))"

text \<open>The settings of a sync layer never change.\<close>

lemma load_cache_cases:
  obtains (kept) r where "load_cache lib io s = (r, s)"
    | (loaded) m b gate_open a where "verify_rules_manifest_signature lib m (Some (ry_verifier s)) = Inr ()"
      "check_manifest_fields m (ry_binary s) = Inr gate_open"
      "accept_pack lib (ry_verifier s) (ry_binary s) (ry_budget s) m b gate_open = Inr a"
      "load_cache lib io s = (Inr (), s\<lparr>ry_active := state_of SourceCache a\<rparr>)"
proof (cases "load_active lib io (ry_cache s)")
  case (Inl e)
  then show thesis using kept by (simp add: load_cache_def)
next
  case (Inr cached)
  let ?r = "ok_or (decode_rules_manifest lib (cp_manifest cached)) (\<lambda>m.
                ok_or (verify_rules_manifest_signature lib m (Some (ry_verifier s))) (\<lambda>_.
                ok_or (check_manifest_fields m (ry_binary s)) (\<lambda>gate_open.
                  accept_pack lib (ry_verifier s) (ry_binary s) (ry_budget s) m (cp_bundle cached) gate_open)))"
  show thesis
  proof (cases ?r)
    case (Inl e)
    with Inr show thesis using kept by (simp add: load_cache_def)
  next
    case ok: (Inr a)
    then obtain m gate_open where "verify_rules_manifest_signature lib m (Some (ry_verifier s)) = Inr ()"
      "check_manifest_fields m (ry_binary s) = Inr gate_open"
      "accept_pack lib (ry_verifier s) (ry_binary s) (ry_budget s) m (cp_bundle cached) gate_open = Inr a"
      by (auto simp: ok_or_Inr_iff)
    with Inr ok show thesis using loaded by (simp add: load_cache_def)
  qed
qed

lemma load_cache_good:
  assumes "good_state lib ed s" "load_cache lib io s = (r, s')"
  shows "good_state lib ed s'"
proof (cases rule: load_cache_cases [of lib io s])
  case (loaded m b gate_open a)
  then have "ry_verifier s = static_verify ed" using assms(1) by (simp add: good_state_def)
  with loaded accepted_authentic [of lib m ed "ry_binary s" gate_open "ry_budget s" b a SourceCache] assms show ?thesis
    by (auto simp: good_state_def)
qed (use assms in simp)

lemma load_cache_frame: "load_cache lib io s = (r, s') \<Longrightarrow> ry_cache s' = ry_cache s \<and> ry_mark s' = ry_mark s"
  by (cases rule: load_cache_cases [of lib io s]) auto

lemma fallback_state: "fallback lib io e s = (r, s') \<Longrightarrow> s' = s \<or> (\<exists>r'. rs_serial (ry_active s) = 0 \<and> load_cache lib io s = (r', s'))"
  by (auto simp: fallback_def split: if_splits prod.splits sum.splits)

lemma replay_state: "replay lib io serial s = (r, s') \<Longrightarrow> s' = s \<or> load_cache lib io s = (r, s')"
  by (auto simp: replay_def split: if_splits sum.splits)

text \<open>A sync changes nothing, loads the cache, or activates a pack that passed every check.\<close>

lemma check_rules_manifest_D:
  assumes "check_rules_manifest lib s now raw = Inr (m, gate_open)"
  shows "verify_rules_manifest_signature lib m (Some (ry_verifier s)) = Inr ()" "check_manifest_fields m (ry_binary s) = Inr gate_open"
    "epoch_time (rm_not_before m) \<le> now" "now \<le> epoch_time (rm_expires m)" "rm_serial m \<notin> set (rm_revoked_serials m)"
  using assms by (auto simp: check_rules_manifest_def verify_rules_manifest_def ok_or_Inr_iff)

lemma sync_cases:
  assumes "sync lib env s = (r, s')"
  obtains (kept) "s' = s"
    | (cached) r' where "load_cache lib (se_io env) s = (r', s')"
    | (remote) m manifest_raw bundle_raw gate_open a where
        "se_fetch env rules_manifest_url = Inr manifest_raw" "se_fetch env rules_bundle_url = Inr bundle_raw"
        "check_rules_manifest lib s (se_now env) manifest_raw = Inr (m, gate_open)"
        "word_of_int (hw_serial (ry_mark s)) < rm_serial m"
        "accept_pack lib (ry_verifier s) (ry_binary s) (ry_budget s) m bundle_raw gate_open = Inr a"
        "activate (se_io env) (se_mark_faults env) a manifest_raw bundle_raw SourceRemote s = (r, s')"
proof -
  consider "s' = s" | e r' where "fallback lib (se_io env) e s = (r', s')" | n where "replay lib (se_io env) n s = (r, s')"
    | m manifest_raw bundle_raw gate_open a where
        "se_fetch env rules_manifest_url = Inr manifest_raw" "se_fetch env rules_bundle_url = Inr bundle_raw"
        "check_rules_manifest lib s (se_now env) manifest_raw = Inr (m, gate_open)"
        "word_of_int (hw_serial (ry_mark s)) < rm_serial m"
        "accept_pack lib (ry_verifier s) (ry_binary s) (ry_budget s) m bundle_raw gate_open = Inr a"
        "activate (se_io env) (se_mark_faults env) a manifest_raw bundle_raw SourceRemote s = (r, s')"
    using assms unfolding sync_def sync_with_def activate_def Let_def
    by (auto split: if_splits sum.splits prod.splits)
  then show thesis
  proof cases
    case 2
    then show thesis using fallback_state kept cached by blast
  next
    case 3
    then show thesis using replay_state kept cached by blast
  qed (use kept remote in blast)+
qed

lemma activate_cases:
  obtains (failed) e c where "cache_store io (ap_serial a) m b (ry_cache s) = (Inl e, c)"
      "activate io mf a m b source s = (Inl e, s\<lparr>ry_cache := c\<rparr>)"
    | (active) r c mark where "cache_store io (ap_serial a) m b (ry_cache s) = (Inr (), c)"
      "file_advance mf (sint (ap_serial a)) (ry_mark s) = (r, mark)"
      "activate io mf a m b source s = (r, s\<lparr>ry_cache := c, ry_active := state_of source a, ry_mark := mark\<rparr>)"
  by (cases "cache_store io (ap_serial a) m b (ry_cache s)"; cases "fst (cache_store io (ap_serial a) m b (ry_cache s))";
      cases "file_advance mf (sint (ap_serial a)) (ry_mark s)")
    (auto simp: activate_def activate_with_def)

lemma sync_step_good: "sync_step lib s s' \<Longrightarrow> good_state lib ed s \<Longrightarrow> good_state lib ed s'"
proof (induction rule: sync_step.induct)
  case (start io s r s')
  then show ?case using load_cache_good by (simp add: startup_def)
next
  case (sync env s r s')
  from sync(1) show ?case
  proof (cases rule: sync_cases)
    case (remote m manifest_raw bundle_raw gate_open a)
    note ok = check_rules_manifest_D [OF remote(3)]
    have v: "ry_verifier s = static_verify ed" using sync(2) by (simp add: good_state_def)
    have "authentic_pack lib ed (ry_binary s) (ry_budget s) m bundle_raw (state_of SourceRemote a)"
      using accepted_authentic [of lib m ed] ok remote(5) v by simp
    with sync(2) remote(6) show ?thesis
      by (cases rule: activate_cases [of "se_io env" a manifest_raw bundle_raw s "se_mark_faults env" SourceRemote])
        (auto simp: good_state_def)
  qed (use sync(2) load_cache_good in blast)+
next
  case (tamper s c)
  then show ?case by (simp add: good_state_def)
qed

lemma sync_run_good: "sync_run lib s t \<Longrightarrow> good_state lib ed s \<Longrightarrow> good_state lib ed t"
  by (induction rule: sync_run.induct) (auto intro: sync_step_good)

lemma new_rules_sync_good: "new_rules_sync dec readable f c (Some (static_verify ed)) bv budget = Inr s \<Longrightarrow> good_state lib ed s"
  by (auto simp: new_rules_sync_def good_state_def ok_or_Inr_iff)

text \<open>
  C25: Whatever the network serves, however time and file system behave and whatever is done to the
  cached files between the steps, in every state a rules sync reaches the active rule set is the
  built-in one or a pack that is signed by an embedded key, pointed at by a manifest signed by an
  embedded key with its very serial and digest, meets the minimum versions and the floor, compiles,
  and carries command rules only with their warning and under schema version 1.
\<close>

theorem active_pack_authentic:
  assumes "new_rules_sync dec readable mark_file cache (Some (static_verify ed)) binary_version budget = Inr s" "sync_run lib s t"
  shows "ry_active t = builtin_state \<or> (\<exists>m raw. authentic_pack lib ed (ry_binary t) (ry_budget t) m raw (ry_active t))"
  using sync_run_good [OF assms(2) new_rules_sync_good [OF assms(1)]] by (simp add: good_state_def)

section \<open>Forward only\<close>

definition mark_in_range :: "rules_sync \<Rightarrow> bool" where
  "mark_in_range s \<longleftrightarrow> 0 \<le> hw_serial (ry_mark s) \<and> hw_serial (ry_mark s) < 2 ^ 63"

lemma word_of_mark_less:
  assumes "0 \<le> k" "k < 2 ^ 63" "word_of_int k < (n :: u64)"
  shows "k < uint n"
proof -
  have "uint (word_of_int k :: u64) = k" using assms(1,2) by (simp add: uint_word_of_int take_bit_int_eq_self)
  with assms(3) show ?thesis by (simp add: word_less_def)
qed

lemma sint_of_small: "n \<le> max_int64 \<Longrightarrow> sint n = uint n"
proof -
  assume "n \<le> max_int64"
  then have "uint n \<le> uint max_int64" by (simp add: word_le_def)
  then have "uint n < 2 ^ 63" by (simp add: max_int64_def)
  moreover have "- (2 ^ 63) \<le> uint n" using unsigned_greater_eq [of n] by (rule order_trans [rotated]) simp
  ultimately have "signed_take_bit 63 (uint n) = uint n" by (intro signed_take_bit_int_eq_self)
  then show ?thesis by (simp add: sint_uint)
qed

lemma file_advance_cases:
  assumes "file_advance mf n s = (r, s')" "hw_serial s < n"
  shows "(r = Inr () \<and> hw_serial s' = n) \<or> ((\<exists>e. r = Inl e) \<and> hw_serial s' = hw_serial s)"
proof (cases rule: persist_file_cases [of mf "high_water_doc n" "hw_file s"])
  case (1 e)
  with assms show ?thesis by (auto simp: file_advance_def persist_high_water_def)
next
  case 2
  with assms show ?thesis by (auto simp: file_advance_def persist_high_water_def)
qed

text \<open>
  A sync moves the active pack and the mark forward only. Either it changes neither the mark nor
  the cache, and the active pack is unchanged or reloaded from the cache; or the manifest it fetched
  is fresh, does not revoke its own serial and names one above the mark, the active pack is
  unchanged (a cache write failed) or the fetched one, and the mark is where it was or - exactly
  when the sync reports success - at the new serial.
\<close>

theorem sync_forward_only:
  assumes "sync lib env s = (r, s')" "mark_in_range s"
  shows "(ry_mark s' = ry_mark s \<and> ry_cache s' = ry_cache s \<and>
      (ry_active s' = ry_active s \<or> rs_source (ry_active s') = SourceCache)) \<or>
    (\<exists>raw m gate_open. se_fetch env rules_manifest_url = Inr raw \<and> check_rules_manifest lib s (se_now env) raw = Inr (m, gate_open) \<and>
      epoch_time (rm_not_before m) \<le> se_now env \<and> se_now env \<le> epoch_time (rm_expires m) \<and>
      rm_serial m \<notin> set (rm_revoked_serials m) \<and> hw_serial (ry_mark s) < uint (rm_serial m) \<and>
      (ry_active s' = ry_active s \<and> (\<exists>e. r = Inl e) \<or> rs_source (ry_active s') = SourceRemote \<and> rs_serial (ry_active s') = rm_serial m) \<and>
      hw_serial (ry_mark s') = (if r = Inr () then uint (rm_serial m) else hw_serial (ry_mark s)))"
  using assms(1)
proof (cases rule: sync_cases)
  case (cached r')
  then show ?thesis
    using load_cache_frame [OF cached] by (cases rule: load_cache_cases [of lib "se_io env" s]) (auto simp: state_of_def)
next
  case (remote m manifest_raw bundle_raw gate_open a)
  note ok = check_rules_manifest_D [OF remote(3)]
  have up: "hw_serial (ry_mark s) < uint (rm_serial m)"
    using word_of_mark_less remote(4) assms(2) by (simp add: mark_in_range_def)
  have a: "ap_serial a = rm_serial m" "ap_serial a \<le> max_int64"
    using remote(5) by (auto simp: accept_pack_def ok_or_Inr_iff split: option.splits)
  have "hw_serial (ry_mark s) < sint (ap_serial a)" using up a sint_of_small by simp
  from file_advance_cases [OF _ this] remote(6)
  have "(ry_active s' = ry_active s \<and> (\<exists>e. r = Inl e) \<or> rs_source (ry_active s') = SourceRemote \<and> rs_serial (ry_active s') = rm_serial m) \<and>
      hw_serial (ry_mark s') = (if r = Inr () then uint (rm_serial m) else hw_serial (ry_mark s))"
    by (cases rule: activate_cases [of "se_io env" a manifest_raw bundle_raw s "se_mark_faults env" SourceRemote])
      (fastforce simp: state_of_def a(1) sint_of_small [OF a(2) [unfolded a(1)]])+
  with ok up remote(1,3) show ?thesis by blast
qed simp

section \<open>The cache\<close>

text \<open>The JSON round trip of the pointer document.\<close>

definition pointer_reads_back :: "ruleslib \<Rightarrow> bool" where
  "pointer_reads_back lib \<longleftrightarrow> (\<forall>n. lib_pointer lib (active_doc n) = Some n)"

definition readable :: "cache_io \<Rightarrow> bool" where
  "readable io \<longleftrightarrow> io_read_pointer io \<and> io_read_manifest io \<and> io_read_bundle io"

lemma write_file_atomic_result: "(\<exists>e. write_file_atomic f d old = (Inl e, old)) \<or> write_file_atomic f d old = (Inr (), Some d)"
  by (simp add: write_file_atomic_def)

lemma write_file_atomic_cases:
  obtains e where "write_file_atomic f d old = (Inl e, old)" | "write_file_atomic f d old = (Inr (), Some d)"
  using write_file_atomic_result [of f d old] by blast

lemma cache_store_cases:
  obtains (failed) e c' where "cache_store io n m b c = (Inl e, c')" "rc_pointer c' = rc_pointer c"
      "\<And>k. k \<noteq> n \<Longrightarrow> rc_manifests c' k = rc_manifests c k \<and> rc_bundles c' k = rc_bundles c k"
    | (stored) "cache_store io n m b c =
        (Inr (), \<lparr>rc_pointer = Some (active_doc n), rc_manifests = (rc_manifests c)(n \<mapsto> m), rc_bundles = (rc_bundles c)(n \<mapsto> b)\<rparr>)"
proof (cases rule: write_file_atomic_cases [of "io_write_manifest io" m "rc_manifests c n"])
  case (1 e)
  then show thesis using failed by (simp add: cache_store_def)
next
  case man: 2
  show thesis
  proof (cases rule: write_file_atomic_cases [of "io_write_bundle io" b "rc_bundles c n"])
    case (1 e)
    with man show thesis using failed by (simp add: cache_store_def Let_def)
  next
    case bun: 2
    show thesis
    proof (cases rule: write_file_atomic_cases [of "io_write_pointer io" "active_doc n" "rc_pointer c"])
      case (1 e)
      with man bun show thesis using failed by (simp add: cache_store_def Let_def)
    next
      case 2
      with man bun show thesis using stored by (simp add: cache_store_def Let_def)
    qed
  qed
qed


text \<open>
  A restart without network keeps the pack: when a sync activated a fetched pack, even if the
  mark could not be written afterwards, a new process over the same files starts up with the same
  rules, serial and warnings, whatever time it is.
\<close>

theorem restart_keeps_pack:
  assumes "pointer_reads_back lib" "readable io" "mark_in_range s"
    "sync lib env s = (r, s')" "ry_active s' \<noteq> ry_active s" "rs_source (ry_active s') = SourceRemote"
    "ry_cache fresh = ry_cache s'" "ry_verifier fresh = ry_verifier s" "ry_binary fresh = ry_binary s" "ry_budget fresh = ry_budget s"
  shows "startup lib io fresh = (Inr (), fresh\<lparr>ry_active := (ry_active s')\<lparr>rs_source := SourceCache\<rparr>\<rparr>)"
  using assms(4)
proof (cases rule: sync_cases)
  case kept
  with assms(5) show ?thesis by simp
next
  case (cached r')
  then show ?thesis
    using assms(5,6) by (cases rule: load_cache_cases [of lib "se_io env" s]) (auto simp: state_of_def)
next
  case (remote m manifest_raw bundle_raw gate_open a)
  note ok = check_rules_manifest_D [OF remote(3)]
  have a: "ap_serial a = rm_serial m"
    using remote(5) by (auto simp: accept_pack_def ok_or_Inr_iff split: option.splits)
  have dec: "decode_rules_manifest lib manifest_raw = Inr m"
    using remote(3) by (auto simp: check_rules_manifest_def ok_or_Inr_iff)
  have up: "hw_serial (ry_mark s) < uint (rm_serial m)"
    using word_of_mark_less remote(4) assms(3) by (simp add: mark_in_range_def)
  with assms(3) have nz: "rm_serial m \<noteq> 0" by (auto simp: mark_in_range_def)
  show ?thesis
  proof (cases rule: activate_cases [of "se_io env" a manifest_raw bundle_raw s "se_mark_faults env" SourceRemote])
    case (failed e c)
    with remote(6) assms(5) show ?thesis by auto
  next
    case (active r' c mark)
    have s': "ry_active s' = state_of SourceRemote a" "ry_cache s' = c" using remote(6) active(3) by auto
    have c: "c = \<lparr>rc_pointer = Some (active_doc (rm_serial m)), rc_manifests = (rc_manifests (ry_cache s))(rm_serial m \<mapsto> manifest_raw),
        rc_bundles = (rc_bundles (ry_cache s))(rm_serial m \<mapsto> bundle_raw)\<rparr>"
      using active(1) a by (cases rule: cache_store_cases [of "se_io env" "ap_serial a" manifest_raw bundle_raw "ry_cache s"]) auto
    have "load_active lib io (ry_cache fresh) = Inr \<lparr>cp_serial = rm_serial m, cp_manifest = manifest_raw, cp_bundle = bundle_raw\<rparr>"
      unfolding assms(7) s'(2) c using assms(1,2) nz
      by (simp add: load_active_def cache_active_serial_def pointer_reads_back_def readable_def read_cached_doc_def)
    with dec ok(1,2) remote(5) assms(8-10) have "load_cache lib io fresh = (Inr (), fresh\<lparr>ry_active := state_of SourceCache a\<rparr>)"
      by (simp add: load_cache_def)
    then show ?thesis by (simp add: startup_def s'(1) state_of_def)
  qed
qed

section \<open>A sample world\<close>

definition sample_rules_manifest :: rules_manifest where
  "sample_rules_manifest =
     \<lparr>rm_channel = rules_channel, rm_schema_version = 1, rm_min_binary_version = ''0.3.0'', rm_serial = 7, rm_key_id = key_rules_root,
      rm_not_before = 0, rm_expires = 100, rm_bundle_sha256 = ''ab'', rm_bundle = [], rm_revoked_serials = [3],
      rm_signature = sample_signature\<rparr>"

definition sample_rules_pack :: rules_pack where
  "sample_rules_pack =
     \<lparr>rp_channel = rules_channel, rp_schema_version = 1, rp_min_binary_version = [], rp_serial = 7, rp_key_id = key_rules_root,
      rp_not_before = 0, rp_expires = 100, rp_detectors = [], rp_disabled_categories = [], rp_allowlist = [], rp_blocklist = [''tok''],
      rp_sensitive_keys = None, rp_rules = [], rp_signature = sample_signature\<rparr>"

definition sample_pack_document :: document where
  "sample_pack_document =
     \<lparr>dc_detectors = [], dc_disabled_categories = [], dc_allowlist = [], dc_blocklist = [''tok''],
      dc_sensitive_keys = None, dc_rules = [], dc_remote_pack = True\<rparr>"

definition sample_pack_members :: "(bytes \<times> bytes) list" where
  "sample_pack_members = [(''serial'', ''7''), (''key_id'', ''rules''), (''blocklist'', ''[]'')]"

definition sample_ruleslib :: ruleslib where
  "sample_ruleslib =
     \<lparr>lib_fields = \<lambda>raw. Some (Some (if raw = ''content'' then sample_pack_members else (''signature'', ''s'') # sample_pack_members)),
      lib_log2 = log 2, lib_to_lower = go_lower, lib_regexp = \<lambda>_. None,
      lib_document = \<lambda>_. Some sample_pack_document, lib_items = \<lambda>_. None, lib_sensitive = \<lambda>_. None,
      lib_manifest = \<lambda>_. Some sample_rules_manifest, lib_pack = \<lambda>_. Some sample_rules_pack,
      lib_pointer = \<lambda>raw. map_option word_of_int (doc_reader raw),
      lib_marshal_manifest = \<lambda>_. Some ''m'', lib_marshal_pack = \<lambda>_. Some ''p'', lib_marshal_revocations = \<lambda>_. Some ''r'',
      lib_marshal_members = \<lambda>_. Some ''content'', lib_sha256 = \<lambda>_. [CHR 0xAB]\<rparr>"

definition sample_pack_compiled :: compiled where
  "sample_pack_compiled =
     \<lparr>co_rules = [], co_allowlist = [], co_blocklist = [''tok''], co_sensitive = None, co_command_ids = [],
      co_budget = primitive_byte_budget_bytes\<rparr>"

definition no_faults :: cache_io where
  "no_faults = \<lparr>io_read_pointer = True, io_read_manifest = True, io_read_bundle = True,
     io_write_manifest = \<lambda>_. False, io_write_bundle = \<lambda>_. False, io_write_pointer = \<lambda>_. False\<rparr>"

definition sample_sync_env :: "faults \<Rightarrow> sync_env" where
  "sample_sync_env mark_faults =
     \<lparr>se_no_sync = None, se_fetch = \<lambda>_. Inr ''doc'', se_now = 50000000000, se_io = no_faults, se_mark_faults = mark_faults\<rparr>"

definition empty_cache :: rules_cache where
  "empty_cache = \<lparr>rc_pointer = None, rc_manifests = \<lambda>_. None, rc_bundles = \<lambda>_. None\<rparr>"

definition sample_sync :: rules_sync where
  "sample_sync =
     \<lparr>ry_cache = empty_cache, ry_verifier = static_verify (\<lambda>_ _ _. True), ry_mark = \<lparr>hw_file = None, hw_serial = 0\<rparr>,
      ry_binary = Version 0 5 0, ry_budget = primitive_byte_budget_bytes, ry_active = builtin_state\<rparr>"

definition sample_accepted :: accepted_pack where
  "sample_accepted = \<lparr>ap_serial = 7, ap_pack = sample_pack_compiled, ap_warnings = []\<rparr>"

lemma sample_pointer: "pointer_reads_back sample_ruleslib"
proof -
  have "high_water_doc (int (unat n)) = active_doc n" for n
    by (simp add: high_water_doc_def active_doc_def format_int_def format_uint_def)
  then have "doc_reader (active_doc n) = Some (int (unat n))" for n
    using doc_reader_reads_back by (metis reads_back_def of_nat_0_le_iff)
  then show ?thesis by (simp add: pointer_reads_back_def sample_ruleslib_def)
qed

lemma sample_new_sync: "new_rules_sync doc_reader True None empty_cache (Some (static_verify (\<lambda>_ _ _. True))) [] 0 = Inr sample_sync"
proof -
  have "parse_version ''0.5.0'' = Inr (Version 0 5 0)" by code_simp
  then show ?thesis
    by (simp add: new_rules_sync_def new_file_high_water_def read_high_water_def sample_sync_def)
qed

lemma sample_check_manifest:
  "check_rules_manifest sample_ruleslib sample_sync 50000000000 ''doc'' = Inr (sample_rules_manifest, False)"
proof -
  have v: "check_min_binary_version ''0.3.0'' (Version 0 5 0) = Inr ()" by code_simp
  have "verify_rules_manifest_signature sample_ruleslib sample_rules_manifest (Some (static_verify (\<lambda>_ _ _. True))) = Inr ()"
    unfolding manifest_signature_frozen
    using sample_verify [of domain_rules_manifest key_rules_root "rules_manifest_signing_input sample_ruleslib sample_rules_manifest"]
    by (simp add: sample_rules_manifest_def domain_rules_manifest_def)
  moreover have "decode_rules_manifest sample_ruleslib ''doc'' = Inr sample_rules_manifest"
    by (simp add: decode_rules_manifest_def decode_frozen_doc_Inr_iff sample_ruleslib_def doc_limit_def domain_rules_manifest_def max_rules_doc_bytes_def)
  ultimately show ?thesis
    by (simp add: check_rules_manifest_def sample_sync_def verify_rules_manifest_def)
      (simp add: sample_rules_manifest_def epoch_time_def schema_version_gate_def check_manifest_fields_def v)
qed

lemma sample_accept:
  "accept_pack sample_ruleslib (static_verify (\<lambda>_ _ _. True)) (Version 0 5 0) primitive_byte_budget_bytes sample_rules_manifest ''doc'' False
   = Inr sample_accepted"
proof -
  have "decode_rules_pack sample_ruleslib ''doc'' = Inr sample_rules_pack"
    by (simp add: decode_rules_pack_def decode_frozen_doc_Inr_iff sample_ruleslib_def doc_limit_def domain_rules_pack_def max_rules_doc_bytes_def)
  moreover have "verify_rules_pack sample_ruleslib sample_rules_pack (Some (static_verify (\<lambda>_ _ _. True))) = Inr ()"
    unfolding verify_rules_pack_def
    using sample_verify [of domain_rules_pack key_rules_root "rules_pack_signing_input sample_ruleslib sample_rules_pack"]
    by (simp add: sample_rules_pack_def domain_rules_pack_def)
  moreover have "check_min_binary_version (rp_min_binary_version sample_rules_pack) (Version 0 5 0) = Inr ()"
    unfolding sample_rules_pack_def by code_simp
  moreover have "decode_pack_content sample_ruleslib ''doc'' = Inr (Some (sample_pack_document, command_signal_of sample_pack_document))"
  proof -
    have mem: "map_of sample_pack_members ''serial'' = Some ''7''" "map_of sample_pack_members ''key_id'' = Some ''rules''"
      "map_of sample_pack_members ''sensitive_keys'' = None" "map_of sample_pack_members ''rules'' = None"
      "list_all (\<lambda>(key, _). key \<in> set document_fields) sample_pack_members"
      by (simp_all add: sample_pack_members_def document_fields_def)
    have "strict_object sample_ruleslib ''content'' document_fields = Inr sample_pack_members"
      using mem(5) by (simp add: strict_object_def sample_ruleslib_def)
    moreover have "lib_document sample_ruleslib ''content'' = Some sample_pack_document" by (simp add: sample_ruleslib_def)
    moreover have "finalize_document sample_ruleslib (sample_pack_document\<lparr>dc_remote_pack := True\<rparr>) None = Inr (Some sample_pack_document)"
      by (simp add: finalize_document_def sample_pack_document_def check_literals_def max_list_entries_def max_literal_bytes_def max_rules_def)
    ultimately have "decode_document sample_ruleslib ''content'' = Inr (Some sample_pack_document)"
      by (simp add: decode_document_def Let_def mem)
    then have "decode_document_with_signal sample_ruleslib ''content'' = Inr (Some (sample_pack_document, command_signal_of sample_pack_document))"
      by (simp add: decode_document_with_signal_def)
    moreover have "lib_fields sample_ruleslib ''doc'' \<noteq> None" "lib_marshal_members sample_ruleslib ms = Some ''content''" for ms
      by (simp_all add: sample_ruleslib_def)
    ultimately show ?thesis
      by (auto simp: decode_pack_content_def)
  qed
  moreover have "floor_check (default_floor_baseline sample_ruleslib) (Some sample_pack_document) = Inr ()"
  proof -
    have "find (\<lambda>x. False) xs = None" for xs :: "bytes list" by (induction xs) simp_all
    then show ?thesis by (simp add: floor_check_def sample_pack_document_def)
  qed
  moreover have "compile_with_budget sample_ruleslib (Some sample_pack_document) primitive_byte_budget_bytes = Inr sample_pack_compiled"
    by (simp add: compile_with_budget_def sample_pack_document_def copy_literals_def normalize_budget_def primitive_byte_budget_bytes_def
        sample_pack_compiled_def)
  moreover have "check_bundle_digest (lib_sha256 sample_ruleslib) (rm_bundle_sha256 sample_rules_manifest) ''doc'' = Inr ()"
    unfolding check_bundle_digest_iff sample_rules_manifest_def sample_ruleslib_def by simp code_simp
  moreover have "command_warnings sample_rules_manifest (Some (command_signal_of sample_pack_document)) 7 False = Inr []"
    by (simp add: command_warnings_def command_signal_of_def sample_pack_document_def signal_present_def)
  moreover have "rp_serial sample_rules_pack = 7" "rm_serial sample_rules_manifest = 7"
    by (simp_all add: sample_rules_pack_def sample_rules_manifest_def)
  ultimately show ?thesis
    by (simp add: accept_pack_def filter_outcome_def max_int64_def sample_accepted_def)
qed

definition sample_synced :: "faults \<Rightarrow> rules_sync" where
  "sample_synced mark_faults = snd (sync sample_ruleslib (sample_sync_env mark_faults) sample_sync)"

lemma sample_sync_run:
  "sync sample_ruleslib (sample_sync_env mf) sample_sync = (fst (file_advance mf 7 \<lparr>hw_file = None, hw_serial = 0\<rparr>), sample_synced mf)"
  "ry_active (sample_synced mf) = state_of SourceRemote sample_accepted"
proof -
  have acc: "accept_pack sample_ruleslib (ry_verifier sample_sync) (ry_binary sample_sync) (ry_budget sample_sync) sample_rules_manifest ''doc'' False
   = Inr sample_accepted"
    using sample_accept by (simp add: sample_sync_def)
  have io: "write_file_atomic (\<lambda>_. False) d old = (Inr (), Some d)" for d old by (simp add: write_file_atomic_def)
  have "sync sample_ruleslib (sample_sync_env mf) sample_sync =
      activate no_faults mf sample_accepted ''doc'' ''doc'' SourceRemote sample_sync"
    using sample_check_manifest acc
    by (simp add: sync_def sync_with_def activate_def sample_sync_env_def) (simp add: sample_sync_def sample_rules_manifest_def)
  also have "fst \<dots> = fst (file_advance mf 7 \<lparr>hw_file = None, hw_serial = 0\<rparr>) \<and> ry_active (snd \<dots>) = state_of SourceRemote sample_accepted"
    by (simp add: activate_def activate_with_def cache_store_def io no_faults_def sample_accepted_def sample_sync_def Let_def split: prod.splits)
  finally show "sync sample_ruleslib (sample_sync_env mf) sample_sync = (fst (file_advance mf 7 \<lparr>hw_file = None, hw_serial = 0\<rparr>), sample_synced mf)"
    "ry_active (sample_synced mf) = state_of SourceRemote sample_accepted"
    by (auto simp: sample_synced_def prod_eq_iff)
qed

lemma active_pack_authentic_witness:
  "\<exists>s t. new_rules_sync doc_reader True None empty_cache (Some (static_verify (\<lambda>_ _ _. True))) [] 0 = Inr s \<and> sync_run sample_ruleslib s t \<and>
     rs_serial (ry_active t) = 7 \<and>
     (ry_active t = builtin_state \<or>
      (\<exists>m raw. authentic_pack sample_ruleslib (\<lambda>_ _ _. True) (ry_binary t) (ry_budget t) m raw (ry_active t)))"
proof -
  have "sync_step sample_ruleslib sample_sync (sample_synced (\<lambda>_. False))"
    using sample_sync_run(1) by (rule sync_step.sync)
  then have run: "sync_run sample_ruleslib sample_sync (sample_synced (\<lambda>_. False))"
    by (rule sync_run.step [OF sync_run.refl])
  have "rs_serial (ry_active (sample_synced (\<lambda>_. False))) = 7"
    by (simp add: sample_sync_run(2) state_of_def sample_accepted_def)
  with active_pack_authentic [OF sample_new_sync run] run sample_new_sync show ?thesis by blast
qed

text \<open>The mark cannot be written, and the pack is active and cached all the same.\<close>

lemma sync_forward_only_witness:
  "\<exists>r s'. sync sample_ruleslib (sample_sync_env (\<lambda>_. True)) sample_sync = (r, s') \<and> r = Inl ErrIo \<and> mark_in_range sample_sync \<and>
     hw_serial (ry_mark s') = 0 \<and> rs_serial (ry_active s') = 7"
proof -
  have range: "mark_in_range sample_sync" by (simp add: mark_in_range_def sample_sync_def)
  have r: "fst (file_advance (\<lambda>_. True) 7 \<lparr>hw_file = None, hw_serial = 0\<rparr>) = Inl ErrIo"
    by (simp add: file_advance_def persist_high_water_def persist_file_def)
  have s: "rs_source (ry_active (sample_synced (\<lambda>_. True))) = SourceRemote" "rs_serial (ry_active (sample_synced (\<lambda>_. True))) = 7"
      "rs_source (ry_active sample_sync) = SourceBuiltin" "hw_serial (ry_mark sample_sync) = 0"
    by (simp_all add: sample_sync_run(2) state_of_def sample_accepted_def sample_sync_def builtin_state_def)
  from sync_forward_only [OF sample_sync_run(1) range, of "\<lambda>_. True"] r s(4)
  have "hw_serial (ry_mark (sample_synced (\<lambda>_. True))) = 0" by auto
  with sample_sync_run(1) [of "\<lambda>_. True"] r s(2) range show ?thesis by auto
qed

lemma restart_keeps_pack_witness:
  "\<exists>fresh. ry_active fresh = builtin_state \<and>
     startup sample_ruleslib no_faults fresh =
       (Inr (), fresh\<lparr>ry_active := (state_of SourceRemote sample_accepted)\<lparr>rs_source := SourceCache\<rparr>\<rparr>)"
proof -
  let ?s = "sample_synced (\<lambda>_. False)"
  let ?fresh = "sample_sync\<lparr>ry_cache := ry_cache ?s\<rparr>"
  have range: "mark_in_range sample_sync" by (simp add: mark_in_range_def sample_sync_def)
  have moved: "rs_source (ry_active ?s) = SourceRemote" "rs_source (ry_active sample_sync) = SourceBuiltin"
    by (simp_all add: sample_sync_run(2) state_of_def sample_sync_def builtin_state_def)
  then have ne: "ry_active ?s \<noteq> ry_active sample_sync" by (metis rule_source.distinct(3))
  have "readable no_faults" by (simp add: readable_def no_faults_def)
  from restart_keeps_pack [OF sample_pointer this range sample_sync_run(1) ne moved(1), of ?fresh]
  have "startup sample_ruleslib no_faults ?fresh = (Inr (), ?fresh\<lparr>ry_active := (ry_active ?s)\<lparr>rs_source := SourceCache\<rparr>\<rparr>)" by simp
  moreover have "ry_active ?fresh = builtin_state" by (simp add: sample_sync_def)
  ultimately show ?thesis unfolding sample_sync_run(2) by blast
qed

definition cache_of :: "u64 \<Rightarrow> bytes \<Rightarrow> bytes \<Rightarrow> rules_cache" where
  "cache_of serial m b = \<lparr>rc_pointer = Some (active_doc serial), rc_manifests = [serial \<mapsto> m], rc_bundles = [serial \<mapsto> b]\<rparr>"


end
