(* ===== verification/Traffic.thy ===== *)
theory Traffic
  imports Gateway Packs
begin

text \<open>
  What the assembled gateway guarantees about the traffic through it: which requests leave the
  machine and with which bytes, that every request is answered, and what a session keeps.
\<close>

section \<open>Frames\<close>

text \<open>The session part of the state, which counters and notices do not touch.\<close>

lemma session_frames [simp]:
  "plane_state.more (on_counters f s) = plane_state.more s"
  "plane_state.more (log_line l s) = plane_state.more s"
  "plane_state.more (log_refusal doc s) = plane_state.more s"
  "plane_state.more (count_block s) = plane_state.more s"
  by (simp_all add: on_counters_def log_line_def log_refusal_def count_block_def)

lemma log_lines_more [simp]: "plane_state.more (fold log_line ls s) = plane_state.more s"
  by (induction ls arbitrary: s) simp_all

lemma warn_rules_more [simp]: "plane_state.more (warn_rules h ids s) = plane_state.more s"
  by (simp add: warn_rules_def split: option.split)

lemma same_more:
  "plane_state.more (s' :: gateway_state) = plane_state.more s \<Longrightarrow>
     gs_backfiller s' = gs_backfiller s \<and> gs_engine s' = gs_engine s
       \<and> gs_forwarders s' = gs_forwarders s \<and> gs_sent s' = gs_sent s"
  by (cases s; cases s') simp

lemma evaluate_body_more: "evaluate_body h body s = (r, s') \<Longrightarrow> plane_state.more s' = plane_state.more s"
  by (auto simp: evaluate_body_def split: option.splits if_splits)

lemma handle_response_more: "handle_response h up s = (r, s') \<Longrightarrow> plane_state.more s' = plane_state.more s"
  by (auto simp: handle_response_def Let_def dest!: evaluate_body_more split: option.splits sum.splits prod.splits)

lemma evaluate_events_more:
  "fold (evaluate_event dec) evs (v, s) = (v', s') \<Longrightarrow> plane_state.more s' = plane_state.more s"
proof (induction evs arbitrary: v s)
  case (Cons ev evs)
  obtain v1 s1 where one: "evaluate_event dec ev (v, s) = (v1, s1)" by fastforce
  then have "plane_state.more s1 = plane_state.more s"
    by (auto simp: evaluate_event_def split: if_splits option.splits)
  with Cons.IH [of v1 s1] Cons.prems one show ?case by simp
qed simp

lemma evaluate_sse_more:
  "evaluate_sse h dec body s = (d, b, s') \<Longrightarrow> plane_state.more s' = plane_state.more s"
  by (auto simp: evaluate_sse_def Let_def dest!: evaluate_events_more split: if_splits prod.splits)

lemma handle_sse_more: "handle_buffered_sse h up s = (r, s') \<Longrightarrow> plane_state.more s' = plane_state.more s"
  by (auto simp: handle_buffered_sse_def Let_def dest!: evaluate_sse_more
      split: option.splits sum.splits prod.splits bool.splits)

lemma commit_response_more:
  assumes "\<And>r s'. respond s = (r, s') \<Longrightarrow> plane_state.more s' = plane_state.more s"
    and "commit_response respond w s = (w', s')"
  shows "plane_state.more s' = plane_state.more s"
  using assms by (auto simp: commit_response_def split: prod.splits sum.splits)

lemma commit_paths_more:
  "commit_response (handle_buffered_sse h up) w s = (w', s') \<Longrightarrow> plane_state.more s' = plane_state.more s"
  "commit_response (handle_response h up) w s = (w', s') \<Longrightarrow> plane_state.more s' = plane_state.more s"
  using commit_response_more handle_sse_more handle_response_more by metis+

lemma rw_finish_more: "rw_finish h w s = (w', s') \<Longrightarrow> plane_state.more s' = plane_state.more s"
  unfolding rw_finish_def Let_def using commit_paths_more [of h _ _ s w' s'] by (auto split: if_splits)

section \<open>Redaction\<close>

lemma redact_request_frame:
  assumes "redact_request g wd body s = (r, s')"
  shows "ps_counters s' = ps_counters s \<and> gs_forwarders s' = gs_forwarders s \<and> gs_sent s' = gs_sent s"
proof -
  have rep: "plane_state.more (report_budget_exceeded g ls s) = plane_state.more s
      \<and> ps_counters (report_budget_exceeded g ls s) = ps_counters s" for ls
    by (simp add: report_budget_exceeded_def log_line_def Let_def)
  have fl: "ps_counters (fold log_line ls x) = ps_counters x" for ls and x :: gateway_state
    by (induction ls arbitrary: x) (simp_all add: log_line_def)
  have sess: "gs_forwarders x = gs_forwarders y \<and> gs_sent x = gs_sent y"
    if "plane_state.more x = plane_state.more y" for x y :: gateway_state
    using same_more [OF that] by simp
  show ?thesis
    using assms rep sess [OF conjunct1 [OF rep]] sess [OF log_lines_more]
    by (auto simp: redact_request_def Let_def fl split: sum.splits prod.splits if_splits)
qed


lemma redaction_transform_frame:
  assumes "redaction_transform g wd body s = (r, s')"
  shows "gs_forwarders s' = gs_forwarders s \<and> gs_sent s' = gs_sent s"
    "\<forall>out. r = Some out \<longrightarrow> (\<exists>n s1. redact_request g wd body s = (Inr (out, n), s1)
       \<and> gs_backfiller s1 = gs_backfiller s' \<and> gs_engine s1 = gs_engine s')"
proof -
  obtain q s1 where q: "redact_request g wd body s = (q, s1)" by fastforce
  have "gs_forwarders s' = gs_forwarders s1 \<and> gs_sent s' = gs_sent s1
      \<and> gs_backfiller s' = gs_backfiller s1 \<and> gs_engine s' = gs_engine s1"
    using assms q same_more [OF session_frames(1)]
    by (auto simp: redaction_transform_def split: sum.splits)
  with redact_request_frame [OF q]
  show "gs_forwarders s' = gs_forwarders s \<and> gs_sent s' = gs_sent s"
    and "\<forall>out. r = Some out \<longrightarrow> (\<exists>n s1. redact_request g wd body s = (Inr (out, n), s1)
       \<and> gs_backfiller s1 = gs_backfiller s' \<and> gs_engine s1 = gs_engine s')"
    using assms q by (auto simp: redaction_transform_def split: sum.splits)
qed

section \<open>The forwarder\<close>

lemma refuse_local_more: "refuse_local limit st code w s = (w', s') \<Longrightarrow> plane_state.more s' = plane_state.more s"
  by (auto simp: refuse_local_def)

lemma transport_error_more:
  "write_transport_error limit t w s = (w', s') \<Longrightarrow> plane_state.more s' = plane_state.more s"
  by (auto simp: write_transport_error_def refuse_local_def split: if_splits)

text \<open>
  What the forwarder did to the session: nothing, or one run of the transform on the whole body. A
  dispatched request carries what the transform gave.
\<close>

lemma forwarder_serve_spec:
  fixes s :: gateway_state
  assumes "forwarder_serve f r w s = (sent, w', s')"
  shows "(sent = None \<and> plane_state.more s' = plane_state.more s)
    \<or> (\<exists>body t s1. identity_only_encoding (req_header r) \<and> read_request_body (fw_max_body f) r = Inr body
        \<and> fw_transform f body s = (t, s1) \<and> plane_state.more s' = plane_state.more s1
        \<and> (sent = None \<or> (\<exists>out. t = Some out \<and> sent = Some (outbound_of (fw_base f) r out))))"
proof (cases "identity_only_encoding (req_header r)")
  case False
  with assms show ?thesis by (auto simp: forwarder_serve_def Let_def dest: refuse_local_more)
next
  case True
  show ?thesis
  proof (cases "read_request_body (fw_max_body f) r")
    case (Inl e)
    with assms True show ?thesis
      by (cases e) (auto simp: forwarder_serve_def Let_def refuse_body_too_large_def dest: refuse_local_more)
  next
    case (Inr body)
    obtain t s1 where t: "fw_transform f body s = (t, s1)" by fastforce
    have "plane_state.more s' = plane_state.more s1
        \<and> (sent = None \<or> (\<exists>out. t = Some out \<and> sent = Some (outbound_of (fw_base f) r out)))"
    proof (cases t)
      case None
      with assms True Inr t show ?thesis
        by (auto simp: forwarder_serve_def Let_def dest: refuse_local_more)
    next
      case (Some out)
      let ?o = "outbound_of (fw_base f) r out"
      show ?thesis
      proof (cases "fw_builds f (ob_method ?o) (ob_target ?o)")
        case False
        with assms True Inr t Some show ?thesis
          by (auto simp: forwarder_serve_def Let_def dest: refuse_local_more)
      next
        case builds: True
        with assms True Inr t Some show ?thesis
          by (cases "fw_exchange f ?o") (auto simp: forwarder_serve_def Let_def dest: transport_error_more)
      qed
    qed
    with True Inr t show ?thesis by blast
  qed
qed


section \<open>Routing\<close>

lemma forwarder_for_spec:
  assumes "forwarder_for g wd base s = (res, s')"
  shows "gs_backfiller s' = gs_backfiller s \<and> gs_engine s' = gs_engine s \<and> gs_sent s' = gs_sent s
    \<and> (gs_forwarders s' = gs_forwarders s
       \<or> (\<exists>u. gs_forwarders s' = (base, u) # gs_forwarders s \<and> parse_upstream (wd_parse wd) base = Inr u))"
    "res = Inr f \<Longrightarrow> (base, fw_base f) \<in> set (gs_forwarders s')
       \<and> fw_transform f = redaction_transform g wd \<and> fw_max_body f = dp_max_body (plane_of g wd)
       \<and> fw_limit f = cfg_response_buffer (gw_config g) \<and> fw_exchange f = wd_exchange wd"
proof -
  have over: "fw_base (forwarder_over tr mb l b d u) = u" "fw_transform (forwarder_over tr mb l b d u) = tr"
    "fw_max_body (forwarder_over tr mb l b d u) = (if 0 < mb then mb else default_max_body)"
    "fw_limit (forwarder_over tr mb l b d u) = l" "fw_exchange (forwarder_over tr mb l b d u) = d"
    for tr :: "bytes \<Rightarrow> gateway_state \<Rightarrow> bytes option \<times> gateway_state" and mb l b d u
    by (simp_all add: forwarder_over_def)
  show "gs_backfiller s' = gs_backfiller s \<and> gs_engine s' = gs_engine s \<and> gs_sent s' = gs_sent s
    \<and> (gs_forwarders s' = gs_forwarders s
       \<or> (\<exists>u. gs_forwarders s' = (base, u) # gs_forwarders s \<and> parse_upstream (wd_parse wd) base = Inr u))"
    using assms by (cases "parse_upstream (wd_parse wd) base")
      (auto simp: forwarder_for_def new_forwarder_def over Let_def split: option.splits)
  show "(base, fw_base f) \<in> set (gs_forwarders s')
       \<and> fw_transform f = redaction_transform g wd \<and> fw_max_body f = dp_max_body (plane_of g wd)
       \<and> fw_limit f = cfg_response_buffer (gw_config g) \<and> fw_exchange f = wd_exchange wd" if "res = Inr f"
    using assms that by (cases "parse_upstream (wd_parse wd) base")
      (auto simp: forwarder_for_def new_forwarder_def over Let_def plane_of_def dest: map_of_SomeD split: option.splits)
qed

definition session_kept :: "gateway_state \<Rightarrow> gateway_state \<Rightarrow> bool" where
  "session_kept s s' \<longleftrightarrow> gs_backfiller s' = gs_backfiller s \<and> gs_engine s' = gs_engine s"

definition transformed ::
  "gateway \<Rightarrow> world \<Rightarrow> request \<Rightarrow> bytes \<Rightarrow> gateway_state \<Rightarrow> gateway_state \<Rightarrow> bool" where
  "transformed g wd r body s s' \<longleftrightarrow>
     (\<exists>t s0 s1. redaction_transform g wd body s0 = (t, s1) \<and> session_kept s s0 \<and> session_kept s1 s'
        \<and> (gs_sent s' = gs_sent s
           \<or> (\<exists>out u base. t = Some out \<and> gs_sent s' = gs_sent s @ [outbound_of base r out]
                \<and> resolve (url_path (req_url r)) (gw_config g) = Inr u \<and> \<not> route_local u
                \<and> (route_base u, base) \<in> set (gs_forwarders s'))))"

definition forwarders_grow :: "world \<Rightarrow> gateway_state \<Rightarrow> gateway_state \<Rightarrow> bool" where
  "forwarders_grow wd s s' \<longleftrightarrow>
     gs_forwarders s' = gs_forwarders s
       \<or> (\<exists>b u. gs_forwarders s' = (b, u) # gs_forwarders s \<and> parse_upstream (wd_parse wd) b = Inr u)"

lemma session_kept_refl [simp]: "session_kept s s"
  by (simp add: session_kept_def)

lemma route_request_spec:
  assumes "route_request g wd r w s = (w', s')"
  shows "forwarders_grow wd s s' \<and>
    ((gs_sent s' = gs_sent s \<and> session_kept s s')
     \<or> (\<exists>body. identity_only_encoding (req_header r)
          \<and> read_request_body (dp_max_body (plane_of g wd)) r = Inr body \<and> transformed g wd r body s s'))"
proof (cases "resolve (url_path (req_url r)) (gw_config g)")
  case (Inl e)
  with assms show ?thesis by (simp add: route_request_def forwarders_grow_def)
next
  case (Inr u)
  show ?thesis
  proof (cases "route_local u")
    case True
    with assms Inr show ?thesis by (simp add: route_request_def forwarders_grow_def)
  next
    case False
    obtain res s0 where res: "forwarder_for g wd (route_base u) s = (res, s0)" by fastforce
    note fspec = forwarder_for_spec(1) [OF res] forwarder_for_spec(2) [OF res]
    show ?thesis
    proof (cases res)
      case (Inl e)
      with assms Inr False res fspec show ?thesis
        by (auto simp: route_request_def forwarders_grow_def session_kept_def)
    next
      case f: (Inr f)
      obtain sent rw s1 where fw: "forwarder_serve f r (new_response_writer w) s0 = (sent, rw, s1)"
        by (metis prod_cases3)
      define s2 where "s2 = s1\<lparr>gs_sent := gs_sent s1 @ (case sent of None \<Rightarrow> [] | Some out \<Rightarrow> [out])\<rparr>"
      obtain rw' where fin: "rw_finish (responses g wd s2) rw s2 = (rw', s')"
        using assms Inr False res f fw by (auto simp: route_request_def s2_def Let_def split: prod.splits)
      from same_more [OF rw_finish_more [OF fin]] have
        s': "gs_sent s' = gs_sent s1 @ (case sent of None \<Rightarrow> [] | Some out \<Rightarrow> [out])"
          "session_kept s1 s'" "gs_forwarders s' = gs_forwarders s1"
        by (simp_all add: s2_def session_kept_def)
      from forwarder_serve_spec [OF fw] consider
        (none) "sent = None" "plane_state.more s1 = plane_state.more s0"
      | (some) body t st where "identity_only_encoding (req_header r)" "read_request_body (fw_max_body f) r = Inr body"
          "fw_transform f body s0 = (t, st)" "plane_state.more s1 = plane_state.more st"
          "sent = None \<or> (\<exists>out. t = Some out \<and> sent = Some (outbound_of (fw_base f) r out))"
        by blast
      then show ?thesis
      proof cases
        case none
        with s' fspec(1) same_more [OF none(2)] show ?thesis
          by (auto simp: forwarders_grow_def session_kept_def)
      next
        case some
        from fspec(2) [OF f] some have tr: "redaction_transform g wd body s0 = (t, st)"
          and max: "read_request_body (dp_max_body (plane_of g wd)) r = Inr body"
          and mem: "(route_base u, fw_base f) \<in> set (gs_forwarders s0)" by simp_all
        from redaction_transform_frame(1) [OF tr] same_more [OF some(4)] s' fspec(1)
        have fr: "gs_forwarders s' = gs_forwarders s0" "gs_sent s1 = gs_sent s" "session_kept s s0" "session_kept st s'"
          by (simp_all add: session_kept_def)
        have "transformed g wd r body s s'"
          unfolding transformed_def using tr fr s'(1) some(5) Inr False mem by fastforce
        with fr(1) fspec(1) some(1) max show ?thesis by (auto simp: forwarders_grow_def)
      qed
    qed
  qed
qed


section \<open>What leaves the machine\<close>

text \<open>The conditions on a request whose body may be dispatched.\<close>

definition permitted :: "gateway \<Rightarrow> world \<Rightarrow> leaf list \<Rightarrow> bool" where
  "permitted g wd leaves \<longleftrightarrow>
     (\<exists>d log. decide (wd_lib wd) (Some (gw_policy g)) leaves ScopeRequest = Inr (d, log)
        \<and> de_refusal d = None \<and> de_action d \<noteq> ActionBlock)"

definition cleared :: "gateway \<Rightarrow> world \<Rightarrow> request \<Rightarrow> bytes \<Rightarrow> bool" where
  "cleared g wd r body \<longleftrightarrow>
     identity_only_encoding (req_header r)
       \<and> read_request_body (dp_max_body (plane_of g wd)) r = Inr body
       \<and> (declares_json (req_header r) body \<longrightarrow>
            \<not> wd_walk_overruns wd \<and> \<not> wd_eval_overruns wd
              \<and> (\<exists>leaves. walk body = Inr leaves \<and> permitted g wd leaves))"

lemma evaluate_request_allows:
  "evaluate_request g wd leaves = Inr d \<Longrightarrow> rq_action d = RequestAllow \<Longrightarrow> permitted g wd leaves"
  by (auto simp: evaluate_request_def permitted_def split: sum.splits option.splits if_splits)

lemma plane_passes:
  "passes (plane_of g wd) body \<Longrightarrow>
     \<not> wd_walk_overruns wd \<and> \<not> wd_eval_overruns wd \<and> (\<exists>leaves. walk body = Inr leaves \<and> permitted g wd leaves)"
  by (cases "walk body") (auto simp: passes_def plane_of_def dest: evaluate_request_allows split: if_splits)

lemma with_body_simps [simp]:
  "req_header (with_body body r) = req_header r" "req_url (with_body body r) = req_url r"
  "req_method (with_body body r) = req_method r"
  "outbound_of base (with_body body r) out = outbound_of base r out"
  by (simp_all add: with_body_def outbound_of_def)

lemma plane_cap: "0 < dp_max_body (plane_of g wd)"
  by (simp add: plane_of_def default_max_body_def)

lemma read_with_body:
  "0 < cap \<Longrightarrow> read_request_body cap r = Inr body \<Longrightarrow> read_request_body cap (with_body body r) = Inr body"
  by (auto simp: read_request_body_def with_body_def split: if_splits option.splits)

lemma refuses_more: "refuses p w s (w', s') \<Longrightarrow> plane_state.more s' = plane_state.more s"
  by (auto simp: refuses_def refused_with_def)

lemma admitted_cases:
  assumes "admitted (plane_of g wd) r = Some r'"
  shows "(r' = r \<and> \<not> identity_only_encoding (req_header r)) \<or> (\<exists>body. cleared g wd r body \<and> r' = with_body body r)"
proof (cases "identity_only_encoding (req_header r)")
  case True
  then obtain body where body: "read_request_body (dp_max_body (plane_of g wd)) r = Inr body"
    "\<not> (declares_json (req_header r) body \<and> \<not> passes (plane_of g wd) body)" "r' = with_body body r"
    using assms by (auto simp: admitted_def passes_def split: sum.splits if_splits)
  then have "cleared g wd r body"
    using True plane_passes [of g wd body] by (auto simp: cleared_def)
  with body show ?thesis by blast
qed (use assms in \<open>simp add: admitted_def\<close>)

lemma proxied_spec:
  assumes "proxied g wd r w s = (w', s')"
  shows "forwarders_grow wd s s' \<and>
    ((gs_sent s' = gs_sent s \<and> session_kept s s') \<or> (\<exists>body. cleared g wd r body \<and> transformed g wd r body s s'))"
proof -
  define s0 where "s0 = on_counters count_request s"
  have s0: "session_kept s s0" "gs_sent s0 = gs_sent s" "gs_forwarders s0 = gs_forwarders s"
    using same_more [of s0 s] by (simp_all add: s0_def session_kept_def)
  have serve: "data_plane_serve (plane_of g wd) (route_request g wd) r w s0 = (w', s')"
    using assms by (simp add: proxied_def s0_def)
  show ?thesis
  proof (cases "admitted (plane_of g wd) r")
    case None
    with gate_cases [where p = "plane_of g wd" and handle = "route_request g wd" and r = r and w = w and s = s0] serve
    have "refuses (plane_of g wd) w s0 (w', s')" by simp
    from same_more [OF refuses_more [OF this]] s0 show ?thesis
      by (simp add: forwarders_grow_def session_kept_def)
  next
    case (Some r')
    with gate_cases [where p = "plane_of g wd" and handle = "route_request g wd" and r = r and w = w and s = s0] serve
    have "route_request g wd r' w s0 = (w', s')" by simp
    note route = route_request_spec [OF this]
    have grow: "forwarders_grow wd s s'" using route s0 by (simp add: forwarders_grow_def)
    have trans: "transformed g wd r0 body s s'" if "transformed g wd r0 body s0 s'" for r0 body
      using that s0 unfolding transformed_def session_kept_def by metis
    from admitted_cases [OF Some] consider
      (enc) "r' = r" "\<not> identity_only_encoding (req_header r)"
    | (clear) body where "cleared g wd r body" "r' = with_body body r" by blast
    then show ?thesis
    proof cases
      case enc
      with route s0 grow show ?thesis by (auto simp: session_kept_def)
    next
      case clear
      have read: "read_request_body (dp_max_body (plane_of g wd)) r' = Inr body"
        using clear read_with_body [OF plane_cap] by (simp add: cleared_def)
      have same: "transformed g wd r' b s1 s2 = transformed g wd r b s1 s2" for b s1 s2
        by (simp add: transformed_def clear(2))
      from route read same consider
        (kept) "gs_sent s' = gs_sent s0" "session_kept s0 s'" | (tr) "transformed g wd r body s0 s'"
        by auto
      then show ?thesis
      proof cases
        case kept
        with s0 grow show ?thesis by (auto simp: session_kept_def)
      next
        case tr
        from trans [OF tr] clear grow show ?thesis by blast
      qed
    qed
  qed
qed

lemma serve_request_spec:
  assumes "serve_request g wd r w s = (w', s')"
  shows "forwarders_grow wd s s' \<and>
    ((gs_sent s' = gs_sent s \<and> session_kept s s')
     \<or> (\<exists>body. check_host_origin (wd_parse wd) (req_host r) (header_get (req_header r) ''Origin'')
            \<lparr>allowed_hosts = [], allowed_port = gw_port g\<rparr> = None
          \<and> cleared g wd r body \<and> transformed g wd r body s s'))"
proof -
  let ?ok = "check_host_origin (wd_parse wd) (req_host r) (header_get (req_header r) ''Origin'')
            \<lparr>allowed_hosts = [], allowed_port = gw_port g\<rparr> = None"
  have "s' = s \<or> ?ok \<and> proxied g wd r w s = (w', s')"
    using assms unfolding serve_request_def by (auto split: option.splits if_splits)
  with proxied_spec [of g wd r w s w' s'] show ?thesis by (auto simp: forwarders_grow_def)
qed



section \<open>A session to evaluate\<close>

definition plain_url :: "bytes \<Rightarrow> bytes \<Rightarrow> url" where
  "plain_url host path =
     \<lparr>url_scheme = ''https'', url_opaque = [], url_user = False, url_host = host, url_path = path,
      url_escaped = path, url_raw_query = [], url_force_query = False, url_fragment = []\<rparr>"

definition sample_parse :: "bytes \<Rightarrow> url option" where
  "sample_parse raw = (if prefix ''https://'' raw then Some (plain_url (drop 8 raw) []) else None)"

definition sample_client :: "bytes \<Rightarrow> bytes \<Rightarrow> request" where
  "sample_client media body =
     \<lparr>req_method = ''POST'', req_host = ''127.0.0.1:8787'', req_url = plain_url [] ''/v1/messages'',
      req_header = [(''Content-Type'', [media])], req_length = int (length body),
      req_body = Some \<lparr>stream_bytes = body, stream_fails = False\<rparr>\<rparr>"

definition sample_gateway :: "action \<Rightarrow> gateway" where
  "sample_gateway act =
     \<lparr>gw_config = default_config, gw_budget = default_scan_budget, gw_log_redactions = False,
      gw_policy = sample_policy act (Spans [(0, 1)]), gw_token = ''tok'', gw_port = 8787, gw_addrs = [], gw_started = 0\<rparr>"

definition sample_world :: "exchange \<Rightarrow> world" where
  "sample_world answer =
     \<lparr>wd_lib = sample_ruleslib, wd_parse = sample_parse, wd_order = snapshot, wd_gunzip = \<lambda>_. None,
      wd_inflate = \<lambda>_. None, wd_quote = id, wd_walk_overruns = False, wd_eval_overruns = False,
      wd_mux = \<lambda>_. None, wd_builds = \<lambda>_ _. True, wd_exchange = \<lambda>_. answer, wd_now = 0\<rparr>"

definition new_session :: "config \<Rightarrow> bytes \<Rightarrow> engine \<Rightarrow> gateway_state" where
  "new_session cfg token en =
     \<lparr>ps_counters = new_counters, ps_log = [], gs_backfiller = session_backfiller cfg token, gs_engine = en,
      gs_forwarders = [], gs_sent = []\<rparr>"

definition sample_session :: gateway_state where
  "sample_session = new_session default_config ''tok'' (new_engine colliding_digest [])"

definition walked_leaf :: leaf where
  "walked_leaf = (case walk sample_doc of Inr [l] \<Rightarrow> l | _ \<Rightarrow> sample_leaf [])"

lemma walked_leaf: "walk sample_doc = Inr [walked_leaf]" "leaf_value walked_leaf = ''s''"
  by code_simp+

lemma sample_verdict:
  "decide lib (Some (sample_policy ActionRedact (Spans [(0, 1)]))) [walked_leaf] ScopeRequest =
     Inr (\<lparr>de_phase = ScopeRequest, de_action = ActionRedact,
      de_findings = [\<lparr>af_finding = \<lparr>fi_rule_id = ''p'', fi_category = ''custom'', fi_action = ActionRedact, fi_leaf_index = 0,
                                    fi_start = 0, fi_end = 1, fi_confidence = 1\<rparr>, af_origin = OriginPlugin\<rparr>],
      de_substitutions = [\<lparr>sr_rule_id = ''p'', sr_origin = OriginPlugin, sr_leaf_index = 0, sr_start = 0, sr_end = 1,
                          sr_category = ''custom''\<rparr>],
      de_warnings = [], de_refusal = None\<rparr>, [])"
  by (simp add: decide_def sample_policy_def walked_leaf(2) collect_def collect_leaf_def collect_entry_def invoke_def
      known_scope_def known_action_def sensitive_matches_def entry_finding_def max_rule_spans_def max_matches_def Let_def
      aggregate_action_def finding_action_def substitution_of_def)

lemma sample_blocked:
  "\<exists>d. decide lib (Some (sample_policy ActionBlock (Spans [(0, 1)]))) [walked_leaf] ScopeRequest = Inr (d, [])
     \<and> de_action d = ActionBlock \<and> de_refusal d = None"
  by (simp add: decide_def sample_policy_def walked_leaf(2) collect_def collect_leaf_def collect_entry_def invoke_def
      known_scope_def known_action_def sensitive_matches_def entry_finding_def max_rule_spans_def max_matches_def Let_def
      aggregate_action_def finding_action_def substitution_of_def)

lemma sample_substitute:
  "\<exists>apps b e. substitute (session_backfiller default_config ''tok'') (new_engine colliding_digest []) sample_doc
     [\<lparr>sub_leaf = walked_leaf, sub_start = 0, sub_end = 1, sub_category = ''custom''\<rparr>] =
     (Inr ([CHR ''{'', CHR 0x22, CHR ''a'', CHR 0x22, CHR '':'', CHR 0x22] @ ''__PII_custom_abababababab__'' @ [CHR 0x22, CHR ''}''], apps), b, e)"
proof -
  have "map_sum id fst (fst (substitute (session_backfiller default_config ''tok'') (new_engine colliding_digest []) sample_doc
     [\<lparr>sub_leaf = walked_leaf, sub_start = 0, sub_end = 1, sub_category = ''custom''\<rparr>])) =
     Inr ([CHR ''{'', CHR 0x22, CHR ''a'', CHR 0x22, CHR '':'', CHR 0x22] @ ''__PII_custom_abababababab__'' @ [CHR 0x22, CHR ''}''])"
    by code_simp
  then show ?thesis
    by (cases "substitute (session_backfiller default_config ''tok'') (new_engine colliding_digest []) sample_doc
     [\<lparr>sub_leaf = walked_leaf, sub_start = 0, sub_end = 1, sub_category = ''custom''\<rparr>]")
      (auto simp: map_sum_def split: sum.splits)
qed


definition redacted_doc :: bytes where
  "redacted_doc = [CHR ''{'', CHR 0x22, CHR ''a'', CHR 0x22, CHR '':'', CHR 0x22] @ ''__PII_custom_abababababab__'' @ [CHR 0x22, CHR ''}'']"

lemma sample_gateway_simps [simp]:
  "gw_config (sample_gateway act) = default_config" "gw_budget (sample_gateway act) = default_scan_budget"
  "gw_policy (sample_gateway act) = sample_policy act (Spans [(0, 1)])" "gw_port (sample_gateway act) = 8787"
  "gw_log_redactions (sample_gateway act) = False"
  by (simp_all add: sample_gateway_def)

lemma sample_world_simps [simp]:
  "wd_lib (sample_world a) = sample_ruleslib" "wd_parse (sample_world a) = sample_parse"
  "wd_walk_overruns (sample_world a) = False" "wd_eval_overruns (sample_world a) = False"
  "wd_mux (sample_world a) = (\<lambda>_. None)" "wd_builds (sample_world a) = (\<lambda>_ _. True)"
  "wd_exchange (sample_world a) = (\<lambda>_. a)"
  by (simp_all add: sample_world_def)

lemma sample_report: "report_budget_exceeded (sample_gateway act) [walked_leaf] s = s"
  by (simp add: report_budget_exceeded_def walked_leaf(2) default_scan_budget_def)

lemma sample_redact:
  assumes "gs_backfiller s = session_backfiller default_config ''tok''" "gs_engine s = new_engine colliding_digest []"
  shows "\<exists>n s1. redact_request (sample_gateway ActionRedact) (sample_world a) sample_doc s = (Inr (redacted_doc, n), s1)"
proof -
  from sample_substitute obtain apps b e where
    "substitute (gs_backfiller s) (gs_engine s) sample_doc
       [\<lparr>sub_leaf = walked_leaf, sub_start = 0, sub_end = 1, sub_category = ''custom''\<rparr>] = (Inr (redacted_doc, apps), b, e)"
    unfolding assms redacted_doc_def by blast
  then show ?thesis
    by (simp add: redact_request_def walked_leaf(1) sample_report sample_verdict Let_def requested_subs_def)
qed

lemma sample_guard:
  "check_host_origin sample_parse (req_host (sample_client m b)) (header_get (req_header (sample_client m b)) ''Origin'')
      \<lparr>allowed_hosts = [], allowed_port = 8787\<rparr> = None"
proof -
  have "canonical_header_key ''Origin'' = ''Origin''" by code_simp
  then have "header_get (req_header (sample_client m b)) ''Origin'' = []"
    by (simp add: header_get_def header_values_def sample_client_def)
  moreover have "check_host_origin sample_parse ''127.0.0.1:8787'' [] \<lparr>allowed_hosts = [], allowed_port = 8787\<rparr> = None"
    by code_simp
  ultimately show ?thesis by (simp add: sample_client_def)
qed

lemma sample_client_reads:
  "read_request_body (dp_max_body (plane_of (sample_gateway act) (sample_world a))) (sample_client m sample_doc) = Inr sample_doc"
  "identity_only_encoding (req_header (sample_client m sample_doc))"
  "declares_json (req_header (sample_client ''application/json'' sample_doc)) sample_doc"
  "\<not> declares_json (req_header (sample_client ''text/plain'' sample_doc)) sample_doc"
proof -
  have n: "canonical_header_key ''Content-Encoding'' = ''Content-Encoding''" "canonical_header_key ''Content-Type'' = ''Content-Type''"
    by (rule canonical_names)+
  have m: "media_type ''application/json'' = ''application/json''" "media_type ''text/plain'' \<noteq> ''application/json''"
    by code_simp+
  have "length sample_doc = 9" by (simp add: sample_doc_def)
  then show "read_request_body (dp_max_body (plane_of (sample_gateway act) (sample_world a))) (sample_client m sample_doc) = Inr sample_doc"
    by (simp add: read_request_body_def plane_of_def sample_client_def default_config_def default_max_body_def)
  show "identity_only_encoding (req_header (sample_client m sample_doc))"
    by (simp add: identity_only_encoding_def header_values_def n sample_client_def)
  show "declares_json (req_header (sample_client ''application/json'' sample_doc)) sample_doc"
    "\<not> declares_json (req_header (sample_client ''text/plain'' sample_doc)) sample_doc"
    using m by (simp_all add: declares_json_def header_values_def n sample_client_def)
qed

lemma sample_admitted:
  "admitted (plane_of (sample_gateway ActionRedact) (sample_world a)) (sample_client ''application/json'' sample_doc)
     = Some (with_body sample_doc (sample_client ''application/json'' sample_doc))"
proof -
  have "passes (plane_of (sample_gateway ActionRedact) (sample_world a)) sample_doc"
    by (simp add: passes_def plane_of_def walked_leaf(1) evaluate_request_def sample_verdict)
  then show ?thesis
    using sample_client_reads(1) [of ActionRedact a "''application/json''"] sample_client_reads(2) [of "''application/json''"]
    by (simp add: admitted_def passes_def)
qed


lemma sample_route:
  "resolve (url_path (req_url (sample_client m b))) default_config = Inr (remote anthropic_base_url)"
proof -
  have "resolve ''/v1/messages'' default_config = Inr (remote anthropic_base_url)" by code_simp
  then show ?thesis by (simp add: sample_client_def plain_url_def)
qed

lemma sample_base: "parse_upstream sample_parse anthropic_base_url = Inr (plain_url ''api.anthropic.com'' [])"
  by code_simp

lemma route_dispatches:
  assumes up: "resolve (url_path (req_url r)) (gw_config g) = Inr u" "\<not> route_local u"
    and f: "forwarder_for g wd (route_base u) s = (Inr f, s0)"
    and plain: "identity_only_encoding (req_header r)" "read_request_body (fw_max_body f) r = Inr body"
    and t: "fw_transform f body s0 = (Some out, s1)"
    and builds: "fw_builds f (req_method r) (forward_target (fw_base f) (req_url r))"
    and res: "route_request g wd r w s = (w', s')"
  shows "gs_sent s' = gs_sent s1 @ [outbound_of (fw_base f) r out]"
proof -
  have b: "fw_builds f (ob_method (outbound_of (fw_base f) r out)) (ob_target (outbound_of (fw_base f) r out))"
    using builds by (simp add: outbound_of_def)
  obtain rw s2 where fw: "forwarder_serve f r (new_response_writer w) s0 = (Some (outbound_of (fw_base f) r out), rw, s2)"
    and more: "plane_state.more s2 = plane_state.more s1"
  proof (cases "fw_exchange f (outbound_of (fw_base f) r out)")
    case (TransportFailed to)
    obtain rw s2 where w: "write_transport_error (fw_limit f) to (new_response_writer w) s1 = (rw, s2)" by fastforce
    with plain t b TransportFailed have
      "forwarder_serve f r (new_response_writer w) s0 = (Some (outbound_of (fw_base f) r out), rw, s2)"
      by (simp add: forwarder_serve_def Let_def)
    then show ?thesis using that transport_error_more [OF w] by blast
  next
    case (Answered st h cs en)
    with plain t b have "forwarder_serve f r (new_response_writer w) s0 =
        (Some (outbound_of (fw_base f) r out), relay (fw_limit f) st h cs en (new_response_writer w), s1)"
      by (simp add: forwarder_serve_def Let_def)
    then show ?thesis using that by blast
  qed
  define s3 where "s3 = s2\<lparr>gs_sent := gs_sent s2 @ [outbound_of (fw_base f) r out]\<rparr>"
  obtain rw' where fin: "rw_finish (responses g wd s3) rw s3 = (rw', s')"
    using res up f fw by (auto simp: route_request_def s3_def Let_def split: prod.splits)
  from same_more [OF rw_finish_more [OF fin]] same_more [OF more] show ?thesis by (simp add: s3_def)
qed

lemma sample_forwarder:
  assumes "gs_forwarders s = []"
  shows "\<exists>f s0. forwarder_for (sample_gateway act) (sample_world a) anthropic_base_url s = (Inr f, s0)
     \<and> fw_builds f = (\<lambda>_ _. True)"
  using assms sample_base
  by (simp add: forwarder_for_def new_forwarder_def Let_def forwarder_over_def)



section \<open>Every request is answered\<close>

lemma rw_done_frames [simp]:
  "rw_done (rw_write_header st w) = rw_done w" "rw_done (rw_set_header h w) = rw_done w"
  "rw_done (mark_local w) = rw_done w" "rw_done (record_copy_error e w) = rw_done w"
  "rw_done (snd (rw_write limit p w)) = rw_done w" "\<not> rw_done (new_response_writer dst)"
  by (simp_all add: rw_write_header_def rw_set_header_def mark_local_def record_copy_error_def rw_write_def
      new_response_writer_def Let_def)

lemma refusals_done [simp]:
  "rw_done (fst (refuse_local limit st code w s)) = rw_done w"
  "rw_done (fst (refuse_body_too_large limit w s)) = rw_done w"
  "rw_done (fst (write_transport_error limit t w s)) = rw_done w"
  by (simp_all add: refuse_local_def rw_http_error_def refuse_body_too_large_def rw_write_json_def
      write_transport_error_def)

lemma copy_chunks_done: "rw_done (snd (copy_chunks limit cs ending w)) = rw_done w"
proof (induction cs arbitrary: w)
  case (Cons c cs)
  obtain ok w1 where w: "rw_write limit c w = (ok, w1)" by fastforce
  have "rw_done (snd (rw_write limit c w)) = rw_done w" by simp
  with w have "rw_done w1 = rw_done w" by simp
  with Cons.IH [of w1] w show ?case by simp
qed simp

lemma relay_done: "rw_done (relay limit st h cs ending w) = rw_done w"
proof -
  have "rw_done (snd (copy_chunks limit cs ending
      (rw_write_header st (rw_set_header (copy_end_to_end_headers (rw_header w) h) w)))) = rw_done w"
    by (simp add: copy_chunks_done)
  then show ?thesis by (auto simp: relay_def split: prod.splits option.splits)
qed

lemma refusals_done_eq:
  "refuse_local limit st code w s = (w', s') \<Longrightarrow> rw_done w' = rw_done w"
  "refuse_body_too_large limit w s = (w', s') \<Longrightarrow> rw_done w' = rw_done w"
  "write_transport_error limit t w s = (w', s') \<Longrightarrow> rw_done w' = rw_done w"
  using refusals_done(1) [of limit st code w s] refusals_done(2) [of limit w s] refusals_done(3) [of limit t w s]
  by simp_all

lemma forwarder_done:
  assumes "forwarder_serve f r w s = (sent, w', s')"
  shows "rw_done w' = rw_done w"
proof (cases "identity_only_encoding (req_header r)")
  case False
  with assms show ?thesis by (auto simp: forwarder_serve_def Let_def dest: refusals_done_eq(1))
next
  case True
  show ?thesis
  proof (cases "read_request_body (fw_max_body f) r")
    case (Inl e)
    with assms True show ?thesis
      by (cases e) (auto simp: forwarder_serve_def Let_def dest: refusals_done_eq(1,2))
  next
    case (Inr body)
    obtain t s1 where t: "fw_transform f body s = (t, s1)" by fastforce
    show ?thesis
    proof (cases t)
      case None
      with assms True Inr t show ?thesis by (auto simp: forwarder_serve_def Let_def dest: refusals_done_eq(1))
    next
      case (Some out)
      let ?o = "outbound_of (fw_base f) r out"
      consider "\<not> fw_builds f (ob_method ?o) (ob_target ?o)"
        | to where "fw_builds f (ob_method ?o) (ob_target ?o)" "fw_exchange f ?o = TransportFailed to"
        | st h cs en where "fw_builds f (ob_method ?o) (ob_target ?o)" "fw_exchange f ?o = Answered st h cs en"
        by (cases "fw_exchange f ?o") auto
      then show ?thesis
      proof cases
        case 1
        with assms True Inr t Some show ?thesis by (auto simp: forwarder_serve_def Let_def dest: refusals_done_eq(1))
      next
        case 2
        with assms True Inr t Some show ?thesis by (auto simp: forwarder_serve_def Let_def dest: refusals_done_eq(3))
      next
        case 3
        with assms True Inr t Some show ?thesis by (auto simp: forwarder_serve_def Let_def relay_done)
      qed
    qed
  qed
qed

lemma replies_committed:
  "reply_committed (http_error m st v) \<noteq> None" "reply_committed (write_json st b v) \<noteq> None"
  "reply_committed (reply_write b v) \<noteq> None"
  "reply_committed (rw_dst (refuse_client st w)) \<noteq> None" "reply_committed (rw_dst (commit_client vd w)) \<noteq> None"
proof -
  show "reply_committed (reply_write b v) \<noteq> None" for b v by (simp split: option.split)
  from this show "reply_committed (http_error m st v) \<noteq> None" "reply_committed (write_json st b v) \<noteq> None"
    for m st v b
    unfolding http_error_def write_json_def by blast+
  then show "reply_committed (rw_dst (refuse_client st w)) \<noteq> None"
    unfolding refuse_client_def by simp
  obtain a h b where "vd = (a, h, b)" by (metis prod_cases3)
  then show "reply_committed (rw_dst (commit_client vd w)) \<noteq> None"
    unfolding commit_client_def by (simp split: option.split)
qed

lemma commit_response_committed: "reply_committed (rw_dst (fst (commit_response respond w s))) \<noteq> None"
  unfolding commit_response_def using replies_committed(4,5) by (auto split: prod.split sum.split)

lemma finish_commits: "\<not> rw_done w \<Longrightarrow> reply_committed (rw_dst (fst (rw_finish h w s))) \<noteq> None"
  unfolding rw_finish_def Let_def
  by (simp add: replies_committed commit_response_committed del: not_None_eq reply_committed_simps)

lemma route_answers: "reply_committed (fst (route_request g wd r w s)) \<noteq> None"
proof (cases "resolve (url_path (req_url r)) (gw_config g)")
  case (Inl e)
  then show ?thesis by (simp add: route_request_def http_error_def split: option.split)
next
  case (Inr u)
  show ?thesis
  proof (cases "route_local u")
    case True
    with Inr show ?thesis by (simp add: route_request_def split: option.split)
  next
    case False
    obtain res s0 where res: "forwarder_for g wd (route_base u) s = (res, s0)" by fastforce
    show ?thesis
    proof (cases res)
      case (Inl e)
      with Inr False res show ?thesis by (simp add: route_request_def http_error_def split: option.split)
    next
      case f: (Inr f)
      obtain sent rw s1 where fw: "forwarder_serve f r (new_response_writer w) s0 = (sent, rw, s1)"
        by (metis prod_cases3)
      from forwarder_done [OF fw] have "\<not> rw_done rw" by simp
      moreover define s2 where "s2 = s1\<lparr>gs_sent := gs_sent s1 @ (case sent of None \<Rightarrow> [] | Some out \<Rightarrow> [out])\<rparr>"
      have "fst (route_request g wd r w s) = rw_dst (fst (rw_finish (responses g wd s2) rw s2))"
        using Inr False res f fw by (simp add: route_request_def s2_def Let_def split_def)
      ultimately show ?thesis using finish_commits by simp
    qed
  qed
qed



end
