(* ===== verification/SessionRun.thy ===== *)
theory SessionRun
  imports Traffic
begin

text \<open>
  What a session keeps over all its requests, and what an operator may not expect of it.
\<close>

section \<open>The session invariant\<close>

lemma mint_excluded: "mint b e secret kind = (r, b', e') \<Longrightarrow> bf_excluded b' = bf_excluded b"
  by (auto simp: mint_def map_placeholder_def split: prod.splits sum.splits if_splits)

lemma mint_subs_excluded: "mint_subs b e ss = (r, b', e') \<Longrightarrow> bf_excluded b' = bf_excluded b"
proof (induction ss arbitrary: b e r b' e')
  case (Cons q ss)
  obtain i x where q: "q = (i, x)" by fastforce
  show ?case
  proof (cases "sub_located x")
    case True
    obtain q1 b1 e1 where m: "mint b e (sub_secret x) (sub_category x) = (q1, b1, e1)" by (metis prod_cases3)
    obtain q2 b2 e2 where m2: "mint_subs b1 e1 ss = (q2, b2, e2)" by (metis prod_cases3)
    from Cons.prems True m m2 have "b' = b1 \<or> b' = b2"
      by (auto simp: q split: sum.splits)
    with mint_excluded [OF m] Cons.IH [OF m2] Cons.prems True m m2 show ?thesis
      by (auto simp: q split: sum.splits)
  next
    case False
    with Cons show ?thesis by (simp add: q)
  qed
qed simp

lemma substitute_excluded:
  "substitute b e body subs = (r, b', e') \<Longrightarrow> bf_excluded b' = bf_excluded b"
  by (auto simp: substitute_def Let_def dest: mint_subs_excluded split: sum.splits prod.splits)

lemma substitute_session:
  assumes "session_ok b e" "substitute b e body subs = (r, b', e')"
  shows "session_ok b' e' \<and> bf_excluded b' = bf_excluded b"
proof -
  obtain q b1 e1 where m: "mint_subs b e (enumerate 0 subs) = (q, b1, e1)" by (metis prod_cases3)
  with assms(2) have "b' = b1" "e' = e1"
    by (auto simp: substitute_def Let_def split: sum.splits prod.splits)
  with mint_subs_session [OF assms(1) m] mint_subs_excluded [OF m] show ?thesis by simp
qed

definition session_sound :: "gateway_state \<Rightarrow> gateway_state \<Rightarrow> bool" where
  "session_sound s s' \<longleftrightarrow>
     (session_ok (gs_backfiller s) (gs_engine s) \<longrightarrow> session_ok (gs_backfiller s') (gs_engine s'))
       \<and> bf_excluded (gs_backfiller s') = bf_excluded (gs_backfiller s)"

lemma session_kept_sound:
  "session_kept s s' \<Longrightarrow> session_sound s s'"
  "session_kept s s0 \<Longrightarrow> session_sound s0 s1 \<Longrightarrow> session_kept s1 s' \<Longrightarrow> session_sound s s'"
  by (simp_all add: session_kept_def session_sound_def)

lemma redact_request_sound:
  assumes "redact_request g wd body s = (r, s')"
  shows "session_sound s s'"
proof (cases "walk body")
  case (Inl e)
  with assms show ?thesis by (simp add: redact_request_def session_sound_def)
next
  case (Inr leaves)
  define s0 where "s0 = report_budget_exceeded g leaves s"
  have s0: "session_kept s s0"
    using same_more [of s0 s] by (simp add: s0_def report_budget_exceeded_def session_kept_def Let_def)
  show ?thesis
  proof (cases "decide (wd_lib wd) (Some (gw_policy g)) leaves ScopeRequest")
    case (Inl e)
    with assms Inr s0 show ?thesis
      by (simp add: redact_request_def s0_def [symmetric] session_kept_sound)
  next
    case dl: (Inr dl)
    obtain d log where d: "dl = (d, log)" by fastforce
    obtain q b en where q: "substitute (gs_backfiller s0) (gs_engine s0) body (requested_subs leaves (de_substitutions d)) = (q, b, en)"
      by (metis prod_cases3)
    have fl: "gs_backfiller (fold log_line ls x) = gs_backfiller x \<and> gs_engine (fold log_line ls x) = gs_engine x"
      for ls and x :: gateway_state
      using same_more [OF log_lines_more] by simp
    have "session_kept s0 s' \<or> (gs_backfiller s' = b \<and> gs_engine s' = en)"
      using assms Inr dl d q fl
      by (auto simp: redact_request_def s0_def [symmetric] Let_def session_kept_def split: if_splits sum.splits)
    with substitute_session [OF _ q] have "session_sound s0 s'"
      using substitute_excluded [OF q] by (auto simp: session_sound_def session_kept_def)
    with s0 show ?thesis by (simp add: session_kept_def session_sound_def)
  qed
qed


lemma transformed_sound: "transformed g wd r body s s' \<Longrightarrow> session_sound s s'"
proof -
  assume "transformed g wd r body s s'"
  then obtain t s0 s1 where t: "redaction_transform g wd body s0 = (t, s1)" "session_kept s s0" "session_kept s1 s'"
    unfolding transformed_def by blast
  obtain q s2 where q: "redact_request g wd body s0 = (q, s2)" by fastforce
  then have "session_kept s2 s1"
    using t(1) same_more [OF session_frames(1)]
    by (auto simp: redaction_transform_def session_kept_def split: sum.splits)
  with redact_request_sound [OF q] t show ?thesis by (auto simp: session_kept_def session_sound_def)
qed

text \<open>A session: requests one after the other, each in a world of its own with the one URL parser.\<close>

inductive session_run :: "(bytes \<Rightarrow> url option) \<Rightarrow> gateway \<Rightarrow> gateway_state \<Rightarrow> gateway_state \<Rightarrow> bool"
  for parse :: "bytes \<Rightarrow> url option" and g :: gateway where
  idle: "session_run parse g s s"
| request: "session_run parse g s s1 \<Longrightarrow> wd_parse wd = parse \<Longrightarrow>
    serve_request g wd r new_reply s1 = (w, s2) \<Longrightarrow> session_run parse g s s2"

definition session_good :: "(bytes \<Rightarrow> url option) \<Rightarrow> config \<Rightarrow> bytes \<Rightarrow> gateway_state \<Rightarrow> bool" where
  "session_good parse cfg token s \<longleftrightarrow>
     session_ok (gs_backfiller s) (gs_engine s)
       \<and> bf_excluded (gs_backfiller s) = bf_excluded (session_backfiller cfg token)
       \<and> (\<forall>(b, u) \<in> set (gs_forwarders s). parse_upstream parse b = Inr u)"

lemma excluded_session: "set (bf_excluded (session_backfiller cfg token)) = insert token (set (cfg_allowlist cfg))"
proof -
  have "set (fold List.insert vs acc) = set vs \<union> set acc" for vs acc :: "bytes list"
    by (induction vs arbitrary: acc) auto
  then show ?thesis
    by (simp add: session_backfiller_def exclude_from_backfill_def new_backfiller_def del: fold.simps)
qed

lemma new_session_good: "session_good parse cfg token (new_session cfg token (new_engine digest salt))"
proof -
  have "bf_reverse (session_backfiller cfg token) = []"
    by (simp add: session_backfiller_def exclude_from_backfill_def new_backfiller_def)
  then have "session_ok (session_backfiller cfg token) (new_engine digest salt)"
    using new_session_ok [of digest salt] by (simp add: session_ok_def backfiller_ok_def new_backfiller_def)
  then show ?thesis by (simp add: session_good_def new_session_def)
qed

lemma serve_request_good:
  assumes "serve_request g wd r w s = (w', s')" "session_good (wd_parse wd) cfg token s"
  shows "session_good (wd_parse wd) cfg token s'"
proof -
  have "session_sound s s'" and "forwarders_grow wd s s'"
    using serve_request_spec [OF assms(1)] transformed_sound session_kept_sound(1) by blast+
  with assms(2) show ?thesis
    by (auto simp: session_good_def session_sound_def forwarders_grow_def)
qed

lemma session_run_good:
  "session_run parse g s s' \<Longrightarrow> session_good parse cfg token s \<Longrightarrow> session_good parse cfg token s'"
  by (induction rule: session_run.induct) (use serve_request_good in blast)+

text \<open>
  C9: In every state a session reaches, whatever is asked and whatever the upstreams answer: the reverse
  map holds only well-formed placeholders that the engine minted for exactly that secret; the upstreams
  in use parse as absolute \<open>http(s)\<close> URLs; and no pair a restore may use holds the control token or an
  allowlist literal.
\<close>

theorem session_wellformed:
  assumes "session_run parse g (new_session cfg token (new_engine digest salt)) s"
  shows "session_ok (gs_backfiller s) (gs_engine s)
    \<and> (\<forall>(b, u) \<in> set (gs_forwarders s). parse_upstream parse b = Inr u)
    \<and> (\<forall>(p, secret) \<in> set (live_pairs (gs_backfiller s) ps). secret \<noteq> token \<and> secret \<notin> set (cfg_allowlist cfg))"
proof -
  have good: "session_good parse cfg token s"
    using session_run_good [OF assms] new_session_good by blast
  then have "set (bf_excluded (gs_backfiller s)) = insert token (set (cfg_allowlist cfg))"
    using excluded_session by (simp add: session_good_def)
  with good show ?thesis by (auto simp: session_good_def live_pairs_def excludes_def)
qed


lemma session_wellformed_witness:
  "\<exists>s. session_run sample_parse (sample_gateway ActionRedact) sample_session s
     \<and> (\<forall>(p, secret) \<in> set (live_pairs (gs_backfiller s) (snapshot (gs_backfiller s))). secret \<noteq> ''tok'')"
proof -
  obtain w s where "serve_request (sample_gateway ActionRedact) (sample_world (TransportFailed False))
       (sample_client ''application/json'' sample_doc) new_reply sample_session = (w, s)" by fastforce
  with session_run.request [OF session_run.idle, of "sample_world (TransportFailed False)" sample_parse]
  have run: "session_run sample_parse (sample_gateway ActionRedact) sample_session s" by simp
  from session_wellformed [OF run [unfolded sample_session_def]] run show ?thesis by blast
qed

section \<open>A block outside the declared path\<close>

lemma refuse_local_500:
  assumes "limit \<le> 0 \<or> 22 \<le> limit" "refuse_local limit 500 code (new_response_writer w) s = (rw, s')"
  shows "\<not> rw_capped rw \<and> \<not> rw_timed_out rw \<and> rw_local rw \<and> rw_wrote rw \<and> rw_status rw = 500 \<and> \<not> rw_done rw
     \<and> reply_committed (rw_dst rw) = reply_committed w \<and> ps_counters s' = ps_counters s \<and> plane_state.more s' = plane_state.more s"
proof -
  have "length (status_text 500 @ [CHR 0x0A]) = 22" by code_simp
  with assms show ?thesis
    by (auto simp: refuse_local_def rw_http_error_def rw_write_def rw_write_header_def rw_set_header_def mark_local_def
        new_response_writer_def Let_def log_refusal_def log_line_def)
qed

lemma finish_local:
  assumes "\<not> rw_capped rw" "\<not> rw_timed_out rw" "rw_local rw" "rw_wrote rw" "\<not> rw_done rw" "reply_committed (rw_dst rw) = None"
  shows "\<exists>rw' h. rw_finish rh rw s = (rw', s) \<and> reply_committed (rw_dst rw') = Some (rw_status rw, h)"
  using assms by (simp add: rw_finish_def rw_write_header_def Let_def)



end
