(* ===== verification/Divergences.thy ===== *)
theory Divergences
  imports SessionRun
begin

text \<open>
  Behaviour of the assembled gateway that its comments and documents describe otherwise: the allowlist,
  overlapping substitutions, and an upstream body that breaks off. Last, the masked form of a secret in
  a notice, which does what it says.
\<close>

section \<open>The allowlist\<close>

definition with_config :: "config \<Rightarrow> gateway \<Rightarrow> gateway" where
  "with_config cfg g = g\<lparr>gw_config := cfg\<rparr>"

lemma redact_ignores_config: "redact_request (with_config cfg g) = redact_request g"
proof -
  have "report_budget_exceeded (with_config cfg g) = report_budget_exceeded g"
    by (intro ext) (simp add: with_config_def report_budget_exceeded_def Let_def cong: if_cong)
  moreover have "gw_policy (with_config cfg g) = gw_policy g" "gw_log_redactions (with_config cfg g) = gw_log_redactions g"
    by (simp_all add: with_config_def)
  ultimately show ?thesis
    by (intro ext) (simp only: redact_request_def)
qed

definition allowing :: config where
  "allowing = default_config\<lparr>cfg_allowlist := [''s'']\<rparr>"

lemma allowing_substitute:
  "case substitute (session_backfiller allowing ''tok'') (new_engine colliding_digest []) sample_doc
       [\<lparr>sub_leaf = walked_leaf, sub_start = 0, sub_end = 1, sub_category = ''custom''\<rparr>] of
     (r, b, _) \<Rightarrow> map_sum id fst r = Inr redacted_doc \<and> backfill b (snapshot b) redacted_doc = redacted_doc"
  by code_simp


section \<open>Overlapping substitutions\<close>

definition overlapping_policy :: policy where
  "overlapping_policy =
     \<lparr>po_entries = po_entries (sample_policy ActionRedact (Spans [(0, 1)]))
        @ map (\<lambda>e. e\<lparr>re_rule := (re_rule e)\<lparr>ru_id := ''q'', ru_category := ''email''\<rparr>, re_id := ''q''\<rparr>)
            (po_entries (sample_policy ActionRedact (Spans [(0, 1)]))),
      po_sensitive = None\<rparr>"

definition doubled_subs :: "substitution list" where
  "doubled_subs =
     [\<lparr>sub_leaf = walked_leaf, sub_start = 0, sub_end = 1, sub_category = ''custom''\<rparr>,
      \<lparr>sub_leaf = walked_leaf, sub_start = 0, sub_end = 1, sub_category = ''email''\<rparr>]"

lemma overlapping_verdict:
  "\<exists>d. decide lib (Some overlapping_policy) [walked_leaf] ScopeRequest = Inr (d, [])
     \<and> de_action d = ActionRedact \<and> de_refusal d = None
     \<and> requested_subs [walked_leaf] (de_substitutions d) = doubled_subs"
  by (simp add: decide_def overlapping_policy_def sample_policy_def walked_leaf(2) collect_def collect_leaf_def
      collect_entry_def invoke_def known_scope_def known_action_def sensitive_matches_def entry_finding_def
      max_rule_spans_def max_matches_def Let_def aggregate_action_def finding_action_def substitution_of_def
      requested_subs_def doubled_subs_def finding_order_def)

lemma doubled_substitute:
  "case substitute (session_backfiller default_config ''tok'') (new_engine colliding_digest []) sample_doc doubled_subs of
     (r, b, _) \<Rightarrow> map_sum id (map_prod id length) r = Inr (redacted_doc, 1)
       \<and> map fst (bf_reverse b) = [''__PII_email_abababababab__'', ''__PII_custom_abababababab__'']"
  by code_simp

text \<open>
  Two rules that report the same span mint two placeholders, and \<open>protocol.Apply\<close> then uses one of
  them: the reverse map ends up with a placeholder that is nowhere in the body sent, and one redaction
  is counted.
\<close>

theorem overlap_mints_unsent:
  "\<exists>s. redact_request ((sample_gateway ActionRedact)\<lparr>gw_policy := overlapping_policy\<rparr>) (sample_world a) sample_doc
       sample_session =
       (Inr (redacted_doc, 1), s)
     \<and> ''__PII_email_abababababab__'' \<in> fst ` set (bf_reverse (gs_backfiller s))
     \<and> \<not> sublist ''__PII_email_abababababab__'' redacted_doc"
proof -
  obtain apps b e where sub: "substitute (session_backfiller default_config ''tok'') (new_engine colliding_digest [])
       sample_doc doubled_subs = (Inr (redacted_doc, apps), b, e)" "length apps = 1"
    "map fst (bf_reverse b) = [''__PII_email_abababababab__'', ''__PII_custom_abababababab__'']"
    using doubled_substitute by (auto simp: map_sum_def split: prod.splits sum.splits)
  then have "fst ` set (bf_reverse b) = set [''__PII_email_abababababab__'', ''__PII_custom_abababababab__'']"
    by (simp flip: list.set_map)
  moreover have "\<not> sublist ''__PII_email_abababababab__'' redacted_doc" by code_simp
  moreover obtain d where "decide (wd_lib (sample_world a)) (Some overlapping_policy) [walked_leaf] ScopeRequest = Inr (d, [])"
    "de_action d = ActionRedact" "de_refusal d = None" "requested_subs [walked_leaf] (de_substitutions d) = doubled_subs"
    using overlapping_verdict by blast
  ultimately show ?thesis
    using sub by (simp add: redact_request_def walked_leaf(1) report_budget_exceeded_def walked_leaf(2)
        default_scan_budget_def sample_session_def new_session_def sample_gateway_def)
qed

section \<open>A body that breaks off\<close>

lemma copy_truncated:
  "copy_chunks limit chunks None v = (e, w) \<Longrightarrow>
     \<exists>e'. copy_chunks limit chunks (Some ReadFailed) v = (e', w) \<and> (e' = e \<or> e' = Some ReadFailed \<and> e = None)"
  by (induction chunks arbitrary: v) (auto simp: Let_def split: prod.splits if_splits)

lemma relay_truncated:
  "relay limit status h chunks (Some ReadFailed) w = relay limit status h chunks None w"
proof -
  obtain e v where none: "copy_chunks limit chunks None
      (rw_write_header status (rw_set_header (copy_end_to_end_headers (rw_header w) h) w)) = (e, v)" by fastforce
  from copy_truncated [OF none] none show ?thesis
    by (auto simp: relay_def record_copy_error_def)
qed

definition answering :: "nat \<Rightarrow> header \<Rightarrow> bytes list \<Rightarrow> copy_error option \<Rightarrow> world \<Rightarrow> world" where
  "answering status h chunks ending wd = wd\<lparr>wd_exchange := \<lambda>_. Answered status h chunks ending\<rparr>"

text \<open>Nothing but the exchange itself reads it; \<open>simp only\<close> reaches into the branches of a case.\<close>

lemma world_frames:
  "wd_lib (wd\<lparr>wd_exchange := x\<rparr>) = wd_lib wd" "wd_parse (wd\<lparr>wd_exchange := x\<rparr>) = wd_parse wd"
  "wd_order (wd\<lparr>wd_exchange := x\<rparr>) = wd_order wd" "wd_quote (wd\<lparr>wd_exchange := x\<rparr>) = wd_quote wd"
  "wd_gunzip (wd\<lparr>wd_exchange := x\<rparr>) = wd_gunzip wd" "wd_inflate (wd\<lparr>wd_exchange := x\<rparr>) = wd_inflate wd"
  by simp_all

lemma forwarder_frames:
  "fw_base (f\<lparr>fw_exchange := x\<rparr>) = fw_base f" "fw_transform (f\<lparr>fw_exchange := x\<rparr>) = fw_transform f"
  "fw_max_body (f\<lparr>fw_exchange := x\<rparr>) = fw_max_body f" "fw_limit (f\<lparr>fw_exchange := x\<rparr>) = fw_limit f"
  "fw_builds (f\<lparr>fw_exchange := x\<rparr>) = fw_builds f" "fw_exchange (f\<lparr>fw_exchange := x\<rparr>) = x"
  by simp_all

lemma transform_any_exchange: "redaction_transform g (wd\<lparr>wd_exchange := x\<rparr>) = redaction_transform g wd"
  by (intro ext) (simp only: redaction_transform_def redact_request_def world_frames)

lemma forwarder_any_exchange:
  "forwarder_for g (wd\<lparr>wd_exchange := x\<rparr>) base s =
     (case forwarder_for g wd base s of (res, s') \<Rightarrow> (map_sum id (\<lambda>f. f\<lparr>fw_exchange := x\<rparr>) res, s'))"
  by (cases "map_of (gs_forwarders s) base"; cases "parse_upstream (wd_parse wd) base")
    (simp_all add: forwarder_for_def forwarder_over_def new_forwarder_def transform_any_exchange)

lemma serve_truncated:
  "forwarder_serve (f\<lparr>fw_exchange := \<lambda>_. Answered st h cs (Some ReadFailed)\<rparr>) =
     forwarder_serve (f\<lparr>fw_exchange := \<lambda>_. Answered st h cs None\<rparr>)"
  by (intro ext) (simp only: forwarder_serve_def forwarder_frames exchange.case relay_truncated)

lemma responses_any_exchange: "responses g (wd\<lparr>wd_exchange := x\<rparr>) = responses g wd"
proof -
  have "evaluate_response g (wd\<lparr>wd_exchange := x\<rparr>) = evaluate_response g wd"
    "restore_notices g (wd\<lparr>wd_exchange := x\<rparr>) = restore_notices g wd"
    by (intro ext, simp only: evaluate_response_def restore_notices_def world_frames)+
  then show ?thesis by (intro ext) (simp only: responses_def world_frames)
qed

lemma route_truncated:
  "route_request g (answering st h cs (Some ReadFailed) wd) = route_request g (answering st h cs None wd)"
proof (intro ext)
  fix r w s
  show "route_request g (answering st h cs (Some ReadFailed) wd) r w s = route_request g (answering st h cs None wd) r w s"
  proof (cases "resolve (url_path (req_url r)) (gw_config g)")
    case (Inr u)
    obtain res s0 where res: "forwarder_for g wd (route_base u) s = (res, s0)" by fastforce
    with Inr show ?thesis
      by (cases res) (simp_all only: route_request_def answering_def forwarder_any_exchange responses_any_exchange
          sum.case prod.case map_sum.simps serve_truncated)
  qed (simp add: route_request_def)
qed

text \<open>
  C35: An upstream body that breaks off in the middle is committed as a complete answer: whatever the
  request and the session, the client gets exactly what it would get if the bytes read so far had been
  the whole body, status and fresh \<open>Content-Length\<close> included. Only a deadline is told apart.
\<close>

theorem truncated_body_looks_complete:
  "serve_request g (answering status h chunks (Some ReadFailed) wd) r w s =
     serve_request g (answering status h chunks None wd) r w s"
proof -
  have "evaluate_request g (answering status h chunks e wd) = evaluate_request g wd" for e
    by (intro ext) (simp only: evaluate_request_def answering_def world_frames)
  moreover have "wd_walk_overruns (answering status h chunks e wd) = wd_walk_overruns wd"
    "wd_eval_overruns (answering status h chunks e wd) = wd_eval_overruns wd"
    "wd_mux (answering status h chunks e wd) = wd_mux wd" "wd_parse (answering status h chunks e wd) = wd_parse wd"
    "wd_now (answering status h chunks e wd) = wd_now wd" for e
    by (simp_all add: answering_def)
  ultimately show ?thesis
    by (simp only: serve_request_def proxied_def plane_of_def route_truncated)
qed

section \<open>Masking\<close>

lemma masked_form_marker: "masked_form ''[redacted]'' kind \<noteq> ''[redacted]''"
proof -
  have "length (runes_of ''[redacted]'') = 10" "pem_kind ''[redacted]'' = []" "email_domain ''[redacted]'' = []"
    by code_simp+
  then show ?thesis by (simp add: masked_form_def Let_def)
qed

theorem mask_never_value: "mask_secret v kind \<noteq> v"
  using masked_form_marker by (auto simp: mask_secret_def)

end
