(* ===== verification/Rollback.thy ===== *)
theory Rollback
  imports Packs
begin

text \<open>
  The two rules commands of \<open>internal/cli\<close>: \<open>rules sync\<close>, whose \<open>--check\<close> runs the whole sequence over a
  throwaway cache with a read-only mark, and \<open>rules rollback\<close>, which points the cache back at an
  earlier pack that still verifies.
\<close>

section \<open>rules sync\<close>

definition read_only_advance :: advance_fun where
  "read_only_advance _ mark = (Inr (), mark)"

text \<open>The files the commands may touch; the mark is read by \<open>json.Unmarshal\<close> into an \<open>int64\<close>, an argument.\<close>

record rules_files =
  rf_cache :: rules_cache
  rf_mark :: "bytes option"
  rf_mark_readable :: bool
  rf_mark_decode :: "bytes \<Rightarrow> int option"

text \<open>\<open>newSync\<close>: a check needs a scratch directory, and its cache starts out empty.\<close>

definition new_sync :: "rules_files \<Rightarrow> verify_fun \<Rightarrow> bool \<Rightarrow> bool \<Rightarrow> rules_sync outcome" where
  "new_sync files v check scratch =
     require (check \<longrightarrow> scratch) ErrIo
       (new_rules_sync (rf_mark_decode files) (rf_mark_readable files) (rf_mark files)
          (if check then empty_cache else rf_cache files) (Some v) [] 0)"

text \<open>
  \<open>rulesSync\<close>: what is reported (nothing when the switch disables it) and the files afterwards. A check
  leaves the files alone because its cache is another directory and its mark never advances.
\<close>

definition rules_sync_command ::
    "ruleslib \<Rightarrow> sync_env \<Rightarrow> verify_fun \<Rightarrow> bool \<Rightarrow> bool \<Rightarrow> rules_files \<Rightarrow> rules_state option outcome \<times> rules_files" where
  "rules_sync_command lib env v check scratch files =
     (if se_no_sync env = Some ''1'' then (Inr None, files)
      else case new_sync files v check scratch of
        Inl e \<Rightarrow> (Inl e, files)
      | Inr s \<Rightarrow>
          (if check
           then (case sync_with read_only_advance lib env s of
                   (r, s') \<Rightarrow> (map_sum id (\<lambda>_. Some (ry_active s')) r, files))
           else (case sync lib env s of
                   (r, s') \<Rightarrow> (map_sum id (\<lambda>_. Some (ry_active s')) r,
                              files\<lparr>rf_cache := ry_cache s', rf_mark := hw_file (ry_mark s')\<rparr>))))"

lemma cache_store_result: "fst (cache_store io n m b c) = fst (cache_store io n m b c')"
  by (simp add: cache_store_def write_file_atomic_def Let_def)

lemma advance_no_faults:
  "hw_serial s < n \<Longrightarrow> fst (file_advance (\<lambda>_. False) n s) = Inr ()"
  by (simp add: file_advance_def persist_high_water_def persist_file_def write_temp_def split: prod.splits)

definition fetched :: "unit outcome \<times> rules_sync \<Rightarrow> rules_state option" where
  "fetched res = (if fst res = Inr () \<and> rs_source (ry_active (snd res)) = SourceRemote then Some (ry_active (snd res)) else None)"

lemma load_cache_source:
  "load_cache lib io s = (r, s') \<Longrightarrow> ry_active s' = ry_active s \<or> rs_source (ry_active s') = SourceCache"
  by (cases rule: load_cache_cases [of lib io s]) (auto simp: state_of_def)

lemma not_fetched:
  assumes "rs_source (ry_active s) = SourceBuiltin"
  shows "fetched (fallback lib io e s) = None" "fetched (replay lib io n s) = None"
proof -
  have "rs_source (ry_active (snd (load_cache lib io s))) \<noteq> SourceRemote"
    using load_cache_source [of lib io s "fst (load_cache lib io s)" "snd (load_cache lib io s)"] assms by auto
  with assms show "fetched (fallback lib io e s) = None" "fetched (replay lib io n s) = None"
    by (auto simp: fetched_def fallback_def replay_def split: prod.splits sum.splits)
qed

text \<open>Both ways to advance agree on what is fetched, and so do both caches.\<close>

lemma fetched_agree:
  assumes "ry_active s = builtin_state" "mark_in_range s" "se_mark_faults env = (\<lambda>_. False)"
  shows "fetched (sync_with read_only_advance lib env (s\<lparr>ry_cache := c\<rparr>)) = fetched (sync lib env s)"
proof -
  let ?t = "s\<lparr>ry_cache := c\<rparr>"
  have src: "rs_source (ry_active s) = SourceBuiltin" "rs_source (ry_active ?t) = SourceBuiltin"
    using assms(1) by (simp_all add: builtin_state_def)
  have chk: "check_rules_manifest lib ?t = check_rules_manifest lib s"
    by (intro ext) (simp add: check_rules_manifest_def)
  show ?thesis
  proof (cases "se_no_sync env = Some ''1''")
    case True
    with src show ?thesis by (simp add: sync_def sync_with_def fetched_def)
  next
    case on: False
    show ?thesis
    proof (cases "se_fetch env rules_manifest_url")
      case (Inl e)
      with on not_fetched [OF src(1)] not_fetched [OF src(2)] show ?thesis by (simp add: sync_def sync_with_def)
    next
      case man: (Inr raw)
      show ?thesis
      proof (cases "check_rules_manifest lib s (se_now env) raw")
        case (Inl e)
        with on man src chk show ?thesis by (simp add: sync_def sync_with_def fetched_def)
      next
        case (Inr mg)
        obtain m g where mg: "mg = (m, g)" by fastforce
        note pre = on man Inr mg chk
        consider (old) "rm_serial m < word_of_int (hw_serial (ry_mark s))" | (same) "rm_serial m = word_of_int (hw_serial (ry_mark s))"
          | (new) "word_of_int (hw_serial (ry_mark s)) < rm_serial m"
          by fastforce
        then show ?thesis
        proof cases
          case old
          with pre show ?thesis by (simp add: sync_def sync_with_def fetched_def)
        next
          case same
          with pre not_fetched(2) [OF src(1)] not_fetched(2) [OF src(2)] show ?thesis
            by (simp add: sync_def sync_with_def)
        next
          case new
          then have ne: "\<not> rm_serial m < word_of_int (hw_serial (ry_mark s))" "rm_serial m \<noteq> word_of_int (hw_serial (ry_mark s))"
            by auto
          show ?thesis
          proof (cases "se_fetch env rules_bundle_url")
            case (Inl e)
            with pre ne not_fetched [OF src(1)] not_fetched [OF src(2)] show ?thesis
              by (simp add: sync_def sync_with_def)
          next
            case bun: (Inr bd)
            show ?thesis
            proof (cases "accept_pack lib (ry_verifier s) (ry_binary s) (ry_budget s) m bd g")
              case (Inl e)
              with pre ne bun src show ?thesis by (simp add: sync_def sync_with_def fetched_def)
            next
              case acc: (Inr a)
              have a: "ap_serial a = rm_serial m" "ap_serial a \<le> max_int64"
                using acc by (auto simp: accept_pack_def ok_or_Inr_iff split: option.splits)
              have "hw_serial (ry_mark s) < uint (rm_serial m)"
                using word_of_mark_less new assms(2) by (simp add: mark_in_range_def)
              then have up: "hw_serial (ry_mark s) < sint (ap_serial a)" using a sint_of_small by simp
              obtain r c1 where st: "cache_store (se_io env) (ap_serial a) raw bd c = (r, c1)" by fastforce
              obtain c2 where st2: "cache_store (se_io env) (ap_serial a) raw bd (ry_cache s) = (r, c2)"
                using cache_store_result st by (metis eq_fst_iff)
              obtain mark where "file_advance (\<lambda>_. False) (sint (ap_serial a)) (ry_mark s) = (Inr (), mark)"
                using advance_no_faults [OF up] by (metis eq_fst_iff)
              with pre ne bun acc st st2 src assms(3) show ?thesis
                by (cases r) (simp_all add: sync_def sync_with_def activate_with_def fetched_def read_only_advance_def)
            qed
          qed
        qed
      qed
    qed
  qed
qed

text \<open>
  C27: \<open>rules sync --check\<close> predicts \<open>rules sync\<close>: over the same network, clock and file system, it reports
  a fetched pack exactly when the sync would activate one, and then the very same rule set, whatever
  the real cache holds. (The persisted mark is an \<open>int64\<close>, and the mark file can be written.)
\<close>

theorem check_predicts_sync:
  assumes "\<And>raw n. rf_mark_decode files raw = Some n \<Longrightarrow> n < 2 ^ 63" "se_mark_faults env = (\<lambda>_. False)"
  shows "(fst (rules_sync_command lib env v True True files) = Inr (Some st) \<and> rs_source st = SourceRemote) \<longleftrightarrow>
    (fst (rules_sync_command lib env v False scratch files) = Inr (Some st) \<and> rs_source st = SourceRemote)"
proof (cases "new_sync files v False scratch")
  case (Inl e)
  then have "new_sync files v True True = Inl e"
    by (simp add: new_sync_def require_def new_rules_sync_def ok_or_def split: if_splits sum.splits)
  with Inl show ?thesis by (simp add: rules_sync_command_def)
next
  case (Inr s)
  then have t: "new_sync files v True True = Inr (s\<lparr>ry_cache := empty_cache\<rparr>)"
    and fresh: "ry_active s = builtin_state"
    by (auto simp: new_sync_def new_rules_sync_def ok_or_Inr_iff)
  have "mark_in_range s"
    using Inr assms(1)
    by (auto simp: new_sync_def new_rules_sync_def ok_or_Inr_iff new_file_high_water_def read_high_water_def
        mark_in_range_def split: option.splits if_splits)
  note agree = fetched_agree [OF fresh this assms(2), of lib empty_cache]
  have iff: "(map_sum id (\<lambda>_. Some (ry_active (snd res))) (fst res) = Inr (Some st) \<and> rs_source st = SourceRemote) \<longleftrightarrow> fetched res = Some st"
    for res :: "unit outcome \<times> rules_sync"
    by (cases "fst res") (auto simp: fetched_def)
  show ?thesis
    using iff [of "sync_with read_only_advance lib env (s\<lparr>ry_cache := empty_cache\<rparr>)"] iff [of "sync lib env s"] agree
    by (cases "se_no_sync env = Some ''1''") (simp_all add: rules_sync_command_def t Inr split_def)
qed

section \<open>rules rollback\<close>

datatype directory = NoDirectory | Unlistable | Entries "(bytes \<times> bool) list"

datatype rollback_error = NoRollbackTarget | RollbackFailed supply_error

text \<open>\<open>strconv.ParseUint(name, 10, 64)\<close>.\<close>

definition parse_uint :: "bytes \<Rightarrow> u64 option" where
  "parse_uint s =
     (if s = [] \<or> \<not> list_all is_ascii_digit s \<or> 2 ^ 64 \<le> digits_value s then None else Some (of_nat (digits_value s)))"

definition cached_pack_serials :: "directory \<Rightarrow> u64 \<Rightarrow> u64 list outcome" where
  "cached_pack_serials listing active =
     (case listing of
        NoDirectory \<Rightarrow> Inr []
      | Unlistable \<Rightarrow> Inl ErrIo
      | Entries es \<Rightarrow>
          Inr (rev (sort (filter (\<lambda>n. n < active \<and> n \<noteq> 0)
                 (List.map_filter (\<lambda>(name, is_dir). if is_dir then parse_uint name else None) es)))))"

text \<open>
  What the world decides: the listing of the cache root, whether the two documents of a serial can be
  read, the scratch directory of each candidate, and the real file operations.
\<close>

record rollback_env =
  rl_root :: directory
  rl_reads :: "u64 \<Rightarrow> bool \<times> bool"
  rl_scratch :: "u64 \<Rightarrow> cache_io option"
  rl_io :: cache_io

definition read_file :: "bool \<Rightarrow> bytes option \<Rightarrow> bytes outcome" where
  "read_file ok doc = (case doc of None \<Rightarrow> Inl ErrIo | Some raw \<Rightarrow> require ok ErrIo (Inr raw))"

definition read_cached_pack :: "rollback_env \<Rightarrow> rules_cache \<Rightarrow> u64 \<Rightarrow> cached_pack outcome" where
  "read_cached_pack env c serial =
     ok_or (read_file (fst (rl_reads env serial)) (rc_manifests c serial)) (\<lambda>m.
     ok_or (read_file (snd (rl_reads env serial)) (rc_bundles c serial)) (\<lambda>b.
       Inr \<lparr>cp_serial = serial, cp_manifest = m, cp_bundle = b\<rparr>))"

definition verify_cached_pack :: "ruleslib \<Rightarrow> verify_fun \<Rightarrow> rollback_env \<Rightarrow> cached_pack \<Rightarrow> unit outcome" where
  "verify_cached_pack lib v env p =
     (case rl_scratch env (cp_serial p) of
        None \<Rightarrow> Inl ErrIo
      | Some io \<Rightarrow>
          (case cache_store io (cp_serial p) (cp_manifest p) (cp_bundle p) empty_cache of
             (Inl e, _) \<Rightarrow> Inl e
           | (Inr _, scratch) \<Rightarrow>
               ok_or (new_rules_sync (\<lambda>_. None) True None scratch (Some v) [] 0) (\<lambda>s. fst (startup lib io s))))"

fun first_verified :: "ruleslib \<Rightarrow> verify_fun \<Rightarrow> rollback_env \<Rightarrow> rules_cache \<Rightarrow> u64 list \<Rightarrow> (rollback_error, cached_pack) result" where
  "first_verified lib v env c [] = Inl NoRollbackTarget"
| "first_verified lib v env c (n # ns) =
     (case read_cached_pack env c n of
        Inl e \<Rightarrow> Inl (RollbackFailed e)
      | Inr p \<Rightarrow> if verify_cached_pack lib v env p = Inr () then Inr p else first_verified lib v env c ns)"

definition previous_verified_pack ::
    "ruleslib \<Rightarrow> verify_fun \<Rightarrow> rollback_env \<Rightarrow> rules_cache \<Rightarrow> u64 \<Rightarrow> (rollback_error, cached_pack) result" where
  "previous_verified_pack lib v env c active =
     (case cached_pack_serials (rl_root env) active of
        Inl e \<Rightarrow> Inl (RollbackFailed e)
      | Inr ns \<Rightarrow> first_verified lib v env c ns)"

text \<open>\<open>rulesRollback\<close>: the serial restored and the cache afterwards.\<close>

definition rules_rollback ::
    "ruleslib \<Rightarrow> verify_fun \<Rightarrow> rollback_env \<Rightarrow> rules_cache \<Rightarrow> (rollback_error, u64) result \<times> rules_cache" where
  "rules_rollback lib v env c =
     (case cache_active_serial lib (rl_io env) c of
        Inl e \<Rightarrow> (Inl (RollbackFailed e), c)
      | Inr active \<Rightarrow>
          if active = 0 then (Inl NoRollbackTarget, c)
          else
            (case previous_verified_pack lib v env c active of
               Inl e \<Rightarrow> (Inl e, c)
             | Inr p \<Rightarrow>
                 (case cache_store (rl_io env) (cp_serial p) (cp_manifest p) (cp_bundle p) c of
                    (Inl e, c) \<Rightarrow> (Inl (RollbackFailed e), c)
                  | (Inr _, c) \<Rightarrow> (Inr (cp_serial p), c))))"

lemma read_cached_pack_D:
  "read_cached_pack env c n = Inr p \<Longrightarrow>
     cp_serial p = n \<and> rc_manifests c n = Some (cp_manifest p) \<and> rc_bundles c n = Some (cp_bundle p)"
  by (auto simp: read_cached_pack_def read_file_def ok_or_Inr_iff split: option.splits)

lemma first_verified_D:
  "first_verified lib v env c ns = Inr p \<Longrightarrow>
     \<exists>newer older. ns = newer @ cp_serial p # older \<and> read_cached_pack env c (cp_serial p) = Inr p
       \<and> verify_cached_pack lib v env p = Inr ()
       \<and> (\<forall>k \<in> set newer. \<exists>q. read_cached_pack env c k = Inr q \<and> verify_cached_pack lib v env q \<noteq> Inr ())"
proof (induction ns)
  case (Cons n ns)
  then obtain q where q: "read_cached_pack env c n = Inr q" by (auto split: sum.splits)
  show ?case
  proof (cases "verify_cached_pack lib v env q = Inr ()")
    case True
    with Cons.prems q have "q = p" by simp
    with q True read_cached_pack_D [OF q] show ?thesis by (intro exI [of _ "[]"] exI [of _ ns]) auto
  next
    case False
    with Cons.prems q have "first_verified lib v env c ns = Inr p" by simp
    from Cons.IH [OF this] obtain newer older where
      "ns = newer @ cp_serial p # older" "read_cached_pack env c (cp_serial p) = Inr p" "verify_cached_pack lib v env p = Inr ()"
      "\<forall>k \<in> set newer. \<exists>q. read_cached_pack env c k = Inr q \<and> verify_cached_pack lib v env q \<noteq> Inr ()" by blast
    with q False show ?thesis by (intro exI [of _ "n # newer"] exI [of _ older]) auto
  qed
qed simp

lemma store_same:
  assumes "rc_manifests c n = Some m" "rc_bundles c n = Some b" "cache_store io n m b c = (r, c')"
  shows "c' = (if r = Inr () then c\<lparr>rc_pointer := Some (active_doc n)\<rparr> else c)"
proof -
  have "(rc_manifests c)(n := Some m) = rc_manifests c" "(rc_bundles c)(n := Some b) = rc_bundles c"
    using assms(1,2) by auto
  then show ?thesis
    using assms write_file_atomic_result [of "io_write_manifest io" m "Some m"]
      write_file_atomic_result [of "io_write_bundle io" b "Some b"]
      write_file_atomic_result [of "io_write_pointer io" "active_doc n" "rc_pointer c"]
    by (auto simp: cache_store_def)
qed

lemma verified_authentic:
  assumes "verify_cached_pack lib (static_verify ed) env p = Inr ()" "pointer_reads_back lib" "cp_serial p \<noteq> 0"
  shows "\<exists>m st. decode_rules_manifest lib (cp_manifest p) = Inr m
     \<and> authentic_pack lib ed (Version 0 5 0) primitive_byte_budget_bytes m (cp_bundle p) st"
proof -
  from assms(1) obtain io scratch s where io:
    "cache_store io (cp_serial p) (cp_manifest p) (cp_bundle p) empty_cache = (Inr (), scratch)"
    "new_rules_sync (\<lambda>_. None) True None scratch (Some (static_verify ed)) [] 0 = Inr s" "fst (startup lib io s) = Inr ()"
    by (auto simp: verify_cached_pack_def ok_or_Inr_iff split: option.splits prod.splits sum.splits)
  have c: "rc_pointer scratch = Some (active_doc (cp_serial p))" "rc_manifests scratch (cp_serial p) = Some (cp_manifest p)"
    "rc_bundles scratch (cp_serial p) = Some (cp_bundle p)"
    by (cases rule: cache_store_cases [of io "cp_serial p" "cp_manifest p" "cp_bundle p" empty_cache]; use io(1) in auto)+
  have "parse_version ''0.5.0'' = Inr (Version 0 5 0)" by code_simp
  with io(2) have s: "ry_cache s = scratch" "ry_verifier s = static_verify ed" "ry_binary s = Version 0 5 0"
    "ry_budget s = primitive_byte_budget_bytes"
    by (auto simp: new_rules_sync_def ok_or_Inr_iff)
  have act: "load_active lib io scratch = Inr p \<or> load_active lib io scratch = Inl ErrCacheCorrupt"
    using c assms(2,3)
    by (auto simp: load_active_def cache_active_serial_def pointer_reads_back_def require_def read_cached_doc_def)
  with io(3) s(1) have "load_active lib io scratch = Inr p"
    by (auto simp: startup_def load_cache_def)
  with io(3) s obtain m g a where "decode_rules_manifest lib (cp_manifest p) = Inr m"
    "verify_rules_manifest_signature lib m (Some (static_verify ed)) = Inr ()" "check_manifest_fields m (Version 0 5 0) = Inr g"
    "accept_pack lib (static_verify ed) (Version 0 5 0) primitive_byte_budget_bytes m (cp_bundle p) g = Inr a"
    by (auto simp: startup_def load_cache_def ok_or_Inr_iff split: sum.splits)
  with accepted_authentic show ?thesis by blast
qed

lemma rollback_failure_unchanged:
  assumes "rules_rollback lib (static_verify ed) env c = (Inl e, c')"
  shows "c' = c"
proof (cases "\<exists>active p. cache_active_serial lib (rl_io env) c = Inr active \<and> active \<noteq> 0
    \<and> previous_verified_pack lib (static_verify ed) env c active = Inr p")
  case True
  then obtain active p where p: "cache_active_serial lib (rl_io env) c = Inr active" "active \<noteq> 0"
    "previous_verified_pack lib (static_verify ed) env c active = Inr p" by blast
  then obtain ns where "first_verified lib (static_verify ed) env c ns = Inr p"
    by (auto simp: previous_verified_pack_def split: sum.splits)
  with first_verified_D read_cached_pack_D have
    "rc_manifests c (cp_serial p) = Some (cp_manifest p)" "rc_bundles c (cp_serial p) = Some (cp_bundle p)" by blast+
  note same = store_same [OF this]
  obtain q c1 where st: "cache_store (rl_io env) (cp_serial p) (cp_manifest p) (cp_bundle p) c = (q, c1)" by fastforce
  with assms p have "c' = c1" "q \<noteq> Inr ()"
    by (auto simp: rules_rollback_def split: sum.splits)
  with same [OF st] show ?thesis by simp
qed (use assms in \<open>auto simp: rules_rollback_def split: sum.splits if_splits\<close>)

text \<open>
  C3: A rollback restores the newest earlier pack that still verifies, or nothing: when it reports a
  serial, only the pointer of the cache has moved, to a serial below the active one whose cached
  documents are authentic under the built-in keys, and every listed serial in between was read and
  failed its verification; when it fails, wherever it fails, the cache is exactly what it was.
\<close>

theorem rollback_restores_verified:
  assumes "rules_rollback lib (static_verify ed) env c = (r, c')" "pointer_reads_back lib"
  shows "case r of
      Inl _ \<Rightarrow> c' = c
    | Inr n \<Rightarrow> c' = c\<lparr>rc_pointer := Some (active_doc n)\<rparr>
        \<and> (\<exists>active ns. cache_active_serial lib (rl_io env) c = Inr active \<and> n < active \<and> n \<noteq> 0
            \<and> cached_pack_serials (rl_root env) active = Inr ns \<and> n \<in> set ns
            \<and> (\<forall>k \<in> set ns. n < k \<longrightarrow> (\<exists>q. read_cached_pack env c k = Inr q
                 \<and> verify_cached_pack lib (static_verify ed) env q \<noteq> Inr ())))
        \<and> (\<exists>man raw m st. rc_manifests c n = Some man \<and> rc_bundles c n = Some raw \<and> decode_rules_manifest lib man = Inr m
            \<and> authentic_pack lib ed (Version 0 5 0) primitive_byte_budget_bytes m raw st)"
proof (cases r)
  case (Inl e)
  with rollback_failure_unchanged assms(1) show ?thesis by simp
next
  case (Inr n)
  with assms(1) obtain active p c1 where p: "cache_active_serial lib (rl_io env) c = Inr active" "active \<noteq> 0"
    "previous_verified_pack lib (static_verify ed) env c active = Inr p"
    "cache_store (rl_io env) n (cp_manifest p) (cp_bundle p) c = (Inr (), c1)" "n = cp_serial p" "c' = c1"
    by (auto simp: rules_rollback_def split: prod.splits sum.splits if_splits)
  then obtain ns where ns: "cached_pack_serials (rl_root env) active = Inr ns" "first_verified lib (static_verify ed) env c ns = Inr p"
    by (auto simp: previous_verified_pack_def split: sum.splits)
  from first_verified_D [OF ns(2)] obtain newer older where
    v: "ns = newer @ n # older" "read_cached_pack env c n = Inr p" "verify_cached_pack lib (static_verify ed) env p = Inr ()"
      "\<forall>k \<in> set newer. \<exists>q. read_cached_pack env c k = Inr q \<and> verify_cached_pack lib (static_verify ed) env q \<noteq> Inr ()"
    unfolding p(5) by blast
  have ns_in: "\<forall>k \<in> set ns. k < active \<and> k \<noteq> 0" and desc: "sorted_wrt (\<ge>) ns"
    using ns(1) by (auto simp: cached_pack_serials_def sorted_wrt_rev split: directory.splits)
  have "\<forall>k \<in> set ns. n < k \<longrightarrow> k \<in> set newer"
    using desc v(1) by (auto simp: sorted_wrt_append)
  with v(4) have between: "\<forall>k \<in> set ns. n < k \<longrightarrow> (\<exists>q. read_cached_pack env c k = Inr q
      \<and> verify_cached_pack lib (static_verify ed) env q \<noteq> Inr ())" by blast
  note docs = read_cached_pack_D [OF v(2)]
  have "n < active" "n \<noteq> 0" using ns_in v(1) by auto
  moreover have "c' = c\<lparr>rc_pointer := Some (active_doc n)\<rparr>"
    using store_same [OF _ _ p(4)] docs p(6) by simp
  moreover from verified_authentic [OF v(3) assms(2)] docs \<open>n \<noteq> 0\<close> have
    "\<exists>man raw m st. rc_manifests c n = Some man \<and> rc_bundles c n = Some raw \<and> decode_rules_manifest lib man = Inr m
            \<and> authentic_pack lib ed (Version 0 5 0) primitive_byte_budget_bytes m raw st" by auto
  moreover have "n \<in> set ns" using v(1) by simp
  ultimately show ?thesis using p(1) ns(1) between Inr by auto
qed

section \<open>Evaluated instances\<close>

definition sample_files :: rules_files where
  "sample_files = \<lparr>rf_cache = empty_cache, rf_mark = None, rf_mark_readable = True, rf_mark_decode = \<lambda>_. None\<rparr>"

lemma sample_new: "new_rules_sync (\<lambda>_. None) True None c (Some (static_verify (\<lambda>_ _ _. True))) [] 0 = Inr (sample_sync\<lparr>ry_cache := c\<rparr>)"
proof -
  have "parse_version ''0.5.0'' = Inr (Version 0 5 0)" by code_simp
  then show ?thesis
    by (simp add: new_rules_sync_def new_file_high_water_def read_high_water_def sample_sync_def)
qed

lemma check_predicts_sync_witness:
  "fst (rules_sync_command sample_ruleslib (sample_sync_env (\<lambda>_. False)) (static_verify (\<lambda>_ _ _. True)) True True sample_files) =
     Inr (Some (state_of SourceRemote sample_accepted))"
proof -
  have s: "sample_sync\<lparr>ry_cache := empty_cache\<rparr> = sample_sync" by (simp add: sample_sync_def)
  have adv: "fst (file_advance (\<lambda>_. False) 7 \<lparr>hw_file = None, hw_serial = 0\<rparr>) = Inr ()"
    by (rule advance_no_faults) simp
  have "fst (rules_sync_command sample_ruleslib (sample_sync_env (\<lambda>_. False)) (static_verify (\<lambda>_ _ _. True)) False True sample_files) =
      Inr (Some (state_of SourceRemote sample_accepted))"
    using sample_sync_run [of "\<lambda>_. False"] adv
    by (simp add: rules_sync_command_def new_sync_def sample_files_def sample_new s sample_sync_env_def)
  moreover have "rs_source (state_of SourceRemote sample_accepted) = SourceRemote" by (simp add: state_of_def)
  ultimately show ?thesis
    using check_predicts_sync [of sample_files "sample_sync_env (\<lambda>_. False)" sample_ruleslib "static_verify (\<lambda>_ _ _. True)"
        "state_of SourceRemote sample_accepted" True]
    by (simp add: sample_files_def sample_sync_env_def)
qed

definition sample_rollback :: "(bytes \<times> bool) list \<Rightarrow> rollback_env" where
  "sample_rollback entries =
     \<lparr>rl_root = Entries entries, rl_reads = \<lambda>_. (True, True), rl_scratch = \<lambda>_. Some no_faults, rl_io = no_faults\<rparr>"

definition sample_cached :: rules_cache where
  "sample_cached = \<lparr>rc_pointer = Some (active_doc 8), rc_manifests = [6 \<mapsto> ''doc''], rc_bundles = [6 \<mapsto> ''doc'']\<rparr>"

lemma sample_verifies:
  assumes "cp_serial p \<noteq> 0" "cp_manifest p = ''doc''" "cp_bundle p = ''doc''"
  shows "verify_cached_pack sample_ruleslib (static_verify (\<lambda>_ _ _. True)) (sample_rollback es) p = Inr ()"
proof -
  have st: "cache_store no_faults n m b empty_cache =
      (Inr (), \<lparr>rc_pointer = Some (active_doc n), rc_manifests = [n \<mapsto> m], rc_bundles = [n \<mapsto> b]\<rparr>)" for n m b
    by (simp add: cache_store_def write_file_atomic_def no_faults_def empty_cache_def)
  have act: "load_active sample_ruleslib no_faults \<lparr>rc_pointer = Some (active_doc n), rc_manifests = [n \<mapsto> m], rc_bundles = [n \<mapsto> b]\<rparr> =
      Inr \<lparr>cp_serial = n, cp_manifest = m, cp_bundle = b\<rparr>" if "n \<noteq> 0" for n m b
    using that sample_pointer
    by (simp add: load_active_def cache_active_serial_def pointer_reads_back_def no_faults_def read_cached_doc_def)
  have "decode_rules_manifest sample_ruleslib ''doc'' = Inr sample_rules_manifest"
    using sample_check_manifest by (auto simp: check_rules_manifest_def ok_or_Inr_iff)
  with check_rules_manifest_D [OF sample_check_manifest] sample_accept st act assms show ?thesis
    by (simp add: verify_cached_pack_def sample_rollback_def sample_new startup_def load_cache_def)
      (simp add: sample_sync_def)
qed

lemma sample_serials:
  "cached_pack_serials (Entries [(''6'', True), (''active'', False)]) 8 = Inr [6]"
  "cached_pack_serials (Entries [(''6'', True), (''7'', True), (''active'', False)]) 8 = Inr [7, 6]"
  by code_simp+

lemma sample_rollback_run:
  "rules_rollback sample_ruleslib (static_verify (\<lambda>_ _ _. True)) (sample_rollback [(''6'', True), (''active'', False)]) sample_cached =
     (Inr 6, sample_cached\<lparr>rc_pointer := Some (active_doc 6)\<rparr>)"
proof -
  let ?env = "sample_rollback [(''6'', True), (''active'', False)]"
  have act: "cache_active_serial sample_ruleslib (rl_io ?env) sample_cached = Inr 8"
    using sample_pointer by (simp add: cache_active_serial_def sample_cached_def pointer_reads_back_def sample_rollback_def no_faults_def)
  let ?p = "\<lparr>cp_serial = 6, cp_manifest = ''doc'', cp_bundle = ''doc''\<rparr>"
  have read: "read_cached_pack ?env sample_cached 6 = Inr ?p"
    by (simp add: read_cached_pack_def read_file_def sample_rollback_def sample_cached_def)
  have docs: "rc_manifests sample_cached 6 = Some ''doc''" "rc_bundles sample_cached 6 = Some ''doc''"
    by (simp_all add: sample_cached_def)
  obtain r c' where st: "cache_store (rl_io ?env) 6 ''doc'' ''doc'' sample_cached = (r, c')" by fastforce
  have "r = Inr ()"
    using st by (auto simp: cache_store_def write_file_atomic_def sample_rollback_def no_faults_def)
  with store_same [OF docs st] have c': "c' = sample_cached\<lparr>rc_pointer := Some (active_doc 6)\<rparr>" by simp
  have "rl_root ?env = Entries [(''6'', True), (''active'', False)]" by (simp add: sample_rollback_def)
  with act read sample_verifies [of ?p] sample_serials(1) st c' \<open>r = Inr ()\<close> show ?thesis
    by (simp add: rules_rollback_def previous_verified_pack_def)
qed

lemma rollback_restores_verified_witness:
  "\<exists>m st. authentic_pack sample_ruleslib (\<lambda>_ _ _. True) (Version 0 5 0) primitive_byte_budget_bytes m ''doc'' st"
  using rollback_restores_verified [OF sample_rollback_run sample_pointer]
  by (auto simp: sample_cached_def)

text \<open>
  One directory of the cache whose documents cannot be read stops the rollback, although an older
  pack that verifies is there: with a bare directory \<open>7\<close> next to the good pack 6, nothing is restored,
  and without that directory 6 is. The comment of \<open>previousVerifiedPack\<close> promises the newest serial that
  re-verifies.
\<close>

theorem rollback_stops_at_unreadable:
  "rules_rollback sample_ruleslib (static_verify (\<lambda>_ _ _. True))
       (sample_rollback [(''6'', True), (''7'', True), (''active'', False)]) sample_cached = (Inl (RollbackFailed ErrIo), sample_cached)
   \<and> fst (rules_rollback sample_ruleslib (static_verify (\<lambda>_ _ _. True))
       (sample_rollback [(''6'', True), (''active'', False)]) sample_cached) = Inr 6"
proof -
  let ?env = "sample_rollback [(''6'', True), (''7'', True), (''active'', False)]"
  have "cache_active_serial sample_ruleslib (rl_io ?env) sample_cached = Inr 8"
    using sample_pointer by (simp add: cache_active_serial_def sample_cached_def pointer_reads_back_def sample_rollback_def no_faults_def)
  moreover have "read_cached_pack ?env sample_cached 7 = Inl ErrIo"
    by (simp add: read_cached_pack_def read_file_def sample_cached_def)
  moreover have "rl_root ?env = Entries [(''6'', True), (''7'', True), (''active'', False)]" by (simp add: sample_rollback_def)
  ultimately show ?thesis
    using sample_serials(2) sample_rollback_run by (simp add: rules_rollback_def previous_verified_pack_def)
qed

end
