(* ===== verification/Startup.thy ===== *)
theory Startup
  imports Divergences Rollback
begin

text \<open>
  How a gateway comes up: the pipeline build of \<open>internal/cli/run.go\<close> and \<open>cli.go\<close>, the session files of
  \<open>pkg/proxy/runstate.go\<close>, the checked flags of \<open>run_flags.go\<close>, and the startup order of the run command.
\<close>

section \<open>The pipeline\<close>

text \<open>An \<open>int\<close> has 64 bits, so a configured budget fits when it is below \<open>2 ^ 63\<close>.\<close>

definition scan_budget :: "config \<Rightarrow> int" where
  "scan_budget cfg =
     (if cfg_scan_budget cfg \<le> 0 \<or> 2 ^ 63 \<le> cfg_scan_budget cfg then primitive_byte_budget_bytes else cfg_scan_budget cfg)"

definition detector_enabled :: "detectors \<Rightarrow> bytes \<Rightarrow> bool" where
  "detector_enabled d name =
     (if name = ''prefix'' then det_prefix d
      else if name = ''email'' then det_email d
      else if name = ''luhn'' then det_luhn d
      else if name = ''jwt'' then det_jwt d
      else if name = ''private_key'' then det_pem d
      else if name = ''high_entropy'' then det_entropy d
      else False)"

definition select_builtins :: "('x golib_scheme) \<Rightarrow> detectors \<Rightarrow> int \<Rightarrow> rule list" where
  "select_builtins lib d budget = filter (\<lambda>r. detector_enabled d (ru_id r)) (builtin_detectors_budget lib budget)"

datatype startup_notice = CacheRejected supply_error | PackWarning bytes

datatype build_error = RegistryRefused filter_error | RulesUnavailable supply_error | NoToken

text \<open>\<open>loadCachedPack\<close>: the registry afterwards and the lines printed.\<close>

definition load_cached_pack ::
    "ruleslib \<Rightarrow> cache_io \<Rightarrow> rules_files \<Rightarrow> int \<Rightarrow> verify_fun \<Rightarrow> registry
       \<Rightarrow> (build_error, unit) result \<times> startup_notice list \<times> registry" where
  "load_cached_pack lib io files budget v reg =
     (case new_rules_sync (rf_mark_decode files) (rf_mark_readable files) (rf_mark files) (rf_cache files) (Some v) [] budget of
        Inl e \<Rightarrow> (Inl (RulesUnavailable e), [], reg)
      | Inr s \<Rightarrow>
          (case startup lib io s of
             (Inl e, _) \<Rightarrow> (Inr (), [CacheRejected e], reg)
           | (Inr _, s) \<Rightarrow>
               (let notices = map PackWarning (rs_warnings (ry_active s))
                in case rs_pack (ry_active s) of
                     None \<Rightarrow> (Inr (), notices, reg)
                   | Some c \<Rightarrow>
                       (case register_compiled (Some c) reg of
                          (Inl e, reg) \<Rightarrow> (Inl (RegistryRefused e), notices, reg)
                        | (Inr _, reg) \<Rightarrow> (Inr (), notices, reg)))))"

text \<open>
  \<open>buildGateway\<close>: the gateway before it has a port, its session, and the lines printed. \<open>random\<close> is what
  the random source delivers for the token, \<open>digest\<close> and \<open>salt\<close> make the placeholder engine.
\<close>

record build_env =
  be_lib :: ruleslib
  be_io :: cache_io
  be_files :: rules_files
  be_random :: "bytes option"
  be_digest :: "bytes \<Rightarrow> bytes \<Rightarrow> bytes \<Rightarrow> bytes"
  be_salt :: bytes
  be_now :: int

definition build_gateway ::
    "build_env \<Rightarrow> verify_fun \<Rightarrow> config \<Rightarrow> bool \<Rightarrow> (build_error, gateway \<times> gateway_state) result \<times> startup_notice list" where
  "build_gateway env v cfg log_redactions =
     (let budget = scan_budget cfg
      in case register_builtin (map Some (select_builtins (be_lib env) (cfg_detectors cfg) budget)) new_registry of
           (Inl e, _) \<Rightarrow> (Inl (RegistryRefused e), [])
         | (Inr _, reg) \<Rightarrow>
             (case load_cached_pack (be_lib env) (be_io env) (be_files env) budget v reg of
                (Inl e, notices, _) \<Rightarrow> (Inl e, notices)
              | (Inr _, notices, reg) \<Rightarrow>
                  (case new_token (be_random env) of
                     None \<Rightarrow> (Inl NoToken, notices)
                   | Some token \<Rightarrow>
                       (Inr (\<lparr>gw_config = cfg, gw_budget = budget, gw_log_redactions = log_redactions,
                              gw_policy = new_policy (Some reg), gw_token = token, gw_port = 0, gw_addrs = [],
                              gw_started = be_now env\<rparr>,
                             new_session cfg token (new_engine (be_digest env) (be_salt env))), notices))))"

section \<open>Session files\<close>

record session_files =
  sf_run :: "bytes option"
  sf_token :: "bytes option"

record run_info =
  ri_pid :: int
  ri_port :: int
  ri_addrs :: "bytes list"
  ri_started_at :: bytes

definition run_json :: "run_info \<Rightarrow> bytes" where
  "run_json i =
     json_object
       [json_member ''pid'' (json_int (ri_pid i)), json_member ''port'' (json_int (ri_port i)),
        json_member ''addrs'' (json_array (map json_string (ri_addrs i))),
        json_member ''started_at'' (json_string (ri_started_at i))]"

text \<open>The file operations of one session: which steps of a write fail, which removals do.\<close>

record session_io =
  si_mkdir :: bool
  si_run :: faults
  si_token :: faults
  si_remove_run :: bool
  si_remove_token :: bool

definition write_session_file :: "faults \<Rightarrow> bytes \<Rightarrow> bytes option \<Rightarrow> bool \<times> bytes option" where
  "write_session_file faults data old =
     (if faults CreateTemp \<or> faults ChmodTemp \<or> faults WriteTemp \<or> faults SyncTemp \<or> faults CloseTemp \<or> faults RenameTemp
      then (False, old) else (True, Some data))"

definition remove_file :: "bool \<Rightarrow> bytes option \<Rightarrow> bytes option" where
  "remove_file works f = (if works then None else f)"

definition write_session :: "session_io \<Rightarrow> run_info \<Rightarrow> bytes \<Rightarrow> session_files \<Rightarrow> bool \<times> session_files" where
  "write_session io info token f =
     (if \<not> si_mkdir io then (False, f)
      else case write_session_file (si_run io) (run_json info @ [CHR 0x0A]) (sf_run f) of
        (False, r) \<Rightarrow> (False, f\<lparr>sf_run := r\<rparr>)
      | (True, r) \<Rightarrow>
          (case write_session_file (si_token io) (token @ [CHR 0x0A]) (sf_token f) of
             (False, t) \<Rightarrow> (False, f\<lparr>sf_run := remove_file (si_remove_run io) r, sf_token := t\<rparr>)
           | (True, t) \<Rightarrow> (True, f\<lparr>sf_run := r, sf_token := t\<rparr>)))"

text \<open>Both removals are tried, whatever the first one does.\<close>

definition remove_session :: "session_io \<Rightarrow> session_files \<Rightarrow> session_files" where
  "remove_session io f =
     \<lparr>sf_run = remove_file (si_remove_run io) (sf_run f), sf_token = remove_file (si_remove_token io) (sf_token f)\<rparr>"

section \<open>The banner\<close>

definition configured_lines :: "config \<Rightarrow> bytes list" where
  "configured_lines cfg =
     (if cfg_upstreams cfg = [] then [''tokenhush: upstreams: none configured; built-in routes apply'']
      else ''tokenhush: upstreams (config):''
        # map (\<lambda>u. ''tokenhush:   '' @ up_match u @ '' -> '' @ up_target u) (cfg_upstreams cfg))"

definition representative_path :: "bytes \<Rightarrow> bytes list \<Rightarrow> bytes" where
  "representative_path target paths =
     (let want = (if target = openai_base_url then ''/v1/chat/completions''
                  else if target = anthropic_base_url then ''/v1/messages'' else [])
      in case find ((=) want) paths of Some p \<Rightarrow> p | None \<Rightarrow> hd paths)"

text \<open>The groups of the table, in the order of first appearance.\<close>

definition route_groups :: "(bytes \<times> upstream) list \<Rightarrow> (bytes \<times> bytes list) list" where
  "route_groups routes =
     (let remote = filter (\<lambda>(_, u). \<not> route_local u) routes
      in map (\<lambda>t. (t, map fst (filter (\<lambda>(_, u). route_base u = t) remote)))
           (rev (remdups (rev (map (route_base \<circ> snd) remote)))))"

definition builtin_lines :: "bytes list" where
  "builtin_lines =
     ''tokenhush: built-in routes:''
     # map (\<lambda>(t, ps). ''tokenhush:   '' @ itoa (length ps) @ '' paths -> '' @ t @ '' (e.g. '' @ representative_path t ps @ '')'')
         (route_groups builtin_route_list)
     @ (if list_ex (\<lambda>(_, u). route_local u) builtin_route_list
        then [''tokenhush:   1 local route: GET /v1/models (no upstream)''] else [])"

section \<open>The run command\<close>

record run_options =
  op_config :: bytes
  op_port :: int
  op_log_level :: bytes
  op_log_redactions :: bool

text \<open>What \<open>parseRunFlags\<close> checks after \<open>flag.Parse\<close>; \<open>rest\<close> are the arguments left over.\<close>

definition check_run_flags :: "run_options \<Rightarrow> bytes list \<Rightarrow> bool" where
  "check_run_flags opts rest \<longleftrightarrow>
     rest = [] \<and> \<not> (op_port opts < 0 \<or> 65535 < op_port opts)
       \<and> \<not> (op_log_level opts \<noteq> [] \<and> op_log_level opts \<notin> set log_levels)"

definition apply_run_overrides :: "config \<Rightarrow> run_options \<Rightarrow> config" where
  "apply_run_overrides cfg opts =
     (let cfg = (if op_port opts \<noteq> 0 then cfg\<lparr>cfg_listen := (cfg_listen cfg)\<lparr>listen_port := op_port opts\<rparr>\<rparr> else cfg)
      in if op_log_level opts \<noteq> [] then cfg\<lparr>cfg_log_level := op_log_level opts\<rparr> else cfg)"

datatype exit_code = ExitOK | ExitUsage | ExitFailure

datatype run_event =
  Recovering | Loading bytes | Building config | Binding bytes int | ClosingListener
| Writing run_info | Serving gateway | Removing

text \<open>
  The world of one run: the seams of \<open>runSeams\<close> and the platform calls. \<open>ru_join\<close> is \<open>filepath.Join\<close>,
  \<open>ru_addr\<close> the text of a bound address; serving ends well or not.
\<close>

record run_env =
  ru_executable :: bool
  ru_recovers :: bool
  ru_config_dir :: "bytes option"
  ru_join :: "bytes \<Rightarrow> bytes \<Rightarrow> bytes"
  ru_load :: "bytes \<Rightarrow> (config_error, config) result"
  ru_data_dir :: bool
  ru_build :: build_env
  ru_bind :: "ip \<Rightarrow> int \<Rightarrow> (bind_error, ip \<times> int) result"
  ru_addr :: "ip \<times> int \<Rightarrow> bytes"
  ru_pid :: int
  ru_started_at :: bytes
  ru_session :: session_io
  ru_serves :: bool

definition bound_port :: "bytes \<Rightarrow> int option" where
  "bound_port addr = (case split_host_port addr of None \<Rightarrow> None | Some (_, p) \<Rightarrow> atoi p)"

definition run_with ::
    "run_env \<Rightarrow> verify_fun \<Rightarrow> run_options \<Rightarrow> bytes list \<Rightarrow> session_files \<Rightarrow> exit_code \<times> session_files \<times> run_event list" where
  "run_with env v opts rest f =
     (if \<not> check_run_flags opts rest then (ExitUsage, f, [])
      else if \<not> ru_executable env then (ExitFailure, f, [])
      else if \<not> ru_recovers env then (ExitFailure, f, [Recovering])
      else case (if op_config opts \<noteq> [] then Some (op_config opts)
                 else map_option (\<lambda>d. ru_join env d ''tokenhush.yaml'') (ru_config_dir env)) of
        None \<Rightarrow> (ExitFailure, f, [Recovering])
      | Some path \<Rightarrow>
          (case ru_load env path of
             Inl _ \<Rightarrow> (ExitFailure, f, [Recovering, Loading path])
           | Inr cfg \<Rightarrow>
               (let cfg = apply_run_overrides cfg opts; ev = [Recovering, Loading path]
                in if \<not> ru_data_dir env then (ExitFailure, f, ev)
                   else case build_gateway (ru_build env) v cfg (op_log_redactions opts) of
                     (Inl _, _) \<Rightarrow> (ExitFailure, f, ev @ [Building cfg])
                   | (Inr (g, _), _) \<Rightarrow>
                       (let ev = ev @ [Building cfg, Binding (listen_host (cfg_listen cfg)) (listen_port (cfg_listen cfg))]
                        in case fst (listen_on (ru_bind env) (listen_host (cfg_listen cfg)) (listen_port (cfg_listen cfg))) of
                             Inl _ \<Rightarrow> (ExitFailure, f, ev)
                           | Inr a \<Rightarrow>
                               (case bound_port (ru_addr env a) of
                                  None \<Rightarrow> (ExitFailure, f, ev @ [ClosingListener])
                                | Some port \<Rightarrow>
                                    (let g = g\<lparr>gw_port := port, gw_addrs := [ru_addr env a]\<rparr>;
                                         info = \<lparr>ri_pid = ru_pid env, ri_port = port, ri_addrs = [ru_addr env a],
                                                 ri_started_at = ru_started_at env\<rparr>
                                     in case write_session (ru_session env) info (gw_token g) f of
                                          (False, f) \<Rightarrow> (ExitFailure, f, ev @ [Writing info, ClosingListener])
                                        | (True, f) \<Rightarrow>
                                            (if ru_serves env then ExitOK else ExitFailure,
                                             remove_session (ru_session env) f,
                                             ev @ [Writing info, Serving g, Removing])))))))"

section \<open>The policy of a built gateway\<close>

lemma check_candidate_D:
  "check_candidate used proposed = Inr r \<Longrightarrow> proposed = Some r \<and> ru_id r \<notin> set used"
  by (auto simp: check_candidate_def require_def split: option.splits if_splits)

lemma pending_entries_D:
  "pending_entries origin used rules = Inr es \<Longrightarrow>
     map (\<lambda>e. Some (re_rule e)) es = rules \<and> (\<forall>e \<in> set es. re_origin e = origin \<and> re_id e = ru_id (re_rule e))
       \<and> distinct (map re_id es) \<and> set (map re_id es) \<inter> set used = {}"
proof (induction rules arbitrary: used es)
  case (Cons proposed rules)
  then obtain r es' where r: "check_candidate used proposed = Inr r" "pending_entries origin (ru_id r # used) rules = Inr es'"
    "es = \<lparr>re_rule = r, re_origin = origin, re_id = ru_id r, re_rank = ru_priority r\<rparr> # es'"
    by (auto simp: ok_or_Inr_iff)
  from Cons.IH [OF r(2)] check_candidate_D [OF r(1)] r(3) show ?case by auto
qed simp

text \<open>Every entry has an identity of its own, and the registry remembers exactly these.\<close>

definition registry_ok :: "registry \<Rightarrow> bool" where
  "registry_ok reg \<longleftrightarrow> distinct (map re_id (rg_entries reg)) \<and> set (rg_ids reg) = set (map re_id (rg_entries reg))"

lemma add_rules_ok:
  assumes "add_rules origin rules reg = (r, reg')" "registry_ok reg"
  shows "registry_ok reg'
    \<and> (r = Inr () \<longrightarrow> (\<exists>es. set (rg_entries reg') = set (rg_entries reg) \<union> set es
         \<and> map (\<lambda>e. Some (re_rule e)) es = rules \<and> (\<forall>e \<in> set es. re_origin e = origin)))
    \<and> ((\<exists>e. r = Inl e) \<longrightarrow> reg' = reg)"
proof (cases "pending_entries origin (rg_ids reg) rules")
  case (Inl e)
  with assms show ?thesis by (auto simp: add_rules_def)
next
  case (Inr es)
  note p = pending_entries_D [OF Inr]
  have reg': "reg' = reg\<lparr>rg_entries := sort_key entry_order (rg_entries reg @ es), rg_ids := rg_ids reg @ map re_id es\<rparr>" "r = Inr ()"
    using assms(1) Inr by (simp_all add: add_rules_def)
  have "set (map re_id (rg_entries reg)) \<inter> set (map re_id es) = {}"
    using assms(2) p unfolding registry_ok_def by (metis Int_commute)
  then have "distinct (map re_id (rg_entries reg @ es))"
    using assms(2) p by (simp add: registry_ok_def)
  moreover have "mset (map re_id (sort_key entry_order (rg_entries reg @ es))) = mset (map re_id (rg_entries reg @ es))"
    by (metis mset_map mset_sort)
  ultimately have "distinct (map re_id (sort_key entry_order (rg_entries reg @ es)))"
    using mset_eq_imp_distinct_iff by blast
  then have "registry_ok reg'"
    using assms(2) reg'(1) by (auto simp: registry_ok_def)
  moreover have "set (rg_entries reg') = set (rg_entries reg) \<union> set es"
    using reg'(1) by simp
  ultimately show ?thesis using p reg'(2) by blast
qed

definition entries_of :: "ruleslib \<Rightarrow> (bytes \<Rightarrow> bytes \<Rightarrow> bytes \<Rightarrow> bool) \<Rightarrow> config \<Rightarrow> registry_entry \<Rightarrow> bool" where
  "entries_of lib ed cfg e \<longleftrightarrow>
     (re_origin e = OriginBuiltin \<and> re_rule e \<in> set (select_builtins lib (cfg_detectors cfg) (scan_budget cfg)))
       \<or> (re_origin e = OriginRemotePack
          \<and> (\<exists>m raw st c r. authentic_pack lib ed (Version 0 5 0) (scan_budget cfg) m raw st
               \<and> rs_pack st = Some c \<and> r \<in> set (co_rules c) \<and> re_rule e = compiled_view c r))"

lemma scan_budget_pos: "0 < scan_budget cfg"
  by (simp add: scan_budget_def primitive_byte_budget_bytes_def)

lemma load_cached_pack_D:
  assumes "load_cached_pack lib io files (scan_budget cfg) (static_verify ed) reg = (r, notices, reg')" "registry_ok reg"
  shows "registry_ok reg' \<and> set (rg_entries reg) \<subseteq> set (rg_entries reg')
    \<and> (\<forall>e \<in> set (rg_entries reg') - set (rg_entries reg). entries_of lib ed cfg e)"
proof (cases "new_rules_sync (rf_mark_decode files) (rf_mark_readable files) (rf_mark files) (rf_cache files)
    (Some (static_verify ed)) [] (scan_budget cfg)")
  case (Inl e)
  with assms show ?thesis by (simp add: load_cached_pack_def)
next
  case (Inr s)
  have "parse_version ''0.5.0'' = Inr (Version 0 5 0)" by code_simp
  with Inr scan_budget_pos [of cfg] have set': "ry_binary s = Version 0 5 0" "ry_budget s = scan_budget cfg"
    by (auto simp: new_rules_sync_def ok_or_Inr_iff)
  obtain q s' where st: "startup lib io s = (q, s')" by fastforce
  have good: "good_state lib ed s'"
    using load_cache_good [OF new_rules_sync_good [OF Inr]] st by (simp add: startup_def)
  have frame: "ry_binary s' = ry_binary s \<and> ry_budget s' = ry_budget s"
    using st by (cases rule: load_cache_cases [of lib io s]) (auto simp: startup_def)
  show ?thesis
  proof (cases "\<exists>e. q = Inl e")
    case True
    with assms Inr st show ?thesis by (auto simp: load_cached_pack_def)
  next
    case False
    then have q: "q = Inr ()" by (cases q) auto
    show ?thesis
    proof (cases "rs_pack (ry_active s')")
      case None
      with assms Inr st q show ?thesis by (simp add: load_cached_pack_def)
    next
      case (Some c)
      then have "ry_active s' \<noteq> builtin_state" by (auto simp: builtin_state_def)
      with good frame set' obtain m raw where auth: "authentic_pack lib ed (Version 0 5 0) (scan_budget cfg) m raw (ry_active s')"
        by (auto simp: good_state_def)
      obtain a reg1 where add: "add_rules OriginRemotePack (map (\<lambda>r. Some (compiled_view c r)) (co_rules c)) reg = (a, reg1)"
        by fastforce
      have reg': "rg_entries reg' = rg_entries reg1" "rg_ids reg' = rg_ids reg1"
        using assms(1) Inr st q Some add
        by (auto simp: load_cached_pack_def register_compiled_def split: sum.splits)
      note ok = add_rules_ok [OF add assms(2)]
      show ?thesis
      proof (cases a)
        case (Inl e)
        with ok reg' show ?thesis by (auto simp: registry_ok_def)
      next
        case a: (Inr u)
        with ok obtain es where es: "set (rg_entries reg1) = set (rg_entries reg) \<union> set es"
          "map (\<lambda>e. Some (re_rule e)) es = map (\<lambda>r. Some (compiled_view c r)) (co_rules c)"
          "\<forall>e \<in> set es. re_origin e = OriginRemotePack"
          by auto
        have "\<exists>r \<in> set (co_rules c). re_rule e = compiled_view c r" if "e \<in> set es" for e
        proof -
          have "Some (re_rule e) \<in> set (map (\<lambda>r. Some (compiled_view c r)) (co_rules c))"
            using that by (simp flip: es(2))
          then show ?thesis by auto
        qed
        with es(3) auth Some have "\<forall>e \<in> set es. entries_of lib ed cfg e"
          unfolding entries_of_def by blast
        with es(1) ok reg' show ?thesis by (auto simp: registry_ok_def)
      qed
    qed
  qed
qed

text \<open>
  C28: The policy a gateway comes up with is what was configured and what was signed: every rule of it is
  an enabled built-in detector at the configured scan budget or a rule of an authentic cached pack
  compiled with the same budget; every enabled detector is in it, whatever the cache holds; and no two
  rules share an identity. The session is new, and its token is the hexadecimal form of the random bytes
  drawn.
\<close>

theorem built_policy:
  assumes "build_gateway env (static_verify ed) cfg log_redactions = (Inr (g, s), notices)"
  shows "(\<forall>e \<in> set (po_entries (gw_policy g)). entries_of (be_lib env) ed cfg e)
    \<and> (\<forall>r \<in> set (select_builtins (be_lib env) (cfg_detectors cfg) (scan_budget cfg)).
         \<exists>e \<in> set (po_entries (gw_policy g)). re_rule e = r \<and> re_origin e = OriginBuiltin)
    \<and> distinct (map re_id (po_entries (gw_policy g)))
    \<and> gw_config g = cfg \<and> gw_budget g = scan_budget cfg
    \<and> (\<exists>raw. be_random env = Some raw \<and> gw_token g = hex_encode raw)
    \<and> s = new_session cfg (gw_token g) (new_engine (be_digest env) (be_salt env))"
proof -
  let ?sel = "select_builtins (be_lib env) (cfg_detectors cfg) (scan_budget cfg)"
  obtain q0 reg0 where r0: "register_builtin (map Some ?sel) new_registry = (q0, reg0)" by fastforce
  with assms have q0: "q0 = Inr ()" by (auto simp: build_gateway_def Let_def split: sum.splits)
  obtain q1 ns reg1 where r1: "load_cached_pack (be_lib env) (be_io env) (be_files env) (scan_budget cfg) (static_verify ed) reg0 =
      (q1, ns, reg1)" by (metis prod_cases3)
  from assms r0 q0 r1 obtain token where g: "q1 = Inr ()" "new_token (be_random env) = Some token"
    "gw_policy g = new_policy (Some reg1)" "gw_config g = cfg" "gw_budget g = scan_budget cfg" "gw_token g = token"
    "s = new_session cfg token (new_engine (be_digest env) (be_salt env))"
    by (auto simp: build_gateway_def Let_def split: sum.splits option.splits)
  have "registry_ok new_registry" by (simp add: registry_ok_def new_registry_def)
  with add_rules_ok [OF r0 [unfolded register_builtin_def]] q0 have ok: "registry_ok reg0"
    and es: "\<exists>es. set (rg_entries reg0) = set es \<and> map (\<lambda>e. Some (re_rule e)) es = map Some ?sel \<and> (\<forall>e \<in> set es. re_origin e = OriginBuiltin)"
    by (auto simp: new_registry_def)
  then obtain es where es: "set (rg_entries reg0) = set es" "map (\<lambda>e. Some (re_rule e)) es = map Some ?sel"
    "\<forall>e \<in> set es. re_origin e = OriginBuiltin" by blast
  have "map Some (map re_rule es) = map Some ?sel" using es(2) by (simp add: comp_def)
  then have rules: "map re_rule es = ?sel" by (rule map_injective) simp
  then have sel: "re_rule ` set es = set ?sel" by (metis list.set_map)
  note loaded = load_cached_pack_D [OF r1 ok]
  have "\<forall>e \<in> set (rg_entries reg1). entries_of (be_lib env) ed cfg e"
  proof
    fix e assume e: "e \<in> set (rg_entries reg1)"
    show "entries_of (be_lib env) ed cfg e"
    proof (cases "e \<in> set (rg_entries reg0)")
      case True
      with es sel show ?thesis by (auto simp: entries_of_def)
    qed (use e loaded in blast)
  qed
  moreover have "\<forall>r \<in> set ?sel. \<exists>e \<in> set (rg_entries reg1). re_rule e = r \<and> re_origin e = OriginBuiltin"
    using loaded es sel by (metis image_iff subset_eq)
  moreover have "po_entries (gw_policy g) = rg_entries reg1" by (simp add: g(3) new_policy_def)
  moreover have "\<exists>raw. be_random env = Some raw \<and> gw_token g = hex_encode raw"
    using g(2,6) by (auto simp: new_token_def split: option.splits)
  ultimately show ?thesis using loaded g by (simp add: registry_ok_def)
qed

section \<open>The built-in rules always register\<close>

lemma pending_fresh:
  assumes "\<And>r used. r \<in> set rs \<Longrightarrow> ru_id r \<notin> set used \<Longrightarrow> check_candidate used (Some r) = Inr r"
    "distinct (map ru_id rs)" "set (map ru_id rs) \<inter> set used = {}"
  shows "\<exists>es. pending_entries origin used (map Some rs) = Inr es"
  using assms
proof (induction rs arbitrary: used)
  case (Cons r rs)
  have r: "check_candidate used (Some r) = Inr r" using Cons.prems(1) [of r used] Cons.prems(3) by simp
  have "set (map ru_id rs) \<inter> set (ru_id r # used) = {}" using Cons.prems(2,3) by auto
  with Cons.IH [of "ru_id r # used"] Cons.prems(1,2) obtain es where
    "pending_entries origin (ru_id r # used) (map Some rs) = Inr es" by auto
  with r show ?case by simp
qed simp

lemma builtin_rules:
  "map ru_id (builtin_detectors_budget lib budget) = [''prefix'', ''email'', ''luhn'', ''jwt'', ''private_key'', ''high_entropy'']"
  by (simp add: builtin_detectors_budget_def builtin_table_def new_prefix_rule_def new_email_rule_def new_luhn_rule_def
      new_jwt_rule_def new_pem_rule_def new_entropy_rule_def builtin_rule_def)

lemma builtin_checked:
  assumes "r \<in> set (builtin_detectors_budget lib budget)" "ru_id r \<notin> set used"
  shows "check_candidate used (Some r) = Inr r"
proof -
  have ids: "list_all valid_rule_id [''prefix'', ''email'', ''luhn'', ''jwt'', ''private_key'', ''high_entropy'']" by code_simp
  have "ru_id r \<in> set (map ru_id (builtin_detectors_budget lib budget))" using assms(1) by simp
  with ids have "valid_rule_id (ru_id r)" unfolding builtin_rules by (auto simp: list_all_iff)
  moreover have "ru_scope r = ScopeRequest" "ru_action r = ActionRedact" "0 < ru_confidence r" "ru_confidence r \<le> 1"
    using assms(1)
    by (auto simp: builtin_detectors_budget_def builtin_table_def new_prefix_rule_def new_email_rule_def new_luhn_rule_def
        new_jwt_rule_def new_pem_rule_def new_entropy_rule_def builtin_rule_def)
  ultimately show ?thesis
    using assms(2) by (simp add: check_candidate_def known_scope_def known_action_def)
qed

lemma builtins_register:
  "\<exists>reg. register_builtin (map Some (select_builtins lib d budget)) new_registry = (Inr (), reg)"
proof -
  have "distinct (map ru_id (builtin_detectors_budget lib budget))" unfolding builtin_rules by simp
  then have "distinct (map ru_id (select_builtins lib d budget))"
    unfolding select_builtins_def by (rule distinct_map_filter)
  moreover have "\<And>r used. r \<in> set (select_builtins lib d budget) \<Longrightarrow> ru_id r \<notin> set used \<Longrightarrow> check_candidate used (Some r) = Inr r"
    using builtin_checked by (auto simp: select_builtins_def)
  ultimately obtain es where "pending_entries OriginBuiltin [] (map Some (select_builtins lib d budget)) = Inr es"
    using pending_fresh [of "select_builtins lib d budget" "[]"] by fastforce
  then show ?thesis by (simp add: register_builtin_def add_rules_def new_registry_def)
qed

section \<open>The order of a run\<close>

definition startup_events :: "bytes \<Rightarrow> config \<Rightarrow> run_event list" where
  "startup_events path cfg =
     [Recovering, Loading path, Building cfg, Binding (listen_host (cfg_listen cfg)) (listen_port (cfg_listen cfg))]"

lemma run_with_cases:
  assumes "run_with env v opts rest f = (code, f', ev)"
  obtains (early) path cfg where "prefix ev (startup_events path cfg)" "f' = f" "code \<noteq> ExitOK"
    | (unbound) path cfg where "ev = startup_events path cfg @ [ClosingListener]" "f' = f" "code = ExitFailure"
    | (unwritten) path cfg info token where "ev = startup_events path cfg @ [Writing info, ClosingListener]"
        "write_session (ru_session env) info token f = (False, f')" "code = ExitFailure"
    | (served) path cfg g s notices a port info f1 where
        "ev = startup_events path (apply_run_overrides cfg opts)
           @ [Writing info, Serving (g\<lparr>gw_port := port, gw_addrs := [ru_addr env a]\<rparr>), Removing]"
        "check_run_flags opts rest" "ru_load env path = Inr cfg"
        "build_gateway (ru_build env) v (apply_run_overrides cfg opts) (op_log_redactions opts) = (Inr (g, s), notices)"
        "fst (listen_on (ru_bind env) (listen_host (cfg_listen (apply_run_overrides cfg opts)))
           (listen_port (cfg_listen (apply_run_overrides cfg opts)))) = Inr a"
        "bound_port (ru_addr env a) = Some port" "write_session (ru_session env) info (gw_token g) f = (True, f1)"
        "f' = remove_session (ru_session env) f1"
proof -
  let ?path = "if op_config opts \<noteq> [] then Some (op_config opts)
                 else map_option (\<lambda>d. ru_join env d ''tokenhush.yaml'') (ru_config_dir env)"
  show thesis
  proof (cases "check_run_flags opts rest \<and> ru_executable env \<and> ru_recovers env")
    case False
    with assms have "(ev = [] \<or> ev = [Recovering]) \<and> f' = f \<and> code \<noteq> ExitOK"
      by (auto simp: run_with_def split: if_splits)
    then show thesis using early by (auto simp: startup_events_def)
  next
    case ok: True
    show thesis
    proof (cases ?path)
      case None
      with assms ok have "ev = [Recovering] \<and> f' = f \<and> code \<noteq> ExitOK" by (simp add: run_with_def)
      then show thesis using early by (auto simp: startup_events_def)
    next
      case path: (Some path)
      show thesis
      proof (cases "ru_load env path")
        case (Inl e)
        with assms ok path have "ev = [Recovering, Loading path] \<and> f' = f \<and> code \<noteq> ExitOK" by (simp add: run_with_def)
        then show thesis using early by (auto simp: startup_events_def)
      next
        case cfg: (Inr cfg)
        let ?cfg = "apply_run_overrides cfg opts"
        show thesis
        proof (cases "ru_data_dir env \<and> (\<exists>x. fst (build_gateway (ru_build env) v ?cfg (op_log_redactions opts)) = Inr x)")
          case False
          with assms ok path cfg have "(ev = [Recovering, Loading path] \<or> ev = [Recovering, Loading path, Building ?cfg]) \<and> f' = f \<and> code \<noteq> ExitOK"
            by (auto simp: run_with_def Let_def split: prod.splits sum.splits if_splits)
          then show thesis using early by (auto simp: startup_events_def)
        next
          case True
          then obtain g s notices where g: "ru_data_dir env"
            "build_gateway (ru_build env) v ?cfg (op_log_redactions opts) = (Inr (g, s), notices)"
            by (metis old.prod.exhaust prod.collapse fst_conv)
          let ?ev = "[Recovering, Loading path, Building ?cfg, Binding (listen_host (cfg_listen ?cfg)) (listen_port (cfg_listen ?cfg))]"
          show thesis
          proof (cases "fst (listen_on (ru_bind env) (listen_host (cfg_listen ?cfg)) (listen_port (cfg_listen ?cfg)))")
            case (Inl e)
            with assms ok path cfg g have "ev = ?ev \<and> f' = f \<and> code \<noteq> ExitOK" by (simp add: run_with_def Let_def)
            then show thesis using early by (auto simp: startup_events_def)
          next
            case a: (Inr a)
            show thesis
            proof (cases "bound_port (ru_addr env a)")
              case None
              with assms ok path cfg g a have "ev = ?ev @ [ClosingListener] \<and> f' = f \<and> code = ExitFailure"
                by (simp add: run_with_def Let_def)
              then show thesis using unbound by (auto simp: startup_events_def)
            next
              case port: (Some port)
              define info where "info = \<lparr>ri_pid = ru_pid env, ri_port = port, ri_addrs = [ru_addr env a], ri_started_at = ru_started_at env\<rparr>"
              obtain done' f1 where w: "write_session (ru_session env) info (gw_token g) f = (done', f1)" by fastforce
              show thesis
              proof (cases done')
                case False
                with assms ok path cfg g a port w have "ev = ?ev @ [Writing info, ClosingListener]" "f' = f1" "code = ExitFailure"
                  by (simp_all add: run_with_def Let_def info_def)
                with w False unwritten show thesis by (auto simp: startup_events_def)
              next
                case True
                with assms ok path cfg g a port w have "ev = ?ev @ [Writing info, Serving (g\<lparr>gw_port := port, gw_addrs := [ru_addr env a]\<rparr>), Removing]"
                  "f' = remove_session (ru_session env) f1"
                  by (simp_all add: run_with_def Let_def info_def)
                with w True ok cfg g(2) a port served show thesis by (simp add: startup_events_def)
              qed
            qed
          qed
        qed
      qed
    qed
  qed
qed

lemma write_session_failed:
  assumes "write_session io info token f = (False, f')" "si_remove_run io" "sf_run f = None"
  shows "f' = f"
  using assms by (auto simp: write_session_def write_session_file_def remove_file_def split: prod.splits bool.splits if_splits)


section \<open>Evaluated instances\<close>

definition sample_build :: build_env where
  "sample_build =
     \<lparr>be_lib = sample_ruleslib, be_io = no_faults, be_files = sample_files, be_random = Some (replicate 32 CHR 0x41),
      be_digest = colliding_digest, be_salt = [], be_now = 0\<rparr>"

lemma sample_load:
  "load_cached_pack sample_ruleslib no_faults sample_files budget (static_verify (\<lambda>_ _ _. True)) reg = (Inr (), [], reg)"
proof -
  have v: "parse_version ''0.5.0'' = Inr (Version 0 5 0)" by code_simp
  obtain s where s: "new_rules_sync (\<lambda>_. None) True None empty_cache (Some (static_verify (\<lambda>_ _ _. True))) [] budget = Inr s"
    "ry_cache s = empty_cache" "ry_active s = builtin_state"
    by (simp add: new_rules_sync_def new_file_high_water_def read_high_water_def v)
  have "load_active sample_ruleslib no_faults empty_cache = Inl ErrNoCachedPack"
    by (simp add: load_active_def cache_active_serial_def empty_cache_def)
  with s show ?thesis
    by (simp add: load_cached_pack_def sample_files_def startup_def load_cache_def builtin_state_def)
qed

lemma sample_built:
  "\<exists>g s. build_gateway sample_build (static_verify (\<lambda>_ _ _. True)) cfg log_redactions = (Inr (g, s), [])"
proof -
  obtain reg where "register_builtin (map Some (select_builtins sample_ruleslib (cfg_detectors cfg) (scan_budget cfg))) new_registry = (Inr (), reg)"
    using builtins_register by blast
  then show ?thesis
    by (simp add: build_gateway_def sample_build_def sample_load new_token_def Let_def)
qed

lemma built_policy_witness:
  "\<exists>g s. build_gateway sample_build (static_verify (\<lambda>_ _ _. True)) default_config True = (Inr (g, s), [])
     \<and> (\<exists>e \<in> set (po_entries (gw_policy g)). re_id e = ''email'' \<or> re_origin e = OriginBuiltin)"
proof -
  obtain g s where b: "build_gateway sample_build (static_verify (\<lambda>_ _ _. True)) default_config True = (Inr (g, s), [])"
    using sample_built by blast
  have "new_email_rule (normalize_budget (scan_budget default_config)) \<in>
      set (select_builtins (be_lib sample_build) (cfg_detectors default_config) (scan_budget default_config))"
    by (simp add: select_builtins_def builtin_detectors_budget_def builtin_table_def detector_enabled_def new_email_rule_def
        builtin_rule_def default_config_def default_detectors_def)
  with built_policy [OF b] b show ?thesis by blast
qed

definition sample_run :: run_env where
  "sample_run =
     \<lparr>ru_executable = True, ru_recovers = True, ru_config_dir = Some ''/c'', ru_join = \<lambda>d n. d @ ''/'' @ n,
      ru_load = \<lambda>_. Inr default_config, ru_data_dir = True, ru_build = sample_build, ru_bind = \<lambda>ip p. Inr (ip, p),
      ru_addr = \<lambda>_. ''127.0.0.1:8787'', ru_pid = 1, ru_started_at = ''now'',
      ru_session = \<lparr>si_mkdir = True, si_run = \<lambda>_. False, si_token = \<lambda>_. False, si_remove_run = True, si_remove_token = True\<rparr>,
      ru_serves = True\<rparr>"

definition sample_options :: run_options where
  "sample_options = \<lparr>op_config = [], op_port = 0, op_log_level = [], op_log_redactions = True\<rparr>"


section \<open>What stops a start\<close>

definition damage_mark :: "bytes \<Rightarrow> build_env \<Rightarrow> build_env" where
  "damage_mark raw env = env\<lparr>be_files := (be_files env)\<lparr>rf_mark := Some raw, rf_mark_decode := \<lambda>_. None\<rparr>\<rparr>"

text \<open>
  A damaged anti-rollback mark stops the gateway from starting: the pipeline build fails whatever the
  configuration is and whatever packs are cached, and the run ends before anything is bound. The comment
  of \<open>loadCachedPack\<close> says that a cache read failure must never block startup.
\<close>

theorem damaged_mark_blocks_startup:
  "build_gateway (damage_mark raw env) v cfg log_redactions = (Inl (RulesUnavailable ErrHighWaterCorrupt), [])"
proof -
  obtain reg where "register_builtin (map Some (select_builtins (be_lib env) (cfg_detectors cfg) (scan_budget cfg))) new_registry = (Inr (), reg)"
    using builtins_register by blast
  moreover have "new_file_high_water (\<lambda>_. None) readable (Some raw) = Inl ErrHighWaterCorrupt" for readable
    by (simp add: new_file_high_water_def read_high_water_def)
  ultimately show ?thesis
    by (simp add: build_gateway_def damage_mark_def load_cached_pack_def new_rules_sync_def Let_def)
qed

text \<open>So does a verified pack with a rule that has the name of an enabled detector.\<close>

lemma pending_clash:
  "proposed \<in> set rules \<Longrightarrow> proposed = Some r \<Longrightarrow> ru_id r \<in> set used \<Longrightarrow> \<exists>e. pending_entries origin used rules = Inl e"
proof (induction rules arbitrary: used)
  case (Cons q rules)
  show ?case
  proof (cases "check_candidate used q")
    case (Inl e)
    then show ?thesis by simp
  next
    case (Inr r')
    with Cons.prems have "proposed \<in> set rules"
      by (auto dest: check_candidate_D)
    with Cons.IH [of "ru_id r' # used"] Cons.prems Inr show ?thesis by auto
  qed
qed simp

lemma clashing_pack_refused:
  assumes "registry_ok reg" "e \<in> set (rg_entries reg)" "r \<in> set (co_rules c)" "cr_id r = re_id e"
  shows "\<exists>err. register_compiled (Some c) reg = (Inl err, reg)"
proof -
  have "re_id e \<in> set (rg_ids reg)" using assms(1,2) by (simp add: registry_ok_def)
  moreover have "ru_id (compiled_view c r) = re_id e" using assms(4) by (simp add: compiled_view_def)
  ultimately obtain err where "pending_entries OriginRemotePack (rg_ids reg) (map (\<lambda>r. Some (compiled_view c r)) (co_rules c)) = Inl err"
    using pending_clash [of "Some (compiled_view c r)" _ "compiled_view c r"] assms(3) by fastforce
  then show ?thesis by (simp add: register_compiled_def add_rules_def)
qed

end
