(* ===== verification/Clients.thy ===== *)
theory Clients
  imports Startup
begin

text \<open>
  What stands on the client's side of the gateway: the setup snippets of \<open>tokenhush env\<close>
  (\<open>internal/cli/env.go\<close>), the tool hint of the banner, and \<open>tokenhush status\<close> (\<open>status.go\<close>), which reads
  the session files of a run and asks its control surface. The theorems say which of the addresses
  these print and use the gateway answers.
\<close>

section \<open>Setup snippets\<close>

definition env_tools :: "bytes list" where
  "env_tools =
     [''claude'', ''codex'', ''aider'', ''cline'', ''roo'', ''opencode'', ''qwen'', ''crush'', ''zed'', ''continue'',
      ''openwebui'', ''goose'', ''openhands'', ''kilo'']"

datatype shell_mode = ShellPOSIX | ShellPowerShell

text \<open>The operating system and the two variables are arguments.\<close>

definition default_shell_mode :: "bytes \<Rightarrow> bytes \<Rightarrow> bytes \<Rightarrow> shell_mode" where
  "default_shell_mode goos shell ps_module_path =
     (if goos = ''windows'' then ShellPowerShell
      else (let shell = go_lower (shell @ ps_module_path)
            in if sublist ''powershell'' shell \<or> sublist ''pwsh'' shell then ShellPowerShell else ShellPOSIX))"

text \<open>The verb \<open>%q\<close> on a text of plain characters, which is all that is printed with it here.\<close>

definition quoted :: "bytes \<Rightarrow> bytes" where
  "quoted v = [CHR 0x22] @ v @ [CHR 0x22]"

definition text_lines :: "bytes list \<Rightarrow> bytes" where
  "text_lines ls = concat (map (\<lambda>l. l @ [CHR 0x0A]) ls)"

definition env_vars :: "shell_mode \<Rightarrow> (bytes \<times> bytes) list \<Rightarrow> bytes" where
  "env_vars mode vars =
     (if mode = ShellPowerShell
      then text_lines (map (\<lambda>(k, v). ''$env:'' @ k @ '' = '' @ quoted v) vars
             @ [''# persist for new terminals:''] @ map (\<lambda>(k, v). ''setx '' @ k @ '' '' @ quoted v) vars)
      else text_lines (map (\<lambda>(k, v). ''export '' @ k @ ''='' @ quoted v) vars))"

definition gateway_root :: "int \<Rightarrow> bytes" where
  "gateway_root port = ''http://127.0.0.1:'' @ json_int port"

definition codex_path :: "shell_mode \<Rightarrow> bytes" where
  "codex_path mode =
     (if mode = ShellPowerShell then ''%USERPROFILE%'' @ [CHR 0x5C] @ ''.codex'' @ [CHR 0x5C] @ ''config.toml''
      else ''~/.codex/config.toml'')"

definition snippet_of :: "shell_mode \<Rightarrow> bytes \<Rightarrow> bytes \<Rightarrow> bytes \<Rightarrow> bytes option" where
  "snippet_of mode origin open_ai tool =
     (if tool = ''claude'' then
        Some (text_lines [''# Claude Code: run this before launching `claude`.'']
              @ env_vars mode [(''ANTHROPIC_BASE_URL'', origin)])
      else if tool = ''codex'' then
        Some (text_lines
          [''# Codex CLI: add this to '' @ codex_path mode
             @ '' (API key mode; the ChatGPT subscription login cannot pass through the gateway).'',
           ''model_providers.tokenhush = { name = \"Tokenhush\", base_url = '' @ quoted open_ai @ '' }''])
      else if tool = ''aider'' then
        Some (text_lines [''# Aider: run this before launching `aider`.'']
              @ env_vars mode [(''OPENAI_API_BASE'', open_ai), (''ANTHROPIC_API_BASE'', origin)])
      else if tool = ''cline'' \<or> tool = ''roo'' then
        Some (text_lines
          [(if tool = ''roo'' then ''Roo Code'' else ''Cline'') @ '' (VS Code): Settings -> API Provider -> \"OpenAI Compatible\"'',
           ''Base URL: '' @ open_ai])
      else if tool = ''opencode'' then
        Some (text_lines
          [''# opencode: add this provider to opencode.json (OpenAI-compatible).'', ''{'',
           ''  \"$schema\": \"https://opencode.ai/config.json\",'', ''  \"provider\": {'', ''    \"tokenhush\": {'',
           ''      \"npm\": \"@ai-sdk/openai-compatible\",'', ''      \"name\": \"Tokenhush\",'',
           ''      \"options\": { \"baseURL\": '' @ quoted open_ai @ '' }'', ''    }'', ''  }'', ''}''])
      else if tool = ''qwen'' then
        Some (text_lines [''# Qwen Code: run this before launching `qwen`.'']
              @ env_vars mode [(''OPENAI_BASE_URL'', open_ai), (''ANTHROPIC_BASE_URL'', origin)])
      else if tool = ''crush'' then
        Some (text_lines
          [''# Charm Crush: add this provider to crush.json.'', ''{'', ''  \"$schema\": \"https://charm.land/crush.json\",'',
           ''  \"providers\": {'', ''    \"tokenhush\": {'', ''      \"type\": \"openai\",'',
           ''      \"base_url\": '' @ quoted open_ai, ''    }'', ''  }'', ''}''])
      else if tool = ''zed'' then
        Some (text_lines
          [''# Zed: add this provider to settings.json (openai_compatible).'', ''{'', ''  \"language_models\": {'',
           ''    \"openai_compatible\": {'', ''      \"tokenhush\": { \"api_url\": '' @ quoted open_ai @ '' }'', ''    }'',
           ''  }'', ''}''])
      else if tool = ''continue'' then
        Some (text_lines
          [''# Continue.dev: add this model to ~/.continue/config.yaml.'',
           ''# Older Continue builds use config.json with the same apiBase key.'', ''models:'', ''  - name: tokenhush'',
           ''    provider: openai'', ''    apiBase: '' @ quoted open_ai])
      else if tool = ''openwebui'' then
        Some (text_lines [''# Open WebUI: set this before starting the server (Connections pick it up).'']
              @ env_vars mode [(''OPENAI_API_BASE_URL'', open_ai)])
      else if tool = ''goose'' then
        Some (text_lines [''# Goose: run this before launching `goose` (host and /v1 path are separate).'']
              @ env_vars mode [(''OPENAI_HOST'', origin), (''OPENAI_BASE_PATH'', ''v1'')])
      else if tool = ''openhands'' then
        Some (text_lines [''# OpenHands: run this before launching OpenHands, or set [llm].base_url.'']
              @ env_vars mode [(''LLM_BASE_URL'', open_ai)])
      else if tool = ''kilo'' then
        Some (text_lines
          [''Kilo Code (VS Code): Settings -> API Provider -> \"OpenAI Compatible\"'', ''Base URL: '' @ open_ai])
      else None)"

definition env_snippet :: "bytes \<Rightarrow> shell_mode \<Rightarrow> int \<Rightarrow> bytes option" where
  "env_snippet tool mode port =
     snippet_of mode (gateway_root port) (gateway_root port @ ''/v1'') tool"

text \<open>\<open>envCommandWith\<close> after \<open>flag.Parse\<close>: the port flag, the arguments left over and the loaded configuration.\<close>

definition env_command ::
    "int \<Rightarrow> bytes list \<Rightarrow> shell_mode \<Rightarrow> (config_error, config) result \<Rightarrow> exit_code \<times> bytes" where
  "env_command port rest mode loaded =
     (case rest of
        [tool] \<Rightarrow>
          (if tool \<notin> set env_tools then (ExitUsage, [])
           else if port < 0 \<or> 65535 < port then (ExitUsage, [])
           else case loaded of
             Inl _ \<Rightarrow> (ExitFailure, [])
           | Inr cfg \<Rightarrow>
               (case env_snippet tool mode (if port \<noteq> 0 then port else listen_port (cfg_listen cfg)) of
                  None \<Rightarrow> (ExitUsage, [])
                | Some snippet \<Rightarrow> (ExitOK, snippet)))
      | _ \<Rightarrow> (ExitUsage, []))"

text \<open>The configuration \<open>loadToolConfig\<close> reads; \<open>join\<close> is \<open>filepath.Join\<close>.\<close>

definition load_tool_config ::
    "(bytes \<Rightarrow> (config_error, config) result) \<Rightarrow> (bytes \<Rightarrow> bytes \<Rightarrow> bytes) \<Rightarrow> bytes option \<Rightarrow> bytes
       \<Rightarrow> (config_error, config) result option" where
  "load_tool_config load join config_dir path =
     (if path \<noteq> [] then Some (load path)
      else map_option (\<lambda>d. load (join d ''tokenhush.yaml'')) config_dir)"

definition join_host_port :: "bytes \<Rightarrow> bytes \<Rightarrow> bytes" where
  "join_host_port host port =
     (if CHR '':'' \<in> set host \<or> CHR ''%'' \<in> set host then ''['' @ host @ '']:'' @ port else host @ '':'' @ port)"

definition tool_hint :: "bytes list \<Rightarrow> int \<Rightarrow> bytes list" where
  "tool_hint addrs port =
     (let host = (case addrs of
                    [] \<Rightarrow> ''127.0.0.1''
                  | a # _ \<Rightarrow> (case split_host_port a of
                       Some (bound, _) \<Rightarrow> if bound \<noteq> [] then bound else ''127.0.0.1''
                     | None \<Rightarrow> ''127.0.0.1''));
          base = ''http://'' @ join_host_port host (json_int port)
      in [''tokenhush: point your tool at '' @ base @ '' (Anthropic-style) or '' @ base @ ''/v1 (OpenAI-compatible)'',
          ''tokenhush: `tokenhush env <tool>` prints a setup snippet ('' @ join_with '', '' env_tools @ '')''])"

definition startup_banner :: "config \<Rightarrow> bytes list \<Rightarrow> int \<Rightarrow> bytes list" where
  "startup_banner cfg addrs port =
     map (\<lambda>a. ''tokenhush: v0.5.0 listening on http://'' @ a) addrs
       @ configured_lines cfg @ builtin_lines @ tool_hint addrs port"

section \<open>The status command\<close>

datatype status_error = NotRunning | StatusFailed

record status_doc =
  sd_state :: bytes
  sd_addrs :: "bytes list"
  sd_port :: int
  sd_uptime :: int
  sd_requests :: int
  sd_redactions :: int
  sd_content_blocks :: int
  sd_rule_blocks :: int
  sd_walk_skips :: int
  sd_pack_serial :: u64

text \<open>
  The world of one call: which session files can be read, what \<open>json.Unmarshal\<close> makes of \<open>run.json\<close> and
  of the answer, \<open>url.Parse\<close>, the HTTP client (status and body), and the rules cache.
\<close>

record status_env =
  sv_run_readable :: bool
  sv_token_readable :: bool
  sv_decode_run :: "bytes \<Rightarrow> run_info option"
  sv_parse :: "bytes \<Rightarrow> url option"
  sv_send :: "request \<Rightarrow> (nat \<times> bytes) option"
  sv_decode :: "bytes \<Rightarrow> status_doc option"
  sv_lib :: ruleslib
  sv_io :: cache_io
  sv_cache :: rules_cache

definition read_session_file :: "bool \<Rightarrow> bytes option \<Rightarrow> (status_error, bytes) result" where
  "read_session_file works f =
     (case f of None \<Rightarrow> Inl NotRunning | Some raw \<Rightarrow> if works then Inr raw else Inl StatusFailed)"

definition read_session :: "status_env \<Rightarrow> session_files \<Rightarrow> (status_error, run_info) result" where
  "read_session env f =
     (case read_session_file (sv_run_readable env) (sf_run f) of
        Inl e \<Rightarrow> Inl e
      | Inr raw \<Rightarrow> (case sv_decode_run env raw of None \<Rightarrow> Inl StatusFailed | Some info \<Rightarrow> Inr info))"

text \<open>
  The request as the server gets it: \<open>Host\<close> is the authority of the URL and the request line its path.
  What the HTTP client adds (\<open>User-Agent\<close>, \<open>Accept-Encoding\<close>) is left out; no handler reads it.
\<close>

definition status_call :: "(bytes \<Rightarrow> url option) \<Rightarrow> run_info \<Rightarrow> bytes \<Rightarrow> request option" where
  "status_call parse info token =
     (let addr = (case ri_addrs info of [] \<Rightarrow> ''127.0.0.1:'' @ json_int (ri_port info) | a # _ \<Rightarrow> a)
      in map_option (\<lambda>u.
           \<lparr>req_method = ''GET'', req_host = url_host u, req_url = u\<lparr>url_scheme := [], url_host := []\<rparr>,
            req_header = [(''Authorization'', [''Bearer '' @ trim_space token])], req_length = 0, req_body = None\<rparr>)
         (parse (''http://'' @ addr @ ''/status'')))"

text \<open>The part of \<open>readStatus\<close> before the call: from the session files to the request.\<close>

definition session_call :: "status_env \<Rightarrow> session_files \<Rightarrow> (status_error, request) result" where
  "session_call env f =
     (case read_session env f of
        Inl e \<Rightarrow> Inl e
      | Inr info \<Rightarrow>
          (case read_session_file (sv_token_readable env) (sf_token f) of
             Inl e \<Rightarrow> Inl e
           | Inr token \<Rightarrow>
               (case status_call (sv_parse env) info token of None \<Rightarrow> Inl StatusFailed | Some r \<Rightarrow> Inr r)))"

definition read_status :: "status_env \<Rightarrow> session_files \<Rightarrow> (status_error, status_doc) result" where
  "read_status env f =
     (case session_call env f of
        Inl e \<Rightarrow> Inl e
      | Inr r \<Rightarrow>
          (case sv_send env r of
             None \<Rightarrow> Inl StatusFailed
           | Some (code, body) \<Rightarrow>
               if code \<noteq> 200 then Inl StatusFailed
               else (case sv_decode env body of
                       None \<Rightarrow> Inl StatusFailed
                     | Some d \<Rightarrow>
                         Inr (case cache_active_serial (sv_lib env) (sv_io env) (sv_cache env) of
                                Inl _ \<Rightarrow> d
                              | Inr serial \<Rightarrow> d\<lparr>sd_pack_serial := serial\<rparr>))))"

definition encode_status :: "status_doc \<Rightarrow> bytes" where
  "encode_status d =
     json_object
       [json_member ''state'' (json_string (sd_state d)),
        json_member ''addrs'' (json_array (map json_string (sd_addrs d))),
        json_member ''port'' (json_int (sd_port d)),
        json_member ''uptime_ms'' (json_int (sd_uptime d)),
        json_member ''requests'' (json_int (sd_requests d)),
        json_member ''redactions'' (json_int (sd_redactions d)),
        json_member ''content_policy_blocks'' (json_int (sd_content_blocks d)),
        json_member ''rule_blocks'' (json_int (sd_rule_blocks d)),
        json_member ''walk_skips'' (json_int (sd_walk_skips d)),
        json_member ''pack_serial'' (itoa (unat (sd_pack_serial d)))]"

definition print_status :: "status_doc \<Rightarrow> bytes list" where
  "print_status d =
     [''state: '' @ sd_state d, ''addrs: '' @ join_with '','' (sd_addrs d), ''port: '' @ json_int (sd_port d),
      ''uptime_ms: '' @ json_int (sd_uptime d), ''requests: '' @ json_int (sd_requests d),
      ''redactions: '' @ json_int (sd_redactions d), ''content_policy_blocks: '' @ json_int (sd_content_blocks d),
      ''rule_blocks: '' @ json_int (sd_rule_blocks d), ''walk_skips: '' @ json_int (sd_walk_skips d),
      ''pack_serial: '' @ itoa (unat (sd_pack_serial d))]"

text \<open>\<open>statusCommand\<close> after its flags; the data directory may not resolve.\<close>

definition status_command :: "status_env \<Rightarrow> bool \<Rightarrow> bool \<Rightarrow> session_files \<Rightarrow> exit_code \<times> bytes list" where
  "status_command env data_dir as_json f =
     (if \<not> data_dir then (ExitFailure, [])
      else case read_status env f of
             Inl NotRunning \<Rightarrow> (ExitFailure, [''not running''])
           | Inl StatusFailed \<Rightarrow> (ExitFailure, [])
           | Inr d \<Rightarrow> (ExitOK, if as_json then [encode_status d] else print_status d))"

section \<open>Texts that trimming leaves alone\<close>

definition calm :: "char \<Rightarrow> bool" where
  "calm c \<longleftrightarrow> list_all (\<lambda>r. r \<noteq> [] \<and> hd r \<noteq> c \<and> hd (rev r) \<noteq> c) space_runes"

lemma no_prefix:
  assumes "\<forall>r \<in> set rs. r \<noteq> [] \<and> hd r \<noteq> hd s" "s \<noteq> []"
  shows "list_all (\<lambda>r. \<not> prefix r s) rs"
proof -
  have "\<not> prefix r s" if "r \<in> set rs" for r
    using assms that by (cases r; cases s) auto
  then show ?thesis by (simp add: list_all_iff)
qed

lemma calm_runes:
  assumes "calm c"
  shows "\<forall>r \<in> set space_runes. r \<noteq> [] \<and> hd r \<noteq> c" "\<forall>r \<in> set (map rev space_runes). r \<noteq> [] \<and> hd r \<noteq> c"
  using assms unfolding calm_def list_all_iff by auto

lemma trim_space_calm:
  assumes "s \<noteq> []" "calm (hd s)" "calm (last s)"
  shows "trim_space s = s"
proof -
  have "list_all (\<lambda>r. \<not> prefix r s) space_runes"
    using no_prefix [OF calm_runes(1) [OF assms(2)] assms(1)] .
  moreover have "list_all (\<lambda>r. \<not> prefix r (rev s)) (map rev space_runes)"
    using calm_runes(2) [OF assms(3)] assms(1) by (intro no_prefix) (simp_all add: hd_rev)
  ultimately show ?thesis by (simp add: trim_space_def trim_fuel_fresh)
qed

lemma trim_space_newline:
  assumes "s \<noteq> []" "calm (hd s)" "calm (last s)"
  shows "trim_space (s @ [CHR 0x0A]) = s"
proof -
  have "trim_fuel n space_runes (s @ [CHR 0x0A]) = s @ [CHR 0x0A]" for n
    using calm_runes(1) [OF assms(2)] assms(1) by (intro trim_fuel_fresh no_prefix) simp_all
  moreover have "trim_fuel n (map rev space_runes) (rev s) = rev s" for n
    using calm_runes(2) [OF assms(3)] assms(1) by (intro trim_fuel_fresh no_prefix) (simp_all add: hd_rev)
  moreover have "find (\<lambda>r. prefix r (CHR 0x0A # xs)) (map rev space_runes) = Some [CHR 0x0A]" for xs
    by (simp add: space_runes_def)
  ultimately show ?thesis by (simp add: trim_space_def)
qed

lemma calm_plain: "list_all calm ''0123456789abcdefB[]:''"
  by code_simp

lemma calm_dot: "calm CHR ''.''"
  by code_simp

lemma calm_digit: "is_ascii_digit c \<Longrightarrow> calm c"
proof -
  assume "is_ascii_digit c"
  then have "48 \<le> (byte_val c :: nat)" "(byte_val c :: nat) \<le> 57" by (simp_all add: ascii_defs)
  then have "byte_val c \<in> set [48 ..< 58 :: nat]" by (simp only: set_upt) simp
  moreover have "\<forall>n \<in> set [48 ..< 58 :: nat]. calm (char_of n)" by code_simp
  ultimately have "calm (char_of (byte_val c))" by blast
  then show ?thesis by simp
qed

section \<open>The address of a listener\<close>

text \<open>Host texts as a listener prints them: an IPv4 address, or the IPv6 loopback.\<close>

definition printed_host :: "bytes \<Rightarrow> bool" where
  "printed_host h \<longleftrightarrow>
     (h \<noteq> [] \<and> list_all (\<lambda>c. is_ascii_digit c \<or> c = CHR ''.'') h \<and> is_ascii_digit (hd h)) \<or> h = ''::1''"

definition listener_address :: "bytes \<Rightarrow> nat \<Rightarrow> bytes" where
  "listener_address h p = join_host_port h (itoa p)"

lemma last_colon: "CHR '':'' \<notin> set d \<Longrightarrow> last_index_byte CHR '':'' (s @ CHR '':'' # d) = Some (length s)"
proof -
  assume "CHR '':'' \<notin> set d"
  then have "index_byte CHR '':'' (rev d @ CHR '':'' # rev s) = Some (length d)"
    using index_byte_append [of "CHR '':''" "rev d" "rev s"] by simp
  then show ?thesis by (simp add: last_index_byte_def)
qed

lemma digits_of_port:
  "itoa p \<noteq> []" "list_all is_ascii_digit (itoa p)" "\<And>c. c \<in> set (itoa p) \<Longrightarrow> is_ascii_digit c"
  using itoa_not_Nil itoa_digits by (auto simp: list_all_iff)

lemma digit_not: "is_ascii_digit c \<Longrightarrow> c \<notin> set ''+-:[]/?#@ '' \<and> c \<noteq> CHR 0x09 \<and> c \<noteq> CHR ''%''"
  by (auto simp: ascii_defs)

lemma parse_port_itoa: "1 \<le> p \<Longrightarrow> p \<le> 65535 \<Longrightarrow> parse_port (itoa p) = Some (int p)"
proof -
  assume p: "1 \<le> p" "p \<le> 65535"
  obtain c cs where ds: "itoa p = c # cs" using digits_of_port(1) [of p] by (cases "itoa p") auto
  then have "is_ascii_digit c" using digits_of_port(3) [where p = p] by simp
  then have "c \<noteq> CHR ''+''" "c \<noteq> CHR ''-''" using digit_not by auto
  then have "atoi (itoa p) = Some (int p)"
    using ds digits_of_port(1,2) [of p] digits_value_itoa [of p] by (simp add: atoi_def Let_def)
  with p digits_of_port(1) [of p] show ?thesis by (simp add: parse_port_def)
qed

lemma listener_address_parts:
  assumes "printed_host h"
  shows "split_host_port (listener_address h p) = Some (h, itoa p)"
    and "\<And>c. c \<in> set (listener_address h p) \<Longrightarrow> is_ascii_digit c \<or> c \<in> set ''.:[]''"
proof -
  have d: "CHR '':'' \<notin> set (itoa p)" "CHR ''['' \<notin> set (itoa p)" "CHR '']'' \<notin> set (itoa p)"
    using digits_of_port(3) digit_not by fastforce+
  consider "h = ''::1''" | "h \<noteq> []" "\<forall>c \<in> set h. is_ascii_digit c \<or> c = CHR ''.''" "is_ascii_digit (hd h)"
    using assms by (auto simp: printed_host_def list_all_iff)
  then have "split_host_port (listener_address h p) = Some (h, itoa p)
    \<and> (\<forall>c \<in> set (listener_address h p). is_ascii_digit c \<or> c \<in> set ''.:[]'')"
  proof cases
    case 1
    have "last_index_byte CHR '':'' (''[::1]'' @ CHR '':'' # itoa p) = Some 5"
      using last_colon [OF d(1), of "''[::1]''"] by simp
    with 1 d show ?thesis
      using digits_of_port(3) [where p = p]
      by (auto simp: ascii_defs listener_address_def join_host_port_def split_host_port_def Prelude.slice_def)
  next
    case 2
    then have h: "CHR '':'' \<notin> set h" "CHR ''['' \<notin> set h" "CHR '']'' \<notin> set h" "CHR ''%'' \<notin> set h"
      using digit_not by fastforce+
    then have addr: "listener_address h p = h @ CHR '':'' # itoa p"
      by (simp add: listener_address_def join_host_port_def)
    have "\<not> prefix ''['' (h @ CHR '':'' # itoa p)"
      using h(2) 2(1) by (cases h) auto
    with h d have "split_host_port (h @ CHR '':'' # itoa p) = Some (h, itoa p)"
      using last_colon [OF d(1), of h] by (simp add: split_host_port_def)
    with addr 2 show ?thesis using digits_of_port(3) [where p = p] by auto
  qed
  then show "split_host_port (listener_address h p) = Some (h, itoa p)"
    "\<And>c. c \<in> set (listener_address h p) \<Longrightarrow> is_ascii_digit c \<or> c \<in> set ''.:[]''" by blast+
qed

lemma parse_listener_address:
  assumes "printed_host h" "1 \<le> p" "p \<le> 65535"
  shows "parse_host_authority (listener_address h p) = Some (h, int p)"
proof -
  note parts = listener_address_parts [OF assms(1), where p = p] and chars = listener_address_parts(2) [OF assms(1), where p = p]
  let ?a = "listener_address h p"
  have ne: "?a \<noteq> []" by (simp add: listener_address_def join_host_port_def)
  have calm: "calm c" if "c \<in> set ?a" for c
    using chars [OF that] calm_digit calm_plain calm_dot by auto
  have "trim_space ?a = ?a"
    using ne by (intro trim_space_calm calm) simp_all
  moreover have "\<not> list_ex (\<lambda>c. c \<in> set ''/?#@ '' \<or> c = CHR 0x09) ?a"
    using chars digit_not by (fastforce simp: list_ex_iff)
  moreover have "h \<noteq> []" using assms(1) by (auto simp: printed_host_def)
  moreover have "go_lower h = h"
  proof -
    have "\<forall>c \<in> set h. is_ascii_digit c \<or> c = CHR ''.'' \<or> c = CHR '':''"
      using assms(1) by (auto simp: printed_host_def list_all_iff ascii_defs)
    then have "\<forall>c \<in> set h. byte_val c < (0x80 :: nat)" and "map lower_char h = h"
      by (auto simp: ascii_defs lower_char_def intro!: map_idI)
    then show ?thesis using go_lower_ascii by metis
  qed
  ultimately show ?thesis
    using parts(1) ne parse_port_itoa [OF assms(2,3)] by (simp add: parse_host_authority_def Let_def)
qed

section \<open>What reaches the gateway\<close>

lemma bearer_of_token:
  assumes "t \<noteq> []" "calm (hd t)" "calm (last t)"
  shows "bearer_credential (''Bearer '' @ t) = Some t"
proof -
  have "trim_space (''Bearer '' @ t) = ''Bearer '' @ t"
    using assms calm_plain by (intro trim_space_calm) simp_all
  moreover have "trim_space t = t" using assms by (rule trim_space_calm)
  moreover have "equal_fold ''Bearer'' ''Bearer''" by code_simp
  ultimately show ?thesis using assms(1) by (simp add: bearer_credential_def)
qed

lemma calm_hex: "c \<in> set (hex_encode raw) \<Longrightarrow> calm c"
proof -
  assume "c \<in> set (hex_encode raw)"
  then have "is_hex_digit c" using hex_encode_digits [of raw] by (simp add: list_all_iff)
  then have "is_ascii_digit c \<or> (97 \<le> byte_val c \<and> byte_val c \<le> 102)" by (auto simp: is_hex_digit_def ascii_defs)
  moreover have "calm c" if "97 \<le> byte_val c" "byte_val c \<le> 102"
  proof -
    have "byte_val c \<in> set [97 ..< 103 :: nat]" using that by (simp only: set_upt) simp
    moreover have "\<forall>n \<in> set [97 ..< 103 :: nat]. calm (char_of n)" by code_simp
    ultimately have "calm (char_of (byte_val c))" by blast
    then show ?thesis by simp
  qed
  ultimately show "calm c" using calm_digit by blast
qed

lemma loopback_host_allowed:
  "host_allowed h \<lparr>allowed_hosts = [], allowed_port = p\<rparr> \<longleftrightarrow> h \<in> set loopback_host_names" if "printed_host h"
proof -
  have "\<forall>c \<in> set h. is_ascii_digit c \<or> c = CHR ''.'' \<or> c = CHR '':''"
    using that by (auto simp: printed_host_def list_all_iff ascii_defs)
  then have h: "\<forall>c \<in> set h. byte_val c < (0x80 :: nat)" "map lower_char h = h"
    by (auto simp: ascii_defs lower_char_def intro!: map_idI)
  have "\<forall>n \<in> set loopback_host_names. map lower_char (trim_brackets (trim_space n)) = n
      \<and> equal_fold n (trim_brackets (trim_space n))" by code_simp
  then have "equal_fold h (trim_brackets (trim_space n)) \<longleftrightarrow> h = n" if "n \<in> set loopback_host_names" for n
    using equal_fold_ascii [of h "trim_brackets (trim_space n)"] h that by auto
  then show ?thesis by (auto simp: host_allowed_def list_ex_iff)
qed

lemma canonical_keys:
  "canonical_header_key ''Authorization'' = ''Authorization''" "canonical_header_key ''Origin'' = ''Origin''"
  by code_simp+

text \<open>
  C38: \<open>tokenhush status\<close> finds the gateway that \<open>run\<close> left its session files for: the request it makes of
  them is answered by the control surface with the status document, if the address is one the host guard
  knows. For any other loopback address, which the configuration may name and the listener binds, the
  gateway refuses it, as it does everything sent there.
\<close>

theorem status_reaches_gateway:
  assumes "write_session io info (gw_token g) f = (True, f')" "gw_token g = hex_encode raw" "raw \<noteq> []"
    and "ri_addrs info = [listener_address h p]" "printed_host h" "gw_port g = int p" "1 \<le> p" "p \<le> 65535"
    and "sv_run_readable env" "sv_token_readable env" "sv_decode_run env (run_json info @ [CHR 0x0A]) = Some info"
    and "sv_parse env (''http://'' @ listener_address h p @ ''/status'') = Some u"
      "url_host u = listener_address h p" "url_path u = ''/status''"
    and "\<And>r. wd_mux wd r = None"
  shows "\<exists>r. session_call env f' = Inr r \<and> serve_request g wd r w s =
    (if h \<in> set loopback_host_names then write_json 200 (control_status (control_of g) (ps_counters s) (wd_now wd)) w
     else http_error (status_text 403) 403 w, s)"
proof -
  let ?t = "gw_token g"
  have t: "?t \<noteq> []" "calm (hd ?t)" "calm (last ?t)"
    using assms(2,3) calm_hex [of _ raw] by (simp_all flip: length_greater_0_conv)
  have files: "sf_run f' = Some (run_json info @ [CHR 0x0A])" "sf_token f' = Some (?t @ [CHR 0x0A])"
    using assms(1) by (auto simp: write_session_def write_session_file_def split: if_splits prod.splits bool.splits)
  define r where "r =
     \<lparr>req_method = ''GET'', req_host = url_host u, req_url = u\<lparr>url_scheme := [], url_host := []\<rparr>,
      req_header = [(''Authorization'', [''Bearer '' @ ?t])], req_length = 0, req_body = None\<rparr>"
  have "session_call env f' = Inr r"
    using assms files trim_space_newline [OF t]
    by (simp add: session_call_def read_session_def read_session_file_def status_call_def r_def)
  moreover have "header_get (req_header r) ''Authorization'' = ''Bearer '' @ ?t" "header_get (req_header r) ''Origin'' = []"
    using canonical_keys by (simp_all add: r_def header_get_def header_values_def)
  moreover have "authorize_control ?t (''Bearer '' @ ?t) = None"
    using bearer_of_token [OF t] t(1) by (simp add: authorize_control_iff)
  ultimately show ?thesis
    using assms(6,13,14,15) parse_listener_address [OF assms(5,7,8)] loopback_host_allowed [OF assms(5)]
    by (intro exI [of _ r]) (simp add: serve_request_def check_host_origin_def control_guard_def control_serve_def r_def)
qed

definition no_session_faults :: session_io where
  "no_session_faults =
     \<lparr>si_mkdir = True, si_run = \<lambda>_. False, si_token = \<lambda>_. False, si_remove_run = True, si_remove_token = True\<rparr>"

definition status_gateway :: gateway where
  "status_gateway = (sample_gateway ActionAllow)\<lparr>gw_token := hex_encode ''secret''\<rparr>"

definition running :: "bytes \<Rightarrow> run_info" where
  "running h = \<lparr>ri_pid = 1, ri_port = 8787, ri_addrs = [listener_address h 8787], ri_started_at = ''2026-01-01T00:00:00Z''\<rparr>"

definition status_url :: "bytes \<Rightarrow> url" where
  "status_url addr =
     \<lparr>url_scheme = ''http'', url_opaque = [], url_user = False, url_host = addr, url_path = ''/status'',
      url_escaped = ''/status'', url_raw_query = [], url_force_query = False, url_fragment = []\<rparr>"

definition sample_status :: "bytes \<Rightarrow> status_env" where
  "sample_status h =
     \<lparr>sv_run_readable = True, sv_token_readable = True, sv_decode_run = \<lambda>_. Some (running h),
      sv_parse = \<lambda>_. Some (status_url (listener_address h 8787)), sv_send = \<lambda>_. None, sv_decode = \<lambda>_. None,
      sv_lib = sample_ruleslib, sv_io = no_faults, sv_cache = empty_cache\<rparr>"

lemma status_reaches_gateway_witness:
  "\<exists>f r h. write_session no_session_faults (running ''127.0.0.1'') (gw_token status_gateway) \<lparr>sf_run = None, sf_token = None\<rparr> = (True, f)
     \<and> session_call (sample_status ''127.0.0.1'') f = Inr r
     \<and> reply_committed (fst (serve_request status_gateway (Traffic.sample_world (TransportFailed False)) r new_reply sample_session)) = Some (200, h)"
proof -
  obtain f where f: "write_session no_session_faults (running ''127.0.0.1'') (gw_token status_gateway) \<lparr>sf_run = None, sf_token = None\<rparr> = (True, f)"
    by (simp add: write_session_def write_session_file_def no_session_faults_def)
  have "printed_host ''127.0.0.1''" "''127.0.0.1'' \<in> set loopback_host_names" by code_simp+
  then obtain r where "session_call (sample_status ''127.0.0.1'') f = Inr r"
    "serve_request status_gateway (Traffic.sample_world (TransportFailed False)) r new_reply sample_session =
       (write_json 200 (control_status (control_of status_gateway) (ps_counters sample_session) (wd_now (Traffic.sample_world (TransportFailed False)))) new_reply, sample_session)"
    using status_reaches_gateway [OF f, of "''secret''" "''127.0.0.1''" 8787 "sample_status ''127.0.0.1''"
        "status_url (listener_address ''127.0.0.1'' 8787)" "Traffic.sample_world (TransportFailed False)" new_reply sample_session]
    by (auto simp: status_gateway_def running_def sample_status_def status_url_def sample_gateway_def)
  with f show ?thesis by (auto simp: write_json_def new_reply_def)
qed

text \<open>
  A configuration may name any loopback address, and the listener binds it, but the gateway answers
  under three names only: with the host \<open>127.0.0.2\<close> it refuses every request to its own address, whatever
  it asks. The documents list the three names as the only ones accepted.
\<close>

theorem loopback_alias_refused:
  "validate_listen \<lparr>listen_host = ''127.0.0.2'', listen_port = 8787\<rparr> = None
   \<and> loopback_bind_ip ''127.0.0.2'' = Inr (v4_prefix @ [127, 0, 0, 2])
   \<and> serve_request (g\<lparr>gw_port := 8787\<rparr>) wd (r\<lparr>req_host := ''127.0.0.2:8787''\<rparr>) w s = (http_error (status_text 403) 403 w, s)"
proof -
  have "validate_listen \<lparr>listen_host = ''127.0.0.2'', listen_port = 8787\<rparr> = None"
    "loopback_bind_ip ''127.0.0.2'' = Inr (v4_prefix @ [127, 0, 0, 2])"
    "parse_host_authority ''127.0.0.2:8787'' = Some (''127.0.0.2'', 8787)" by code_simp+
  moreover have "\<not> host_allowed ''127.0.0.2'' \<lparr>allowed_hosts = [], allowed_port = p\<rparr>" for p
  proof -
    have "printed_host ''127.0.0.2''" "''127.0.0.2'' \<notin> set loopback_host_names" by code_simp+
    then show ?thesis using loopback_host_allowed by blast
  qed
  ultimately show ?thesis by (simp add: serve_request_def check_host_origin_def)
qed

section \<open>Snippets and the listener\<close>

lemma sublist_appended: "sublist u b \<Longrightarrow> sublist u (a @ b)" "sublist u a \<Longrightarrow> sublist u (a @ b)"
  by (auto simp: sublist_def) (metis append.assoc)+

lemma sublist_behind: "sublist u s \<Longrightarrow> sublist u (c # s)"
  using sublist_appended(1) [of u s "[c]"] by simp

lemma sublist_in_lines: "list_ex (sublist u) ls \<Longrightarrow> sublist u (text_lines ls)"
  by (induction ls) (auto simp: text_lines_def intro: sublist_appended sublist_behind)

lemma sublist_quoted: "sublist u v \<Longrightarrow> sublist u (quoted v)"
  unfolding quoted_def by (intro sublist_appended)

lemma sublist_in_vars:
  assumes "(k, v) \<in> set vars" "sublist u v"
  shows "sublist u (env_vars mode vars)"
proof -
  have "sublist u (''export '' @ k @ ''='' @ quoted v)" "sublist u (''$env:'' @ k @ '' = '' @ quoted v)"
    by (intro sublist_appended(1) sublist_quoted assms(2))+
  then have "list_ex (sublist u) (map (\<lambda>(k, v). ''export '' @ k @ ''='' @ quoted v) vars)"
    "list_ex (sublist u) (map (\<lambda>(k, v). ''$env:'' @ k @ '' = '' @ quoted v) vars)"
    using assms(1) unfolding list_ex_iff set_map by (auto intro!: bexI [of _ "(k, v)"] simp del: append_Cons)
  then show ?thesis
    unfolding env_vars_def by (auto intro!: sublist_in_lines simp del: list_ex_append simp: list_ex_append)
qed

lemma sublist_in_line: "sublist u l \<Longrightarrow> l \<in> set ls \<Longrightarrow> sublist u (text_lines ls)"
  by (intro sublist_in_lines) (auto simp: list_ex_iff)

lemma mentions:
  "sublist u u" "sublist u (u @ b)" "sublist u (a @ u)" "sublist u (a @ u @ b)" "sublist u (a @ quoted (u @ b))"
  "sublist u (a @ quoted (u @ b) @ c)"
  by (auto intro: sublist_appended sublist_quoted)

lemma snippet_mentions:
  assumes "tool \<in> set env_tools"
  shows "\<exists>s. snippet_of mode origin (origin @ ''/v1'') tool = Some s \<and> sublist origin s"
    (is "?mentioned tool")
proof -
  note decide = snippet_of_def list.inject char.inject list.distinct simp_thms if_True if_False option.inject
  note vars = sublist_appended(1) [OF sublist_in_vars [OF list.set_intros(1)]]
  have "?mentioned ''cline''"
    "?mentioned ''roo''"
    "?mentioned ''kilo''"
    by (simp only: decide; rule sublist_in_line; (rule mentions(4) | (rule list.set_intros)+))+
  moreover have "?mentioned ''crush''"
    "?mentioned ''continue''"
    by (simp only: decide; rule sublist_in_line; (rule mentions(5) | (rule list.set_intros)+))+
  moreover have "?mentioned ''codex''"
    "?mentioned ''opencode''"
    "?mentioned ''zed''"
    by (simp only: decide; rule sublist_in_line; (rule mentions(6) | (rule list.set_intros)+))+
  moreover have "?mentioned ''claude''"
    "?mentioned ''goose''"
    by (simp only: decide; rule vars; rule mentions(1))+
  moreover have "?mentioned ''aider''"
    "?mentioned ''qwen''"
    "?mentioned ''openwebui''"
    "?mentioned ''openhands''"
    by (simp only: decide; rule vars; rule mentions(2))+
  ultimately have "list_all ?mentioned env_tools" by (simp only: env_tools_def list.pred_inject simp_thms)
  with assms show ?thesis by (simp only: list_all_iff)
qed

text \<open>
  The snippet of every supported tool names the origin \<open>http://127.0.0.1:<port>\<close> of the effective port,
  whatever host is configured: with \<open>listen.host\<close> set to \<open>::1\<close> the gateway is bound elsewhere.
\<close>

theorem snippet_names_default_host:
  assumes "tool \<in> set env_tools" "0 \<le> port" "port \<le> 65535"
  shows "\<exists>snippet. env_command port [tool] mode (Inr cfg) = (ExitOK, snippet)
    \<and> sublist (gateway_root (if port \<noteq> 0 then port else listen_port (cfg_listen cfg))) snippet
    \<and> env_command port [tool] mode (Inr (cfg\<lparr>cfg_listen := (cfg_listen cfg)\<lparr>listen_host := h\<rparr>\<rparr>)) = (ExitOK, snippet)"
proof -
  let ?o = "gateway_root (if port \<noteq> 0 then port else listen_port (cfg_listen cfg))"
  obtain s where "snippet_of mode ?o (?o @ ''/v1'') tool = Some s" "sublist ?o s"
    using snippet_mentions [OF assms(1), of mode ?o] by blast
  with assms show ?thesis by (intro exI [of _ s]) (auto simp: env_command_def env_snippet_def)
qed

end
