(* ===== verification/Replace.thy ===== *)
theory Replace
  imports Supply
begin

text \<open>
  \<open>pkg/supply/replace.go\<close> and \<open>recover.go\<close>: the two-phase replacement of the running binary and the
  repair of an interrupted one. An install is the content of the four sibling paths. Every file
  operation draws its fate: it works, it fails without effect, or the process dies before it. The
  crash-injection hook of the tests (\<open>kill\<close>) is nil in production and has no counterpart.
\<close>

section \<open>The sibling paths\<close>

record layout =
  lay_target :: bytes
  lay_candidate :: bytes
  lay_backup :: bytes
  lay_journal :: bytes

definition is_abs :: "bytes \<Rightarrow> bool" where
  "is_abs p = prefix ''/'' p"

definition new_layout :: "bytes \<Rightarrow> layout outcome" where
  "new_layout target =
     (let t = trim_space target
      in if t = [] \<or> \<not> is_abs t then Inl ErrNoTarget
         else Inr \<lparr>lay_target = t, lay_candidate = t @ ''.new'', lay_backup = t @ ''.lkg'', lay_journal = t @ ''.update-journal''\<rparr>)"

text \<open>The four paths never coincide, so an install is a map from their roles.\<close>

lemma layout_distinct:
  "new_layout target = Inr l \<Longrightarrow> distinct [lay_target l, lay_candidate l, lay_backup l, lay_journal l]"
  by (auto simp: new_layout_def Let_def split: if_splits)

datatype path = Target | Candidate | Backup | Journal

type_synonym install = "path \<Rightarrow> bytes option"

section \<open>Programs over the file system\<close>

datatype fate = Works | Fails | Dies

datatype replace_error = NotExist | Refused | RecoveryStuck

datatype 'a status = Finished 'a | Errored replace_error | Died

type_synonym 'a prog = "fate list \<Rightarrow> install \<Rightarrow> 'a status \<times> fate list \<times> install"

definition give :: "'a \<Rightarrow> 'a prog" where
  "give a = (\<lambda>fs s. (Finished a, fs, s))"

definition throw :: "replace_error \<Rightarrow> 'a prog" where
  "throw e = (\<lambda>fs s. (Errored e, fs, s))"

definition and_then :: "'a prog \<Rightarrow> ('a \<Rightarrow> 'b prog) \<Rightarrow> 'b prog" where
  "and_then p k = (\<lambda>fs s. case p fs s of
     (Finished a, fs', s') \<Rightarrow> k a fs' s'
   | (Errored e, fs', s') \<Rightarrow> (Errored e, fs', s')
   | (Died, fs', s') \<Rightarrow> (Died, fs', s'))"

definition handle :: "'a prog \<Rightarrow> (replace_error \<Rightarrow> 'a prog) \<Rightarrow> 'a prog" where
  "handle p h = (\<lambda>fs s. case p fs s of
     (Finished a, fs', s') \<Rightarrow> (Finished a, fs', s')
   | (Errored e, fs', s') \<Rightarrow> h e fs' s'
   | (Died, fs', s') \<Rightarrow> (Died, fs', s'))"

definition seeing :: "(install \<Rightarrow> 'a prog) \<Rightarrow> 'a prog" where
  "seeing f = (\<lambda>fs s. f s fs s)"

text \<open>One operation of the operating system; an exhausted list of fates means that all goes well.\<close>

definition atomic :: "(install \<Rightarrow> install option) \<Rightarrow> unit prog" where
  "atomic act = (\<lambda>fs s.
     case fs of
       Fails # fs' \<Rightarrow> (Errored Refused, fs', s)
     | Dies # fs' \<Rightarrow> (Died, fs', s)
     | _ \<Rightarrow> (case act s of None \<Rightarrow> (Errored NotExist, drop 1 fs, s) | Some s' \<Rightarrow> (Finished (), drop 1 fs, s')))"

definition os_rename :: "path \<Rightarrow> path \<Rightarrow> unit prog" where
  "os_rename src dst = atomic (\<lambda>s. case s src of None \<Rightarrow> None | Some b \<Rightarrow> Some (s(dst := Some b, src := None)))"

definition os_remove :: "path \<Rightarrow> unit prog" where
  "os_remove p = atomic (\<lambda>s. case s p of None \<Rightarrow> None | Some _ \<Rightarrow> Some (s(p := None)))"

text \<open>A file written to a temporary sibling and renamed into place appears at once or not at all.\<close>

definition write_file :: "path \<Rightarrow> bytes \<Rightarrow> unit prog" where
  "write_file p content = atomic (\<lambda>s. Some (s(p := Some content)))"

definition rename_over :: "path \<Rightarrow> path \<Rightarrow> unit prog" where
  "rename_over src dst =
     handle (os_rename src dst) (\<lambda>err.
       and_then (handle (os_remove dst) (\<lambda>rerr. if rerr = NotExist then give () else throw err))
         (\<lambda>_. os_rename src dst))"

definition remove_journal :: "unit prog" where
  "remove_journal = handle (os_remove Journal) (\<lambda>_. give ())"

section \<open>The two-phase commit\<close>

definition restore_backup :: "unit prog" where
  "restore_backup = seeing (\<lambda>s.
     if s Target = None \<and> s Backup \<noteq> None then handle (rename_over Backup Target) (\<lambda>_. give ()) else give ())"

definition finish_commit :: "unit prog" where
  "finish_commit =
     and_then (seeing (\<lambda>s. if s Target \<noteq> None then rename_over Target Backup else give ())) (\<lambda>_.
       handle (rename_over Candidate Target) (\<lambda>e. and_then restore_backup (\<lambda>_. throw e)))"

definition commit :: "bytes \<Rightarrow> unit prog" where
  "commit doc =
     and_then (write_file Journal doc) (\<lambda>_. and_then finish_commit (\<lambda>_. remove_journal))"

definition commit_artifact :: "bytes \<Rightarrow> bytes \<Rightarrow> unit prog" where
  "commit_artifact artifact doc = and_then (write_file Candidate artifact) (\<lambda>_. commit doc)"

section \<open>Recovery\<close>

datatype recovery = RecoveryNone | RecoveryCompleted | RecoveryRolledBack | RecoveryCleaned

definition recover_journaled :: "recovery prog" where
  "recover_journaled = seeing (\<lambda>s.
     if s Candidate \<noteq> None then
       and_then finish_commit (\<lambda>_. and_then remove_journal (\<lambda>_. give RecoveryCompleted))
     else if s Target = None then
       (if s Backup = None then throw RecoveryStuck
        else and_then (rename_over Backup Target) (\<lambda>_. and_then remove_journal (\<lambda>_. give RecoveryRolledBack)))
     else and_then remove_journal (\<lambda>_. give RecoveryCleaned))"

definition recover :: "recovery prog" where
  "recover = seeing (\<lambda>s.
     if s Journal \<noteq> None then recover_journaled
     else if s Target = None \<and> s Backup \<noteq> None then
       and_then (rename_over Backup Target) (\<lambda>_.
         and_then (handle (os_remove Candidate) (\<lambda>_. give ())) (\<lambda>_. give RecoveryRolledBack))
     else if s Candidate \<noteq> None then
       and_then (handle (os_remove Candidate) (\<lambda>e. if e = NotExist then give () else throw e)) (\<lambda>_. give RecoveryCleaned)
     else give RecoveryNone)"

lemmas prog_defs = give_def throw_def and_then_def handle_def seeing_def

section \<open>What holds at every moment\<close>

text \<open>
  A runnable binary exists: the target, if present, is one of the good binaries; if it is absent
  the backup is one; and a candidate under a journal is one.
\<close>

definition repairable :: "(bytes \<Rightarrow> bool) \<Rightarrow> install \<Rightarrow> bool" where
  "repairable good s \<longleftrightarrow>
     (\<forall>b. s Target = Some b \<longrightarrow> good b) \<and> (s Target = None \<longrightarrow> (\<exists>b. s Backup = Some b \<and> good b)) \<and>
     (\<forall>c. s Candidate = Some c \<longrightarrow> s Journal \<noteq> None \<longrightarrow> good c)"

text \<open>\<open>keeps I P p Q\<close>: \<open>p\<close> started under \<open>P\<close> keeps \<open>I\<close> however it ends, and \<open>Q\<close> when it finishes.\<close>

definition keeps :: "(install \<Rightarrow> bool) \<Rightarrow> (install \<Rightarrow> bool) \<Rightarrow> 'a prog \<Rightarrow> ('a \<Rightarrow> install \<Rightarrow> bool) \<Rightarrow> bool" where
  "keeps I P p Q \<longleftrightarrow>
     (\<forall>fs s r fs' s'. I s \<longrightarrow> P s \<longrightarrow> p fs s = (r, fs', s') \<longrightarrow> I s' \<and> (\<forall>a. r = Finished a \<longrightarrow> Q a s'))"

lemma keepsD: "keeps I P p Q \<Longrightarrow> I s \<Longrightarrow> P s \<Longrightarrow> p fs s = (r, fs', s') \<Longrightarrow> I s' \<and> (\<forall>a. r = Finished a \<longrightarrow> Q a s')"
  unfolding keeps_def by blast

lemma keeps_give: "(\<And>s. P s \<Longrightarrow> Q a s) \<Longrightarrow> keeps I P (give a) Q"
  by (auto simp: keeps_def give_def)

lemma keeps_throw: "keeps I P (throw e) Q"
  by (auto simp: keeps_def throw_def)

lemma keeps_and_then:
  assumes "keeps I P p R" "\<And>a. keeps I (R a) (k a) Q"
  shows "keeps I P (and_then p k) Q"
  unfolding keeps_def
proof (intro allI impI)
  fix fs s r fs' s' assume a: "I s" "P s" "and_then p k fs s = (r, fs', s')"
  obtain r1 fs1 s1 where p: "p fs s = (r1, fs1, s1)" by (metis prod.exhaust)
  note k1 = keepsD [OF assms(1) a(1,2) p]
  show "I s' \<and> (\<forall>a. r = Finished a \<longrightarrow> Q a s')"
  proof (cases r1)
    case (Finished x)
    with a(3) p have "k x fs1 s1 = (r, fs', s')" by (simp add: and_then_def)
    with keepsD [OF assms(2) _ _ this] k1 Finished show ?thesis by blast
  qed (use a(3) p k1 in \<open>auto simp: and_then_def\<close>)
qed

lemma keeps_handle:
  assumes "keeps I P p Q" "\<And>e. keeps I (\<lambda>_. True) (h e) Q"
  shows "keeps I P (handle p h) Q"
  unfolding keeps_def
proof (intro allI impI)
  fix fs s r fs' s' assume a: "I s" "P s" "handle p h fs s = (r, fs', s')"
  obtain r1 fs1 s1 where p: "p fs s = (r1, fs1, s1)" by (metis prod.exhaust)
  note k1 = keepsD [OF assms(1) a(1,2) p]
  show "I s' \<and> (\<forall>a. r = Finished a \<longrightarrow> Q a s')"
  proof (cases r1)
    case (Errored e)
    with a(3) p have "h e fs1 s1 = (r, fs', s')" by (simp add: handle_def)
    with keepsD [OF assms(2) _ _ this] k1 show ?thesis by blast
  qed (use a(3) p k1 in \<open>auto simp: handle_def\<close>)
qed

lemma keeps_weaken:
  "keeps I P p Q \<Longrightarrow> (\<And>s. P' s \<Longrightarrow> P s) \<Longrightarrow> (\<And>a s. Q a s \<Longrightarrow> Q' a s) \<Longrightarrow> keeps I P' p Q'"
  unfolding keeps_def by blast

lemma atomic_cases:
  assumes "atomic act fs s = (r, fs', s')"
  obtains "r = Finished ()" "act s = Some s'" | "r \<noteq> Finished ()" "s' = s"
  using assms by (auto simp: atomic_def split: list.splits fate.splits option.splits)

lemma keeps_write:
  assumes "\<And>s. I s \<Longrightarrow> P s \<Longrightarrow> I (s(p := Some b)) \<and> Q () (s(p := Some b))"
  shows "keeps I P (write_file p b) Q"
  unfolding keeps_def write_file_def
proof (intro allI impI)
  fix fs s r fs' s'
  assume a: "I s" "P s" "atomic (\<lambda>s. Some (s(p \<mapsto> b))) fs s = (r, fs', s')"
  from a(3) show "I s' \<and> (\<forall>a. r = Finished a \<longrightarrow> Q a s')"
    by (cases rule: atomic_cases) (use a(1,2) assms in auto)
qed

text \<open>What \<open>renameOver\<close> may leave: nothing changed, the destination removed, or the move done.\<close>

lemma rename_over_result:
  assumes "rename_over src dst fs s = (r, fs', s')" "s src = Some b" "src \<noteq> dst"
  shows "(r = Finished () \<and> s' = s(dst := Some b, src := None)) \<or> (r \<noteq> Finished () \<and> (s' = s \<or> s' = s(dst := None)))"
proof -
  obtain r1 fs1 s1 where m: "os_rename src dst fs s = (r1, fs1, s1)" by (metis prod.exhaust)
  have ren: "(x = Finished () \<and> t' = t(dst := Some b, src := None)) \<or> (x \<noteq> Finished () \<and> t' = t)"
    if "os_rename src dst f t = (x, f', t')" "t src = Some b" for f t x f' t'
    using that unfolding os_rename_def by (cases rule: atomic_cases) auto
  from ren [OF m assms(2)] show ?thesis
  proof
    assume "r1 = Finished () \<and> s1 = s(dst := Some b, src := None)"
    with m assms(1) show ?thesis by (auto simp: rename_over_def handle_def)
  next
    assume f: "r1 \<noteq> Finished () \<and> s1 = s"
    show ?thesis
    proof (cases r1)
      case (Errored e)
      obtain r2 fs2 s2 where rm: "os_remove dst fs1 s = (r2, fs2, s2)" by (metis prod.exhaust)
      have s2: "s2 = s \<or> s2 = s(dst := None)"
        using rm unfolding os_remove_def by (cases rule: atomic_cases) (auto split: option.splits)
      have src2: "s2 src = Some b" using s2 assms(2,3) by auto
      have upd: "s2(dst := Some b, src := None) = s(dst := Some b, src := None)" using s2 by auto
      show ?thesis
      proof (cases "r2 = Finished () \<or> r2 = Errored NotExist")
        case True
        with m rm Errored f assms(1) have "os_rename src dst fs2 s2 = (r, fs', s')"
          by (auto simp: rename_over_def handle_def and_then_def give_def)
        from ren [OF this src2] s2 upd show ?thesis by auto
      next
        case False
        with m rm Errored f assms(1) s2 show ?thesis
          by (cases r2) (auto simp: rename_over_def handle_def and_then_def throw_def)
      qed
    qed (use m f assms(1) in \<open>auto simp: rename_over_def handle_def\<close>)
  qed
qed

lemma keeps_rename_over:
  assumes "\<And>s. I s \<Longrightarrow> P s \<Longrightarrow> \<exists>b. s src = Some b \<and> I (s(dst := None)) \<and>
      I (s(dst := Some b, src := None)) \<and> Q () (s(dst := Some b, src := None))" "src \<noteq> dst"
  shows "keeps I P (rename_over src dst) Q"
  unfolding keeps_def
proof (intro allI impI)
  fix fs s r fs' s' assume a: "I s" "P s" "rename_over src dst fs s = (r, fs', s')"
  from assms(1) [OF a(1,2)] obtain b where b: "s src = Some b" "I (s(dst := None))"
    "I (s(dst := Some b, src := None))" "Q () (s(dst := Some b, src := None))" by blast
  from rename_over_result [OF a(3) b(1) assms(2)] a(1) b(2-4)
  show "I s' \<and> (\<forall>a. r = Finished a \<longrightarrow> Q a s')" by auto
qed

lemma keeps_remove:
  assumes "\<And>s. I s \<Longrightarrow> P s \<Longrightarrow> I (s(p := None)) \<and> Q () (s(p := None))"
  shows "keeps I P (os_remove p) Q"
  unfolding keeps_def os_remove_def
proof (intro allI impI)
  fix fs s r fs' s'
  assume a: "I s" "P s" "atomic (\<lambda>s. case s p of None \<Rightarrow> None | Some _ \<Rightarrow> Some (s(p := None))) fs s = (r, fs', s')"
  from a(3) show "I s' \<and> (\<forall>a. r = Finished a \<longrightarrow> Q a s')"
    by (cases rule: atomic_cases) (use a(1,2) assms in \<open>auto split: option.splits\<close>)
qed

section \<open>The programs keep the install repairable\<close>

lemma repairable_target: "repairable good s \<Longrightarrow> s Target = None \<Longrightarrow> \<exists>b. s Backup = Some b \<and> good b"
  by (simp add: repairable_def)

lemma keeps_seeing_if:
  "keeps I (\<lambda>s. P s \<and> b s) (seeing f) Q \<Longrightarrow> keeps I (\<lambda>s. P s \<and> \<not> b s) (seeing g) Q \<Longrightarrow>
     keeps I P (seeing (\<lambda>s. if b s then f s else g s)) Q"
proof -
  assume f: "keeps I (\<lambda>s. P s \<and> b s) (seeing f) Q" and g: "keeps I (\<lambda>s. P s \<and> \<not> b s) (seeing g) Q"
  show ?thesis
    unfolding keeps_def
  proof (intro allI impI)
    fix fs s r fs' s'
    assume a: "I s" "P s" "seeing (\<lambda>s. if b s then f s else g s) fs s = (r, fs', s')"
    show "I s' \<and> (\<forall>a. r = Finished a \<longrightarrow> Q a s')"
    proof (cases "b s")
      case True
      with a keepsD [OF f, of s fs r fs' s'] show ?thesis by (simp add: seeing_def)
    next
      case False
      with a keepsD [OF g, of s fs r fs' s'] show ?thesis by (simp add: seeing_def)
    qed
  qed
qed

lemma keeps_seeing_const: "keeps I P p Q \<Longrightarrow> keeps I P (seeing (\<lambda>_. p)) Q"
  by (simp add: seeing_def)

lemmas keeps_cases = keeps_seeing_if keeps_seeing_const

lemma restore_backup_keeps: "keeps (repairable good) P restore_backup (\<lambda>_ _. True)"
  unfolding restore_backup_def
proof (rule keeps_seeing_if [OF keeps_seeing_const])
  show "keeps (repairable good) (\<lambda>s. P s \<and> s Target = None \<and> s Backup \<noteq> None)
      (handle (rename_over Backup Target) (\<lambda>_. give ())) (\<lambda>_ _. True)"
    by (rule keeps_handle, rule keeps_rename_over) (auto simp: repairable_def intro: keeps_give)
qed (simp add: keeps_seeing_const keeps_give)

lemma finish_commit_keeps:
  "keeps (repairable good) (\<lambda>s. s Journal \<noteq> None \<and> s Candidate = Some c \<and> s Target = t0 \<and> s Backup = b0)
     finish_commit (\<lambda>_ s. s Journal \<noteq> None \<and> s Candidate = None \<and> s Target = Some c \<and>
       s Backup = (if t0 = None then b0 else t0))"
  unfolding finish_commit_def
proof (rule keeps_and_then)
  let ?mid = "\<lambda>_ s. s Journal \<noteq> None \<and> s Candidate = Some c \<and> s Target = None \<and> s Backup = (if t0 = None then b0 else t0)"
  show "keeps (repairable good) (\<lambda>s. s Journal \<noteq> None \<and> s Candidate = Some c \<and> s Target = t0 \<and> s Backup = b0)
     (seeing (\<lambda>s. if s Target \<noteq> None then rename_over Target Backup else give ())) ?mid"
  proof (rule keeps_seeing_if [OF keeps_seeing_const])
    show "keeps (repairable good) (\<lambda>s. (s Journal \<noteq> None \<and> s Candidate = Some c \<and> s Target = t0 \<and> s Backup = b0) \<and> s Target \<noteq> None)
       (rename_over Target Backup) ?mid"
      by (rule keeps_rename_over) (auto simp: repairable_def)
  qed (auto intro!: keeps_seeing_const keeps_give)
  fix u :: unit
  show "keeps (repairable good) (?mid u) (handle (rename_over Candidate Target) (\<lambda>e. and_then restore_backup (\<lambda>_. throw e)))
      (\<lambda>_ s. s Journal \<noteq> None \<and> s Candidate = None \<and> s Target = Some c \<and> s Backup = (if t0 = None then b0 else t0))"
  proof (rule keeps_handle)
    show "keeps (repairable good) (?mid u) (rename_over Candidate Target)
      (\<lambda>_ s. s Journal \<noteq> None \<and> s Candidate = None \<and> s Target = Some c \<and> s Backup = (if t0 = None then b0 else t0))"
    proof (rule keeps_rename_over)
      fix s assume s: "repairable good s" "?mid u s"
      then have same: "s(Target := None) = s" by auto
      from s have "good c" by (auto simp: repairable_def)
      with s show "\<exists>b. s Candidate = Some b \<and> repairable good (s(Target := None)) \<and>
          repairable good (s(Target := Some b, Candidate := None)) \<and>
          (s(Target := Some b, Candidate := None)) Journal \<noteq> None \<and> (s(Target := Some b, Candidate := None)) Candidate = None \<and>
          (s(Target := Some b, Candidate := None)) Target = Some c \<and>
          (s(Target := Some b, Candidate := None)) Backup = (if t0 = None then b0 else t0)"
        unfolding same by (intro exI [of _ c]) (auto simp: repairable_def)
    qed simp
    fix e
    show "keeps (repairable good) (\<lambda>_. True) (and_then restore_backup (\<lambda>_. throw e))
      (\<lambda>_ s. s Journal \<noteq> None \<and> s Candidate = None \<and> s Target = Some c \<and> s Backup = (if t0 = None then b0 else t0))"
      by (rule keeps_and_then [OF restore_backup_keeps keeps_throw])
  qed
qed

lemma remove_journal_keeps:
  assumes "\<And>s. P s \<Longrightarrow> Q s" "\<And>s. P s \<Longrightarrow> Q (s(Journal := None))"
    "\<And>s. Q s \<Longrightarrow> Q (s(Journal := None))"
  shows "keeps (\<lambda>s. repairable good s \<and> Q s) P remove_journal (\<lambda>_. Q)"
  unfolding remove_journal_def
  by (rule keeps_handle, rule keeps_remove) (use assms in \<open>auto simp: repairable_def keeps_def give_def\<close>)

lemma keeps_strong: "keeps (\<lambda>s. I s \<and> Q s) P p R \<Longrightarrow> keeps I (\<lambda>s. P s \<and> Q s) p R"
  unfolding keeps_def by blast

lemma remove_journal_after:
  assumes "\<And>s. Q s \<Longrightarrow> Q (s(Journal := None))"
  shows "keeps (repairable good) Q remove_journal (\<lambda>_. Q)"
  using keeps_strong [OF remove_journal_keeps [of Q Q good]] assms by (auto elim: keeps_weaken)

lemma commit_artifact_keeps:
  assumes "good new"
  shows "keeps (repairable good) (\<lambda>s. s Target = t0 \<and> s Backup = b0) (commit_artifact new doc)
    (\<lambda>_ s. s Target = Some new \<and> s Backup = (if t0 = None then b0 else t0) \<and> s Candidate = None)"
  unfolding commit_artifact_def commit_def
proof (intro keeps_and_then)
  show "keeps (repairable good) (\<lambda>s. s Target = t0 \<and> s Backup = b0) (write_file Candidate new)
      (\<lambda>_ s. s Target = t0 \<and> s Backup = b0 \<and> s Candidate = Some new)"
    by (rule keeps_write) (use assms in \<open>auto simp: repairable_def\<close>)
  show "keeps (repairable good) (\<lambda>s. s Target = t0 \<and> s Backup = b0 \<and> s Candidate = Some new) (write_file Journal doc)
      (\<lambda>_ s. s Target = t0 \<and> s Backup = b0 \<and> s Candidate = Some new \<and> s Journal \<noteq> None)"
    by (rule keeps_write) (use assms in \<open>auto simp: repairable_def\<close>)
  show "keeps (repairable good) (\<lambda>s. s Target = t0 \<and> s Backup = b0 \<and> s Candidate = Some new \<and> s Journal \<noteq> None) finish_commit
      (\<lambda>_ s. s Target = Some new \<and> s Backup = (if t0 = None then b0 else t0) \<and> s Candidate = None)"
    by (rule keeps_weaken [OF finish_commit_keeps [of good new t0 b0]]) auto
  show "keeps (repairable good) (\<lambda>s. s Target = Some new \<and> s Backup = (if t0 = None then b0 else t0) \<and> s Candidate = None) remove_journal
      (\<lambda>_ s. s Target = Some new \<and> s Backup = (if t0 = None then b0 else t0) \<and> s Candidate = None)"
    by (rule remove_journal_after) simp
qed

lemma rollback_keeps:
  assumes "\<And>a. keeps (repairable good) (\<lambda>s. s Target \<noteq> None) (k a) Q"
  shows "keeps (repairable good) (\<lambda>s. s Target = None) (and_then (rename_over Backup Target) k) Q"
proof (rule keeps_and_then [OF keeps_rename_over assms])
  fix s assume s: "repairable good s" "s Target = None"
  then have same: "s(Target := None) = s" by auto
  from s obtain b where "s Backup = Some b" "good b" by (auto simp: repairable_def)
  with s show "\<exists>b. s Backup = Some b \<and> repairable good (s(Target := None)) \<and>
      repairable good (s(Target := Some b, Backup := None)) \<and> (s(Target := Some b, Backup := None)) Target \<noteq> None"
    unfolding same by (intro exI [of _ b]) (auto simp: repairable_def)
qed simp

lemma ignore_remove_candidate:
  "keeps (repairable good) (\<lambda>s. s Target \<noteq> None) (handle (os_remove Candidate) (\<lambda>_. give ())) (\<lambda>_ _. True)"
  by (rule keeps_handle, rule keeps_remove) (auto simp: repairable_def keeps_def give_def)

lemma cleaned_keeps: "keeps (repairable good) P (and_then remove_journal (\<lambda>_. give r)) (\<lambda>_ _. True)"
  by (rule keeps_and_then [OF keeps_weaken [OF remove_journal_after [of "\<lambda>_. True"]]]) (auto intro: keeps_give)

lemma recover_journaled_keeps: "keeps (repairable good) (\<lambda>s. s Journal \<noteq> None) recover_journaled (\<lambda>_ _. True)"
  unfolding recover_journaled_def
proof (intro keeps_cases)
  show "keeps (repairable good) (\<lambda>s. s Journal \<noteq> None \<and> s Candidate \<noteq> None)
      (and_then finish_commit (\<lambda>_. and_then remove_journal (\<lambda>_. give RecoveryCompleted))) (\<lambda>_ _. True)"
  proof (rule keeps_and_then [OF _ cleaned_keeps])
    show "keeps (repairable good) (\<lambda>s. s Journal \<noteq> None \<and> s Candidate \<noteq> None) finish_commit (\<lambda>_ _. True)"
      using finish_commit_keeps [of good] unfolding keeps_def by blast
  qed
  show "keeps (repairable good) (\<lambda>s. (s Journal \<noteq> None \<and> \<not> s Candidate \<noteq> None) \<and> \<not> s Target = None)
      (and_then remove_journal (\<lambda>_. give RecoveryCleaned)) (\<lambda>_ _. True)"
    by (rule cleaned_keeps)
  show "keeps (repairable good) (\<lambda>s. ((s Journal \<noteq> None \<and> \<not> s Candidate \<noteq> None) \<and> s Target = None) \<and> s Backup = None)
      (throw RecoveryStuck) (\<lambda>_ _. True)" by (rule keeps_throw)
  have "keeps (repairable good) (\<lambda>s. s Target = None)
      (and_then (rename_over Backup Target) (\<lambda>_. and_then remove_journal (\<lambda>_. give RecoveryRolledBack))) (\<lambda>_ _. True)"
    by (rule rollback_keeps [OF cleaned_keeps])
  then show "keeps (repairable good) (\<lambda>s. ((s Journal \<noteq> None \<and> \<not> s Candidate \<noteq> None) \<and> s Target = None) \<and> \<not> s Backup = None)
      (and_then (rename_over Backup Target) (\<lambda>_. and_then remove_journal (\<lambda>_. give RecoveryRolledBack))) (\<lambda>_ _. True)"
    by (rule keeps_weaken) auto
qed

lemma recover_keeps: "keeps (repairable good) (\<lambda>_. True) recover (\<lambda>_ _. True)"
  unfolding recover_def
proof (intro keeps_cases)
  show "keeps (repairable good) (\<lambda>s. True \<and> s Journal \<noteq> None) recover_journaled (\<lambda>_ _. True)"
    using recover_journaled_keeps by (auto elim: keeps_weaken)
  have "keeps (repairable good) (\<lambda>s. s Target = None) (and_then (rename_over Backup Target) (\<lambda>_.
       and_then (handle (os_remove Candidate) (\<lambda>_. give ())) (\<lambda>_. give RecoveryRolledBack))) (\<lambda>_ _. True)"
    by (rule rollback_keeps, rule keeps_and_then [OF ignore_remove_candidate]) (auto intro: keeps_give)
  then show "keeps (repairable good) (\<lambda>s. (True \<and> \<not> s Journal \<noteq> None) \<and> s Target = None \<and> s Backup \<noteq> None)
     (and_then (rename_over Backup Target) (\<lambda>_.
       and_then (handle (os_remove Candidate) (\<lambda>_. give ())) (\<lambda>_. give RecoveryRolledBack))) (\<lambda>_ _. True)"
    by (rule keeps_weaken) auto
  have "keeps (repairable good) (\<lambda>_. True) (handle (os_remove Candidate) (\<lambda>e. if e = NotExist then give () else throw e)) (\<lambda>_ _. True)"
    by (rule keeps_handle, rule keeps_remove) (auto simp: repairable_def keeps_def give_def throw_def)
  then have "keeps (repairable good) (\<lambda>_. True)
    (and_then (handle (os_remove Candidate) (\<lambda>e. if e = NotExist then give () else throw e)) (\<lambda>_. give RecoveryCleaned)) (\<lambda>_ _. True)"
    by (rule keeps_and_then) (auto intro: keeps_give)
  then show "keeps (repairable good) (\<lambda>s. ((True \<and> \<not> s Journal \<noteq> None) \<and> \<not> (s Target = None \<and> s Backup \<noteq> None)) \<and> s Candidate \<noteq> None)
    (and_then (handle (os_remove Candidate) (\<lambda>e. if e = NotExist then give () else throw e)) (\<lambda>_. give RecoveryCleaned)) (\<lambda>_ _. True)"
    by (rule keeps_weaken) auto
qed (auto intro: keeps_give)

section \<open>Crashes\<close>

text \<open>
  One run of the updater or of the start-up repair, with whatever fates its operations draw: it may
  complete, fail half-way or die. \<open>good\<close> stands for the binaries whose digest was verified.
\<close>

inductive update_step :: "(bytes \<Rightarrow> bool) \<Rightarrow> install \<Rightarrow> install \<Rightarrow> bool" for good where
  committing: "good new \<Longrightarrow> commit_artifact new doc fs s = (r, fs', s') \<Longrightarrow> update_step good s s'"
| recovering: "recover fs s = (r, fs', s') \<Longrightarrow> update_step good s s'"

inductive_cases update_stepE: "update_step good s s'"

lemma update_step_repairable: "update_step good s s' \<Longrightarrow> repairable good s \<Longrightarrow> repairable good s'"
proof (erule update_stepE)
  fix new doc fs fs' and r :: "unit status"
  assume "repairable good s" "good new" "commit_artifact new doc fs s = (r, fs', s')"
  then show "repairable good s'"
    using keepsD [OF commit_artifact_keeps [of good new "s Target" "s Backup" doc]] by blast
next
  fix fs fs' and r :: "recovery status"
  assume "repairable good s" "recover fs s = (r, fs', s')"
  then show "repairable good s'" using keepsD [OF recover_keeps] by blast
qed

lemma reachable_repairable: "(update_step good)\<^sup>*\<^sup>* s0 s \<Longrightarrow> repairable good s0 \<Longrightarrow> repairable good s"
  by (induction rule: rtranclp_induct) (blast intro: update_step_repairable)+

lemmas prog_eval = recover_def recover_journaled_def finish_commit_def rename_over_def remove_journal_def
  os_rename_def os_remove_def write_file_def atomic_def prog_defs

text \<open>An undisturbed repair.\<close>

lemma recover_undisturbed:
  assumes "repairable good s" "recover [] s = (r, fs, s')"
  shows "(\<exists>x. r = Finished x) \<and> fs = [] \<and> (\<exists>b. s' Target = Some b \<and> good b) \<and> s' Journal = None \<and> s' Candidate = None \<and>
    (s Candidate = None \<longrightarrow> s Target \<noteq> None \<longrightarrow> s' Target = s Target)"
proof -
  have c: "s Candidate = Some c \<Longrightarrow> s Journal \<noteq> None \<Longrightarrow> good c" for c using assms(1) by (auto simp: repairable_def)
  have tb: "s Target = Some b \<Longrightarrow> good b" for b using assms(1) by (auto simp: repairable_def)
  show ?thesis
  proof (cases "s Journal")
    case j: (Some doc)
    show ?thesis
    proof (cases "s Candidate")
      case (Some x)
      with assms(2) j c show ?thesis by (cases "s Target") (auto simp: prog_eval)
    next
      case None
      with assms j tb show ?thesis by (cases "s Target") (auto simp: prog_eval repairable_def)
    qed
  next
    case None
    with assms tb show ?thesis by (cases "s Target"; cases "s Candidate") (auto simp: prog_eval repairable_def)
  qed
qed

lemma recover_idle: "s Journal = None \<Longrightarrow> s Candidate = None \<Longrightarrow> s Target \<noteq> None \<Longrightarrow> recover fs s = (Finished RecoveryNone, fs, s)"
  by (auto simp: recover_def seeing_def give_def)

text \<open>
  C21: No crash loses the binary: after any sequence of updates and repairs, each of which may fail
  or die at any file operation, one undisturbed repair succeeds and leaves a binary in place that
  was the installed one or a verified artifact, with no journal and no staged candidate left; and
  repairing again does nothing.
\<close>

theorem crash_safe:
  assumes "repairable good s0" "(update_step good)\<^sup>*\<^sup>* s0 s" "recover [] s = (r, fs, s')"
  shows "\<exists>b. s' Target = Some b \<and> good b \<and> s' Journal = None \<and> s' Candidate = None \<and>
    recover [] s' = (Finished RecoveryNone, [], s')"
proof -
  from recover_undisturbed [OF reachable_repairable [OF assms(2,1)] assms(3)] obtain b where
    "s' Target = Some b" "good b" "s' Journal = None" "s' Candidate = None" by blast
  with recover_idle [of s' "[]"] show ?thesis by simp
qed

lemma clean_repairable: "s Target = Some b \<Longrightarrow> good b \<Longrightarrow> s Journal = None \<Longrightarrow> repairable good s"
  by (simp add: repairable_def)

text \<open>
  A commit is all or nothing: from a clean install, however the commit ends - completed,
  failed or killed between any two file operations - the next undisturbed repair leaves exactly
  the old or exactly the new binary; and a commit that reported success has the new binary in
  place with the old one as its backup, which the repair does not undo.
\<close>

theorem commit_all_or_nothing:
  assumes "s Target = Some old" "s Journal = None"
    and "commit_artifact new doc fs s = (r, fs1, s1)" "recover [] s1 = (x, fs2, s2)"
  shows "s2 Target \<in> {Some old, Some new} \<and>
    (r = Finished () \<longrightarrow> s1 Target = Some new \<and> s1 Backup = Some old \<and> s2 Target = Some new)"
proof -
  let ?good = "\<lambda>b. b = old \<or> b = new"
  have rep: "repairable ?good s" using assms(1,2) by (intro clean_repairable) auto
  from keepsD [OF commit_artifact_keeps [of ?good new "Some old" "s Backup" doc] rep _ assms(3)] assms(1) have
    c: "repairable ?good s1" "r = Finished () \<Longrightarrow> s1 Target = Some new \<and> s1 Backup = Some old \<and> s1 Candidate = None" by auto
  from recover_undisturbed [OF c(1) assms(4)] c(2) show ?thesis by auto
qed

definition installed :: "bytes \<Rightarrow> install" where
  "installed b = (\<lambda>_. None)(Target := Some b)"

lemma commit_all_or_nothing_witness:
  "\<exists>r fs1 s1 x fs2 s2. commit_artifact ''v2'' ''{}'' [Works, Works, Works, Dies] (installed ''v1'') = (r, fs1, s1) \<and>
    s1 Target = None \<and> recover [] s1 = (x, fs2, s2) \<and> s2 Target \<in> {Some ''v1'', Some ''v2''}"
proof -
  obtain r fs1 s1 where c: "commit_artifact ''v2'' ''{}'' [Works, Works, Works, Dies] (installed ''v1'') = (r, fs1, s1)"
    by (metis prod.exhaust)
  obtain x fs2 s2 where rc: "recover [] s1 = (x, fs2, s2)" by (metis prod.exhaust)
  have "s1 Target = None"
    using c by (auto simp: installed_def commit_artifact_def commit_def prog_eval)
  moreover have "installed ''v1'' Target = Some ''v1''" "installed ''v1'' Journal = None" by (simp_all add: installed_def)
  ultimately show ?thesis using commit_all_or_nothing [OF _ _ c rc] c rc by blast
qed

lemma crash_safe_witness:
  "\<exists>s r fs s'. (update_step (\<lambda>b. b = ''v1'' \<or> b = ''v2''))\<^sup>*\<^sup>* (installed ''v1'') s \<and> s Target = None \<and>
    recover [] s = (r, fs, s') \<and> s' Target \<noteq> None"
proof -
  let ?good = "\<lambda>b :: bytes. b = ''v1'' \<or> b = ''v2''"
  obtain r fs1 s1 where c: "commit_artifact ''v2'' ''{}'' [Works, Works, Works, Dies] (installed ''v1'') = (r, fs1, s1)"
    by (metis prod.exhaust)
  have s1: "s1 = (\<lambda>_. None)(Backup := Some ''v1'', Candidate := Some ''v2'', Journal := Some ''{}'')"
    using c by (auto simp: installed_def commit_artifact_def commit_def prog_eval)
  have rc: "recover [Fails, Dies] s1 = (Died, [], s1)"
    unfolding s1 by (simp add: prog_eval)
  obtain y fs3 s3 where rc2: "recover [] s1 = (y, fs3, s3)" by (metis prod.exhaust)
  have "update_step ?good (installed ''v1'') s1" by (rule committing [OF _ c]) simp
  then have one: "(update_step ?good)\<^sup>*\<^sup>* (installed ''v1'') s1" by (rule r_into_rtranclp [of "update_step ?good"])
  have "update_step ?good s1 s1" by (rule recovering [OF rc])
  with one have steps: "(update_step ?good)\<^sup>*\<^sup>* (installed ''v1'') s1" by (rule rtranclp.rtrancl_into_rtrancl [of "update_step ?good"])
  have none: "s1 Target = None" unfolding s1 by simp
  have "repairable ?good (installed ''v1'')" by (rule clean_repairable [of _ "''v1''"]) (simp_all add: installed_def)
  from crash_safe [OF this steps rc2] have "s3 Target \<noteq> None" by auto
  with steps none rc2 show ?thesis by (intro exI conjI)
qed

end
