(* ===== verification/Update.thy ===== *)
theory Update
  imports Source Digest HighWater Replace
begin

text \<open>
  \<open>pkg/supply/update.go\<close> with the routing of \<open>source.go\<close> and the download of \<open>replace.go\<close>: the ordered
  signed sequence that ends in the replacement of the binary. The network, the clock, the package
  managers, the reflective JSON decoder, SHA-256 and the URL parser are fields of the updater; the
  anti-rollback mark is any store that keeps the contract \<open>high_water\<close>.
\<close>

section \<open>The updater\<close>

record updater =
  up_fetch :: fetcher
  up_artifacts :: fetcher
  up_verify :: verify_fun
  up_now :: "nat \<Rightarrow> time"
  up_binary :: version
  up_binary_version :: bytes
  up_lookup_env :: "(bytes \<Rightarrow> bytes option) option"
  up_target :: bytes
  up_source :: install_source
  up_goos :: bytes
  up_goarch :: bytes
  up_runner :: "bytes list \<Rightarrow> bool"
  up_allow_downgrade :: bool
  up_dec_revocations :: "bytes \<Rightarrow> update_revocations option"
  up_dec_manifest :: "bytes \<Rightarrow> update_manifest option"
  up_sha256 :: "bytes \<Rightarrow> bytes"
  up_parse_url :: "bytes \<Rightarrow> (bytes \<times> bytes) option"
  up_journal :: "bytes \<Rightarrow> u64 \<Rightarrow> bytes"

datatype update_status = UpdateInstalled | UpdateUpToDate | UpdateChecked | UpdateDelegated | UpdateManual

record update_result =
  res_status :: update_status
  res_version :: bytes
  res_serial :: u64
  res_command :: "bytes list"
  res_message :: bytes

text \<open>What a run changes: the install beside the target, the mark, and what is printed.\<close>

record 'm world =
  wd_install :: install
  wd_fates :: "fate list"
  wd_mark :: 'm
  wd_out :: "bytes list"

text \<open>\<open>None\<close> is a process that died.\<close>

type_synonym ('a, 'm) ended = "'a outcome option \<times> 'm world"

section \<open>Steps 1 to 7: the documents\<close>

definition update_channel :: bytes where "update_channel = ''stable''"

datatype plan = UpToDate update_manifest | Available update_manifest

definition examine :: "updater \<Rightarrow> int \<Rightarrow> plan outcome" where
  "examine u mark =
     ok_or (fetch_revocations (up_fetch u) (up_dec_revocations u) (up_verify u) (up_now u 0)) (\<lambda>(revocations, store).
     ok_or (fetch_manifest (up_fetch u) (up_dec_manifest u) (up_verify u) (up_now u 1)) (\<lambda>m.
     require (ur_channel revocations = update_channel) ErrUpdateChannel (
     require (um_channel m = update_channel) ErrUpdateChannel (
     ok_or (check_revoked store (um_serial m) (um_version m)) (\<lambda>_.
     require (um_serial m \<notin> set (um_revoked_serials m)) ErrRevokedSerial (
     require (um_version m \<notin> set (um_revoked_versions m)) ErrRevokedVersion (
     if sint (um_serial m) < mark then Inl (ErrReplay mark (sint (um_serial m)))
     else if sint (um_serial m) = mark then Inr (UpToDate m)
     else
       ok_or (check_update_version (um_version m) (up_binary u) (up_allow_downgrade u) (up_lookup_env u)) (\<lambda>_.
       require (um_os m = up_goos u \<and> um_arch m = up_goarch u) ErrPlatformMismatch (Inr (Available m))))))))))"

section \<open>Step 8: the artifact\<close>

definition check_artifact_url :: "(bytes \<Rightarrow> (bytes \<times> bytes) option) \<Rightarrow> bytes \<Rightarrow> unit outcome" where
  "check_artifact_url parse raw =
     (case parse (trim_space raw) of
        None \<Rightarrow> Inl ErrMalformedDoc
      | Some (scheme, host) \<Rightarrow> if scheme \<noteq> ''https'' \<or> host = [] then Inl ErrMalformedDoc else Inr ())"

definition download_artifact :: "updater \<Rightarrow> update_manifest \<Rightarrow> bytes outcome" where
  "download_artifact u m =
     ok_or (check_artifact_url (up_parse_url u) (um_url m)) (\<lambda>_.
     ok_or (up_artifacts u (um_url m)) (\<lambda>artifact.
     require (length artifact \<le> max_artifact_bytes) ErrDocTooLarge (
     ok_or (check_bundle_digest (up_sha256 u) (um_sha256 m) artifact) (\<lambda>_. Inr artifact))))"

section \<open>The sequence\<close>

fun replace_failure :: "replace_error \<Rightarrow> supply_error" where
  "replace_failure RecoveryStuck = ErrRecoveryStuck"
| "replace_failure NotExist = ErrIo"
| "replace_failure Refused = ErrIo"

text \<open>A file-system program on the install of the target: \<open>newLayout\<close> first.\<close>

definition on_install :: "bytes \<Rightarrow> 'a prog \<Rightarrow> 'm world \<Rightarrow> ('a, 'm) ended" where
  "on_install target p w =
     (case new_layout target of
        Inl e \<Rightarrow> (Some (Inl e), w)
      | Inr _ \<Rightarrow>
          (case p (wd_fates w) (wd_install w) of (r, fs, s) \<Rightarrow>
             (case r of Finished a \<Rightarrow> Some (Inr a) | Errored e \<Rightarrow> Some (Inl (replace_failure e)) | Died \<Rightarrow> None,
              w\<lparr>wd_install := s, wd_fates := fs\<rparr>)))"

definition and_on :: "('a, 'm) ended \<Rightarrow> ('a \<Rightarrow> 'm world \<Rightarrow> ('b, 'm) ended) \<Rightarrow> ('b, 'm) ended" where
  "and_on x k =
     (case x of
        (None, w) \<Rightarrow> (None, w)
      | (Some (Inl e), w) \<Rightarrow> (Some (Inl e), w)
      | (Some (Inr a), w) \<Rightarrow> k a w)"

definition lift_outcome :: "'a outcome \<Rightarrow> 'm world \<Rightarrow> ('a, 'm) ended" where
  "lift_outcome r w = (Some r, w)"

definition available_message :: "updater \<Rightarrow> update_manifest \<Rightarrow> bytes" where
  "available_message u m =
     ''tokenhush v'' @ up_binary_version u @ '' -> v'' @ um_version m @ '' (serial '' @ format_uint (um_serial m) @
     '') is available on the '' @ update_channel @ '' channel''"

definition result_of :: "update_status \<Rightarrow> update_manifest \<Rightarrow> bytes \<Rightarrow> update_result" where
  "result_of status m message =
     \<lparr>res_status = status, res_version = um_version m, res_serial = um_serial m, res_command = [], res_message = message\<rparr>"

definition advance_mark :: "('env \<Rightarrow> int \<Rightarrow> 'm \<Rightarrow> unit outcome \<times> 'm) \<Rightarrow> 'env \<Rightarrow> int \<Rightarrow> 'm world \<Rightarrow> (unit, 'm) ended" where
  "advance_mark advance env serial w =
     (case advance env serial (wd_mark w) of (r, m) \<Rightarrow> (Some r, w\<lparr>wd_mark := m\<rparr>))"

definition self_update ::
    "('m \<Rightarrow> int) \<Rightarrow> ('env \<Rightarrow> int \<Rightarrow> 'm \<Rightarrow> unit outcome \<times> 'm) \<Rightarrow> 'env \<Rightarrow> updater \<Rightarrow> bool \<Rightarrow> 'm world \<Rightarrow> (update_result, 'm) ended" where
  "self_update current advance env u check w =
     and_on (if check then (Some (Inr RecoveryNone), w) else on_install (up_target u) recover w) (\<lambda>_ w.
     and_on (lift_outcome (examine u (current (wd_mark w))) w) (\<lambda>plan w.
     case plan of
       UpToDate m \<Rightarrow>
         lift_outcome (Inr (result_of UpdateUpToDate m
           (''tokenhush v'' @ up_binary_version u @ '' is up to date on the '' @ update_channel @ '' channel (serial '' @
            format_uint (um_serial m) @ '').''))) w
     | Available m \<Rightarrow>
         if check then
           lift_outcome (Inr (result_of UpdateChecked m
             (available_message u m @ ''. --check made no changes: nothing was installed, downloaded or written.''))) w
         else
           and_on (lift_outcome (download_artifact u m) w) (\<lambda>artifact w.
           and_on (on_install (up_target u) (commit_artifact artifact (up_journal u (um_version m) (um_serial m))) w) (\<lambda>_ w.
           and_on (advance_mark advance env (sint (um_serial m)) w) (\<lambda>_ w.
           lift_outcome (Inr (result_of UpdateInstalled m
             (available_message u m @ ''; installed to '' @ up_target u @ ''.''))) w)))))"

section \<open>Routing\<close>

definition brew_upgrade_argv :: "bytes list" where
  "brew_upgrade_argv = [''brew'', ''upgrade'', ''--cask'', ''tokenhush'']"

definition scoop_update_argv :: "bytes list" where
  "scoop_update_argv = [''scoop'', ''update'', ''tokenhush'']"

fun source_name :: "install_source \<Rightarrow> bytes" where
  "source_name SourceHomebrew = ''homebrew''"
| "source_name SourceScoop = ''scoop''"
| "source_name SourceSelfManaged = ''self-managed''"
| "source_name SourceUnknown = ''unknown''"

definition manual_upgrade_guidance :: bytes where
  "manual_upgrade_guidance =
     ''could not determine how tokenhush was installed; self-update is disabled for an unrecognised install. '' @
     ''Upgrade manually: macOS `brew upgrade --cask tokenhush`, Windows `scoop update tokenhush`, '' @
     ''or re-run the install script from the release page.''"

definition delegate :: "updater \<Rightarrow> bool \<Rightarrow> bytes list \<Rightarrow> update_result outcome" where
  "delegate u check argv =
     (let command = join_with '' '' argv;
          result = (\<lambda>status message. \<lparr>res_status = status, res_version = [], res_serial = 0, res_command = argv, res_message = message\<rparr>)
      in if check then
           Inr (result UpdateChecked (''install source: '' @ source_name (up_source u) @ ''; would run `'' @ command @
             ''`. --check made no changes: nothing was installed, downloaded or written.''))
         else if \<not> up_runner u argv then Inl ErrDelegateFailed
         else
           Inr (result UpdateDelegated (''install source: '' @ source_name (up_source u) @ ''; delegated the upgrade to `'' @ command @
             ''`, which owns this binary and performed the replacement. tokenhush did not self-replace.'')))"

definition route ::
    "('m \<Rightarrow> int) \<Rightarrow> ('env \<Rightarrow> int \<Rightarrow> 'm \<Rightarrow> unit outcome \<times> 'm) \<Rightarrow> 'env \<Rightarrow> updater \<Rightarrow> bool \<Rightarrow> 'm world \<Rightarrow> (update_result, 'm) ended" where
  "route current advance env u check w =
     (case up_source u of
        SourceHomebrew \<Rightarrow> lift_outcome (delegate u check brew_upgrade_argv) w
      | SourceScoop \<Rightarrow> lift_outcome (delegate u check scoop_update_argv) w
      | SourceSelfManaged \<Rightarrow> self_update current advance env u check w
      | SourceUnknown \<Rightarrow>
          lift_outcome (Inr \<lparr>res_status = UpdateManual, res_version = [], res_serial = 0, res_command = [],
            res_message = manual_upgrade_guidance\<rparr>) w)"

definition update ::
    "('m \<Rightarrow> int) \<Rightarrow> ('env \<Rightarrow> int \<Rightarrow> 'm \<Rightarrow> unit outcome \<times> 'm) \<Rightarrow> 'env \<Rightarrow> updater \<Rightarrow> bool \<Rightarrow> 'm world \<Rightarrow> (update_result, 'm) ended" where
  "update current advance env u check w =
     and_on (route current advance env u check w) (\<lambda>result w.
       lift_outcome (Inr result) (if res_message result \<noteq> [] then w\<lparr>wd_out := wd_out w @ [res_message result]\<rparr> else w))"

lemma and_on_simps [simp]:
  "and_on (None, w) k = (None, w)"
  "and_on (Some (Inl e), w) k = (Some (Inl e), w)"
  "and_on (Some (Inr a), w) k = k a w"
  "and_on (lift_outcome (Inr a) w) k = k a w"
  "and_on (lift_outcome (Inl e) w) k = (Some (Inl e), w)"
  by (simp_all add: and_on_def lift_outcome_def)

section \<open>What passes the checks\<close>

text \<open>The abstract promise: what a manifest and an artifact must be for the sequence to install it.\<close>

definition fresh_at :: "time \<Rightarrow> time \<Rightarrow> time \<Rightarrow> bool" where
  "fresh_at not_before expires now \<longleftrightarrow> not_before \<le> now \<and> now \<le> expires"

definition revocation_clears ::
    "(bytes \<Rightarrow> bytes \<Rightarrow> bytes \<Rightarrow> bool) \<Rightarrow> (bytes \<Rightarrow> bytes option) \<Rightarrow> updater \<Rightarrow> update_manifest \<Rightarrow> update_revocations \<Rightarrow> bool" where
  "revocation_clears ed keys u m doc \<longleftrightarrow>
     verifier.signed ed keys (ur_key_id doc) (ur_signature doc) (update_revocations_signing_input doc) \<and>
     fresh_at (ur_not_before doc) (ur_expires doc) (up_now u 0) \<and> ur_channel doc = update_channel \<and>
     um_serial m \<notin> set (ur_revoked_serials doc) \<and> um_version m \<notin> set (ur_revoked_versions doc)"

definition authentic ::
    "(bytes \<Rightarrow> bytes \<Rightarrow> bytes \<Rightarrow> bool) \<Rightarrow> (bytes \<Rightarrow> bytes option) \<Rightarrow> updater \<Rightarrow> int \<Rightarrow> update_manifest \<Rightarrow> bytes \<Rightarrow> bool" where
  "authentic ed keys u mark m artifact \<longleftrightarrow>
     verifier.signed ed keys (um_key_id m) (um_signature m) (update_manifest_signing_input m) \<and>
     fresh_at (um_not_before m) (um_expires m) (up_now u 1) \<and> um_channel m = update_channel \<and>
     (\<exists>doc. revocation_clears ed keys u m doc) \<and>
     um_serial m \<notin> set (um_revoked_serials m) \<and> um_version m \<notin> set (um_revoked_versions m) \<and>
     mark < sint (um_serial m) \<and>
     (\<exists>v. parse_version (um_version m) = Inr v \<and>
        (up_binary u \<le> v \<or> up_allow_downgrade u \<and> allow_downgrade_enabled (up_lookup_env u))) \<and>
     um_os m = up_goos u \<and> um_arch m = up_goarch u \<and>
     length artifact \<le> max_artifact_bytes \<and> hex_decode (trim_space (um_sha256 m)) = Some (up_sha256 u artifact)"

lemma check_freshness_iff: "check_freshness nb ex now = Inr v \<longleftrightarrow> fresh_at nb ex now"
  by (auto simp: check_freshness_def fresh_at_def)

lemma parse_version_not_Nil: "parse_version [] = Inl ErrBadVersion"
  by code_simp

context verifier
begin

lemma fetched_revocations:
  assumes "fetch_revocations fetch dec verify now = Inr (doc, store)"
  shows "signed (ur_key_id doc) (ur_signature doc) (update_revocations_signing_input doc) \<and>
    fresh_at (ur_not_before doc) (ur_expires doc) now \<and> holds store doc"
proof -
  from assms obtain raw d where raw: "fetch update_revocations_url = Inr raw" "decode_update_revocations dec raw = Inr d"
    and rest: "(case apply_update (Some verify) d new_revocation_store of
       (Inl e, _) \<Rightarrow> Inl e
     | (Inr _, store) \<Rightarrow>
         ok_or (check_freshness (ur_not_before d) (ur_expires d) now) (\<lambda>_. Inr (d, store))) = Inr (doc, store)"
    unfolding fetch_revocations_def ok_or_Inr_iff by blast
  obtain r st where app: "apply_update (Some verify) d new_revocation_store = (r, st)" by fastforce
  have a: "apply_update (Some verify) doc new_revocation_store = (Inr (), store)"
    and f: "fresh_at (ur_not_before doc) (ur_expires doc) now"
    using rest app by (cases r; auto simp: ok_or_Inr_iff check_freshness_iff)+
  have v: "verifies (Some verify) doc" using a by (auto simp: apply_update_def verifies_def split: sum.splits)
  then have "signed (ur_key_id doc) (ur_signature doc) (update_revocations_signing_input doc)"
    unfolding verifies_def by (rule frozen_signed)
  moreover have "store = \<lparr>rv_serial = ur_serial doc, rv_serials = sorted_serials (ur_revoked_serials doc),
      rv_versions = sorted_versions (ur_revoked_versions doc)\<rparr>"
    using a v by (simp add: verifies_def apply_update_def apply_revocations_def new_revocation_store_def split: if_splits)
  ultimately show ?thesis using f installed_holds [of doc] by simp
qed

lemma fetched_manifest:
  assumes "fetch_manifest fetch dec verify now = Inr m"
  shows "signed (um_key_id m) (um_signature m) (update_manifest_signing_input m) \<and>
    fresh_at (um_not_before m) (um_expires m) now"
  using assms frozen_signed
  by (auto simp: fetch_manifest_def verify_update_manifest_def ok_or_Inr_iff check_freshness_iff)

lemma examine_authentic:
  assumes "up_verify u = verify" "examine u mark = Inr (Available m)" "download_artifact u m = Inr artifact"
  shows "authentic ed keys u mark m artifact"
proof -
  from assms(1,2) obtain doc store where
    docs: "fetch_revocations (up_fetch u) (up_dec_revocations u) verify (up_now u 0) = Inr (doc, store)"
      "fetch_manifest (up_fetch u) (up_dec_manifest u) verify (up_now u 1) = Inr m"
    and chan: "ur_channel doc = update_channel" "um_channel m = update_channel"
    and rev: "check_revoked store (um_serial m) (um_version m) = Inr ()"
    and own: "um_serial m \<notin> set (um_revoked_serials m)" "um_version m \<notin> set (um_revoked_versions m)"
    and mark: "mark < sint (um_serial m)"
    and ver: "check_update_version (um_version m) (up_binary u) (up_allow_downgrade u) (up_lookup_env u) = Inr ()"
    and plat: "um_os m = up_goos u" "um_arch m = up_goarch u"
    by (auto simp: examine_def ok_or_Inr_iff require_Inr_iff split: if_splits)
  note r = fetched_revocations [OF docs(1)]
  have "um_version m \<noteq> []" using ver by (auto simp: check_update_version_iff parse_version_not_Nil)
  then have "um_serial m \<notin> set (ur_revoked_serials doc)" "um_version m \<notin> set (ur_revoked_versions doc)"
    using rev r by (auto simp: check_revoked_def holds_def split: if_splits)
  with r chan have "revocation_clears ed keys u m doc" by (simp add: revocation_clears_def)
  moreover have "length artifact \<le> max_artifact_bytes" "hex_decode (trim_space (um_sha256 m)) = Some (up_sha256 u artifact)"
    using assms(3) by (auto simp: download_artifact_def ok_or_Inr_iff require_Inr_iff check_bundle_digest_iff)
  ultimately show ?thesis
    using fetched_manifest [OF docs(2)] chan own mark ver plat
    by (auto simp: authentic_def check_update_version_iff)
qed

end

section \<open>What a run may change\<close>

lemma on_install_cases:
  assumes "on_install target p w = (r, w')"
  obtains e where "r = Some (Inl e)" "w' = w"
  | q fs s where "p (wd_fates w) (wd_install w) = (q, fs, s)" "w' = w\<lparr>wd_install := s, wd_fates := fs\<rparr>"
      "r = (case q of Finished a \<Rightarrow> Some (Inr a) | Errored e \<Rightarrow> Some (Inl (replace_failure e)) | Died \<Rightarrow> None)"
proof (cases "new_layout target")
  case (Inl e)
  with assms show ?thesis by (intro that(1) [of e]) (simp_all add: on_install_def)
next
  case (Inr l)
  obtain q fs s where "p (wd_fates w) (wd_install w) = (q, fs, s)" by (metis prod.exhaust)
  with assms Inr that(2) show ?thesis by (simp add: on_install_def)
qed

lemma on_install_keeps:
  assumes "keeps (repairable good) P p Q" "repairable good (wd_install w)" "P (wd_install w)" "on_install target p w = (r, w')"
  shows "repairable good (wd_install w') \<and> wd_mark w' = wd_mark w \<and>
    (\<forall>a. r = Some (Inr a) \<longrightarrow> Q a (wd_install w'))"
  using assms(4)
proof (cases rule: on_install_cases)
  case (2 q fs s)
  from keepsD [OF assms(1-3) 2(1)] 2(2,3) show ?thesis by (cases q) auto
qed (use assms(2) in auto)

lemma and_on_cases:
  assumes "and_on x k = (r, w')"
  obtains "x = (None, w')" "r = None" | e where "x = (Some (Inl e), w')" "r = Some (Inl e)"
  | a w1 where "x = (Some (Inr a), w1)" "k a w1 = (r, w')"
  using assms by (auto simp: and_on_def split: prod.splits option.splits sum.splits)

definition was_installed :: "update_result outcome option \<Rightarrow> bool" where
  "was_installed r \<longleftrightarrow> (case r of Some (Inr res) \<Rightarrow> res_status res = UpdateInstalled | _ \<Rightarrow> False)"

lemma was_installed_simps [simp]:
  "\<not> was_installed None" "\<not> was_installed (Some (Inl e))"
  "was_installed (Some (Inr res)) \<longleftrightarrow> res_status res = UpdateInstalled"
  by (simp_all add: was_installed_def)

lemma result_of_sel [simp]:
  "res_status (result_of st m msg) = st" "res_serial (result_of st m msg) = um_serial m"
  by (simp_all add: result_of_def)

context high_water
begin

text \<open>What a run makes of the install and of the mark.\<close>

definition step_ok :: "(bytes \<Rightarrow> bool) \<Rightarrow> updater \<Rightarrow> 's world \<Rightarrow> update_result outcome option \<Rightarrow> 's world \<Rightarrow> bool" where
  "step_ok good u w r w' \<longleftrightarrow>
     repairable good (wd_install w') \<and>
     (\<not> was_installed r \<longrightarrow> current (wd_mark w') = current (wd_mark w)) \<and>
     (was_installed r \<longrightarrow> (\<exists>m a. examine u (current (wd_mark w)) = Inr (Available m) \<and> download_artifact u m = Inr a \<and>
        wd_install w' Target = Some a \<and> current (wd_mark w') = sint (um_serial m)))"

lemma step_ok_unchanged: "repairable good (wd_install w') \<Longrightarrow> wd_mark w' = wd_mark w \<Longrightarrow> \<not> was_installed r \<Longrightarrow> step_ok good u w r w'"
  by (simp add: step_ok_def)

lemma install_step_ok:
  assumes "on_install (up_target u) (commit_artifact a doc) w = (Some (Inr ()), w1)"
    "and_on (advance_mark advance env (sint (um_serial m)) w1)
       (\<lambda>_ w. lift_outcome (Inr (result_of UpdateInstalled m msg)) w) = (r, w')"
    "repairable good (wd_install w)" "good a"
    "examine u (current (wd_mark w)) = Inr (Available m)" "download_artifact u m = Inr a"
  shows "step_ok good u w r w'"
proof -
  from on_install_keeps [OF commit_artifact_keeps [of good a "wd_install w Target" "wd_install w Backup" doc, OF assms(4)] assms(3) _ assms(1)]
  have c: "repairable good (wd_install w1)" "wd_mark w1 = wd_mark w" "wd_install w1 Target = Some a" by auto
  obtain r1 m1 where adv: "advance env (sint (um_serial m)) (wd_mark w1) = (r1, m1)" by fastforce
  show ?thesis
  proof (cases r1)
    case (Inl e)
    with adv assms(2) have "r = Some (Inl e)" "w' = w1\<lparr>wd_mark := m1\<rparr>" by (simp_all add: advance_mark_def)
    with failed [OF adv [unfolded Inl]] c show ?thesis by (simp add: step_ok_def)
  next
    case (Inr x)
    with adv assms(2) have "was_installed r" "w' = w1\<lparr>wd_mark := m1\<rparr>"
      by (auto simp: advance_mark_def lift_outcome_def)
    with accepted_not_lower [of env "sint (um_serial m)" "wd_mark w1" m1] adv Inr c assms(5,6) show ?thesis
      by (simp add: step_ok_def)
  qed
qed

lemma self_update_step_ok:
  assumes "self_update current advance env u check w = (r, w')" "repairable good (wd_install w)"
    and good: "\<And>m a. examine u (current (wd_mark w)) = Inr (Available m) \<Longrightarrow> download_artifact u m = Inr a \<Longrightarrow> good a"
  shows "step_ok good u w r w'"
  using assms(1) unfolding self_update_def
proof (cases rule: and_on_cases)
  case 1
  with on_install_keeps [OF recover_keeps assms(2), of "up_target u" None w'] show ?thesis
    by (intro step_ok_unchanged) (auto split: if_splits)
next
  case (2 e)
  with on_install_keeps [OF recover_keeps assms(2), of "up_target u" "Some (Inl e)" w'] show ?thesis
    by (intro step_ok_unchanged) (auto split: if_splits)
next
  case (3 x w1)
  have w1: "repairable good (wd_install w1)" "wd_mark w1 = wd_mark w"
    using on_install_keeps [OF recover_keeps assms(2), of "up_target u" "Some (Inr x)" w1] 3(1) assms(2)
    by (auto split: if_splits)
  have conv: "step_ok good u w1 r w' \<Longrightarrow> ?thesis" by (simp add: step_ok_def w1(2))
  show ?thesis
  proof (cases "examine u (current (wd_mark w1))")
    case (Inl e)
    with 3(2) w1 show ?thesis by (intro step_ok_unchanged) auto
  next
    case plan: (Inr plan)
    show ?thesis
    proof (cases plan)
      case (UpToDate m)
      with 3(2) plan w1 show ?thesis by (intro step_ok_unchanged) (auto simp: lift_outcome_def)
    next
      case (Available m)
      note ex = plan [unfolded Available]
      show ?thesis
      proof (cases check)
        case True
        with 3(2) ex w1 show ?thesis by (intro step_ok_unchanged) (auto simp: lift_outcome_def)
      next
        case False
        show ?thesis
        proof (cases "download_artifact u m")
          case (Inl e)
          with 3(2) ex False w1 show ?thesis by (intro step_ok_unchanged) auto
        next
          case dl: (Inr a)
          have ga: "good a" using good [of m a] ex dl by (simp add: w1(2))
          from 3(2) ex False dl have run:
            "and_on (on_install (up_target u) (commit_artifact a (up_journal u (um_version m) (um_serial m))) w1) (\<lambda>_ w.
             and_on (advance_mark advance env (sint (um_serial m)) w) (\<lambda>_ w.
             lift_outcome (Inr (result_of UpdateInstalled m
               (available_message u m @ ''; installed to '' @ up_target u @ ''.''))) w)) = (r, w')"
            by simp
          note keep = commit_artifact_keeps [of good a "wd_install w1 Target" "wd_install w1 Backup" "up_journal u (um_version m) (um_serial m)", OF ga]
          from run show ?thesis
          proof (cases rule: and_on_cases)
            case 1
            with on_install_keeps [OF keep w1(1) _ 1(1)] w1(2) show ?thesis by (intro step_ok_unchanged) auto
          next
            case (2 e)
            with on_install_keeps [OF keep w1(1) _ 2(1)] w1(2) show ?thesis by (intro step_ok_unchanged) auto
          next
            case 3: (3 x w2)
            show ?thesis by (rule conv, rule install_step_ok [OF _ 3(2) w1(1) ga ex dl]) (use 3(1) in simp)
          qed
        qed
      qed
    qed
  qed
qed

lemma update_step_ok:
  assumes "update current advance env u check w = (r, w')" "repairable good (wd_install w)"
    and good: "\<And>m a. examine u (current (wd_mark w)) = Inr (Available m) \<Longrightarrow> download_artifact u m = Inr a \<Longrightarrow> good a"
  shows "step_ok good u w r w'"
proof -
  obtain r1 w1 where rt: "route current advance env u check w = (r1, w1)" by fastforce
  have s: "step_ok good u w r1 w1"
  proof (cases "up_source u = SourceSelfManaged")
    case True
    with rt self_update_step_ok [OF _ assms(2) good] show ?thesis by (simp add: route_def)
  next
    case False
    have nd: "\<not> was_installed (Some (delegate u check argv))" for argv by (auto simp: was_installed_def delegate_def Let_def)
    show ?thesis
      using False rt assms(2) nd
      by (cases "up_source u") (auto simp: route_def lift_outcome_def intro!: step_ok_unchanged)
  qed
  have "r = r1 \<and> wd_install w' = wd_install w1 \<and> wd_mark w' = wd_mark w1"
    using assms(1) rt unfolding update_def
    by (cases rule: and_on_cases) (auto simp: lift_outcome_def split: if_splits)
  with s show ?thesis by (simp add: step_ok_def)
qed

end


text \<open>
  A check, and an install the updater does not own, change nothing on disk: with \<open>--check\<close>, or
  when the binary belongs to a package manager or to nobody known, the install, its file operations
  and the mark are untouched, and nothing is reported as installed.
\<close>

theorem update_check_is_pure:
  assumes "check \<or> up_source u \<noteq> SourceSelfManaged"
    and "update current advance env u check w = (r, w')"
  shows "r \<noteq> None \<and> wd_install w' = wd_install w \<and> wd_fates w' = wd_fates w \<and> wd_mark w' = wd_mark w \<and> \<not> was_installed r"
proof -
  have nd: "\<not> was_installed (Some (delegate u check argv))" for argv by (auto simp: was_installed_def delegate_def Let_def)
  have self: "\<exists>r. self_update current advance env u True w = (Some r, w) \<and> \<not> was_installed (Some r)"
  proof (cases "examine u (current (wd_mark w))")
    case (Inr plan)
    then show ?thesis by (cases plan) (simp_all add: self_update_def lift_outcome_def)
  qed (simp add: self_update_def)
  have "\<exists>r1. route current advance env u check w = (Some r1, w) \<and> \<not> was_installed (Some r1)"
    using assms(1) self nd by (cases "up_source u") (auto simp: route_def lift_outcome_def)
  then obtain r1 where "route current advance env u check w = (Some r1, w)" "\<not> was_installed (Some r1)" by blast
  with assms(2) show ?thesis unfolding update_def by (cases r1) (auto simp: lift_outcome_def)
qed

section \<open>A sample run\<close>

definition release_manifest :: update_manifest where
  "release_manifest = sample_manifest [] sample_signature\<lparr>um_key_id := key_root_update\<rparr>"

definition sample_updater :: updater where
  "sample_updater =
     \<lparr>up_fetch = \<lambda>_. Inr ''{}'', up_artifacts = \<lambda>_. Inr ''v2'', up_verify = static_verify (\<lambda>_ _ _. True), up_now = \<lambda>_. 1,
      up_binary = Version 0 5 0, up_binary_version = ''0.5.0'', up_lookup_env = None, up_target = ''/b/t'',
      up_source = SourceSelfManaged, up_goos = ''linux'', up_goarch = ''amd64'', up_runner = \<lambda>_. True,
      up_allow_downgrade = False, up_dec_revocations = \<lambda>_. Some (sample_revocations 1 [5] sample_signature),
      up_dec_manifest = \<lambda>_. Some release_manifest, up_sha256 = \<lambda>_. [CHR 0x00],
      up_parse_url = \<lambda>_. Some (''https'', ''h''), up_journal = \<lambda>_ _. ''{}''\<rparr>"

definition sample_world :: "file_high_water world" where
  "sample_world =
     \<lparr>wd_install = installed ''v1'', wd_fates = [], wd_mark = \<lparr>hw_file = None, hw_serial = 3\<rparr>, wd_out = []\<rparr>"

lemma sample_examine: "examine sample_updater 3 = Inr (Available release_manifest)"
proof -
  have rev: "fetch_revocations (up_fetch sample_updater) (up_dec_revocations sample_updater) (up_verify sample_updater) (up_now sample_updater 0) =
      Inr (sample_revocations 1 [5] sample_signature, \<lparr>rv_serial = 1, rv_serials = [5], rv_versions = []\<rparr>)"
    using sample_revocations_verifies [of 1 "[5]"]
    by (simp add: fetch_revocations_def sample_updater_def decode_update_revocations_def decode_frozen_doc_def check_doc_size_def
        doc_limit_def max_update_doc_bytes_def max_rules_doc_bytes_def apply_update_def verifies_def apply_revocations_def
        new_revocation_store_def check_freshness_def)
      (simp add: sample_revocations_def sorted_serials_def sorted_versions_def)
  have man: "fetch_manifest (up_fetch sample_updater) (up_dec_manifest sample_updater) (up_verify sample_updater) (up_now sample_updater 1) =
      Inr release_manifest"
    by (simp add: fetch_manifest_def sample_updater_def decode_update_manifest_def decode_frozen_doc_def check_doc_size_def
        doc_limit_def max_update_doc_bytes_def max_rules_doc_bytes_def verify_update_manifest_def release_manifest_def
        sample_verify domain_update_manifest_def sample_manifest_def check_freshness_def)
  have "check_revoked \<lparr>rv_serial = 1, rv_serials = [5], rv_versions = []\<rparr> 7 ''0.6.0'' = Inr ()"
    by (simp add: check_revoked_def is_serial_revoked_def is_version_revoked_def binary_search_mem)
  moreover have "check_update_version ''0.6.0'' (Version 0 5 0) False None = Inr ()" by code_simp
  ultimately show ?thesis
    unfolding examine_def rev man
    by (simp add: release_manifest_def sample_manifest_def require_def update_channel_def sample_updater_def)
      (simp add: sample_revocations_def)
qed

lemma sample_download: "download_artifact sample_updater release_manifest = Inr ''v2''"
proof -
  have "hex_decode (trim_space ''00'') = Some [CHR 0x00]" by code_simp
  then show ?thesis
    by (simp add: download_artifact_def check_artifact_url_def check_bundle_digest_def require_def max_artifact_bytes_def
        sample_updater_def release_manifest_def sample_manifest_def)
qed

lemma sample_run:
  "was_installed (fst (update hw_serial file_advance (\<lambda>_. False) sample_updater False sample_world))"
proof -
  have lay: "\<exists>l. new_layout (up_target sample_updater) = Inr l"
  proof -
    have "trim_space ''/b/t'' = ''/b/t''" by code_simp
    then show ?thesis by (simp add: new_layout_def is_abs_def sample_updater_def)
  qed
  have rec: "on_install (up_target sample_updater) recover sample_world = (Some (Inr RecoveryNone), sample_world)"
    using lay recover_idle [of "wd_install sample_world" "wd_fates sample_world"]
    by (auto simp: on_install_def sample_world_def installed_def)
  obtain r1 w1 where com: "on_install (up_target sample_updater) (commit_artifact ''v2'' ''{}'') sample_world = (r1, w1)" by fastforce
  with lay have "r1 = Some (Inr ())" "wd_mark w1 = wd_mark sample_world"
    by (auto simp: on_install_def sample_world_def installed_def commit_artifact_def commit_def prog_eval)
  note com = com [unfolded this(1)] and mark = this(2)
  obtain w2 where adv: "advance_mark file_advance (\<lambda>_. False) 7 w1 = (Some (Inr ()), w2)"
    by (simp add: advance_mark_def mark sample_world_def file_advance_def persist_high_water_def persist_file_def write_temp_def)
  have ex: "examine sample_updater (hw_serial (wd_mark sample_world)) = Inr (Available release_manifest)"
    using sample_examine by (simp add: sample_world_def)
  have s: "sint (um_serial release_manifest) = 7" "up_journal sample_updater = (\<lambda>_ _. ''{}'')"
    "up_source sample_updater = SourceSelfManaged"
    by (simp_all add: release_manifest_def sample_manifest_def sample_updater_def)
  have "\<exists>w msg. self_update hw_serial file_advance (\<lambda>_. False) sample_updater False sample_world =
      (Some (Inr (result_of UpdateInstalled release_manifest msg)), w)"
    by (simp add: self_update_def rec ex sample_download s com adv) (simp add: lift_outcome_def, rule exI, rule refl)
  then show ?thesis by (auto simp: update_def route_def s(3) lift_outcome_def)
qed


lemma update_check_is_pure_witness:
  "\<exists>r w'. update hw_serial file_advance (\<lambda>_. False) sample_updater True sample_world = (r, w') \<and>
     wd_install w' Target = Some ''v1'' \<and> hw_serial (wd_mark w') = 3"
proof -
  obtain r w' where run: "update hw_serial file_advance (\<lambda>_. False) sample_updater True sample_world = (r, w')" by fastforce
  have "True \<or> up_source sample_updater \<noteq> SourceSelfManaged" by simp
  from update_check_is_pure [OF this run] run show ?thesis by (simp add: sample_world_def installed_def)
qed

end
