(* ===== verification/Egress.thy ===== *)
theory Egress
  imports Update Rollback Guard
begin

text \<open>
  What leaves for the vendor: the disclosure \<open>tokenhush privacy\<close> prints (\<open>privacy.go\<close>,
  \<open>egress_generated.go\<close>), the bounded fetcher of \<open>pkg/supply/substrate.go\<close>, and \<open>tokenhush update\<close>
  (\<open>internal/cli/update.go\<close>) around the update sequence. The theorem says on which answers of the
  network the two commands that use it can depend.
\<close>

section \<open>The disclosure\<close>

record egress_category =
  eg_name :: bytes
  eg_switch :: bytes
  eg_host :: bytes
  eg_retention :: bytes

definition retention_text :: bytes where
  "retention_text = ''Vendor access logs and request records are retained for 30 days.''"

definition egress_disclosure :: "egress_category list" where
  "egress_disclosure =
     [\<lparr>eg_name = ''update-check'', eg_switch = ''TOKENHUSH_NO_UPDATE_CHECK'', eg_host = ''updates.tokenhush.com'',
       eg_retention = retention_text\<rparr>,
      \<lparr>eg_name = ''rule-sync'', eg_switch = ''TOKENHUSH_NO_RULE_SYNC'', eg_host = ''updates.tokenhush.com'',
       eg_retention = retention_text\<rparr>]"

definition egress_json :: "egress_category \<Rightarrow> bytes" where
  "egress_json c =
     json_object
       [json_member ''name'' (json_string (eg_name c)), json_member ''switch'' (json_string (eg_switch c)),
        json_member ''host'' (json_string (eg_host c)), json_member ''retention'' (json_string (eg_retention c))]"

definition privacy_lines :: "bool \<Rightarrow> bytes list" where
  "privacy_lines as_json =
     (if as_json then [json_object [json_member ''categories'' (json_array (map egress_json egress_disclosure))]]
      else (''tokenhush egress disclosure: '' @ itoa (length egress_disclosure) @ '' vendor-bound categories (source: egress.yaml)'')
        # map (\<lambda>c. eg_name c @ '': host '' @ eg_host c @ ''; switch '' @ eg_switch c @ ''=1 disables it; retention '' @ eg_retention c)
            egress_disclosure)"

definition egress_disabled :: "(bytes \<Rightarrow> bytes option) \<Rightarrow> bytes \<Rightarrow> bool" where
  "egress_disabled lookup name \<longleftrightarrow> lookup name = Some ''1''"

section \<open>The bounded fetcher\<close>

text \<open>
  What the HTTP client gives for one GET: nothing, or a status, the bytes its body delivers and whether
  reading fails behind them. Timeouts are not told apart from other failures.
\<close>

datatype http_answer = NoAnswer | Answered nat bytes bool

definition bounded_get :: "nat \<Rightarrow> (bytes \<Rightarrow> http_answer) \<Rightarrow> bytes \<Rightarrow> bytes outcome" where
  "bounded_get cap send url =
     (case send url of
        NoAnswer \<Rightarrow> Inl ErrFetch
      | Answered status body fails \<Rightarrow>
          if status \<noteq> 200 then Inl ErrFetch
          else (let got = take (cap + 1) body
                in if fails \<and> length body \<le> cap then Inl ErrFetch
                   else if cap < length got then Inl ErrDocTooLarge
                   else Inr got))"

lemma bounded_get_whole:
  assumes "bounded_get cap send url = Inr b"
  shows "send url = Answered 200 b False \<and> length b \<le> cap"
  using assms by (auto simp: bounded_get_def Let_def split: http_answer.splits if_splits)

section \<open>The update command\<close>

text \<open>
  \<open>NewUpdater\<close> as the command calls it: the seams are those of an \<open>updater\<close>, the target defaults to the
  running executable, the version is the built-in one, and the mark is read from its file.
\<close>

record update_setup =
  us_updater :: updater
  us_executable :: "bytes option"
  us_mark_decode :: "bytes \<Rightarrow> int option"
  us_mark_readable :: bool

definition new_updater :: "update_setup \<Rightarrow> bytes option \<Rightarrow> (updater \<times> file_high_water) outcome" where
  "new_updater setup mark_file =
     (let t = trim_space (up_target (us_updater setup))
      in case (if t \<noteq> [] then Some t else us_executable setup) of
           None \<Rightarrow> Inl ErrBadConfig
         | Some target \<Rightarrow>
             ok_or (new_layout target) (\<lambda>_.
             ok_or (new_file_high_water (us_mark_decode setup) (us_mark_readable setup) mark_file) (\<lambda>mark.
             ok_or (parse_version ''0.5.0'') (\<lambda>v.
               Inr ((us_updater setup)\<lparr>up_target := target, up_binary := v, up_binary_version := ''0.5.0''\<rparr>, mark)))))"

text \<open>\<open>updateWith\<close> after its flags: \<open>None\<close> as a result means that the switch stopped it.\<close>

definition update_command ::
    "(bytes \<Rightarrow> bytes option) \<Rightarrow> bool \<Rightarrow> faults \<Rightarrow> update_setup \<Rightarrow> bool \<Rightarrow> file_high_water world
       \<Rightarrow> (update_result option, file_high_water) ended" where
  "update_command lookup data_dir mark_faults setup check w =
     (if egress_disabled lookup ''TOKENHUSH_NO_UPDATE_CHECK'' then
        lift_outcome (Inr None)
          (w\<lparr>wd_out := wd_out w @ [''update: TOKENHUSH_NO_UPDATE_CHECK=1 is set; no request was sent.'']\<rparr>)
      else if \<not> data_dir then lift_outcome (Inl ErrIo) w
      else
        (case new_updater setup (hw_file (wd_mark w)) of
           Inl e \<Rightarrow> lift_outcome (Inl e) w
         | Inr (u, mark) \<Rightarrow>
             and_on (update hw_serial file_advance mark_faults u check (w\<lparr>wd_mark := mark\<rparr>))
               (\<lambda>r w. lift_outcome (Inr (Some r)) w)))"

section \<open>What the commands depend on\<close>

definition with_network :: "fetcher \<Rightarrow> fetcher \<Rightarrow> update_setup \<Rightarrow> update_setup" where
  "with_network fetch artifacts setup =
     setup\<lparr>us_updater := (us_updater setup)\<lparr>up_fetch := fetch, up_artifacts := artifacts\<rparr>\<rparr>"

lemma frozen_urls: "prefix base_url update_manifest_url" "prefix base_url update_revocations_url"
    "prefix base_url rules_manifest_url" "prefix base_url rules_bundle_url"
  by (simp_all add: update_manifest_url_def update_revocations_url_def rules_manifest_url_def rules_bundle_url_def)

lemma examine_network:
  assumes "\<And>url. prefix base_url url \<Longrightarrow> f url = f' url"
  shows "examine (u\<lparr>up_fetch := f', up_artifacts := a'\<rparr>) = examine (u\<lparr>up_fetch := f, up_artifacts := a\<rparr>)"
proof -
  have "f update_revocations_url = f' update_revocations_url" "f update_manifest_url = f' update_manifest_url"
    using assms frozen_urls by blast+
  then show ?thesis by (intro ext) (simp add: examine_def fetch_revocations_def fetch_manifest_def cong: if_cong)
qed

lemma examine_available: "examine u mark = Inr (Available m) \<Longrightarrow>
  fetch_manifest (up_fetch u) (up_dec_manifest u) (up_verify u) (up_now u 1) = Inr m"
  by (auto simp: examine_def ok_or_Inr_iff require_Inr_iff split: if_splits)

lemma download_network:
  assumes "a (um_url m) = a' (um_url m)"
  shows "download_artifact (u\<lparr>up_fetch := f', up_artifacts := a'\<rparr>) m = download_artifact (u\<lparr>up_fetch := f, up_artifacts := a\<rparr>) m"
  using assms by (simp add: download_artifact_def)

lemma and_on_cong:
  assumes "x = y" "\<And>b v. x = (Some (Inr b), v) \<Longrightarrow> k b v = l b v"
  shows "and_on x k = and_on y l"
proof -
  obtain r v where "x = (r, v)" by fastforce
  with assms show ?thesis by (auto simp: and_on_def split: option.split sum.split)
qed

lemma update_network:
  assumes f: "\<And>url. prefix base_url url \<Longrightarrow> f url = f' url"
    and a: "\<And>m. fetch_manifest f (up_dec_manifest u) (up_verify u) (up_now u 1) = Inr m \<Longrightarrow> a (um_url m) = a' (um_url m)"
  shows "update current advance env (u\<lparr>up_fetch := f', up_artifacts := a'\<rparr>) check w =
     update current advance env (u\<lparr>up_fetch := f, up_artifacts := a\<rparr>) check w"
proof -
  let ?u = "u\<lparr>up_fetch := f, up_artifacts := a\<rparr>" and ?v = "u\<lparr>up_fetch := f', up_artifacts := a'\<rparr>"
  have e: "examine ?v = examine ?u" using f by (rule examine_network)
  have d: "download_artifact ?v m = download_artifact ?u m" if "examine ?u mark = Inr (Available m)" for m mark
    using examine_available [OF that] a by (intro download_network) simp
  have same: "available_message ?v = available_message ?u" "delegate ?v = delegate ?u"
    by (intro ext; simp add: available_message_def delegate_def Let_def cong: if_cong)+
  have "self_update current advance env ?v check w = self_update current advance env ?u check w" for w
    unfolding self_update_def e same
    by (intro and_on_cong refl)
      (auto simp: lift_outcome_def d intro!: and_on_cong split: plan.split)
  then show ?thesis by (simp add: update_def route_def same split: install_source.split)
qed

lemma update_command_network:
  assumes f: "\<And>url. prefix base_url url \<Longrightarrow> f url = f' url"
    and a: "\<And>m. fetch_manifest f (up_dec_manifest (us_updater setup)) (up_verify (us_updater setup)) (up_now (us_updater setup) 1) = Inr m
        \<Longrightarrow> a (um_url m) = a' (um_url m)"
  shows "update_command lookup data_dir mf (with_network f' a' setup) check w =
     update_command lookup data_dir mf (with_network f a setup) check w"
proof -
  have swap: "(us_updater (with_network g b setup))\<lparr>up_target := t, up_binary := v, up_binary_version := bv\<rparr> =
      ((us_updater setup)\<lparr>up_target := t, up_binary := v, up_binary_version := bv\<rparr>)\<lparr>up_fetch := g, up_artifacts := b\<rparr>" for g b t v bv
    by (simp add: with_network_def)
  have sel: "up_target (us_updater (with_network g b setup)) = up_target (us_updater setup)"
    "us_executable (with_network g b setup) = us_executable setup" "us_mark_decode (with_network g b setup) = us_mark_decode setup"
    "us_mark_readable (with_network g b setup) = us_mark_readable setup" for g b
    by (simp_all add: with_network_def)
  have "new_updater (with_network g b setup) fc =
      map_sum id (\<lambda>(u, mark). (u\<lparr>up_fetch := g, up_artifacts := b\<rparr>, mark)) (new_updater setup fc)" for g b fc
    unfolding new_updater_def swap sel Let_def by (simp add: ok_or_def split: option.split sum.split)
  moreover have "up_dec_manifest u = up_dec_manifest (us_updater setup) \<and> up_verify u = up_verify (us_updater setup)
      \<and> up_now u = up_now (us_updater setup)" if "new_updater setup fc = Inr (u, mark)" for fc u mark
    using that by (auto simp: new_updater_def Let_def ok_or_Inr_iff split: option.splits)
  moreover have "update hw_serial file_advance mf (u\<lparr>up_fetch := f', up_artifacts := a'\<rparr>) check w =
      update hw_serial file_advance mf (u\<lparr>up_fetch := f, up_artifacts := a\<rparr>) check w"
    if "new_updater setup fc = Inr (u, mark)" for fc u mark w
    using calculation(2) [OF that] by (intro update_network) (simp_all add: f a)
  ultimately show ?thesis
    by (cases "new_updater setup (hw_file (wd_mark w))") (auto simp: update_command_def)
qed

lemma rules_command_network:
  assumes f: "\<And>url. prefix base_url url \<Longrightarrow> f url = f' url"
  shows "rules_sync_command lib (env\<lparr>se_fetch := f'\<rparr>) v check scratch files =
     rules_sync_command lib (env\<lparr>se_fetch := f\<rparr>) v check scratch files"
proof -
  have "f' rules_manifest_url = f rules_manifest_url" "f' rules_bundle_url = f rules_bundle_url"
    using f frozen_urls by (metis (full_types))+
  then have s: "sync_with advance lib (env\<lparr>se_fetch := f'\<rparr>) = sync_with advance lib (env\<lparr>se_fetch := f\<rparr>)" for advance
  proof (intro ext)
    have "se_no_sync (env\<lparr>se_fetch := g\<rparr>) = se_no_sync env" "se_fetch (env\<lparr>se_fetch := g\<rparr>) = g"
      "se_io (env\<lparr>se_fetch := g\<rparr>) = se_io env" "se_now (env\<lparr>se_fetch := g\<rparr>) = se_now env" for g by simp_all
    note sel = this
    show "sync_with advance lib (env\<lparr>se_fetch := f'\<rparr>) s = sync_with advance lib (env\<lparr>se_fetch := f\<rparr>) s" for s
      by (simp only: sync_with_def sel \<open>f' rules_manifest_url = f rules_manifest_url\<close> \<open>f' rules_bundle_url = f rules_bundle_url\<close>)
  qed
  have "se_no_sync (env\<lparr>se_fetch := g\<rparr>) = se_no_sync env" "se_mark_faults (env\<lparr>se_fetch := g\<rparr>) = se_mark_faults env" for g
    by simp_all
  then show ?thesis by (simp only: rules_sync_command_def sync_def s)
qed

text \<open>
  C40: The two commands that use the network learn from it only what the disclosure names: documents under
  \<open>https://updates.tokenhush.com\<close>, and for an update the artifact at the URL that a verified manifest
  names. With its switch set a command does the same whatever the network would answer, and leaves
  everything but its output alone.
\<close>

theorem egress_only_disclosed:
  assumes f: "\<And>url. prefix base_url url \<Longrightarrow> f url = f' url"
    and a: "\<And>m. fetch_manifest f (up_dec_manifest (us_updater setup)) (up_verify (us_updater setup)) (up_now (us_updater setup) 1) = Inr m
        \<Longrightarrow> a (um_url m) = a' (um_url m)"
  shows "update_command lookup data_dir mf (with_network f' a' setup) check w =
      update_command lookup data_dir mf (with_network f a setup) check w
    \<and> rules_sync_command lib (env\<lparr>se_fetch := f'\<rparr>) v check scratch files =
      rules_sync_command lib (env\<lparr>se_fetch := f\<rparr>) v check scratch files
    \<and> (\<exists>line. update_command (lookup(''TOKENHUSH_NO_UPDATE_CHECK'' := Some ''1'')) data_dir mf (with_network g b setup) check w =
        (Some (Inr None), w\<lparr>wd_out := wd_out w @ [line]\<rparr>))
    \<and> rules_sync_command lib (env\<lparr>se_no_sync := Some ''1'', se_fetch := g\<rparr>) v check scratch files = (Inr None, files)"
proof (intro conjI)
  show "\<exists>line. update_command (lookup(''TOKENHUSH_NO_UPDATE_CHECK'' := Some ''1'')) data_dir mf (with_network g b setup) check w =
      (Some (Inr None), w\<lparr>wd_out := wd_out w @ [line]\<rparr>)"
    by (intro exI [of _ "''update: TOKENHUSH_NO_UPDATE_CHECK=1 is set; no request was sent.''"])
      (simp add: update_command_def egress_disabled_def lift_outcome_def)
  show "rules_sync_command lib (env\<lparr>se_no_sync := Some ''1'', se_fetch := g\<rparr>) v check scratch files = (Inr None, files)"
    by (simp add: rules_sync_command_def)
  show "update_command lookup data_dir mf (with_network f' a' setup) check w =
      update_command lookup data_dir mf (with_network f a setup) check w"
    by (rule update_command_network) (simp_all add: f a)
  show "rules_sync_command lib (env\<lparr>se_fetch := f'\<rparr>) v check scratch files =
      rules_sync_command lib (env\<lparr>se_fetch := f\<rparr>) v check scratch files"
    by (rule rules_command_network) (simp add: f)
qed

definition sample_setup :: update_setup where
  "sample_setup =
     \<lparr>us_updater = sample_updater, us_executable = None, us_mark_decode = \<lambda>_. Some 3, us_mark_readable = True\<rparr>"

text \<open>Nothing is asked of a URL elsewhere: a fetcher that fails there gives the same run.\<close>

definition only_vendor :: fetcher where
  "only_vendor url = (if prefix base_url url then Inr ''{}'' else Inl ErrFetch)"

lemma egress_only_disclosed_witness:
  "update_command (\<lambda>_. None) True (\<lambda>_. False) (with_network only_vendor (\<lambda>_. Inr ''v2'') sample_setup) True sample_world =
   update_command (\<lambda>_. None) True (\<lambda>_. False) (with_network (\<lambda>_. Inr ''{}'') (\<lambda>_. Inr ''v2'') sample_setup) True sample_world"
proof -
  have "\<And>url. prefix base_url url \<Longrightarrow> (\<lambda>_. Inr ''{}'') url = only_vendor url" by (simp add: only_vendor_def)
  with egress_only_disclosed [where f = "\<lambda>_. Inr ''{}''" and f' = only_vendor and a = "\<lambda>_. Inr ''v2''" and a' = "\<lambda>_. Inr ''v2''"]
  show ?thesis by blast
qed

text \<open>
  The artifact itself may come from any host: the URL of a verified manifest must be absolute \<open>https\<close> and
  nothing more, so the download can leave the one host that the disclosure and the documents name.
\<close>

lemma artifact_from_any_host:
  assumes "host \<noteq> []"
  shows "download_artifact (sample_updater\<lparr>up_parse_url := \<lambda>_. Some (''https'', host),
      up_artifacts := \<lambda>url. if url = um_url release_manifest then Inr ''v2'' else Inl ErrFetch\<rparr>) release_manifest = Inr ''v2''"
proof -
  have "hex_decode (trim_space ''00'') = Some [CHR 0x00]" by code_simp
  with assms show ?thesis
    by (simp add: download_artifact_def check_artifact_url_def check_bundle_digest_def require_def max_artifact_bytes_def
        sample_updater_def release_manifest_def sample_manifest_def)
qed

end
