(* ===== verification/Paths.thy ===== *)
theory Paths
  imports Prelude
begin

text \<open>
  \<open>pkg/platform/paths.go\<close>: the configuration and the data directory of each operating system, and the
  override that may not lie where the running executable does. The Unix side of \<open>path/filepath\<close> is
  modelled as far as the package uses it; the environment is an argument.
\<close>

section \<open>Paths\<close>

text \<open>\<open>filepath.Clean\<close> on the elements of a path; a leading \<open>..\<close> stays in a relative path only.\<close>

fun clean_elements :: "bool \<Rightarrow> bytes list \<Rightarrow> bytes list \<Rightarrow> bytes list" where
  "clean_elements rooted kept [] = rev kept"
| "clean_elements rooted kept (e # es) =
     (if e = [] \<or> e = ''.'' then clean_elements rooted kept es
      else if e = ''..'' then
        (case kept of
           k # ks \<Rightarrow> if k = ''..'' then clean_elements rooted (e # kept) es else clean_elements rooted ks es
         | [] \<Rightarrow> if rooted then clean_elements rooted [] es else clean_elements rooted [e] es)
      else clean_elements rooted (e # kept) es)"

definition root_path :: "bytes list \<Rightarrow> bytes" where
  "root_path es = ''/'' @ join_with ''/'' es"

definition clean_path :: "bytes \<Rightarrow> bytes" where
  "clean_path p =
     (let rooted = prefix ''/'' p; es = clean_elements rooted [] (split_on CHR ''/'' p)
      in if rooted then root_path es else if es = [] then ''.'' else join_with ''/'' es)"

text \<open>\<open>filepath.Join\<close> leaves out empty elements.\<close>

definition join_path :: "bytes list \<Rightarrow> bytes" where
  "join_path ps =
     (let ps = filter (\<lambda>p. p \<noteq> []) ps in if ps = [] then [] else clean_path (join_with ''/'' ps))"

text \<open>\<open>filepath.Dir\<close>: everything up to the last separator, cleaned.\<close>

definition file_dir :: "bytes \<Rightarrow> bytes" where
  "file_dir p = clean_path (rev (dropWhile (\<lambda>c. c \<noteq> CHR ''/'') (rev p)))"

section \<open>The directories\<close>

datatype path_error = HomeInsideExecutable | NoHomeDirectory | NoExecutable | NoWorkingDirectory | UnsupportedSystem

record path_env =
  pe_goos :: bytes
  pe_home :: "bytes option"
  pe_env :: "bytes \<Rightarrow> bytes option"
  pe_executable :: "bytes option"
  pe_cwd :: "bytes option"

definition xdg_base :: "bytes \<Rightarrow> (bytes \<Rightarrow> bytes option) \<Rightarrow> bytes \<Rightarrow> bytes \<Rightarrow> bytes" where
  "xdg_base home lookup env fallback =
     (case lookup env of
        Some v \<Rightarrow> if v \<noteq> [] then v else join_path [home, fallback]
      | None \<Rightarrow> join_path [home, fallback])"

definition app_data_base :: "bytes \<Rightarrow> (bytes \<Rightarrow> bytes option) \<Rightarrow> bytes" where
  "app_data_base home lookup =
     (case lookup ''APPDATA'' of
        Some v \<Rightarrow> if v \<noteq> [] then v else join_path [home, ''AppData'', ''Roaming'']
      | None \<Rightarrow> join_path [home, ''AppData'', ''Roaming''])"

definition local_app_data_base :: "bytes \<Rightarrow> (bytes \<Rightarrow> bytes option) \<Rightarrow> bytes" where
  "local_app_data_base home lookup =
     (case lookup ''LOCALAPPDATA'' of
        Some v \<Rightarrow> if v \<noteq> [] then v else join_path [home, ''AppData'', ''Local'']
      | None \<Rightarrow> join_path [home, ''AppData'', ''Local''])"

definition resolve_dirs :: "bytes \<Rightarrow> bytes \<Rightarrow> (bytes \<Rightarrow> bytes option) \<Rightarrow> (path_error, bytes \<times> bytes) result" where
  "resolve_dirs goos home lookup =
     (if goos = ''linux'' then
        Inr (join_path [xdg_base home lookup ''XDG_CONFIG_HOME'' ''.config'', ''tokenhush''],
             join_path [xdg_base home lookup ''XDG_DATA_HOME'' (join_path [''.local'', ''share'']), ''tokenhush''])
      else if goos = ''darwin'' then
        (let base = join_path [home, ''Library'', ''Application Support'', ''tokenhush'']
         in Inr (join_path [base, ''config''], join_path [base, ''Data'']))
      else if goos = ''windows'' then
        Inr (join_path [app_data_base home lookup, ''tokenhush''], join_path [local_app_data_base home lookup, ''tokenhush''])
      else Inl UnsupportedSystem)"

text \<open>\<open>filepath.Abs\<close> needs the working directory for a relative path only.\<close>

definition abs_path :: "path_env \<Rightarrow> bytes \<Rightarrow> bytes option" where
  "abs_path env p =
     (if prefix ''/'' p then Some (clean_path p) else map_option (\<lambda>d. join_path [d, p]) (pe_cwd env))"

definition reject_executable_home :: "path_env \<Rightarrow> bytes \<Rightarrow> path_error option" where
  "reject_executable_home env home =
     (case pe_executable env of
        None \<Rightarrow> Some NoExecutable
      | Some exe \<Rightarrow>
          (case abs_path env home of
             None \<Rightarrow> Some NoWorkingDirectory
           | Some h \<Rightarrow> if h = file_dir exe \<or> prefix (file_dir exe @ ''/'') h then Some HomeInsideExecutable else None))"

definition platform_dirs :: "path_env \<Rightarrow> (path_error, bytes \<times> bytes) result" where
  "platform_dirs env =
     (case pe_env env ''TOKENHUSH_HOME'' of
        Some override \<Rightarrow>
          if override \<noteq> [] then
            (case reject_executable_home env override of
               Some e \<Rightarrow> Inl e
             | None \<Rightarrow> Inr (join_path [override, ''config''], join_path [override, ''data'']))
          else (case pe_home env of None \<Rightarrow> Inl NoHomeDirectory | Some home \<Rightarrow> resolve_dirs (pe_goos env) home (pe_env env))
      | None \<Rightarrow> (case pe_home env of None \<Rightarrow> Inl NoHomeDirectory | Some home \<Rightarrow> resolve_dirs (pe_goos env) home (pe_env env)))"

definition config_dir :: "path_env \<Rightarrow> (path_error, bytes) result" where
  "config_dir env = map_sum id fst (platform_dirs env)"

definition data_dir :: "path_env \<Rightarrow> (path_error, bytes) result" where
  "data_dir env = map_sum id snd (platform_dirs env)"

section \<open>The override stays away from the executable\<close>

lemma root_path_below:
  "root_path (es @ fs) = root_path es \<or> prefix (root_path es @ ''/'') (root_path (es @ fs))" if "es \<noteq> []"
  using that join_with_append [of es fs "''/''"] by (cases "fs = []") (simp_all add: root_path_def)

lemma rooted_file_dir: "prefix ''/'' p \<Longrightarrow> \<exists>es. file_dir p = root_path es"
proof -
  assume "prefix ''/'' p"
  then obtain q where p: "p = CHR ''/'' # q" by (cases p) auto
  have "rev (dropWhile (\<lambda>c. c \<noteq> CHR ''/'') (rev q @ [CHR ''/''])) = CHR ''/'' # rev (dropWhile (\<lambda>c. c \<noteq> CHR ''/'') (rev q))
      \<or> rev (dropWhile (\<lambda>c. c \<noteq> CHR ''/'') (rev q @ [CHR ''/''])) = ''/''"
    by (cases "\<exists>c \<in> set (rev q). c = CHR ''/''") (auto simp: dropWhile_append1 dropWhile_append3)
  then show ?thesis unfolding file_dir_def p by (auto simp: clean_path_def Let_def)
qed

text \<open>
  With an override both directories lie in it, and made absolute it is neither the directory of the
  executable nor below it, unless that directory is the root.
\<close>

theorem home_outside_executable:
  assumes "platform_dirs env = Inr (config, data)" "pe_env env ''TOKENHUSH_HOME'' = Some home" "home \<noteq> []"
    and "pe_executable env = Some exe" "file_dir exe = root_path es" "es \<noteq> []"
  shows "config = join_path [home, ''config''] \<and> data = join_path [home, ''data'']
    \<and> (\<exists>h. abs_path env home = Some h \<and> (\<forall>fs. h \<noteq> root_path (es @ fs)))"
proof -
  have none: "reject_executable_home env home = None"
    and dirs: "config = join_path [home, ''config'']" "data = join_path [home, ''data'']"
    using assms(1-3) by (auto simp: platform_dirs_def split: option.splits)
  obtain h where h: "abs_path env home = Some h" "h \<noteq> root_path es" "\<not> prefix (root_path es @ ''/'') h"
    using none assms(4,5) by (auto simp: reject_executable_home_def split: option.splits if_splits)
  then have "h \<noteq> root_path (es @ fs)" for fs using root_path_below [OF assms(6), of fs] by auto
  with dirs h(1) show ?thesis by blast
qed

definition sample_paths :: "bytes \<Rightarrow> bytes \<Rightarrow> path_env" where
  "sample_paths exe home =
     \<lparr>pe_goos = ''linux'', pe_home = Some ''/home/u'', pe_env = (\<lambda>_. None)(''TOKENHUSH_HOME'' := Some home),
      pe_executable = Some exe, pe_cwd = Some ''/work''\<rparr>"

lemma home_outside_executable_witness:
  "\<exists>h. abs_path (sample_paths ''/opt/th/bin/tokenhush'' ''../srv//th/'') ''../srv//th/'' = Some h
     \<and> h = ''/srv/th'' \<and> (\<forall>fs. h \<noteq> root_path ([''opt'', ''th'', ''bin''] @ fs))"
proof -
  have "platform_dirs (sample_paths ''/opt/th/bin/tokenhush'' ''../srv//th/'') = Inr (''../srv/th/config'', ''../srv/th/data'')"
    "file_dir ''/opt/th/bin/tokenhush'' = root_path [''opt'', ''th'', ''bin'']"
    "abs_path (sample_paths ''/opt/th/bin/tokenhush'' ''../srv//th/'') ''../srv//th/'' = Some ''/srv/th''" by code_simp+
  with home_outside_executable [OF this(1) _ _ _ this(2)] show ?thesis by (simp add: sample_paths_def)
qed

text \<open>
  An executable in the root directory, as in an image built from scratch, guards nothing but the root
  itself: every other home is accepted although it lies inside the directory of the executable. A home
  directory of the platform is never checked.
\<close>

lemma root_executable_guards_nothing:
  "platform_dirs (sample_paths ''/tokenhush'' ''/data'') = Inr (''/data/config'', ''/data/data'')"
  "file_dir ''/tokenhush'' = ''/''" "root_path [] = ''/''"
  by code_simp+

end
