(* ===== verification/Spec2Isabelle.thy ===== *)
theory Spec2Isabelle
  imports Streaming Layering Clients Egress Paths
begin

text \<open>
  Tokenhush is a local gateway between a developer's AI tools and the model providers. A client sends
  its request to a loopback port; the gateway finds secrets in the JSON strings of the body, replaces
  each by a placeholder \<open>__PII_<type>_<digest>__\<close>, forwards the rest untouched and puts the secrets back
  into the answer. Detection rules and the binary itself are updated from one signed origin. This
  library models the Go code of \<open>src/pkg\<close> and \<open>src/internal\<close> and proves what makes it correct.

  \<^bold>\<open>How the parts interact.\<close> \<open>run\<close> (Startup) repairs a half-finished update (Replace), reads the
  configuration (Config), builds the rule registry from the enabled detectors and the cached signed pack
  (Registry, Rules, Sync), draws the control token and serves a loopback listener. A request passes the
  host and origin check (Guard), then either the control surface (Guard) or the data plane (DataPlane),
  which walks the body (Walk) and asks the policy (Registry). What is admitted is routed (Routes),
  redacted (Gateway over Backfill, Placeholder and Spans) and sent by the forwarder (Forward); the answer
  is buffered, decoded, evaluated and restored (ResponsePath, Gateway) and committed once. Event streams
  are restored by the decoder and the reassembler (Sse, SseBackfill).

  \<^bold>\<open>Theories and sources.\<close>
  \<^item> Prelude: bytes as characters, results as sums with the error on the left, the Go string functions.
  \<^item> \<open>pkg/protocol\<close>: Utf8 and JsonString (string literals), JsonTok and JsonValid (the decoder's tokens and
    \<open>Valid\<close>), Spans (\<open>span.go\<close>, \<open>spelling.go\<close>), Walk (\<open>walk.go\<close>, \<open>identity.go\<close>), Sse (\<open>sse.go\<close>), Hold
    (\<open>backfill.go\<close>). Splice proves what raw spans, raw spellings and \<open>Apply\<close> achieve together.
  \<^item> \<open>pkg/redact\<close>: Grammar and Placeholder (\<open>placeholder.go\<close>, \<open>forward_writer.go\<close>), Backfill (\<open>backfill.go\<close>,
    \<open>exclusion.go\<close>, \<open>substitute.go\<close>), SseBackfill (\<open>sse_*.go\<close>); SseFlow proves the laws of the reassembler.
  \<^item> \<open>pkg/filter\<close>: Regex and Primitives (\<open>primitive_*.go\<close>), RuleDoc (\<open>schema.go\<close>, \<open>options*.go\<close>), Compile
    (\<open>builtin.go\<close>, \<open>floor.go\<close>, \<open>compile.go\<close>), Evaluate (\<open>evaluate.go\<close>, \<open>sensitive.go\<close>), Registry
    (\<open>registry.go\<close>, \<open>collect.go\<close>, \<open>policy.go\<close>); Detectors, Verdict and Agree hold their theorems.
  \<^item> \<open>pkg/supply\<close>: Supply (\<open>substrate.go\<close>), Payload (\<open>payload.go\<close>), Digest, HighWater (\<open>highwater.go\<close>), Replace
    (\<open>replace.go\<close>, \<open>recover.go\<close>), Revocation, KeyList, Source and Update (\<open>source.go\<close>, \<open>update.go\<close>), Rules
    (\<open>payload.go\<close>, \<open>manifest.go\<close>), Sync (\<open>rules_cache.go\<close>, \<open>rules*.go\<close>); Packs holds the theorems of the rules.
  \<^item> \<open>pkg/config\<close> and \<open>pkg/proxy\<close>: Config (\<open>config.go\<close>, \<open>listen.go\<close>), Routes (\<open>resolve.go\<close>), Http (what the
    gateway uses of \<open>net/http\<close>), Guard (\<open>guard.go\<close>, \<open>token.go\<close>, \<open>controlapi.go\<close>), DataPlane (\<open>dataplane*.go\<close>),
    Forward (\<open>forward*.go\<close>), Streaming (\<open>response_sse.go\<close>), ResponsePath (\<open>response_buffered.go\<close>, \<open>response_sse_buffered.go\<close>).
  \<^item> \<open>internal/cli\<close>: Gateway (\<open>cli.go\<close>, \<open>redact_request.go\<close>, \<open>response_writer.go\<close>, \<open>run.go\<close>), Rollback
    (\<open>rules.go\<close>, \<open>rules_rollback.go\<close>), Startup (\<open>run.go\<close>, \<open>run_flags.go\<close>, \<open>banner.go\<close>, \<open>pkg/proxy/runstate.go\<close>),
    Clients (\<open>env.go\<close>, \<open>status.go\<close>), Egress (\<open>privacy.go\<close>, \<open>update.go\<close>, the fetcher of \<open>pkg/supply/substrate.go\<close>).
    Traffic, SessionRun and Divergences hold the theorems about the assembled gateway.
  \<^item> \<open>pkg/platform\<close>: Paths; \<open>internal/layering\<close>: Layering.

  \<^bold>\<open>State and effects.\<close> A Go struct is a record and a method that changes it returns it changed. Errors are
  values of \<open>supply_error\<close>, \<open>walk_error\<close>, \<open>filter_error\<close>, \<open>config_error\<close> and the like, so every early return
  is a branch. Files are optional byte strings; a write names the step at which it fails (\<open>faults\<close>), and a
  crash is a sequence of file operations cut short (Replace). A plug-in call returns, panics or outruns
  its bound. Mutexes make an operation one step, and operations of different requests follow each other
  (\<open>session_run\<close>, \<open>sync_run\<close>, \<open>update_step\<close>). Serials are 64-bit words, offsets and lengths naturals or integers.

  \<^bold>\<open>Interfaces.\<close> Three Go interfaces are locales: \<open>token_matcher\<close> (the hold-back writer over a grammar,
  interpreted on the placeholder grammar), \<open>high_water\<close> (the anti-rollback mark, on the memory and the
  file store) and \<open>verifier\<close> (signature checks, on the embedded roots and on an installed key list).

  \<^bold>\<open>What the lemmas show.\<close> For the client's secrets: what leaves was cleared and redacted, a session
  never gives two secrets one placeholder, nothing is restored that was not minted, and splicing keeps
  the JSON. For streams: the result does not depend on chunk borders, nothing is lost or reordered, memory
  is bounded. For the policy: the verdict is the greatest action, and it fails closed. For the supply
  chain: only signed, fresh, newer documents take effect, every crash can be repaired, nothing moves back.
  For the commands: the startup order, what a check predicts, what a rollback restores, which address a
  client reaches and which answers of the network matter. A few theorems
  state behaviour that the comments or documents describe otherwise.

  \<^bold>\<open>Bounds and fuel.\<close> Loops are structural recursions or functions with a proved measure; two helpers carry
  a fuel equal to the length of their input, which is enough because every round removes a byte
  (\<open>unquote_fuel_enough\<close>; \<open>trim_fuel\<close> in Prelude). Limits of the code are constants of the model:
  \<open>max_nesting_depth\<close>, \<open>max_encoded_depth\<close>, \<open>holdback_limit\<close>, the document caps, the digest ladder.

  \<^bold>\<open>Parameters.\<close> SHA-256, Ed25519 and HMAC, the YAML and JSON struct decoders, \<open>url.Parse\<close>, the decompressors,
  \<open>strconv.Quote\<close>, user-written regular expressions, the clock, the random source, the transport and
  \<open>ServeMux\<close> where it answers itself are arguments of the definitions that use them.

  \<^bold>\<open>Not modelled.\<close> Flag parsing by package \<open>flag\<close>, the printed sentences of the commands, the HTTP client and
  server machinery, signals, running external commands, file permissions, data races within one
  request, paths of Windows, the code generator of the egress disclosure, the audit package (an interface and a sink that
  does nothing), the version command and the test-only packages.
\<close>

end
